(* ===== verification/Prelude.thy ===== *)
theory Prelude
  imports Main "HOL-Library.Word" "HOL-Library.AList"
begin

text \<open>
  Shared vocabulary of the development: the machine integers of the Rust sources, big-endian
  encoding (\<open>to_be_bytes\<close>, \<open>from_be_bytes\<close>), byte-slice reads and in-place slice writes,
  \<open>u16::try_from\<close>, the part of \<open>std::collections::HashMap\<close> the sources use (as an
  association list with distinct keys), and a generic locale for the invariants of a component
  that is driven by a sequence of events.
\<close>

unbundle bit_operations_syntax

section \<open>Machine integers and bytes\<close>

type_synonym u8 = "8 word"
type_synonym u16 = "16 word"
type_synonym u32 = "32 word"
type_synonym u64 = "64 word"
type_synonym bytes = "8 word list"

named_theorems wire_simps \<open>lengths and reads of encoded fields\<close>
named_theorems unat_bounds \<open>bounds of the machine integers as natural numbers\<close>

lemma unat_u8_bound [unat_bounds]: "unat (a :: u8) < 256"
  using unsigned_less [of a] by simp

lemma unat_u16_bound [unat_bounds]: "unat (a :: u16) < 65536"
  using unsigned_less [of a] by simp

lemma unat_u32_bound [unat_bounds]: "unat (a :: u32) < 4294967296"
  using unsigned_less [of a] by simp

subsection \<open>Big-endian encoding\<close>

definition from_be16 :: "u8 \<Rightarrow> u8 \<Rightarrow> u16" where
  "from_be16 a b = push_bit 8 (ucast a) OR ucast b"

definition to_be16 :: "u16 \<Rightarrow> bytes" where
  "to_be16 w = [ucast (drop_bit 8 w), ucast w]"

definition from_be32 :: "u8 \<Rightarrow> u8 \<Rightarrow> u8 \<Rightarrow> u8 \<Rightarrow> u32" where
  "from_be32 a b c d =
     push_bit 24 (ucast a) OR push_bit 16 (ucast b) OR push_bit 8 (ucast c) OR ucast d"

definition to_be32 :: "u32 \<Rightarrow> bytes" where
  "to_be32 w = [ucast (drop_bit 24 w), ucast (drop_bit 16 w), ucast (drop_bit 8 w), ucast w]"

lemma from_be16_to [simp]: "from_be16 (ucast (drop_bit 8 w)) (ucast w) = w"
  unfolding from_be16_def by (rule bit_word_eqI) (auto simp: bit_simps)

lemma from_be16_hi [simp]: "ucast (drop_bit 8 (from_be16 a b)) = a"
  unfolding from_be16_def by (rule bit_word_eqI) (auto simp: bit_simps dest: bit_imp_le_length)

lemma from_be16_lo [simp]: "ucast (from_be16 a b) = b"
  unfolding from_be16_def by (rule bit_word_eqI) (auto simp: bit_simps dest: bit_imp_le_length)

lemma from_be16_0_0 [simp]: "from_be16 0 0 = 0"
  by (simp add: from_be16_def)

lemma to_from_be16 [simp]: "to_be16 (from_be16 a b) = [a, b]"
  by (simp add: to_be16_def)

lemma to_from_be32 [simp]: "to_be32 (from_be32 a b c d) = [a, b, c, d]"
  unfolding from_be32_def to_be32_def
  by simp (intro conjI; rule bit_word_eqI; auto simp: bit_simps dest: bit_imp_le_length)

lemma from_be32_to [simp]:
  "from_be32 (ucast (drop_bit 24 w)) (ucast (drop_bit 16 w)) (ucast (drop_bit 8 w)) (ucast w) = w"
proof (rule bit_word_eqI)
  fix n assume "n < LENGTH(32)"
  then consider "n < 8" | "8 \<le> n" "n < 16" | "16 \<le> n" "n < 24" | "24 \<le> n" "n < 32"
    by force
  then show "bit (from_be32 (ucast (drop_bit 24 w)) (ucast (drop_bit 16 w))
      (ucast (drop_bit 8 w)) (ucast w)) n = bit w n"
    by cases (auto simp: from_be32_def bit_simps)
qed

lemma length_to_be16 [simp, wire_simps]: "length (to_be16 w) = 2"
  by (simp add: to_be16_def)

lemma length_to_be32 [simp, wire_simps]: "length (to_be32 w) = 4"
  by (simp add: to_be32_def)

lemma unat_from_be16: "unat (from_be16 a b) = 256 * unat a + unat b"
proof -
  have sum: "from_be16 a b = push_bit 8 (ucast a) + ucast b"
    unfolding from_be16_def
    by (rule disjunctive_add [symmetric]) (auto simp: bit_simps dest: bit_imp_le_length)
  have "unat a < 256" "unat b < 256"
    by (rule unat_u8_bound)+
  then show ?thesis
    by (simp add: sum push_bit_eq_mult unat_word_ariths unsigned_ucast_eq take_bit_eq_mod)
qed

lemma from_be16_inject [simp]: "from_be16 a b = from_be16 c d \<longleftrightarrow> a = c \<and> b = d"
  by (metis list.inject to_from_be16)

subsection \<open>Checked narrowing\<close>

text \<open>\<open>u16::try_from(n).ok()\<close> for a \<open>usize\<close> value.\<close>

definition u16_try_from :: "nat \<Rightarrow> u16 option" where
  "u16_try_from n = (if n < 65536 then Some (of_nat n) else None)"

lemma u16_try_from_Some:
  "u16_try_from n = Some w \<longleftrightarrow> n < 65536 \<and> w = of_nat n"
  by (auto simp: u16_try_from_def)

lemma unat_of_nat_u16: "n < 65536 \<Longrightarrow> unat (of_nat n :: u16) = n"
  by (simp add: unat_of_nat take_bit_nat_eq_self)

section \<open>Slices\<close>

text \<open>
  \<open>out[off..off + n].copy_from_slice(bs)\<close> with \<open>n = bs.len()\<close>. Every use in the sources
  writes inside the buffer; the lemmas below carry that bound.
\<close>

definition splice :: "nat \<Rightarrow> 'a list \<Rightarrow> 'a list \<Rightarrow> 'a list" where
  "splice off bs out = take off out @ bs @ drop (off + length bs) out"

lemma length_splice [simp, wire_simps]:
  "off + length bs \<le> length out \<Longrightarrow> length (splice off bs out) = length out"
  by (simp add: splice_def)

lemma nth_splice:
  assumes "off + length bs \<le> length out" and "i < length out"
  shows "splice off bs out ! i =
    (if off \<le> i \<and> i < off + length bs then bs ! (i - off) else out ! i)"
  using assms by (auto simp: splice_def nth_append min_def)

lemma nth_splice_other:
  assumes "off + length bs \<le> length out" "i < length out" "i < off \<or> off + length bs \<le> i"
  shows "splice off bs out ! i = out ! i"
  using assms by (auto simp: nth_splice)

lemma take_splice_before [simp]:
  "n \<le> off \<Longrightarrow> off \<le> length out \<Longrightarrow> take n (splice off bs out) = take n out"
  by (simp add: splice_def min_def)

lemma drop_splice_after [simp]:
  "off + length bs \<le> n \<Longrightarrow> off + length bs \<le> length out \<Longrightarrow>
   drop n (splice off bs out) = drop n out"
  by (simp add: splice_def min_def)

lemma take_splice_after:
  "off + length bs \<le> n \<Longrightarrow> n \<le> length out \<Longrightarrow>
   take n (splice off bs out) = splice off bs (take n out)"
  by (rule nth_equalityI) (simp_all add: nth_splice)

lemma take_drop_splice_same:
  "n = length bs \<Longrightarrow> i + n \<le> length xs \<Longrightarrow> take n (drop i (splice i bs xs)) = bs"
  by (simp add: splice_def)

lemma splice_same_idem:
  "length bs = length cs \<Longrightarrow> off + length bs \<le> length out \<Longrightarrow>
   splice off bs (splice off cs out) = splice off bs out"
  by (simp add: splice_def)

text \<open>\<open>buf.get(i)\<close> and \<open>buf.get(i..j)\<close>: checked reads.\<close>

definition slice_get :: "'a list \<Rightarrow> nat \<Rightarrow> 'a option" where
  "slice_get xs i = (if i < length xs then Some (xs ! i) else None)"

definition slice_range :: "'a list \<Rightarrow> nat \<Rightarrow> nat \<Rightarrow> 'a list option" where
  "slice_range xs i j = (if i \<le> j \<and> j \<le> length xs then Some (take (j - i) (drop i xs)) else None)"

section \<open>Hash maps\<close>

text \<open>
  \<open>HashMap<K, V>\<close> is an association list with distinct keys. The sources never rely on its
  iteration order, except where a theorem quantifies over it.
\<close>

type_synonym ('k, 'v) hashmap = "('k \<times> 'v) list"

definition hm_wf :: "('k, 'v) hashmap \<Rightarrow> bool" where
  "hm_wf m \<longleftrightarrow> distinct (map fst m)"

definition hm_get :: "('k, 'v) hashmap \<Rightarrow> 'k \<Rightarrow> 'v option" where
  "hm_get m k = map_of m k"

definition hm_insert :: "'k \<Rightarrow> 'v \<Rightarrow> ('k, 'v) hashmap \<Rightarrow> ('k, 'v) hashmap" where
  "hm_insert k v m = AList.update k v m"

definition hm_remove :: "'k \<Rightarrow> ('k, 'v) hashmap \<Rightarrow> ('k, 'v) hashmap" where
  "hm_remove k m = AList.delete k m"

definition hm_retain :: "('k \<Rightarrow> 'v \<Rightarrow> bool) \<Rightarrow> ('k, 'v) hashmap \<Rightarrow> ('k, 'v) hashmap" where
  "hm_retain P m = filter (\<lambda>(k, v). P k v) m"

definition hm_values :: "('k, 'v) hashmap \<Rightarrow> 'v list" where
  "hm_values m = map snd m"

definition hm_contains :: "('k, 'v) hashmap \<Rightarrow> 'k \<Rightarrow> bool" where
  "hm_contains m k = (hm_get m k \<noteq> None)"

lemma hm_wf_Nil [simp]: "hm_wf []"
  by (simp add: hm_wf_def)

lemma hm_wf_insert [simp]: "hm_wf m \<Longrightarrow> hm_wf (hm_insert k v m)"
  by (simp add: hm_wf_def hm_insert_def distinct_update)

lemma hm_wf_remove [simp]: "hm_wf m \<Longrightarrow> hm_wf (hm_remove k m)"
  by (simp add: hm_wf_def hm_remove_def distinct_delete)

lemma hm_wf_retain [simp]: "hm_wf m \<Longrightarrow> hm_wf (hm_retain P m)"
  by (induction m) (auto simp: hm_wf_def hm_retain_def)

lemma hm_get_Nil [simp]: "hm_get [] k = None"
  by (simp add: hm_get_def)

lemma hm_get_insert [simp]: "hm_get (hm_insert k v m) k' = (if k' = k then Some v else hm_get m k')"
  by (simp add: hm_get_def hm_insert_def update_conv)

lemma hm_get_remove [simp]: "hm_get (hm_remove k m) k' = (if k' = k then None else hm_get m k')"
  by (simp add: hm_get_def hm_remove_def delete_conv)

lemma hm_get_retain:
  "hm_wf m \<Longrightarrow> hm_get (hm_retain P m) k =
     (case hm_get m k of None \<Rightarrow> None | Some v \<Rightarrow> if P k v then Some v else None)"
proof (induction m)
  case Nil
  then show ?case by (simp add: hm_get_def hm_retain_def)
next
  case (Cons a m)
  obtain k' v' where a: "a = (k', v')" by (cases a)
  have "k' \<notin> fst ` set m" using Cons.prems a by (simp add: hm_wf_def)
  then have none: "map_of m k' = None" by (simp add: map_of_eq_None_iff)
  have wf: "hm_wf m" using Cons.prems by (simp add: hm_wf_def)
  show ?case using Cons.IH [OF wf] none a
    by (auto simp: hm_get_def hm_retain_def split: option.splits)
qed

lemma hm_get_iff_mem: "hm_wf m \<Longrightarrow> hm_get m k = Some v \<longleftrightarrow> (k, v) \<in> set m"
  by (simp add: hm_get_def hm_wf_def map_of_eq_Some_iff)

lemma hm_get_mem: "hm_get m k = Some v \<Longrightarrow> (k, v) \<in> set m"
  by (simp add: hm_get_def map_of_SomeD)

lemma set_hm_values: "hm_wf m \<Longrightarrow> set (hm_values m) = {v. \<exists>k. hm_get m k = Some v}"
  by (force simp: hm_values_def hm_get_iff_mem image_iff)

lemma hm_contains_iff: "hm_contains m k \<longleftrightarrow> (\<exists>v. hm_get m k = Some v)"
  by (auto simp: hm_contains_def)

section \<open>Event-driven components\<close>

text \<open>
  A component is an initial state, a step function over events and an invariant. A run folds
  the events; the invariant of every reachable state follows from preservation by one step.
\<close>

locale event_machine =
  fixes step :: "'s \<Rightarrow> 'e \<Rightarrow> 's"
    and admissible :: "'s \<Rightarrow> 'e \<Rightarrow> bool"
    and inv :: "'s \<Rightarrow> bool"
  assumes step_inv: "inv s \<Longrightarrow> admissible s e \<Longrightarrow> inv (step s e)"
begin

fun run_ok :: "'s \<Rightarrow> 'e list \<Rightarrow> bool" where
  "run_ok s [] = True"
| "run_ok s (e # es) = (admissible s e \<and> run_ok (step s e) es)"

lemma run_inv: "inv s \<Longrightarrow> run_ok s es \<Longrightarrow> inv (foldl step s es)"
  by (induction es arbitrary: s) (auto intro: step_inv)

lemma run_append_inv:
  "inv s \<Longrightarrow> run_ok s (es @ fs) \<Longrightarrow> inv (foldl step s es) \<and> run_ok (foldl step s es) fs"
  by (induction es arbitrary: s) (auto intro: step_inv)

end

section \<open>Selecting the most specific rule\<close>

text \<open>
  The rule engine and the name database choose among declared rules with the same loop: keep
  the first match, and replace it only by a later match of strictly greater specificity. The
  locale states the contract of one such loop by its two equations and derives what it selects.
\<close>

locale best_match =
  fixes ok :: "'r \<Rightarrow> bool"
    and key :: "'r \<Rightarrow> 'k :: linorder"
    and scan :: "'r option \<Rightarrow> 'r list \<Rightarrow> 'r option"
  assumes scan_Nil: "scan best [] = best"
    and scan_Cons: "scan best (r # rs) =
      scan (if ok r \<and> (case best of None \<Rightarrow> True | Some b \<Rightarrow> key b < key r)
            then Some r else best) rs"
begin

lemma scan_Some_mono: "\<exists>r'. scan (Some r) rs = Some r' \<and> key r \<le> key r'"
proof (induction rs arbitrary: r)
  case Nil
  then show ?case by (simp add: scan_Nil)
next
  case (Cons x rs)
  show ?case
  proof (cases "ok x \<and> key r < key x")
    case True
    with Cons.IH [of x] show ?thesis by (auto simp: scan_Cons intro: order_trans less_imp_le)
  next
    case False
    with Cons.IH [of r] show ?thesis by (auto simp: scan_Cons)
  qed
qed

lemma scan_None_iff: "scan None rs = None \<longleftrightarrow> (\<forall>r \<in> set rs. \<not> ok r)"
proof (induction rs)
  case Nil
  then show ?case by (simp add: scan_Nil)
next
  case (Cons x rs)
  then show ?case
    using scan_Some_mono [of x rs] by (auto simp: scan_Cons)
qed

lemma scan_from:
  "scan (Some b) rs = Some r \<Longrightarrow>
   (r = b \<and> (\<forall>x \<in> set rs. ok x \<longrightarrow> key x \<le> key b)) \<or>
   (\<exists>xs ys. rs = xs @ r # ys \<and> ok r \<and> key b < key r \<and>
      (\<forall>x \<in> set xs. ok x \<longrightarrow> key x < key r) \<and> (\<forall>x \<in> set ys. ok x \<longrightarrow> key x \<le> key r))"
proof (induction rs arbitrary: b)
  case Nil
  then show ?case by (simp add: scan_Nil)
next
  case (Cons x rs)
  show ?case
  proof (cases "ok x \<and> key b < key x")
    case True
    with Cons.prems have "scan (Some x) rs = Some r" by (simp add: scan_Cons)
    from Cons.IH [OF this] show ?thesis
    proof (elim disjE exE conjE)
      assume "r = x" "\<forall>y \<in> set rs. ok y \<longrightarrow> key y \<le> key x"
      with True show ?thesis by (intro disjI2 exI [of _ "[]"] exI [of _ rs]) auto
    next
      fix xs ys
      assume *: "rs = xs @ r # ys" "ok r" "key x < key r"
        "\<forall>y \<in> set xs. ok y \<longrightarrow> key y < key r" "\<forall>y \<in> set ys. ok y \<longrightarrow> key y \<le> key r"
      with True show ?thesis
        by (intro disjI2 exI [of _ "x # xs"] exI [of _ ys]) auto
    qed
  next
    case False
    with Cons.prems have "scan (Some b) rs = Some r" by (auto simp: scan_Cons)
    from Cons.IH [OF this] show ?thesis
    proof (elim disjE exE conjE)
      assume "r = b" "\<forall>y \<in> set rs. ok y \<longrightarrow> key y \<le> key b"
      with False show ?thesis by auto
    next
      fix xs ys
      assume *: "rs = xs @ r # ys" "ok r" "key b < key r"
        "\<forall>y \<in> set xs. ok y \<longrightarrow> key y < key r" "\<forall>y \<in> set ys. ok y \<longrightarrow> key y \<le> key r"
      with False show ?thesis
        by (intro disjI2 exI [of _ "x # xs"] exI [of _ ys]) auto
    qed
  qed
qed

text \<open>
  The selected rule matches, every earlier match is strictly less specific, and no later match
  is more specific.
\<close>

lemma scan_selects:
  assumes "scan None rs = Some r"
  shows "\<exists>xs ys. rs = xs @ r # ys \<and> ok r \<and>
    (\<forall>x \<in> set xs. ok x \<longrightarrow> key x < key r) \<and> (\<forall>x \<in> set ys. ok x \<longrightarrow> key x \<le> key r)"
  using assms
proof (induction rs)
  case Nil
  then show ?case by (simp add: scan_Nil)
next
  case (Cons x rs)
  show ?case
  proof (cases "ok x")
    case True
    with Cons.prems have "scan (Some x) rs = Some r" by (simp add: scan_Cons)
    from scan_from [OF this] show ?thesis
    proof (elim disjE exE conjE)
      assume "r = x" "\<forall>y \<in> set rs. ok y \<longrightarrow> key y \<le> key x"
      with True show ?thesis by (intro exI [of _ "[]"] exI [of _ rs]) auto
    next
      fix xs ys
      assume "rs = xs @ r # ys" "ok r" "key x < key r"
        "\<forall>y \<in> set xs. ok y \<longrightarrow> key y < key r" "\<forall>y \<in> set ys. ok y \<longrightarrow> key y \<le> key r"
      then show ?thesis by (intro exI [of _ "x # xs"] exI [of _ ys]) auto
    qed
  next
    case False
    with Cons.prems have "scan None rs = Some r" by (simp add: scan_Cons)
    from Cons.IH [OF this] obtain xs ys where
      "rs = xs @ r # ys" "ok r" "\<forall>y \<in> set xs. ok y \<longrightarrow> key y < key r"
      "\<forall>y \<in> set ys. ok y \<longrightarrow> key y \<le> key r" by blast
    with False show ?thesis by (intro exI [of _ "x # xs"] exI [of _ ys]) auto
  qed
qed

lemma scan_Some_ok: "scan None rs = Some r \<Longrightarrow> r \<in> set rs \<and> ok r"
  using scan_selects by fastforce

lemma scan_maximal: "scan None rs = Some r \<Longrightarrow> x \<in> set rs \<Longrightarrow> ok x \<Longrightarrow> key x \<le> key r"
  using scan_selects by (fastforce intro: less_imp_le)

end

end
