(* ===== verification/Frame.thy ===== *)
theory Frame
  imports Prelude
begin

text \<open>
  Ethernet, ARP, IPv4, UDP, TCP and ICMP frame views and builders (\<open>src/net/frame.rs\<close>).
  A view wraps a byte buffer that its \<open>parse\<close> has validated; the accessors read fixed
  offsets. A builder returns the encoded bytes with every checksum computed, or \<open>None\<close> when
  the payload does not fit a 16-bit length field.
\<close>

section \<open>Addresses\<close>

datatype MacAddr = MacAddr u8 u8 u8 u8 u8 u8

datatype Ipv4Addr = Ipv4Addr u8 u8 u8 u8

fun mac_octets :: "MacAddr \<Rightarrow> bytes" where
  "mac_octets (MacAddr a b c d e f) = [a, b, c, d, e, f]"

fun octets :: "Ipv4Addr \<Rightarrow> bytes" where
  "octets (Ipv4Addr a b c d) = [a, b, c, d]"

text \<open>\<open>Ipv4Addr\<close> of the standard library: \<open>u32::from\<close> and the constants and tests used.\<close>

fun ip_u32 :: "Ipv4Addr \<Rightarrow> u32" where
  "ip_u32 (Ipv4Addr a b c d) = from_be32 a b c d"

definition ip_of_u32 :: "u32 \<Rightarrow> Ipv4Addr" where
  "ip_of_u32 w = Ipv4Addr (ucast (drop_bit 24 w)) (ucast (drop_bit 16 w))
     (ucast (drop_bit 8 w)) (ucast w)"

definition UNSPECIFIED :: Ipv4Addr where
  "UNSPECIFIED = Ipv4Addr 0 0 0 0"

definition BROADCAST :: Ipv4Addr where
  "BROADCAST = Ipv4Addr 255 255 255 255"

definition LOCALHOST :: Ipv4Addr where
  "LOCALHOST = Ipv4Addr 127 0 0 1"

fun is_loopback :: "Ipv4Addr \<Rightarrow> bool" where
  "is_loopback (Ipv4Addr a b c d) = (a = 127)"

lemma length_mac_octets [simp, wire_simps]: "length (mac_octets m) = 6"
  by (cases m) simp

lemma length_octets [simp, wire_simps]: "length (octets a) = 4"
  by (cases a) simp

lemma ip_of_u32_inverse [simp]: "ip_of_u32 (ip_u32 a) = a"
  using to_from_be32 by (cases a) (auto simp: ip_of_u32_def to_be32_def)

lemma ip_u32_inverse [simp]: "ip_u32 (ip_of_u32 w) = w"
  by (simp add: ip_of_u32_def)

lemma ip_u32_inject [simp]: "ip_u32 a = ip_u32 b \<longleftrightarrow> a = b"
  by (metis ip_of_u32_inverse)

text \<open>The derived order on addresses is the numeric one.\<close>

instantiation Ipv4Addr :: linorder
begin

definition less_eq_Ipv4Addr :: "Ipv4Addr \<Rightarrow> Ipv4Addr \<Rightarrow> bool" where
  "a \<le> b \<longleftrightarrow> ip_u32 a \<le> ip_u32 b"

definition less_Ipv4Addr :: "Ipv4Addr \<Rightarrow> Ipv4Addr \<Rightarrow> bool" where
  "a < b \<longleftrightarrow> ip_u32 a < ip_u32 b"

instance
  by standard (auto simp: less_eq_Ipv4Addr_def less_Ipv4Addr_def order_less_le)

end

section \<open>Constants\<close>

definition ETHERTYPE_IPV4 :: u16 where "ETHERTYPE_IPV4 = 0x0800"
definition ETHERTYPE_ARP :: u16 where "ETHERTYPE_ARP = 0x0806"
definition IPPROTO_ICMP :: u8 where "IPPROTO_ICMP = 1"
definition IPPROTO_TCP :: u8 where "IPPROTO_TCP = 6"
definition IPPROTO_UDP :: u8 where "IPPROTO_UDP = 17"
definition ETH_HEADER_LEN :: nat where "ETH_HEADER_LEN = 14"
definition MAC_BROADCAST :: MacAddr where "MAC_BROADCAST = MacAddr 255 255 255 255 255 255"
definition TCP_FIN :: u8 where "TCP_FIN = 0x01"
definition TCP_SYN :: u8 where "TCP_SYN = 0x02"
definition TCP_RST :: u8 where "TCP_RST = 0x04"
definition TCP_PSH :: u8 where "TCP_PSH = 0x08"
definition TCP_ACK :: u8 where "TCP_ACK = 0x10"
definition TCP_URG :: u8 where "TCP_URG = 0x20"

lemmas frame_const_defs = ETHERTYPE_IPV4_def ETHERTYPE_ARP_def IPPROTO_ICMP_def IPPROTO_TCP_def
  IPPROTO_UDP_def ETH_HEADER_LEN_def MAC_BROADCAST_def TCP_FIN_def TCP_SYN_def TCP_RST_def
  TCP_PSH_def TCP_ACK_def TCP_URG_def

section \<open>Reads at fixed offsets\<close>

definition u16_at :: "bytes \<Rightarrow> nat \<Rightarrow> u16" where
  "u16_at buf off = from_be16 (buf ! off) (buf ! (off + 1))"

definition u32_at :: "bytes \<Rightarrow> nat \<Rightarrow> u32" where
  "u32_at buf off = from_be32 (buf ! off) (buf ! (off + 1)) (buf ! (off + 2)) (buf ! (off + 3))"

definition mac_at :: "bytes \<Rightarrow> nat \<Rightarrow> MacAddr" where
  "mac_at buf off = MacAddr (buf ! off) (buf ! (off + 1)) (buf ! (off + 2))
     (buf ! (off + 3)) (buf ! (off + 4)) (buf ! (off + 5))"

definition ipv4_at :: "bytes \<Rightarrow> nat \<Rightarrow> Ipv4Addr" where
  "ipv4_at buf off = Ipv4Addr (buf ! off) (buf ! (off + 1)) (buf ! (off + 2)) (buf ! (off + 3))"

section \<open>The internet checksum\<close>

fun sum_words :: "u32 \<Rightarrow> bytes \<Rightarrow> u32" where
  "sum_words s (a # b # rest) = sum_words (s + ucast (from_be16 a b)) rest"
| "sum_words s [b] = s + ucast (from_be16 b 0)"
| "sum_words s [] = s"

lemma unat_and_ffff: "unat ((s :: u32) AND 0xFFFF) = unat s mod 65536"
proof -
  have "s AND 0xFFFF = take_bit 16 s" by (simp add: take_bit_eq_mask mask_numeral)
  also have "\<dots> = s mod 65536" by (simp add: take_bit_eq_mod)
  finally have "s AND 0xFFFF = s mod 65536" .
  then show ?thesis by (simp add: unat_mod_distrib)
qed

lemma unat_drop_16: "unat (drop_bit 16 (s :: u32)) = unat s div 65536"
  by (simp add: drop_bit_eq_div unat_div_distrib)

lemma unat_fold_step:
  "unat (((s :: u32) AND 0xFFFF) + drop_bit 16 s) = unat s mod 65536 + unat s div 65536"
proof -
  have "unat s div 65536 < 65536" using unat_u32_bound [of s] by simp
  moreover have "unat s mod 65536 < 65536" by simp
  ultimately have "unat s mod 65536 + unat s div 65536 < 4294967296" by linarith
  then show ?thesis by (simp add: unat_word_ariths unat_and_ffff unat_drop_16)
qed

function fold_carries :: "u32 \<Rightarrow> u32" where
  "fold_carries s = (if s > 0xFFFF then fold_carries ((s AND 0xFFFF) + drop_bit 16 s) else s)"
  by pat_completeness auto
termination
proof (relation "measure unat")
  fix s :: u32
  assume "s > 0xFFFF"
  then have "unat s > 65535" by (simp add: word_less_nat_alt)
  then have "1 \<le> unat s div 65536" by (simp add: Suc_le_eq)
  moreover have "unat s = 65536 * (unat s div 65536) + unat s mod 65536" by simp
  ultimately have "unat s mod 65536 + unat s div 65536 < unat s" by linarith
  then show "((s AND 0xFFFF) + drop_bit 16 s, s) \<in> measure unat"
    by (simp add: unat_fold_step)
qed simp

declare fold_carries.simps [simp del]

definition internet_checksum :: "bytes \<Rightarrow> u16" where
  "internet_checksum data = NOT (ucast (fold_carries (sum_words 0 data)))"

definition pseudo_header :: "Ipv4Addr \<Rightarrow> Ipv4Addr \<Rightarrow> u8 \<Rightarrow> u16 \<Rightarrow> bytes" where
  "pseudo_header src dst proto len = octets src @ octets dst @ [0, proto] @ to_be16 len"

definition l4_checksum :: "Ipv4Addr \<Rightarrow> Ipv4Addr \<Rightarrow> u8 \<Rightarrow> bytes \<Rightarrow> u16 option" where
  "l4_checksum src dst proto segment =
     (case u16_try_from (length segment) of
        None \<Rightarrow> None
      | Some len \<Rightarrow> Some (internet_checksum (pseudo_header src dst proto len @ segment)))"

subsection \<open>The checksum as a sum modulo 65535\<close>

fun wsum :: "bytes \<Rightarrow> nat" where
  "wsum (a # b # rest) = 256 * unat a + unat b + wsum rest"
| "wsum [a] = 256 * unat a"
| "wsum [] = 0"

lemma wsum_append_even: "even (length xs) \<Longrightarrow> wsum (xs @ ys) = wsum xs + wsum ys"
  by (induction xs rule: wsum.induct) auto

lemma wsum_bound: "wsum d \<le> 65535 * ((length d + 1) div 2)"
proof (induction d rule: wsum.induct)
  case (1 a b rest)
  have "unat a < 256" "unat b < 256" by (rule unat_u8_bound)+
  with 1 show ?case by simp
next
  case (2 a)
  have "unat a < 256" by (rule unat_u8_bound)
  then show ?case by simp
qed simp

lemma unat_ucast_be16: "unat (ucast (from_be16 a b) :: u32) = 256 * unat a + unat b"
  using unat_u16_bound [of "from_be16 a b"]
  by (simp add: unsigned_ucast_eq take_bit_nat_eq_self unat_from_be16)

lemma unat_sum_words:
  "unat s + wsum d < 4294967296 \<Longrightarrow> unat (sum_words s d) = unat s + wsum d"
proof (induction s d rule: sum_words.induct)
  case (1 s a b rest)
  have "unat (s + ucast (from_be16 a b)) = unat s + (256 * unat a + unat b)"
    using "1.prems" by (simp add: unat_word_ariths unat_ucast_be16)
  with 1 show ?case by simp
qed (auto simp: unat_word_ariths unat_ucast_be16)

lemma mod_65535_step: "(65536 :: nat) \<le> n \<Longrightarrow>
  (n mod 65536 + n div 65536 - 1) mod 65535 = (n - 1) mod 65535"
proof -
  assume n: "65536 \<le> n"
  define q r where "q = n div 65536" and "r = n mod 65536"
  have split: "n = 65536 * q + r" by (simp add: q_def r_def)
  have "q \<ge> 1" using n by (simp add: q_def)
  then have "n - 1 = (r + q - 1) + 65535 * q" using split by simp
  then show ?thesis by (simp add: q_def [symmetric] r_def [symmetric])
qed

lemma unat_fold_carries:
  "unat (fold_carries s) = (if unat s = 0 then 0 else (unat s - 1) mod 65535 + 1)"
proof (induction s rule: fold_carries.induct)
  case (1 s)
  show ?case
  proof (cases "s > 0xFFFF")
    case True
    then have big: "65536 \<le> unat s" by (simp add: word_less_nat_alt)
    let ?t = "(s AND 0xFFFF) + drop_bit 16 s"
    have "1 \<le> unat s div 65536" using big by (simp add: Suc_le_eq)
    then have "unat ?t \<noteq> 0" unfolding unat_fold_step by linarith
    with 1 True have "unat (fold_carries ?t) = (unat ?t - 1) mod 65535 + 1" by simp
    also have "\<dots> = (unat s - 1) mod 65535 + 1"
      using mod_65535_step [OF big] by (simp add: unat_fold_step)
    finally show ?thesis using True big by (simp add: fold_carries.simps [of s])
  next
    case False
    then have "unat s \<le> 65535" by (simp add: word_less_nat_alt not_less)
    then show ?thesis using False by (auto simp: fold_carries.simps [of s])
  qed
qed

definition folded :: "nat \<Rightarrow> nat" where
  "folded n = (if n = 0 then 0 else (n - 1) mod 65535 + 1)"

lemma folded_le: "folded n \<le> 65535"
  by (simp add: folded_def Suc_le_eq)

lemma unat_not_u16: "unat (NOT (x :: u16)) = 65535 - unat x"
proof -
  have "NOT x = - 1 - x" by (simp add: not_eq_complement)
  then have "unat (NOT x) = unat (- 1 - x)" by simp
  also have "\<dots> = unat (- 1 :: u16) - unat x" by (rule unat_sub) simp
  finally show ?thesis by (simp add: unsigned_minus_1_eq_mask mask_eq_exp_minus_1)
qed

lemma unat_internet_checksum:
  assumes "length d \<le> 131072"
  shows "unat (internet_checksum d) = 65535 - folded (wsum d)"
proof -
  have "wsum d \<le> 65535 * ((length d + 1) div 2)" by (rule wsum_bound)
  also have "\<dots> \<le> 65535 * 65536" using assms by simp
  finally have "unat (sum_words 0 d) = wsum d" using unat_sum_words [of 0 d] by simp
  then have f: "unat (fold_carries (sum_words 0 d)) = folded (wsum d)"
    by (simp add: unat_fold_carries folded_def)
  have "unat (ucast (fold_carries (sum_words 0 d)) :: u16) = folded (wsum d)"
    using f folded_le [of "wsum d"] by (simp add: unsigned_ucast_eq take_bit_nat_eq_self)
  then show ?thesis
    using unat_not_u16 by (simp add: internet_checksum_def)
qed


lemma folded_eq_max: "folded n = 65535 \<longleftrightarrow> 0 < n \<and> n mod 65535 = 0"
proof (cases n)
  case (Suc m)
  have "m mod 65535 = 65534 \<longleftrightarrow> Suc m mod 65535 = 0"
    by (auto simp: mod_Suc)
  with Suc show ?thesis by (simp add: folded_def)
qed (simp add: folded_def)

lemma checksum_zero_iff:
  assumes "length d \<le> 131072"
  shows "internet_checksum d = 0 \<longleftrightarrow> 0 < wsum d \<and> wsum d mod 65535 = 0"
proof -
  have "internet_checksum d = 0 \<longleftrightarrow> 65535 - folded (wsum d) = 0"
    using unat_internet_checksum [OF assms] by (metis unat_eq_zero)
  also have "\<dots> \<longleftrightarrow> folded (wsum d) = 65535" using folded_le [of "wsum d"] by arith
  finally show ?thesis by (simp add: folded_eq_max)
qed

lemma folded_complement: "0 < n + (65535 - folded n) \<and> (n + (65535 - folded n)) mod 65535 = 0"
proof (cases n)
  case (Suc m)
  define q r where "q = m div 65535" and "r = m mod 65535"
  have m: "m = 65535 * q + r" and r: "r < 65535" by (simp_all add: q_def r_def)
  have "n + (65535 - folded n) = 65535 * (q + 1)"
    using Suc m r by (simp add: folded_def r_def [symmetric])
  then show ?thesis by simp
qed (simp add: folded_def)

lemma wsum_to_be16: "wsum (to_be16 c) = unat c"
  using unat_from_be16 [of "ucast (drop_bit 8 c)" "ucast c"] by (simp add: to_be16_def)

lemma wsum_splice16:
  assumes "even off" and "off + 2 \<le> length d"
  shows "wsum (splice off (to_be16 c) d) + wsum (take 2 (drop off d)) = wsum d + unat c"
proof -
  have d: "d = take off d @ take 2 (drop off d) @ drop (off + 2) d"
    by (metis append_take_drop_id drop_drop add.commute)
  have "even (length (take off d))" "even (length (take 2 (drop off d)))"
    "even (length (to_be16 c))"
    using assms by (simp_all add: min_absorb2)
  then show ?thesis
    by (subst (3) d) (simp add: splice_def wsum_append_even wsum_to_be16)
qed

text \<open>
  Writing the checksum of a buffer into a zeroed, even-aligned 16-bit field of that buffer makes
  the whole buffer verify. RFC 768's replacement of a zero checksum by all ones keeps that.
\<close>

lemma checksum_insert:
  assumes "even off" "off + 2 \<le> length d" "take 2 (drop off d) = [0, 0]" "length d \<le> 131072"
    and c: "c = internet_checksum d \<or> internet_checksum d = 0 \<and> c = 0xFFFF"
  shows "internet_checksum (splice off (to_be16 c) d) = 0"
proof -
  have len: "length (splice off (to_be16 c) d) \<le> 131072" using assms by simp
  have sum: "wsum (splice off (to_be16 c) d) = wsum d + unat c"
    using wsum_splice16 [OF assms(1,2), of c] assms(3) by simp
  have "0 < wsum d + unat c \<and> (wsum d + unat c) mod 65535 = 0"
    using c
  proof
    assume "c = internet_checksum d"
    then show ?thesis
      using folded_complement [of "wsum d"] unat_internet_checksum [OF assms(4)] by simp
  next
    assume *: "internet_checksum d = 0 \<and> c = 0xFFFF"
    then have "0 < wsum d" "wsum d mod 65535 = 0"
      using checksum_zero_iff [OF assms(4)] by auto
    with * show ?thesis by (auto simp: mod_eq_0_iff_dvd)
  qed
  then show ?thesis by (simp add: checksum_zero_iff [OF len] sum)
qed

section \<open>Ethernet\<close>

datatype EthView = EthView (eth_buf: bytes)

definition EthView_parse :: "bytes \<Rightarrow> EthView option" where
  "EthView_parse buf = (if length buf \<ge> ETH_HEADER_LEN then Some (EthView buf) else None)"

definition EthView_dst_mac :: "EthView \<Rightarrow> MacAddr" where
  "EthView_dst_mac v = mac_at (eth_buf v) 0"

definition EthView_src_mac :: "EthView \<Rightarrow> MacAddr" where
  "EthView_src_mac v = mac_at (eth_buf v) 6"

definition EthView_ethertype :: "EthView \<Rightarrow> u16" where
  "EthView_ethertype v = u16_at (eth_buf v) 12"

definition EthView_payload :: "EthView \<Rightarrow> bytes" where
  "EthView_payload v = drop ETH_HEADER_LEN (eth_buf v)"

definition eth_build :: "MacAddr \<Rightarrow> MacAddr \<Rightarrow> u16 \<Rightarrow> bytes \<Rightarrow> bytes" where
  "eth_build dst src ethertype payload =
     mac_octets dst @ mac_octets src @ to_be16 ethertype @ payload"

section \<open>ARP\<close>

datatype ArpOp = Request | Reply

definition ARP_LEN :: nat where "ARP_LEN = 28"

datatype ArpView = ArpView (arp_buf: bytes)

definition ArpView_parse :: "bytes \<Rightarrow> ArpView option" where
  "ArpView_parse buf =
     (if length buf < ARP_LEN then None
      else if u16_at buf 0 \<noteq> 1 \<or> u16_at buf 2 \<noteq> ETHERTYPE_IPV4 \<or> buf ! 4 \<noteq> 6 \<or> buf ! 5 \<noteq> 4 then None
      else if \<not> (u16_at buf 6 = 1 \<or> u16_at buf 6 = 2) then None
      else Some (ArpView buf))"

definition ArpView_op :: "ArpView \<Rightarrow> ArpOp" where
  "ArpView_op v = (if u16_at (arp_buf v) 6 = 1 then Request else Reply)"

definition ArpView_sha :: "ArpView \<Rightarrow> MacAddr" where
  "ArpView_sha v = mac_at (arp_buf v) 8"

definition ArpView_spa :: "ArpView \<Rightarrow> Ipv4Addr" where
  "ArpView_spa v = ipv4_at (arp_buf v) 14"

definition ArpView_tha :: "ArpView \<Rightarrow> MacAddr" where
  "ArpView_tha v = mac_at (arp_buf v) 18"

definition ArpView_tpa :: "ArpView \<Rightarrow> Ipv4Addr" where
  "ArpView_tpa v = ipv4_at (arp_buf v) 24"

definition arp_build :: "u16 \<Rightarrow> MacAddr \<Rightarrow> Ipv4Addr \<Rightarrow> MacAddr \<Rightarrow> Ipv4Addr \<Rightarrow> bytes" where
  "arp_build op sha spa tha tpa =
     to_be16 1 @ to_be16 ETHERTYPE_IPV4 @ [6] @ [4] @ to_be16 op @ mac_octets sha @ octets spa @
     mac_octets tha @ octets tpa"

definition arp_request_build :: "MacAddr \<Rightarrow> Ipv4Addr \<Rightarrow> Ipv4Addr \<Rightarrow> bytes" where
  "arp_request_build sha spa tpa =
     (let arp = arp_build 1 sha spa (MacAddr 0 0 0 0 0 0) tpa
      in eth_build MAC_BROADCAST sha ETHERTYPE_ARP arp)"

definition arp_reply_build :: "MacAddr \<Rightarrow> Ipv4Addr \<Rightarrow> MacAddr \<Rightarrow> Ipv4Addr \<Rightarrow> bytes" where
  "arp_reply_build sha spa tha tpa =
     (let arp = arp_build 2 sha spa tha tpa
      in eth_build tha sha ETHERTYPE_ARP arp)"

section \<open>IPv4\<close>

definition IPV4_MIN_HEADER_LEN :: nat where "IPV4_MIN_HEADER_LEN = 20"

datatype Ipv4View = Ipv4View (ip_buf: bytes)

definition Ipv4View_parse :: "bytes \<Rightarrow> Ipv4View option" where
  "Ipv4View_parse buf =
     (if length buf < IPV4_MIN_HEADER_LEN then None
      else if drop_bit 4 (buf ! 0) \<noteq> 4 then None
      else let header_len = unat (buf ! 0 AND 0x0F) * 4 in
        if header_len < IPV4_MIN_HEADER_LEN \<or> header_len > length buf then None
        else let total_len = unat (u16_at buf 2) in
          if total_len < header_len \<or> total_len > length buf then None
          else Some (Ipv4View buf))"

definition Ipv4View_version :: "Ipv4View \<Rightarrow> u8" where
  "Ipv4View_version v = drop_bit 4 (ip_buf v ! 0)"

definition Ipv4View_ihl :: "Ipv4View \<Rightarrow> u8" where
  "Ipv4View_ihl v = ip_buf v ! 0 AND 0x0F"

definition Ipv4View_header_len :: "Ipv4View \<Rightarrow> nat" where
  "Ipv4View_header_len v = unat (Ipv4View_ihl v) * 4"

definition Ipv4View_total_len :: "Ipv4View \<Rightarrow> u16" where
  "Ipv4View_total_len v = u16_at (ip_buf v) 2"

definition Ipv4View_id :: "Ipv4View \<Rightarrow> u16" where
  "Ipv4View_id v = u16_at (ip_buf v) 4"

definition Ipv4View_flags :: "Ipv4View \<Rightarrow> u8" where
  "Ipv4View_flags v = drop_bit 5 (ip_buf v ! 6)"

definition Ipv4View_dont_fragment :: "Ipv4View \<Rightarrow> bool" where
  "Ipv4View_dont_fragment v \<longleftrightarrow> Ipv4View_flags v AND 0b010 \<noteq> 0"

definition Ipv4View_more_fragments :: "Ipv4View \<Rightarrow> bool" where
  "Ipv4View_more_fragments v \<longleftrightarrow> Ipv4View_flags v AND 0b001 \<noteq> 0"

definition Ipv4View_frag_offset :: "Ipv4View \<Rightarrow> u16" where
  "Ipv4View_frag_offset v = u16_at (ip_buf v) 6 AND 0x1FFF"

definition Ipv4View_ttl :: "Ipv4View \<Rightarrow> u8" where
  "Ipv4View_ttl v = ip_buf v ! 8"

definition Ipv4View_proto :: "Ipv4View \<Rightarrow> u8" where
  "Ipv4View_proto v = ip_buf v ! 9"

definition Ipv4View_header_checksum :: "Ipv4View \<Rightarrow> u16" where
  "Ipv4View_header_checksum v = u16_at (ip_buf v) 10"

definition Ipv4View_src :: "Ipv4View \<Rightarrow> Ipv4Addr" where
  "Ipv4View_src v = ipv4_at (ip_buf v) 12"

definition Ipv4View_dst :: "Ipv4View \<Rightarrow> Ipv4Addr" where
  "Ipv4View_dst v = ipv4_at (ip_buf v) 16"

definition Ipv4View_options :: "Ipv4View \<Rightarrow> bytes" where
  "Ipv4View_options v =
     take (Ipv4View_header_len v - IPV4_MIN_HEADER_LEN) (drop IPV4_MIN_HEADER_LEN (ip_buf v))"

definition Ipv4View_payload :: "Ipv4View \<Rightarrow> bytes" where
  "Ipv4View_payload v =
     take (unat (Ipv4View_total_len v) - Ipv4View_header_len v)
       (drop (Ipv4View_header_len v) (ip_buf v))"

definition Ipv4View_checksum_valid :: "Ipv4View \<Rightarrow> bool" where
  "Ipv4View_checksum_valid v \<longleftrightarrow>
     internet_checksum (take (Ipv4View_header_len v) (ip_buf v)) = 0"

definition ipv4_build ::
  "Ipv4Addr \<Rightarrow> Ipv4Addr \<Rightarrow> u8 \<Rightarrow> u8 \<Rightarrow> bytes \<Rightarrow> u16 \<Rightarrow> bytes option" where
  "ipv4_build src dst proto ttl payload ident =
     (case u16_try_from (IPV4_MIN_HEADER_LEN + length payload) of
        None \<Rightarrow> None
      | Some total_len \<Rightarrow>
          let p = [0x45] @ [0] @ to_be16 total_len @ to_be16 ident @ [0, 0] @ [ttl] @ [proto] @
                  [0, 0] @ octets src @ octets dst;
              csum = internet_checksum p;
              p = splice 10 (to_be16 csum) p
          in Some (p @ payload))"

section \<open>UDP\<close>

definition UDP_HEADER_LEN :: nat where "UDP_HEADER_LEN = 8"

datatype UdpView = UdpView (udp_buf: bytes)

definition UdpView_parse :: "bytes \<Rightarrow> UdpView option" where
  "UdpView_parse buf =
     (if length buf < UDP_HEADER_LEN then None
      else let len = unat (u16_at buf 4) in
        if len < UDP_HEADER_LEN \<or> len > length buf then None else Some (UdpView buf))"

definition UdpView_src_port :: "UdpView \<Rightarrow> u16" where
  "UdpView_src_port v = u16_at (udp_buf v) 0"

definition UdpView_dst_port :: "UdpView \<Rightarrow> u16" where
  "UdpView_dst_port v = u16_at (udp_buf v) 2"

definition UdpView_len :: "UdpView \<Rightarrow> u16" where
  "UdpView_len v = u16_at (udp_buf v) 4"

definition UdpView_is_empty :: "UdpView \<Rightarrow> bool" where
  "UdpView_is_empty v \<longleftrightarrow> unat (UdpView_len v) = UDP_HEADER_LEN"

definition UdpView_checksum :: "UdpView \<Rightarrow> u16" where
  "UdpView_checksum v = u16_at (udp_buf v) 6"

definition UdpView_payload :: "UdpView \<Rightarrow> bytes" where
  "UdpView_payload v =
     take (unat (UdpView_len v) - UDP_HEADER_LEN) (drop UDP_HEADER_LEN (udp_buf v))"

definition UdpView_checksum_valid :: "UdpView \<Rightarrow> Ipv4Addr \<Rightarrow> Ipv4Addr \<Rightarrow> bool" where
  "UdpView_checksum_valid v src dst \<longleftrightarrow>
     (if UdpView_checksum v = 0 then True
      else l4_checksum src dst IPPROTO_UDP (take (unat (UdpView_len v)) (udp_buf v)) = Some 0)"

definition udp_build :: "Ipv4Addr \<Rightarrow> Ipv4Addr \<Rightarrow> u16 \<Rightarrow> u16 \<Rightarrow> bytes \<Rightarrow> bytes option" where
  "udp_build src_ip dst_ip src_port dst_port payload =
     (case u16_try_from (UDP_HEADER_LEN + length payload) of
        None \<Rightarrow> None
      | Some len \<Rightarrow>
          let p = to_be16 src_port @ to_be16 dst_port @ to_be16 len @ [0, 0] @ payload in
          (case l4_checksum src_ip dst_ip IPPROTO_UDP p of
             None \<Rightarrow> None
           | Some c \<Rightarrow>
               let csum = (if c = 0 then 0xFFFF else c)
               in Some (splice 6 (to_be16 csum) p)))"

section \<open>TCP\<close>

definition TCP_MIN_HEADER_LEN :: nat where "TCP_MIN_HEADER_LEN = 20"
definition TCP_MAX_OPTIONS_LEN :: nat where "TCP_MAX_OPTIONS_LEN = 40"

datatype TcpView = TcpView (tcp_buf: bytes)

definition TcpView_parse :: "bytes \<Rightarrow> TcpView option" where
  "TcpView_parse buf =
     (if length buf < TCP_MIN_HEADER_LEN then None
      else let data_offset = unat (drop_bit 4 (buf ! 12)) * 4 in
        if data_offset < TCP_MIN_HEADER_LEN \<or> data_offset > length buf then None
        else Some (TcpView buf))"

definition TcpView_src_port :: "TcpView \<Rightarrow> u16" where
  "TcpView_src_port v = u16_at (tcp_buf v) 0"

definition TcpView_dst_port :: "TcpView \<Rightarrow> u16" where
  "TcpView_dst_port v = u16_at (tcp_buf v) 2"

definition TcpView_seq :: "TcpView \<Rightarrow> u32" where
  "TcpView_seq v = u32_at (tcp_buf v) 4"

definition TcpView_ack :: "TcpView \<Rightarrow> u32" where
  "TcpView_ack v = u32_at (tcp_buf v) 8"

definition TcpView_data_offset :: "TcpView \<Rightarrow> nat" where
  "TcpView_data_offset v = unat (drop_bit 4 (tcp_buf v ! 12)) * 4"

definition TcpView_flags :: "TcpView \<Rightarrow> u8" where
  "TcpView_flags v = tcp_buf v ! 13"

definition TcpView_is_fin :: "TcpView \<Rightarrow> bool" where
  "TcpView_is_fin v \<longleftrightarrow> TcpView_flags v AND TCP_FIN \<noteq> 0"

definition TcpView_is_syn :: "TcpView \<Rightarrow> bool" where
  "TcpView_is_syn v \<longleftrightarrow> TcpView_flags v AND TCP_SYN \<noteq> 0"

definition TcpView_is_rst :: "TcpView \<Rightarrow> bool" where
  "TcpView_is_rst v \<longleftrightarrow> TcpView_flags v AND TCP_RST \<noteq> 0"

definition TcpView_is_psh :: "TcpView \<Rightarrow> bool" where
  "TcpView_is_psh v \<longleftrightarrow> TcpView_flags v AND TCP_PSH \<noteq> 0"

definition TcpView_is_ack :: "TcpView \<Rightarrow> bool" where
  "TcpView_is_ack v \<longleftrightarrow> TcpView_flags v AND TCP_ACK \<noteq> 0"

definition TcpView_is_urg :: "TcpView \<Rightarrow> bool" where
  "TcpView_is_urg v \<longleftrightarrow> TcpView_flags v AND TCP_URG \<noteq> 0"

definition TcpView_window :: "TcpView \<Rightarrow> u16" where
  "TcpView_window v = u16_at (tcp_buf v) 14"

definition TcpView_checksum :: "TcpView \<Rightarrow> u16" where
  "TcpView_checksum v = u16_at (tcp_buf v) 16"

definition TcpView_options :: "TcpView \<Rightarrow> bytes" where
  "TcpView_options v =
     take (TcpView_data_offset v - TCP_MIN_HEADER_LEN) (drop TCP_MIN_HEADER_LEN (tcp_buf v))"

definition TcpView_payload :: "TcpView \<Rightarrow> bytes" where
  "TcpView_payload v = drop (TcpView_data_offset v) (tcp_buf v)"

definition TcpView_checksum_valid :: "TcpView \<Rightarrow> Ipv4Addr \<Rightarrow> Ipv4Addr \<Rightarrow> bool" where
  "TcpView_checksum_valid v src dst \<longleftrightarrow> l4_checksum src dst IPPROTO_TCP (tcp_buf v) = Some 0"

record TcpFields =
  tf_src_port :: u16
  tf_dst_port :: u16
  tf_seq :: u32
  tf_ack :: u32
  tf_flags :: u8
  tf_window :: u16
  tf_options :: bytes

definition div_ceil :: "nat \<Rightarrow> nat \<Rightarrow> nat" where
  "div_ceil a b = (a + b - 1) div b"

definition tcp_build :: "Ipv4Addr \<Rightarrow> Ipv4Addr \<Rightarrow> TcpFields \<Rightarrow> bytes \<Rightarrow> bytes option" where
  "tcp_build src_ip dst_ip f payload =
     (let opts = take (min (length (tf_options f)) TCP_MAX_OPTIONS_LEN) (tf_options f);
          opts_padded = div_ceil (length opts) 4 * 4;
          header_len = TCP_MIN_HEADER_LEN + opts_padded;
          p = to_be16 (tf_src_port f) @ to_be16 (tf_dst_port f) @
              to_be32 (tf_seq f) @ to_be32 (tf_ack f) @
              [push_bit 4 (of_nat (header_len div 4))] @ [tf_flags f] @
              to_be16 (tf_window f) @ [0, 0] @ [0, 0] @ opts;
          p = p @ replicate (header_len - length p) 0;
          p = p @ payload
      in case l4_checksum src_ip dst_ip IPPROTO_TCP p of
           None \<Rightarrow> None
         | Some csum \<Rightarrow> Some (splice 16 (to_be16 csum) p))"

section \<open>ICMP\<close>

definition ICMP_HEADER_LEN :: nat where "ICMP_HEADER_LEN = 8"
definition ICMP_ECHO_REPLY :: u8 where "ICMP_ECHO_REPLY = 0"
definition ICMP_DEST_UNREACHABLE :: u8 where "ICMP_DEST_UNREACHABLE = 3"
definition ICMP_ECHO_REQUEST :: u8 where "ICMP_ECHO_REQUEST = 8"

datatype IcmpView = IcmpView (icmp_buf: bytes)

definition IcmpView_parse :: "bytes \<Rightarrow> IcmpView option" where
  "IcmpView_parse buf = (if length buf \<ge> ICMP_HEADER_LEN then Some (IcmpView buf) else None)"

definition IcmpView_icmp_type :: "IcmpView \<Rightarrow> u8" where
  "IcmpView_icmp_type v = icmp_buf v ! 0"

definition IcmpView_code :: "IcmpView \<Rightarrow> u8" where
  "IcmpView_code v = icmp_buf v ! 1"

definition IcmpView_checksum :: "IcmpView \<Rightarrow> u16" where
  "IcmpView_checksum v = u16_at (icmp_buf v) 2"

definition IcmpView_rest :: "IcmpView \<Rightarrow> bytes" where
  "IcmpView_rest v = [icmp_buf v ! 4, icmp_buf v ! 5, icmp_buf v ! 6, icmp_buf v ! 7]"

definition IcmpView_payload :: "IcmpView \<Rightarrow> bytes" where
  "IcmpView_payload v = drop ICMP_HEADER_LEN (icmp_buf v)"

definition IcmpView_checksum_valid :: "IcmpView \<Rightarrow> bool" where
  "IcmpView_checksum_valid v \<longleftrightarrow> internet_checksum (icmp_buf v) = 0"

definition icmp_build :: "u8 \<Rightarrow> u8 \<Rightarrow> bytes \<Rightarrow> bytes \<Rightarrow> bytes" where
  "icmp_build icmp_type code rest payload =
     (let p = [icmp_type] @ [code] @ [0, 0] @ rest @ payload;
          csum = internet_checksum p
      in splice 2 (to_be16 csum) p)"

definition icmp_echo_reply_for :: "bytes \<Rightarrow> bytes option" where
  "icmp_echo_reply_for request_ipv4_packet =
     (case Ipv4View_parse request_ipv4_packet of
        None \<Rightarrow> None
      | Some ip \<Rightarrow>
          if Ipv4View_proto ip \<noteq> IPPROTO_ICMP then None
          else (case IcmpView_parse (Ipv4View_payload ip) of
                  None \<Rightarrow> None
                | Some icmp \<Rightarrow>
                    if IcmpView_icmp_type icmp \<noteq> ICMP_ECHO_REQUEST \<or> IcmpView_code icmp \<noteq> 0 then None
                    else let reply = icmp_build ICMP_ECHO_REPLY 0 (IcmpView_rest icmp)
                                       (IcmpView_payload icmp)
                         in ipv4_build (Ipv4View_dst ip) (Ipv4View_src ip) IPPROTO_ICMP 64 reply
                              (Ipv4View_id ip)))"

definition icmp_unreachable_for :: "bytes \<Rightarrow> u8 \<Rightarrow> bytes" where
  "icmp_unreachable_for original_ipv4 code =
     (let quote_len = (case Ipv4View_parse original_ipv4 of
                         Some ip \<Rightarrow> min (Ipv4View_header_len ip + 8) (length original_ipv4)
                       | None \<Rightarrow> min (length original_ipv4) 28)
      in icmp_build ICMP_DEST_UNREACHABLE code [0, 0, 0, 0] (take quote_len original_ipv4))"

end
