(* ===== verification/Ipnet.thy ===== *)
theory Ipnet
  imports Frame
begin

text \<open>
  The interface of the third-party crate \<open>ipnet\<close>: the operations of \<open>Ipv4Net\<close> the network
  fabric calls are fields of a record that its definitions take as an argument. The locale
  states the documented behaviour the fabric relies on, and \<open>cidr_net\<close> is a concrete
  instance that satisfies it.
\<close>

section \<open>The operations and their laws\<close>

record 'n ipnet_ops =
  net_contains :: "'n \<Rightarrow> Ipv4Addr \<Rightarrow> bool"
  net_network :: "'n \<Rightarrow> Ipv4Addr"
  net_broadcast :: "'n \<Rightarrow> Ipv4Addr"
  net_netmask :: "'n \<Rightarrow> Ipv4Addr"
  net_prefix_len :: "'n \<Rightarrow> u8"
  net_hosts :: "'n \<Rightarrow> Ipv4Addr list"
  net_default :: 'n
  net_le :: "'n \<Rightarrow> 'n \<Rightarrow> bool"
  net_to_string :: "'n \<Rightarrow> string"

locale ipv4net =
  fixes I :: "'n ipnet_ops"
  assumes contains_iff:
      "net_contains I n a \<longleftrightarrow> net_network I n \<le> a \<and> a \<le> net_broadcast I n"
    and prefix_len_le: "unat (net_prefix_len I n) \<le> 32"
    and default_prefix: "net_prefix_len I (net_default I) = 0"
    and hosts_contained: "a \<in> set (net_hosts I n) \<Longrightarrow> net_contains I n a"
    and hosts_complete:
      "net_contains I n a \<Longrightarrow> a \<noteq> net_network I n \<Longrightarrow> a \<noteq> net_broadcast I n \<Longrightarrow>
       a \<in> set (net_hosts I n)"
    and hosts_proper: "unat (net_prefix_len I n) < 31 \<Longrightarrow>
       net_network I n \<notin> set (net_hosts I n) \<and> net_broadcast I n \<notin> set (net_hosts I n)"
    and le_total: "net_le I m n \<or> net_le I n m"
    and le_trans: "net_le I l m \<Longrightarrow> net_le I m n \<Longrightarrow> net_le I l n"
begin

lemma network_le_broadcast: "net_contains I n a \<Longrightarrow> net_network I n \<le> net_broadcast I n"
  using contains_iff by force

lemma hosts_iff:
  "unat (net_prefix_len I n) < 31 \<Longrightarrow>
   a \<in> set (net_hosts I n) \<longleftrightarrow>
     net_contains I n a \<and> a \<noteq> net_network I n \<and> a \<noteq> net_broadcast I n"
  using hosts_contained hosts_complete hosts_proper by blast

end

section \<open>A concrete instance\<close>

text \<open>An address with the number of host bits below its prefix.\<close>

datatype Cidr = Cidr (cidr_addr: Ipv4Addr) (cidr_plen: nat)

definition host_bits :: "Cidr \<Rightarrow> nat" where
  "host_bits n = 32 - cidr_plen n"

definition cidr_prefix :: "Cidr \<Rightarrow> nat" where
  "cidr_prefix n = min (cidr_plen n) 32"

definition cidr_lo :: "Cidr \<Rightarrow> nat" where
  "cidr_lo n = unat (ip_u32 (cidr_addr n)) div 2 ^ host_bits n * 2 ^ host_bits n"

definition cidr_hi :: "Cidr \<Rightarrow> nat" where
  "cidr_hi n = cidr_lo n + (2 ^ host_bits n - 1)"

definition ip_of_nat :: "nat \<Rightarrow> Ipv4Addr" where
  "ip_of_nat k = ip_of_u32 (of_nat k)"

definition cidr_hosts :: "Cidr \<Rightarrow> Ipv4Addr list" where
  "cidr_hosts n =
     (if cidr_prefix n < 31 then map ip_of_nat [Suc (cidr_lo n)..<cidr_hi n]
      else map ip_of_nat [cidr_lo n..<Suc (cidr_hi n)])"

fun digit_char :: "nat \<Rightarrow> char" where
  "digit_char d = char_of (48 + d)"

fun nat_str :: "nat \<Rightarrow> string" where
  "nat_str n = (if n < 10 then [digit_char n] else nat_str (n div 10) @ [digit_char (n mod 10)])"

declare nat_str.simps [simp del]

fun ip_str :: "Ipv4Addr \<Rightarrow> string" where
  "ip_str (Ipv4Addr a b c d) =
     nat_str (unat a) @ ''.'' @ nat_str (unat b) @ ''.'' @ nat_str (unat c) @ ''.'' @ nat_str (unat d)"

definition cidr_net :: "Cidr ipnet_ops" where
  "cidr_net = \<lparr>
     net_contains = (\<lambda>n a. cidr_lo n \<le> unat (ip_u32 a) \<and> unat (ip_u32 a) \<le> cidr_hi n),
     net_network = (\<lambda>n. ip_of_nat (cidr_lo n)),
     net_broadcast = (\<lambda>n. ip_of_nat (cidr_hi n)),
     net_netmask = (\<lambda>n. ip_of_nat (2 ^ 32 - 2 ^ host_bits n)),
     net_prefix_len = (\<lambda>n. of_nat (cidr_prefix n)),
     net_hosts = cidr_hosts,
     net_default = Cidr (Ipv4Addr 0 0 0 0) 0,
     net_le = (\<lambda>m n. (ip_u32 (cidr_addr m), cidr_plen m) = (ip_u32 (cidr_addr n), cidr_plen n) \<or>
        ip_u32 (cidr_addr m) < ip_u32 (cidr_addr n) \<or>
        ip_u32 (cidr_addr m) = ip_u32 (cidr_addr n) \<and> cidr_plen m < cidr_plen n),
     net_to_string = (\<lambda>n. ip_str (cidr_addr n) @ ''/'' @ nat_str (cidr_plen n))\<rparr>"

lemma cidr_hi_bound: "cidr_hi n < 4294967296"
proof -
  let ?a = "unat (ip_u32 (cidr_addr n))" and ?s = "(2::nat) ^ host_bits n"
  have "host_bits n \<le> 32" by (simp add: host_bits_def)
  then obtain k where k: "host_bits n + k = 32" using le_Suc_ex by metis
  then have s: "?s * 2 ^ k = 4294967296" by (simp flip: power_add)
  have "?a < ?s * 2 ^ k" using unat_u32_bound [of "ip_u32 (cidr_addr n)"] s by simp
  then have "?a div ?s < 2 ^ k" by (simp add: less_mult_imp_div_less mult.commute)
  then have "Suc (?a div ?s) * ?s \<le> 2 ^ k * ?s" by (intro mult_le_mono1) simp
  then have "?a div ?s * ?s + ?s \<le> 4294967296" using s by (simp add: mult.commute)
  then show ?thesis by (simp add: cidr_hi_def cidr_lo_def)
qed

lemma unat_ip_of_nat: "k < 4294967296 \<Longrightarrow> unat (ip_u32 (ip_of_nat k)) = k"
  by (simp add: ip_of_nat_def unat_of_nat take_bit_nat_eq_self)

lemma cidr_lo_le_hi: "cidr_lo n \<le> cidr_hi n"
  unfolding cidr_hi_def by (rule le_add1)

lemma ip_of_nat_unat [simp]: "ip_of_nat (unat (ip_u32 a)) = a"
  by (simp add: ip_of_nat_def)

lemma ip_of_nat_image:
  assumes "hi \<le> 4294967296"
  shows "a \<in> ip_of_nat ` {lo..<hi} \<longleftrightarrow> lo \<le> unat (ip_u32 a) \<and> unat (ip_u32 a) < hi"
proof
  assume "a \<in> ip_of_nat ` {lo..<hi}"
  then obtain k where k: "a = ip_of_nat k" "lo \<le> k" "k < hi" by auto
  then have "unat (ip_u32 a) = k" using assms by (simp add: unat_ip_of_nat)
  with k show "lo \<le> unat (ip_u32 a) \<and> unat (ip_u32 a) < hi" by simp
next
  assume "lo \<le> unat (ip_u32 a) \<and> unat (ip_u32 a) < hi"
  then show "a \<in> ip_of_nat ` {lo..<hi}" by (intro image_eqI [of _ _ "unat (ip_u32 a)"]) auto
qed

lemma set_cidr_hosts:
  "a \<in> set (cidr_hosts n) \<longleftrightarrow>
     (if cidr_prefix n < 31 then cidr_lo n < unat (ip_u32 a) \<and> unat (ip_u32 a) < cidr_hi n
      else cidr_lo n \<le> unat (ip_u32 a) \<and> unat (ip_u32 a) \<le> cidr_hi n)"
  using cidr_hi_bound [of n]
  by (auto simp: cidr_hosts_def ip_of_nat_image simp del: upt_Suc)

interpretation cidr: ipv4net cidr_net
proof unfold_locales
  fix n a
  have b: "cidr_lo n < 4294967296" "cidr_hi n < 4294967296"
    using cidr_hi_bound [of n] cidr_lo_le_hi [of n] by simp_all
  have p: "unat (of_nat (cidr_prefix n) :: u8) = cidr_prefix n"
    by (simp add: cidr_prefix_def unat_of_nat take_bit_nat_eq_self)
  have neq: "a \<noteq> ip_of_nat k \<longleftrightarrow> unat (ip_u32 a) \<noteq> k" if "k < 4294967296" for k
    using unat_ip_of_nat [OF that] by (metis ip_of_nat_unat)
  show "net_contains cidr_net n a \<longleftrightarrow> net_network cidr_net n \<le> a \<and> a \<le> net_broadcast cidr_net n"
    using b by (simp add: cidr_net_def less_eq_Ipv4Addr_def word_le_nat_alt unat_ip_of_nat)
  show "unat (net_prefix_len cidr_net n) \<le> 32"
    using p by (simp add: cidr_net_def cidr_prefix_def)
  show "net_prefix_len cidr_net (net_default cidr_net) = 0"
    by (simp add: cidr_net_def cidr_prefix_def)
  show "a \<in> set (net_hosts cidr_net n) \<Longrightarrow> net_contains cidr_net n a"
    by (auto simp: cidr_net_def set_cidr_hosts split: if_splits)
  show "net_contains cidr_net n a \<Longrightarrow> a \<noteq> net_network cidr_net n \<Longrightarrow>
      a \<noteq> net_broadcast cidr_net n \<Longrightarrow> a \<in> set (net_hosts cidr_net n)"
    using b by (auto simp: cidr_net_def set_cidr_hosts neq)
  show "unat (net_prefix_len cidr_net n) < 31 \<Longrightarrow>
      net_network cidr_net n \<notin> set (net_hosts cidr_net n) \<and>
      net_broadcast cidr_net n \<notin> set (net_hosts cidr_net n)"
    using b p by (auto simp: cidr_net_def set_cidr_hosts unat_ip_of_nat)
next
  fix l m n
  show "net_le cidr_net m n \<or> net_le cidr_net n m"
    by (auto simp: cidr_net_def)
  show "net_le cidr_net l m \<Longrightarrow> net_le cidr_net m n \<Longrightarrow> net_le cidr_net l n"
    by (auto simp: cidr_net_def)
qed

end
