(* ===== verification/Dhcp.thy ===== *)
theory Dhcp
  imports Frame Ipnet
begin

text \<open>
  The DHCP server of a segment gateway (\<open>src/net/dhcp.rs\<close>): configuration, lease table,
  message handling, address allocation and reply construction. The handler takes the frame and
  its readings of the clock: \<open>t_purge\<close> (expiry), \<open>t_lease\<close> (lease lookup), \<open>t_avail\<close> (free
  addresses) and \<open>t_grant\<close> (start of the new lease), in nanoseconds. The narrowing of an option's
  length to a byte wraps, as it does outside debug builds.
\<close>

section \<open>Constants\<close>

definition DHCP_SERVER_PORT :: u16 where "DHCP_SERVER_PORT = 67"
definition DHCP_CLIENT_PORT :: u16 where "DHCP_CLIENT_PORT = 68"
definition DHCP_DISCOVER :: u8 where "DHCP_DISCOVER = 1"
definition DHCP_OFFER :: u8 where "DHCP_OFFER = 2"
definition DHCP_REQUEST :: u8 where "DHCP_REQUEST = 3"
definition DHCP_DECLINE :: u8 where "DHCP_DECLINE = 4"
definition DHCP_ACK :: u8 where "DHCP_ACK = 5"
definition DHCP_NAK :: u8 where "DHCP_NAK = 6"
definition DHCP_RELEASE :: u8 where "DHCP_RELEASE = 7"
definition BOOTREQUEST :: u8 where "BOOTREQUEST = 1"
definition BOOTREPLY :: u8 where "BOOTREPLY = 2"
definition MAGIC_COOKIE :: bytes where "MAGIC_COOKIE = [99, 130, 83, 99]"
definition BOOTP_MIN_LEN :: nat where "BOOTP_MIN_LEN = 240"
definition FLAG_BROADCAST :: u16 where "FLAG_BROADCAST = 0x8000"
definition OPT_PAD :: u8 where "OPT_PAD = 0"
definition OPT_SUBNET_MASK :: u8 where "OPT_SUBNET_MASK = 1"
definition OPT_ROUTER :: u8 where "OPT_ROUTER = 3"
definition OPT_DNS :: u8 where "OPT_DNS = 6"
definition OPT_DOMAIN :: u8 where "OPT_DOMAIN = 15"
definition OPT_MTU :: u8 where "OPT_MTU = 26"
definition OPT_REQUESTED_IP :: u8 where "OPT_REQUESTED_IP = 50"
definition OPT_LEASE_TIME :: u8 where "OPT_LEASE_TIME = 51"
definition OPT_MSG_TYPE :: u8 where "OPT_MSG_TYPE = 53"
definition OPT_SERVER_ID :: u8 where "OPT_SERVER_ID = 54"
definition OPT_CLASSLESS_ROUTES :: u8 where "OPT_CLASSLESS_ROUTES = 121"
definition OPT_END :: u8 where "OPT_END = 255"

lemmas dhcp_const_defs = DHCP_SERVER_PORT_def DHCP_CLIENT_PORT_def DHCP_DISCOVER_def DHCP_OFFER_def
  DHCP_REQUEST_def DHCP_DECLINE_def DHCP_ACK_def DHCP_NAK_def DHCP_RELEASE_def BOOTREQUEST_def
  BOOTREPLY_def MAGIC_COOKIE_def BOOTP_MIN_LEN_def FLAG_BROADCAST_def OPT_PAD_def
  OPT_SUBNET_MASK_def OPT_ROUTER_def OPT_DNS_def OPT_DOMAIN_def OPT_MTU_def OPT_REQUESTED_IP_def
  OPT_LEASE_TIME_def OPT_MSG_TYPE_def OPT_SERVER_ID_def OPT_CLASSLESS_ROUTES_def OPT_END_def

section \<open>State\<close>

record 'n DhcpConfig =
  dc_subnet :: 'n
  dc_gateway :: Ipv4Addr
  dc_router :: Ipv4Addr
  dc_server_mac :: MacAddr
  dc_dns_server :: "Ipv4Addr option"
  dc_domain :: "string option"
  dc_routes :: "('n \<times> Ipv4Addr) list"
  dc_reservations :: "(MacAddr, Ipv4Addr) hashmap"
  dc_lease_secs :: u32
  dc_mtu :: u16

definition DhcpConfig_new :: "'n \<Rightarrow> Ipv4Addr \<Rightarrow> MacAddr \<Rightarrow> 'n DhcpConfig" where
  "DhcpConfig_new subnet gateway server_mac =
     \<lparr>dc_subnet = subnet, dc_gateway = gateway, dc_router = gateway, dc_server_mac = server_mac,
      dc_dns_server = None, dc_domain = None, dc_routes = [], dc_reservations = [],
      dc_lease_secs = 3600, dc_mtu = 1500\<rparr>"

record Lease =
  l_ip :: Ipv4Addr
  l_expiry :: nat

record 'n DhcpServer =
  ds_config :: "'n DhcpConfig"
  ds_leases :: "(MacAddr, Lease) hashmap"
  ds_declined :: "Ipv4Addr set"

record BootpRequest =
  bq_xid :: u32
  bq_flags :: u16
  bq_ciaddr :: Ipv4Addr
  bq_giaddr :: Ipv4Addr
  bq_chaddr :: MacAddr
  bq_msg_type :: u8
  bq_requested_ip :: "Ipv4Addr option"
  bq_server_id :: "Ipv4Addr option"

definition DhcpServer_new :: "'n DhcpConfig \<Rightarrow> 'n DhcpServer" where
  "DhcpServer_new config = \<lparr>ds_config = config, ds_leases = [], ds_declined = {}\<rparr>"

section \<open>Parsing a request\<close>

definition ipv4_from :: "bytes \<Rightarrow> Ipv4Addr" where
  "ipv4_from b = Ipv4Addr (b ! 0) (b ! 1) (b ! 2) (b ! 3)"

function parse_options ::
  "bytes \<Rightarrow> nat \<Rightarrow> u8 option \<times> Ipv4Addr option \<times> Ipv4Addr option \<Rightarrow>
   (u8 option \<times> Ipv4Addr option \<times> Ipv4Addr option) option" where
  "parse_options p i (msg_type, requested_ip, server_id) =
     (if i < length p then
        if p ! i = OPT_PAD then parse_options p (i + 1) (msg_type, requested_ip, server_id)
        else if p ! i = OPT_END then Some (msg_type, requested_ip, server_id)
        else (case slice_get p (i + 1) of
                None \<Rightarrow> None
              | Some l \<Rightarrow>
                  let len = unat l; stop = i + 2 + len in
                  (case slice_range p (i + 2) stop of
                     None \<Rightarrow> None
                   | Some val \<Rightarrow>
                       parse_options p stop
                         (if p ! i = OPT_MSG_TYPE \<and> len = 1
                          then (Some (val ! 0), requested_ip, server_id)
                          else if p ! i = OPT_REQUESTED_IP \<and> len = 4
                          then (msg_type, Some (ipv4_from val), server_id)
                          else if p ! i = OPT_SERVER_ID \<and> len = 4
                          then (msg_type, requested_ip, Some (ipv4_from val))
                          else (msg_type, requested_ip, server_id))))
      else Some (msg_type, requested_ip, server_id))"
  by pat_completeness auto
termination
  by (relation "measure (\<lambda>(p, i, _). length p - i)") auto

declare parse_options.simps [simp del]

definition parse_bootp :: "bytes \<Rightarrow> BootpRequest option" where
  "parse_bootp p =
     (if length p < BOOTP_MIN_LEN then None
      else if p ! 0 \<noteq> BOOTREQUEST \<or> p ! 1 \<noteq> 1 \<or> p ! 2 \<noteq> 6 then None
      else if take 4 (drop 236 p) \<noteq> MAGIC_COOKIE then None
      else (case parse_options p 240 (None, None, None) of
              None \<Rightarrow> None
            | Some (msg_type, requested_ip, server_id) \<Rightarrow>
                (case msg_type of
                   None \<Rightarrow> None
                 | Some mt \<Rightarrow> Some
                     \<lparr>bq_xid = from_be32 (p ! 4) (p ! 5) (p ! 6) (p ! 7),
                      bq_flags = from_be16 (p ! 10) (p ! 11),
                      bq_ciaddr = ipv4_from (take 4 (drop 12 p)),
                      bq_giaddr = ipv4_from (take 4 (drop 24 p)),
                      bq_chaddr = mac_at p 28, bq_msg_type = mt,
                      bq_requested_ip = requested_ip, bq_server_id = server_id\<rparr>)))"

section \<open>Building a reply\<close>

definition opt :: "u8 \<Rightarrow> bytes \<Rightarrow> bytes" where
  "opt code val = [code, of_nat (length val)] @ val"

fun encode_classless_routes :: "'n ipnet_ops \<Rightarrow> ('n \<times> Ipv4Addr) list \<Rightarrow> bytes" where
  "encode_classless_routes I [] = []"
| "encode_classless_routes I ((net, via) # routes) =
     (let plen = net_prefix_len I net;
          significant = div_ceil (unat plen) 8
      in [plen] @ take significant (octets (net_network I net)) @ octets via @
         encode_classless_routes I routes)"

definition as_bytes :: "string \<Rightarrow> bytes" where
  "as_bytes s = map of_char s"

definition offered_routes :: "'n ipnet_ops \<Rightarrow> 'n DhcpConfig \<Rightarrow> ('n \<times> Ipv4Addr) list" where
  "offered_routes I cfg =
     (if \<not> (\<exists>(net, _) \<in> set (dc_routes cfg). net_prefix_len I net = 0)
      then dc_routes cfg @ [(net_default I, dc_router cfg)] else dc_routes cfg)"

definition lease_options :: "'n ipnet_ops \<Rightarrow> 'n DhcpConfig \<Rightarrow> bytes" where
  "lease_options I cfg =
     opt OPT_LEASE_TIME (to_be32 (dc_lease_secs cfg)) @
     opt OPT_SUBNET_MASK (octets (net_netmask I (dc_subnet cfg))) @
     opt OPT_ROUTER (octets (dc_router cfg)) @
     (case dc_dns_server cfg of Some dns \<Rightarrow> opt OPT_DNS (octets dns) | None \<Rightarrow> []) @
     (case dc_domain cfg of Some domain \<Rightarrow> opt OPT_DOMAIN (as_bytes domain) | None \<Rightarrow> []) @
     (if dc_mtu cfg \<noteq> 1500 then opt OPT_MTU (to_be16 (dc_mtu cfg)) else []) @
     (if dc_routes cfg \<noteq> []
      then opt OPT_CLASSLESS_ROUTES (encode_classless_routes I (offered_routes I cfg)) else [])"

definition reply_body :: "'n ipnet_ops \<Rightarrow> 'n DhcpConfig \<Rightarrow> BootpRequest \<Rightarrow> u8 \<Rightarrow> Ipv4Addr \<Rightarrow> bytes" where
  "reply_body I cfg req msg_type yiaddr =
     (let ciaddr = (if msg_type = DHCP_ACK then bq_ciaddr req else UNSPECIFIED)
      in [BOOTREPLY, 1, 6, 0] @ to_be32 (bq_xid req) @ [0, 0] @ to_be16 (bq_flags req) @
         octets ciaddr @ octets yiaddr @ octets (dc_gateway cfg) @ octets (bq_giaddr req) @
         mac_octets (bq_chaddr req) @ replicate 10 0 @ replicate 64 0 @ replicate 128 0 @
         MAGIC_COOKIE @
         opt OPT_MSG_TYPE [msg_type] @ opt OPT_SERVER_ID (octets (dc_gateway cfg)) @
         (if msg_type \<noteq> DHCP_NAK then lease_options I cfg else []) @ [OPT_END])"

definition build_reply ::
  "'n ipnet_ops \<Rightarrow> 'n DhcpServer \<Rightarrow> BootpRequest \<Rightarrow> u8 \<Rightarrow> Ipv4Addr option \<Rightarrow> bytes option" where
  "build_reply I s req msg_type yiaddr =
     (let cfg = ds_config s;
          yiaddr = (case yiaddr of Some a \<Rightarrow> a | None \<Rightarrow> UNSPECIFIED);
          b = reply_body I cfg req msg_type yiaddr;
          broadcast = (msg_type = DHCP_NAK \<or> bq_flags req AND FLAG_BROADCAST \<noteq> 0 \<or>
            yiaddr = UNSPECIFIED);
          (dst_mac, dst_ip) = (if broadcast then (MAC_BROADCAST, BROADCAST)
            else (bq_chaddr req, yiaddr))
      in Option.bind (udp_build (dc_gateway cfg) dst_ip DHCP_SERVER_PORT DHCP_CLIENT_PORT b) (\<lambda>udp.
           map_option (\<lambda>ip. eth_build dst_mac (dc_server_mac cfg) ETHERTYPE_IPV4 ip)
             (ipv4_build (dc_gateway cfg) dst_ip IPPROTO_UDP 64 udp
               (ucast (bq_xid req AND 0xFFFF)))))"

section \<open>Allocation\<close>

definition lease_of :: "nat \<Rightarrow> 'n DhcpServer \<Rightarrow> MacAddr \<Rightarrow> Ipv4Addr option" where
  "lease_of now s mac =
     (case hm_get (ds_leases s) mac of
        Some l \<Rightarrow> if l_expiry l > now then Some (l_ip l) else None
      | None \<Rightarrow> None)"

definition alloc_taken :: "nat \<Rightarrow> 'n DhcpServer \<Rightarrow> Ipv4Addr set" where
  "alloc_taken now s =
     set (map l_ip (filter (\<lambda>l. l_expiry l > now) (hm_values (ds_leases s)))) \<union>
     set (hm_values (dc_reservations (ds_config s))) \<union> {dc_gateway (ds_config s)} \<union> ds_declined s"

definition alloc :: "'n ipnet_ops \<Rightarrow> nat \<Rightarrow> 'n DhcpServer \<Rightarrow> Ipv4Addr option" where
  "alloc I now s =
     (let taken = alloc_taken now s
      in find (\<lambda>h. h \<notin> taken) (net_hosts I (dc_subnet (ds_config s))))"

definition ip_for :: "'n ipnet_ops \<Rightarrow> nat \<Rightarrow> nat \<Rightarrow> 'n DhcpServer \<Rightarrow> MacAddr \<Rightarrow> Ipv4Addr option" where
  "ip_for I t_lease t_avail s mac =
     (case hm_get (dc_reservations (ds_config s)) mac of
        Some ip \<Rightarrow> Some ip
      | None \<Rightarrow> (case lease_of t_lease s mac of
                  Some ip \<Rightarrow> Some ip
                | None \<Rightarrow> alloc I t_avail s))"

definition requestable :: "'n ipnet_ops \<Rightarrow> nat \<Rightarrow> 'n DhcpServer \<Rightarrow> Ipv4Addr \<Rightarrow> bool" where
  "requestable I now s ip \<longleftrightarrow>
     net_contains I (dc_subnet (ds_config s)) ip \<and>
     ip \<noteq> net_network I (dc_subnet (ds_config s)) \<and>
     ip \<noteq> net_broadcast I (dc_subnet (ds_config s)) \<and>
     ip \<noteq> dc_gateway (ds_config s) \<and>
     ip \<notin> set (hm_values (dc_reservations (ds_config s))) \<and>
     ip \<notin> ds_declined s \<and>
     \<not> (\<exists>l \<in> set (hm_values (ds_leases s)). l_ip l = ip \<and> l_expiry l > now)"

definition grant :: "nat \<Rightarrow> MacAddr \<Rightarrow> Ipv4Addr \<Rightarrow> 'n DhcpServer \<Rightarrow> 'n DhcpServer" where
  "grant now mac ip s =
     (let expiry = now + unat (dc_lease_secs (ds_config s)) * 1000000000
      in s\<lparr>ds_leases := hm_insert mac \<lparr>l_ip = ip, l_expiry = expiry\<rparr> (ds_leases s)\<rparr>)"

definition purge_expired :: "nat \<Rightarrow> 'n DhcpServer \<Rightarrow> 'n DhcpServer" where
  "purge_expired now s = s\<lparr>ds_leases := hm_retain (\<lambda>_ l. l_expiry l > now) (ds_leases s)\<rparr>"

section \<open>Message handling\<close>

definition on_discover ::
  "'n ipnet_ops \<Rightarrow> nat \<Rightarrow> nat \<Rightarrow> nat \<Rightarrow> 'n DhcpServer \<Rightarrow> BootpRequest \<Rightarrow> 'n DhcpServer \<times> bytes option" where
  "on_discover I t_lease t_avail t_grant s req =
     (case ip_for I t_lease t_avail s (bq_chaddr req) of
        None \<Rightarrow> (s, None)
      | Some ip \<Rightarrow>
          let s = grant t_grant (bq_chaddr req) ip s
          in (s, build_reply I s req DHCP_OFFER (Some ip)))"

definition requested_address :: "BootpRequest \<Rightarrow> Ipv4Addr option" where
  "requested_address req =
     (case bq_requested_ip req of
        Some ip \<Rightarrow> Some ip
      | None \<Rightarrow> if bq_ciaddr req \<noteq> UNSPECIFIED then Some (bq_ciaddr req) else None)"

definition granted_address ::
  "'n ipnet_ops \<Rightarrow> nat \<Rightarrow> nat \<Rightarrow> 'n DhcpServer \<Rightarrow> BootpRequest \<Rightarrow> Ipv4Addr option" where
  "granted_address I t_lease t_avail s req =
     (let requested = requested_address req;
          entitled = (case hm_get (dc_reservations (ds_config s)) (bq_chaddr req) of
            Some ip \<Rightarrow> Some ip | None \<Rightarrow> lease_of t_lease s (bq_chaddr req))
      in case (requested, entitled) of
           (None, Some e) \<Rightarrow> Some e
         | (Some r, Some e) \<Rightarrow> (if r = e then Some e else None)
         | (Some r, None) \<Rightarrow> (if requestable I t_avail s r then Some r else None)
         | (None, None) \<Rightarrow> None)"

definition on_request ::
  "'n ipnet_ops \<Rightarrow> nat \<Rightarrow> nat \<Rightarrow> nat \<Rightarrow> 'n DhcpServer \<Rightarrow> BootpRequest \<Rightarrow> 'n DhcpServer \<times> bytes option" where
  "on_request I t_lease t_avail t_grant s req =
     (if (case bq_server_id req of Some sid \<Rightarrow> sid \<noteq> dc_gateway (ds_config s) | None \<Rightarrow> False) then
        (s\<lparr>ds_leases := hm_remove (bq_chaddr req) (ds_leases s)\<rparr>, None)
      else (case granted_address I t_lease t_avail s req of
              Some ip \<Rightarrow>
                let s = grant t_grant (bq_chaddr req) ip s
                in (s, build_reply I s req DHCP_ACK (Some ip))
            | None \<Rightarrow> (s, build_reply I s req DHCP_NAK None)))"

definition on_decline :: "'n DhcpServer \<Rightarrow> BootpRequest \<Rightarrow> 'n DhcpServer" where
  "on_decline s req =
     (let declined = (case map_option l_ip (hm_get (ds_leases s) (bq_chaddr req)) of
            Some ip \<Rightarrow> Some ip | None \<Rightarrow> bq_requested_ip req);
          s = s\<lparr>ds_leases := hm_remove (bq_chaddr req) (ds_leases s)\<rparr>
      in case declined of
           Some ip \<Rightarrow> s\<lparr>ds_declined := insert ip (ds_declined s)\<rparr>
         | None \<Rightarrow> s)"

definition DhcpServer_handle ::
  "'n ipnet_ops \<Rightarrow> nat \<Rightarrow> nat \<Rightarrow> nat \<Rightarrow> nat \<Rightarrow> 'n DhcpServer \<Rightarrow> bytes \<Rightarrow>
   'n DhcpServer \<times> bytes option" where
  "DhcpServer_handle I t_purge t_lease t_avail t_grant s eth_frame =
     (case EthView_parse eth_frame of None \<Rightarrow> (s, None) | Some eth \<Rightarrow>
        if EthView_ethertype eth \<noteq> ETHERTYPE_IPV4 then (s, None)
        else (case Ipv4View_parse (EthView_payload eth) of None \<Rightarrow> (s, None) | Some ip \<Rightarrow>
          if Ipv4View_proto ip \<noteq> IPPROTO_UDP then (s, None)
          else (case UdpView_parse (Ipv4View_payload ip) of None \<Rightarrow> (s, None) | Some udp \<Rightarrow>
            if UdpView_src_port udp \<noteq> DHCP_CLIENT_PORT \<or> UdpView_dst_port udp \<noteq> DHCP_SERVER_PORT
            then (s, None)
            else (case parse_bootp (UdpView_payload udp) of None \<Rightarrow> (s, None) | Some req \<Rightarrow>
              let s = purge_expired t_purge s in
              if bq_msg_type req = DHCP_DISCOVER then on_discover I t_lease t_avail t_grant s req
              else if bq_msg_type req = DHCP_REQUEST then on_request I t_lease t_avail t_grant s req
              else if bq_msg_type req = DHCP_RELEASE then
                (s\<lparr>ds_leases := hm_remove (bq_chaddr req) (ds_leases s)\<rparr>, None)
              else if bq_msg_type req = DHCP_DECLINE then (on_decline s req, None)
              else (s, None)))))"

definition reconfigure :: "('n DhcpConfig \<Rightarrow> 'n DhcpConfig) \<Rightarrow> 'n DhcpServer \<Rightarrow> 'n DhcpServer" where
  "reconfigure f s = s\<lparr>ds_config := f (ds_config s)\<rparr>"

definition set_routes :: "('n \<times> Ipv4Addr) list \<Rightarrow> 'n DhcpServer \<Rightarrow> 'n DhcpServer" where
  "set_routes routes s = s\<lparr>ds_config := (ds_config s)\<lparr>dc_routes := routes\<rparr>\<rparr>"

definition DhcpServer_leases :: "nat \<Rightarrow> 'n DhcpServer \<Rightarrow> (MacAddr \<times> Ipv4Addr) list" where
  "DhcpServer_leases now s =
     sort_key (\<lambda>(_, ip). ip_u32 ip)
       (map (\<lambda>(m, l). (m, l_ip l)) (filter (\<lambda>(_, l). l_expiry l > now) (ds_leases s)))"

end
