(* ===== verification/Frame_Lemmas.thy ===== *)
theory Frame_Lemmas
  imports Frame
begin

text \<open>
  Correctness of the frame layer: every accessor of a parsed view reads inside its buffer, every
  builder's output parses back to the fields it was built from (also behind ethernet padding)
  with valid checksums, and the echo-reply and unreachable builders answer as RFC 792 asks.
\<close>

section \<open>Views read inside their buffers\<close>

locale wire_view =
  fixes parse :: "bytes \<Rightarrow> 'v option"
    and buf :: "'v \<Rightarrow> bytes"
    and min_len :: nat
  assumes parse_buf: "parse b = Some v \<Longrightarrow> buf v = b"
    and parse_len: "parse b = Some v \<Longrightarrow> min_len \<le> length b"
begin

lemma byte_in_bounds: "parse b = Some v \<Longrightarrow> i < min_len \<Longrightarrow> i < length (buf v)"
  using parse_buf parse_len by fastforce

lemma field_in_bounds:
  "parse b = Some v \<Longrightarrow> off + n \<le> min_len \<Longrightarrow> off + n \<le> length (buf v)"
  using parse_buf parse_len by fastforce

lemma too_short: "length b < min_len \<Longrightarrow> parse b = None"
  using parse_len by (cases "parse b") fastforce+

lemma parse_inject: "parse b = Some v \<Longrightarrow> parse b' = Some v \<Longrightarrow> b = b'"
  by (metis parse_buf)

end

interpretation eth: wire_view EthView_parse eth_buf ETH_HEADER_LEN
  by unfold_locales (auto simp: EthView_parse_def split: if_splits)

interpretation arp: wire_view ArpView_parse arp_buf ARP_LEN
  by unfold_locales (auto simp: ArpView_parse_def split: if_splits)

interpretation ipv4: wire_view Ipv4View_parse ip_buf IPV4_MIN_HEADER_LEN
  by unfold_locales (auto simp: Ipv4View_parse_def Let_def split: if_splits)

interpretation udp: wire_view UdpView_parse udp_buf UDP_HEADER_LEN
  by unfold_locales (auto simp: UdpView_parse_def Let_def split: if_splits)

interpretation tcp: wire_view TcpView_parse tcp_buf TCP_MIN_HEADER_LEN
  by unfold_locales (auto simp: TcpView_parse_def Let_def split: if_splits)

interpretation icmp: wire_view IcmpView_parse icmp_buf ICMP_HEADER_LEN
  by unfold_locales (auto simp: IcmpView_parse_def split: if_splits)

text \<open>The variable-length slices of a parsed packet stay inside it.\<close>

lemma Ipv4View_parse_Some:
  "Ipv4View_parse b = Some v \<longleftrightarrow>
     v = Ipv4View b \<and> 20 \<le> length b \<and> drop_bit 4 (b ! 0) = 4 \<and>
     20 \<le> Ipv4View_header_len v \<and> Ipv4View_header_len v \<le> unat (Ipv4View_total_len v) \<and>
     unat (Ipv4View_total_len v) \<le> length b"
  by (auto simp: Ipv4View_parse_def Let_def Ipv4View_header_len_def Ipv4View_ihl_def
      Ipv4View_total_len_def IPV4_MIN_HEADER_LEN_def split: if_splits)

lemma ipv4_parse_bounds:
  assumes "Ipv4View_parse b = Some v"
  shows "v = Ipv4View b" "20 \<le> length b" "20 \<le> Ipv4View_header_len v"
    "Ipv4View_header_len v \<le> unat (Ipv4View_total_len v)"
    "unat (Ipv4View_total_len v) \<le> length b"
  using assms by (auto simp: Ipv4View_parse_Some)

lemma length_Ipv4View_payload:
  "Ipv4View_parse b = Some v \<Longrightarrow>
   length (Ipv4View_payload v) = unat (Ipv4View_total_len v) - Ipv4View_header_len v"
  by (auto simp: Ipv4View_parse_Some Ipv4View_payload_def)

lemma Ipv4View_header_len_le: "Ipv4View_header_len v \<le> 60"
proof -
  have "Ipv4View_ihl v \<le> 0x0F" by (simp add: Ipv4View_ihl_def word_and_le1)
  then show ?thesis by (simp add: Ipv4View_header_len_def word_le_nat_alt)
qed

lemma UdpView_parse_Some:
  "UdpView_parse b = Some v \<longleftrightarrow>
     v = UdpView b \<and> 8 \<le> unat (UdpView_len v) \<and> unat (UdpView_len v) \<le> length b"
  by (auto simp: UdpView_parse_def Let_def UdpView_len_def UDP_HEADER_LEN_def split: if_splits)

lemma TcpView_parse_Some:
  "TcpView_parse b = Some v \<longleftrightarrow>
     v = TcpView b \<and> 20 \<le> TcpView_data_offset v \<and> TcpView_data_offset v \<le> length b"
  by (auto simp: TcpView_parse_def Let_def TcpView_data_offset_def TCP_MIN_HEADER_LEN_def
      split: if_splits)

lemma IcmpView_parse_Some: "IcmpView_parse b = Some v \<longleftrightarrow> v = IcmpView b \<and> 8 \<le> length b"
  by (auto simp: IcmpView_parse_def ICMP_HEADER_LEN_def split: if_splits)

lemma EthView_parse_Some: "EthView_parse b = Some v \<longleftrightarrow> v = EthView b \<and> 14 \<le> length b"
  by (auto simp: EthView_parse_def ETH_HEADER_LEN_def split: if_splits)

section \<open>Ethernet and ARP\<close>

lemma eth_build_parse [simp]: "EthView_parse (eth_build d s t p) = Some (EthView (eth_build d s t p))"
  by (simp add: EthView_parse_Some eth_build_def)

lemma eth_build_fields [simp]:
  "EthView_dst_mac (EthView (eth_build d s t p)) = d"
  "EthView_src_mac (EthView (eth_build d s t p)) = s"
  "EthView_ethertype (EthView (eth_build d s t p)) = t"
  "EthView_payload (EthView (eth_build d s t p)) = p"
  by (cases d; cases s; simp add: EthView_dst_mac_def EthView_src_mac_def EthView_ethertype_def
      EthView_payload_def eth_build_def mac_at_def u16_at_def to_be16_def ETH_HEADER_LEN_def)+

lemma arp_build_parse:
  assumes "op = 1 \<or> op = 2"
  shows "ArpView_parse (arp_build op sha spa tha tpa @ pad) =
      Some (ArpView (arp_build op sha spa tha tpa @ pad))"
    and "ArpView_op (ArpView (arp_build op sha spa tha tpa @ pad)) = (if op = 1 then Request else Reply)"
    and "ArpView_sha (ArpView (arp_build op sha spa tha tpa @ pad)) = sha"
    and "ArpView_spa (ArpView (arp_build op sha spa tha tpa @ pad)) = spa"
    and "ArpView_tha (ArpView (arp_build op sha spa tha tpa @ pad)) = tha"
    and "ArpView_tpa (ArpView (arp_build op sha spa tha tpa @ pad)) = tpa"
proof -
  obtain s1 s2 s3 s4 s5 s6 where sha: "sha = MacAddr s1 s2 s3 s4 s5 s6" by (cases sha)
  obtain t1 t2 t3 t4 t5 t6 where tha: "tha = MacAddr t1 t2 t3 t4 t5 t6" by (cases tha)
  obtain a1 a2 a3 a4 where spa: "spa = Ipv4Addr a1 a2 a3 a4" by (cases spa)
  obtain b1 b2 b3 b4 where tpa: "tpa = Ipv4Addr b1 b2 b3 b4" by (cases tpa)
  have eq: "arp_build op sha spa tha tpa @ pad =
      [0, 1, 8, 0, 6, 4, ucast (drop_bit 8 op), ucast op, s1, s2, s3, s4, s5, s6, a1, a2, a3, a4,
       t1, t2, t3, t4, t5, t6, b1, b2, b3, b4] @ pad"
    by (simp add: arp_build_def to_be16_def ETHERTYPE_IPV4_def sha tha spa tpa)
  have w: "from_be16 0 1 = 1" "from_be16 8 0 = 0x800"
    by (simp_all add: from_be16_def)
  show "ArpView_parse (arp_build op sha spa tha tpa @ pad) =
      Some (ArpView (arp_build op sha spa tha tpa @ pad))"
    unfolding eq using assms
    by (auto simp: ArpView_parse_def ARP_LEN_def u16_at_def ETHERTYPE_IPV4_def w)
  show "ArpView_op (ArpView (arp_build op sha spa tha tpa @ pad)) = (if op = 1 then Request else Reply)"
    "ArpView_sha (ArpView (arp_build op sha spa tha tpa @ pad)) = sha"
    "ArpView_spa (ArpView (arp_build op sha spa tha tpa @ pad)) = spa"
    "ArpView_tha (ArpView (arp_build op sha spa tha tpa @ pad)) = tha"
    "ArpView_tpa (ArpView (arp_build op sha spa tha tpa @ pad)) = tpa"
    unfolding eq
    by (simp_all add: ArpView_op_def ArpView_sha_def ArpView_spa_def ArpView_tha_def
        ArpView_tpa_def u16_at_def mac_at_def ipv4_at_def sha spa tha tpa)
qed

section \<open>IPv4\<close>

definition ipv4_hdr :: "u16 \<Rightarrow> u16 \<Rightarrow> u8 \<Rightarrow> u8 \<Rightarrow> u16 \<Rightarrow> Ipv4Addr \<Rightarrow> Ipv4Addr \<Rightarrow> bytes" where
  "ipv4_hdr tot ident ttl proto c src dst =
     [0x45, 0] @ to_be16 tot @ to_be16 ident @ [0, 0, ttl, proto] @ to_be16 c @
     octets src @ octets dst"

lemma length_ipv4_hdr [simp]: "length (ipv4_hdr tot ident ttl proto c src dst) = 20"
  by (simp add: ipv4_hdr_def)

lemma ipv4_hdr_splice:
  "splice 10 (to_be16 c') (ipv4_hdr tot ident ttl proto c src dst) =
   ipv4_hdr tot ident ttl proto c' src dst"
  by (cases src; cases dst) (simp add: ipv4_hdr_def splice_def to_be16_def)

lemma ipv4_build_eq:
  "ipv4_build src dst proto ttl payload ident =
     (if 20 + length payload < 65536 then
        let tot = of_nat (20 + length payload);
            c = internet_checksum (ipv4_hdr tot ident ttl proto 0 src dst)
        in Some (ipv4_hdr tot ident ttl proto c src dst @ payload)
      else None)"
proof -
  have z: "[0x45] @ [0] @ to_be16 tot @ to_be16 ident @ [0, 0] @ [ttl] @ [proto] @ [0, 0] @
      octets src @ octets dst = ipv4_hdr tot ident ttl proto 0 src dst" for tot
    by (simp add: ipv4_hdr_def to_be16_def)
  show ?thesis
    unfolding ipv4_build_def z
    by (simp add: u16_try_from_def Let_def ipv4_hdr_splice IPV4_MIN_HEADER_LEN_def)
qed

lemma ipv4_hdr_checksum:
  "internet_checksum (ipv4_hdr tot ident ttl proto
     (internet_checksum (ipv4_hdr tot ident ttl proto 0 src dst)) src dst) = 0"
proof -
  let ?h = "ipv4_hdr tot ident ttl proto 0 src dst"
  have z: "take 2 (drop 10 ?h) = [0, 0]"
    by (simp add: ipv4_hdr_def to_be16_def)
  have "internet_checksum (splice 10 (to_be16 (internet_checksum ?h)) ?h) = 0"
    by (rule checksum_insert) (use z in auto)
  then show ?thesis by (simp add: ipv4_hdr_splice)
qed

lemma ipv4_hdr_view:
  assumes v: "v = Ipv4View (ipv4_hdr tot ident ttl proto c src dst @ rest)"
  shows "Ipv4View_header_len v = 20" "Ipv4View_total_len v = tot" "Ipv4View_id v = ident"
    "Ipv4View_ttl v = ttl" "Ipv4View_proto v = proto" "Ipv4View_src v = src"
    "Ipv4View_dst v = dst" "Ipv4View_header_checksum v = c" "Ipv4View_frag_offset v = 0"
    "Ipv4View_options v = []" "Ipv4View_version v = 4" "\<not> Ipv4View_more_fragments v"
    "\<not> Ipv4View_dont_fragment v"
  by (cases src; cases dst; simp add: v ipv4_hdr_def to_be16_def Ipv4View_header_len_def
      Ipv4View_ihl_def Ipv4View_total_len_def Ipv4View_id_def Ipv4View_ttl_def Ipv4View_proto_def
      Ipv4View_src_def Ipv4View_dst_def Ipv4View_header_checksum_def Ipv4View_frag_offset_def
      Ipv4View_options_def IPV4_MIN_HEADER_LEN_def Ipv4View_version_def Ipv4View_more_fragments_def
      Ipv4View_dont_fragment_def Ipv4View_flags_def u16_at_def ipv4_at_def)+

lemma ipv4_build_bounds: "ipv4_build src dst proto ttl payload ident = Some p \<Longrightarrow>
  length p = 20 + length payload \<and> 20 + length payload < 65536"
  by (auto simp: ipv4_build_eq Let_def split: if_splits)

lemma ipv4_build_Some_iff:
  "(\<exists>p. ipv4_build src dst proto ttl payload ident = Some p) \<longleftrightarrow> length payload < 65516"
  by (auto simp: ipv4_build_eq Let_def)

lemma ipv4_build_view:
  assumes "ipv4_build src dst proto ttl payload ident = Some p" and v_def: "v = Ipv4View (p @ pad)"
  shows "Ipv4View_parse (p @ pad) = Some v" "Ipv4View_src v = src" "Ipv4View_dst v = dst"
    "Ipv4View_proto v = proto" "Ipv4View_ttl v = ttl" "Ipv4View_id v = ident"
    "Ipv4View_payload v = payload" "Ipv4View_checksum_valid v" "Ipv4View_header_len v = 20"
    "unat (Ipv4View_total_len v) = length p" "\<not> Ipv4View_dont_fragment v"
    "\<not> Ipv4View_more_fragments v" "Ipv4View_frag_offset v = 0"
proof -
  let ?tot = "of_nat (20 + length payload) :: u16"
  let ?c = "internet_checksum (ipv4_hdr ?tot ident ttl proto 0 src dst)"
  from assms(1) have len: "20 + length payload < 65536"
    and p: "p = ipv4_hdr ?tot ident ttl proto ?c src dst @ payload"
    by (auto simp: ipv4_build_eq Let_def split: if_splits)
  have tot: "unat ?tot = 20 + length payload" using len by (rule unat_of_nat_u16)
  have v: "v = Ipv4View (ipv4_hdr ?tot ident ttl proto ?c src dst @ (payload @ pad))"
    by (simp add: v_def p)
  note view = ipv4_hdr_view [OF v]
  from view show "Ipv4View_src v = src" "Ipv4View_dst v = dst" "Ipv4View_proto v = proto"
    "Ipv4View_ttl v = ttl" "Ipv4View_id v = ident" "Ipv4View_header_len v = 20"
    "\<not> Ipv4View_dont_fragment v" "\<not> Ipv4View_more_fragments v" "Ipv4View_frag_offset v = 0"
    by simp_all
  have buf: "ip_buf v = ipv4_hdr ?tot ident ttl proto ?c src dst @ payload @ pad"
    by (simp add: v)
  show "Ipv4View_checksum_valid v"
    using view(1) ipv4_hdr_checksum [of ?tot ident ttl proto src dst]
    by (simp add: Ipv4View_checksum_valid_def buf)
  show "Ipv4View_payload v = payload"
    using view(1,2) tot by (simp add: Ipv4View_payload_def buf)
  show "unat (Ipv4View_total_len v) = length p" using view(2) tot by (simp add: p)
  have first: "(p @ pad) ! 0 = 0x45" by (simp add: p ipv4_hdr_def)
  show "Ipv4View_parse (p @ pad) = Some v"
    unfolding Ipv4View_parse_Some using view(1,2) tot
    by (simp add: v_def first) (simp add: p)
qed

section \<open>UDP\<close>

lemma length_pseudo_header [simp]: "length (pseudo_header src dst proto len) = 12"
  by (simp add: pseudo_header_def)

lemma splice_append_right:
  "length xs + off + length bs \<le> length xs + length ys \<Longrightarrow>
   splice (length xs + off) bs (xs @ ys) = xs @ splice off bs ys"
  by (simp add: splice_def)

lemma l4_checksum_insert:
  assumes "even off" "off + 2 \<le> length seg" "take 2 (drop off seg) = [0, 0]"
    and "l4_checksum src dst proto seg = Some c0" and "c = c0 \<or> c0 = 0 \<and> c = 0xFFFF"
  shows "l4_checksum src dst proto (splice off (to_be16 c) seg) = Some 0"
proof -
  let ?len = "of_nat (length seg) :: u16"
  let ?h = "pseudo_header src dst proto ?len"
  from assms(4) have short: "length seg < 65536" and c0: "c0 = internet_checksum (?h @ seg)"
    by (auto simp: l4_checksum_def u16_try_from_def split: if_splits)
  have move: "splice (12 + off) (to_be16 c) (?h @ seg) = ?h @ splice off (to_be16 c) seg"
    using splice_append_right [of ?h off "to_be16 c" seg] assms(2) by simp
  have "internet_checksum (splice (12 + off) (to_be16 c) (?h @ seg)) = 0"
    by (rule checksum_insert) (use assms short c0 in auto)
  with move short assms(2) show ?thesis
    by (simp add: l4_checksum_def u16_try_from_def)
qed

lemma udp_build_Some_iff:
  "(\<exists>p. udp_build sip dip sp dp payload = Some p) \<longleftrightarrow> length payload < 65528"
  by (auto simp: udp_build_def u16_try_from_def l4_checksum_def UDP_HEADER_LEN_def Let_def)

lemma length_udp_build: "udp_build sip dip sp dp payload = Some p \<Longrightarrow> length p = 8 + length payload"
  by (auto simp: udp_build_def UDP_HEADER_LEN_def Let_def split: option.splits)

lemma udp_build_view:
  assumes "udp_build sip dip sp dp payload = Some p" and v: "v = UdpView (p @ pad)"
  shows "UdpView_parse (p @ pad) = Some v" "UdpView_src_port v = sp" "UdpView_dst_port v = dp"
    "UdpView_payload v = payload" "UdpView_checksum_valid v sip dip" "UdpView_checksum v \<noteq> 0"
    "unat (UdpView_len v) = length p" "length p = 8 + length payload"
proof -
  let ?len = "of_nat (8 + length payload) :: u16"
  let ?q = "to_be16 sp @ to_be16 dp @ to_be16 ?len @ [0, 0] @ payload"
  from assms(1) have short: "8 + length payload < 65536"
    and "\<exists>c0. l4_checksum sip dip IPPROTO_UDP ?q = Some c0 \<and>
      p = splice 6 (to_be16 (if c0 = 0 then 0xFFFF else c0)) ?q"
    by (auto simp: udp_build_def u16_try_from_def UDP_HEADER_LEN_def Let_def
        split: if_splits option.splits)
  then obtain c0 where c0: "l4_checksum sip dip IPPROTO_UDP ?q = Some c0"
    and p1: "p = splice 6 (to_be16 (if c0 = 0 then 0xFFFF else c0)) ?q"
    by blast
  define c where c: "c = (if c0 = 0 then 0xFFFF else c0)"
  have p0: "p = splice 6 (to_be16 c) ?q" unfolding c by (rule p1)
  have "c \<noteq> 0" by (simp add: c)
  have p: "p = to_be16 sp @ to_be16 dp @ to_be16 ?len @ to_be16 c @ payload"
    by (simp add: p0 splice_def to_be16_def)
  have len: "unat ?len = 8 + length payload" using short by (rule unat_of_nat_u16)
  show plen: "length p = 8 + length payload" by (simp add: p)
  have buf: "udp_buf v = [ucast (drop_bit 8 sp), ucast sp, ucast (drop_bit 8 dp), ucast dp,
      ucast (drop_bit 8 ?len), ucast ?len, ucast (drop_bit 8 c), ucast c] @ payload @ pad"
    by (simp add: v p to_be16_def)
  have "UdpView_len v = ?len" by (simp add: UdpView_len_def buf u16_at_def)
  then have ulen: "unat (UdpView_len v) = 8 + length payload" by (simp only: len)
  show "UdpView_src_port v = sp" "UdpView_dst_port v = dp"
    by (simp_all add: UdpView_src_port_def UdpView_dst_port_def buf u16_at_def)
  show "UdpView_checksum v \<noteq> 0" using \<open>c \<noteq> 0\<close> by (simp add: UdpView_checksum_def buf u16_at_def)
  show "unat (UdpView_len v) = length p" using ulen plen by simp
  show "UdpView_payload v = payload"
    by (simp add: UdpView_payload_def UDP_HEADER_LEN_def ulen) (simp add: buf)
  show "UdpView_parse (p @ pad) = Some v"
    unfolding UdpView_parse_Some using ulen plen v by simp
  have "l4_checksum sip dip IPPROTO_UDP p = Some 0"
    unfolding p0 by (rule l4_checksum_insert [OF _ _ _ c0]) (auto simp: c to_be16_def)
  moreover have "take (unat (UdpView_len v)) (udp_buf v) = p"
    using ulen plen by (simp add: v)
  ultimately show "UdpView_checksum_valid v sip dip"
    by (simp add: UdpView_checksum_valid_def)
qed

section \<open>TCP\<close>

definition tcp_opts :: "TcpFields \<Rightarrow> bytes" where
  "tcp_opts f =
     (let opts = take 40 (tf_options f)
      in opts @ replicate (div_ceil (length opts) 4 * 4 - length opts) 0)"

definition tcp_hdr :: "TcpFields \<Rightarrow> u16 \<Rightarrow> bytes" where
  "tcp_hdr f c =
     to_be16 (tf_src_port f) @ to_be16 (tf_dst_port f) @ to_be32 (tf_seq f) @ to_be32 (tf_ack f) @
     [push_bit 4 (of_nat ((20 + length (tcp_opts f)) div 4)), tf_flags f] @
     to_be16 (tf_window f) @ to_be16 c @ [0, 0]"

lemma length_tcp_hdr [simp]: "length (tcp_hdr f c) = 20"
  by (simp add: tcp_hdr_def)

lemma div_ceil_4_bounds: "n \<le> div_ceil n 4 * 4" "div_ceil n 4 * 4 \<le> n + 3"
  by (simp_all add: div_ceil_def)

lemma length_tcp_opts: "length (tcp_opts f) = div_ceil (min (length (tf_options f)) 40) 4 * 4"
  using div_ceil_4_bounds(1) [of "min (length (tf_options f)) 40"]
  by (simp add: tcp_opts_def Let_def min.commute)

lemma length_tcp_opts_le: "length (tcp_opts f) \<le> 40"
  by (simp add: length_tcp_opts div_ceil_def)

lemma take_min_40: "take (min (length xs) 40) xs = take 40 xs"
  by (simp add: min_def)

lemma tcp_build_eq:
  "tcp_build sip dip f payload =
     (case l4_checksum sip dip IPPROTO_TCP (tcp_hdr f 0 @ tcp_opts f @ payload) of
        None \<Rightarrow> None
      | Some c \<Rightarrow> Some (tcp_hdr f c @ tcp_opts f @ payload))"
proof -
  let ?opts = "take 40 (tf_options f)"
  let ?hl = "20 + div_ceil (length ?opts) 4 * 4"
  let ?p = "to_be16 (tf_src_port f) @ to_be16 (tf_dst_port f) @ to_be32 (tf_seq f) @
    to_be32 (tf_ack f) @ [push_bit 4 (of_nat (?hl div 4))] @ [tf_flags f] @
    to_be16 (tf_window f) @ [0, 0] @ [0, 0] @ ?opts"
  have hl: "?hl = 20 + length (tcp_opts f)"
    by (simp add: length_tcp_opts min.commute)
  have lp: "?hl - length ?p = div_ceil (length ?opts) 4 * 4 - length ?opts" by simp
  have o: "tcp_opts f = ?opts @ replicate (div_ceil (length ?opts) 4 * 4 - length ?opts) 0"
    by (simp only: tcp_opts_def Let_def)
  have z: "to_be16 0 = [0, 0]" by (simp add: to_be16_def)
  have p: "?p @ replicate (?hl - length ?p) 0 = tcp_hdr f 0 @ tcp_opts f"
    unfolding lp tcp_hdr_def hl [symmetric] z by (simp only: o append_assoc append_Cons append_Nil)
  have sp: "splice 16 (to_be16 c) (tcp_hdr f 0 @ rest) = tcp_hdr f c @ rest" for c rest
    by (simp add: tcp_hdr_def splice_def to_be16_def to_be32_def)
  show ?thesis
    unfolding tcp_build_def Let_def TCP_MAX_OPTIONS_LEN_def TCP_MIN_HEADER_LEN_def take_min_40 p
    by (simp only: append_assoc sp)
qed

lemma tcp_offset_roundtrip: "k < 16 \<Longrightarrow> unat (drop_bit 4 (push_bit 4 (of_nat k :: u8))) = k"
proof -
  assume k: "k < 16"
  have "drop_bit 4 (push_bit 4 (of_nat k :: u8)) = take_bit 4 (of_nat k)"
    by (rule bit_word_eqI) (auto simp: bit_simps)
  also have "\<dots> = of_nat (take_bit 4 k)" by (simp add: of_nat_take_bit)
  finally show ?thesis using k by (simp add: unat_of_nat take_bit_nat_eq_self)
qed

lemma tcp_build_Some_iff:
  "(\<exists>p. tcp_build sip dip f payload = Some p) \<longleftrightarrow> 20 + length (tcp_opts f) + length payload < 65536"
  by (auto simp: tcp_build_eq l4_checksum_def u16_try_from_def)

lemma length_tcp_build:
  "tcp_build sip dip f payload = Some p \<Longrightarrow> length p = 20 + length (tcp_opts f) + length payload"
  by (auto simp: tcp_build_eq split: option.splits)

lemma tcp_build_view:
  assumes "tcp_build sip dip f payload = Some p" and v: "v = TcpView p"
  shows "TcpView_parse p = Some v" "TcpView_src_port v = tf_src_port f"
    "TcpView_dst_port v = tf_dst_port f" "TcpView_seq v = tf_seq f" "TcpView_ack v = tf_ack f"
    "TcpView_flags v = tf_flags f" "TcpView_window v = tf_window f"
    "TcpView_options v = tcp_opts f" "TcpView_payload v = payload"
    "TcpView_checksum_valid v sip dip"
proof -
  from assms(1) obtain c where
    c: "l4_checksum sip dip IPPROTO_TCP (tcp_hdr f 0 @ tcp_opts f @ payload) = Some c"
    and p: "p = tcp_hdr f c @ tcp_opts f @ payload"
    by (auto simp: tcp_build_eq split: option.splits)
  let ?k = "(20 + length (tcp_opts f)) div 4"
  have k4: "?k * 4 = 20 + length (tcp_opts f)"
    by (simp add: length_tcp_opts)
  have k: "?k < 16" using length_tcp_opts_le [of f] by simp
  have off: "TcpView_data_offset v = 20 + length (tcp_opts f)"
    using tcp_offset_roundtrip [OF k] k4
    by (simp add: TcpView_data_offset_def v p tcp_hdr_def to_be16_def to_be32_def)
  show "TcpView_parse p = Some v"
    unfolding TcpView_parse_Some using off by (simp add: v p)
  show "TcpView_src_port v = tf_src_port f" "TcpView_dst_port v = tf_dst_port f"
    "TcpView_seq v = tf_seq f" "TcpView_ack v = tf_ack f" "TcpView_flags v = tf_flags f"
    "TcpView_window v = tf_window f"
    by (simp_all add: TcpView_src_port_def TcpView_dst_port_def TcpView_seq_def TcpView_ack_def
        TcpView_flags_def TcpView_window_def u16_at_def u32_at_def v p tcp_hdr_def to_be16_def
        to_be32_def)
  show "TcpView_options v = tcp_opts f" "TcpView_payload v = payload"
    using off by (simp_all add: TcpView_options_def TcpView_payload_def TCP_MIN_HEADER_LEN_def v p)
  have sp: "splice 16 (to_be16 c) (tcp_hdr f 0 @ rest) = tcp_hdr f c @ rest" for c rest
    by (simp add: tcp_hdr_def splice_def to_be16_def to_be32_def)
  have "l4_checksum sip dip IPPROTO_TCP
      (splice 16 (to_be16 c) (tcp_hdr f 0 @ tcp_opts f @ payload)) = Some 0"
    by (rule l4_checksum_insert [OF _ _ _ c]) (auto simp: tcp_hdr_def to_be16_def to_be32_def)
  then show "TcpView_checksum_valid v sip dip" by (simp add: TcpView_checksum_valid_def sp v p)
qed

section \<open>ICMP\<close>

lemma icmp_build_view:
  assumes "length rest = 4" and v: "v = IcmpView (icmp_build ty code rest payload)"
  shows "IcmpView_parse (icmp_build ty code rest payload) = Some v" "IcmpView_icmp_type v = ty"
    "IcmpView_code v = code" "IcmpView_rest v = rest" "IcmpView_payload v = payload"
    "length (icmp_build ty code rest payload) = 8 + length payload"
    "length payload \<le> 65536 \<Longrightarrow> IcmpView_checksum_valid v"
proof -
  from assms(1) obtain r1 r2 r3 r4 where rest: "rest = [r1, r2, r3, r4]"
    by (auto simp: length_Suc_conv numeral_eq_Suc)
  let ?q = "[ty] @ [code] @ [0, 0] @ rest @ payload"
  let ?c = "internet_checksum ?q"
  have b: "icmp_build ty code [r1, r2, r3, r4] payload =
      [ty, code, ucast (drop_bit 8 ?c), ucast ?c, r1, r2, r3, r4] @ payload"
    by (simp add: icmp_build_def Let_def splice_def to_be16_def rest)
  show len: "length (icmp_build ty code rest payload) = 8 + length payload" by (simp add: rest b)
  then show "IcmpView_parse (icmp_build ty code rest payload) = Some v"
    by (simp add: IcmpView_parse_Some v)
  show "IcmpView_icmp_type v = ty" "IcmpView_code v = code" "IcmpView_rest v = rest"
    "IcmpView_payload v = payload"
    by (simp_all add: IcmpView_icmp_type_def IcmpView_code_def IcmpView_rest_def
        IcmpView_payload_def ICMP_HEADER_LEN_def v b rest)
  assume "length payload \<le> 65536"
  then have "internet_checksum (splice 2 (to_be16 ?c) ?q) = 0"
    by (intro checksum_insert) (auto simp: rest)
  then show "IcmpView_checksum_valid v"
    by (simp add: IcmpView_checksum_valid_def v icmp_build_def Let_def)
qed

lemmas frame_eval = ipv4_build_def udp_build_def tcp_build_def icmp_build_def eth_build_def
  u16_try_from_def to_be16_def to_be32_def from_be16_def from_be32_def splice_def l4_checksum_def
  pseudo_header_def internet_checksum_def fold_carries.simps frame_const_defs IPV4_MIN_HEADER_LEN_def
  UDP_HEADER_LEN_def TCP_MIN_HEADER_LEN_def TCP_MAX_OPTIONS_LEN_def ICMP_HEADER_LEN_def
  ICMP_ECHO_REPLY_def ICMP_ECHO_REQUEST_def ICMP_DEST_UNREACHABLE_def u16_at_def u32_at_def
  ipv4_at_def mac_at_def div_ceil_def

lemmas view_eval = EthView_parse_def EthView_dst_mac_def EthView_src_mac_def EthView_ethertype_def
  EthView_payload_def Ipv4View_parse_def Ipv4View_header_len_def Ipv4View_ihl_def
  Ipv4View_total_len_def Ipv4View_proto_def Ipv4View_src_def Ipv4View_dst_def Ipv4View_payload_def
  Ipv4View_ttl_def Ipv4View_id_def UdpView_parse_def UdpView_src_port_def UdpView_dst_port_def
  UdpView_len_def UdpView_payload_def TcpView_parse_def TcpView_data_offset_def
  TcpView_src_port_def TcpView_dst_port_def TcpView_flags_def TcpView_seq_def TcpView_ack_def
  TcpView_window_def TcpView_payload_def TcpView_options_def IcmpView_parse_def
  IcmpView_icmp_type_def IcmpView_code_def IcmpView_rest_def IcmpView_payload_def

section \<open>Properties of the frame layer\<close>

text \<open>
  A buffer whose zeroed, even-aligned 16-bit checksum field is overwritten with the buffer's
  internet checksum (or with all ones where that checksum is zero, as UDP does) verifies: its
  internet checksum is zero.
\<close>

theorem internet_checksum_self_verifies:
  assumes "even off" and "off + 2 \<le> length d" and "take 2 (drop off d) = [0, 0]"
    and "length d \<le> 131072"
    and "c = (if ones \<and> internet_checksum d = 0 then 0xFFFF else internet_checksum d)"
  shows "internet_checksum (splice off (to_be16 c) d) = 0"
  using assms by (intro checksum_insert) (auto split: if_splits)

theorem internet_checksum_self_verifies_witness:
  "internet_checksum [0x12, 0x34, 0, 0, 0xAB] = 0x42CB \<and>
   internet_checksum [0x12, 0x34, 0x42, 0xCB, 0xAB] = 0"
proof
  show c: "internet_checksum [0x12, 0x34, 0, 0, 0xAB] = 0x42CB"
    by (simp add: frame_eval)
  have "splice 2 (to_be16 0x42CB) [0x12, 0x34, 0, 0, 0xAB] = [0x12, 0x34, 0x42, 0xCB, 0xAB :: u8]"
    by (simp add: splice_def to_be16_def)
  then show "internet_checksum [0x12, 0x34, 0x42, 0xCB, 0xAB] = 0"
    using internet_checksum_self_verifies [of 2 "[0x12, 0x34, 0, 0, 0xAB]" "0x42CB" False] c
    by simp
qed

text \<open>
  C28: \<open>ipv4_build\<close> succeeds exactly when the packet fits the 16-bit total length, and its
  output, also with ethernet padding behind it, parses to a view with the given source,
  destination, protocol, TTL, identifier and payload and a valid header checksum.
\<close>

theorem ipv4_build_roundtrip:
  "case ipv4_build src dst proto ttl payload ident of
     None \<Rightarrow> 65536 \<le> 20 + length payload
   | Some p \<Rightarrow> length p = 20 + length payload \<and>
       (\<exists>v. Ipv4View_parse (p @ pad) = Some v \<and> Ipv4View_src v = src \<and> Ipv4View_dst v = dst \<and>
         Ipv4View_proto v = proto \<and> Ipv4View_ttl v = ttl \<and> Ipv4View_id v = ident \<and>
         Ipv4View_payload v = payload \<and> Ipv4View_checksum_valid v)"
proof (cases "ipv4_build src dst proto ttl payload ident")
  case None
  then have "\<not> length payload < 65516" using ipv4_build_Some_iff by (metis option.distinct(1))
  with None show ?thesis by simp
next
  case (Some p)
  with ipv4_build_view [OF Some refl, where pad = pad] ipv4_build_bounds [OF Some] show ?thesis by auto
qed

text \<open>
  A datagram built by \<open>udp_build\<close> parses, behind any padding, to the given ports and
  payload; its checksum field is never zero and verifies against the pseudo-header.
\<close>

theorem udp_build_roundtrip:
  assumes "udp_build sip dip sp dp payload = Some p"
  shows "\<exists>v. UdpView_parse (p @ pad) = Some v \<and> UdpView_src_port v = sp \<and> UdpView_dst_port v = dp \<and>
     UdpView_payload v = payload \<and> UdpView_checksum v \<noteq> 0 \<and> UdpView_checksum_valid v sip dip"
  using udp_build_view [OF assms, where pad = pad and v = "UdpView (p @ pad)"] by blast

theorem udp_build_roundtrip_witness:
  "\<exists>p v. udp_build (Ipv4Addr 10 0 0 1) (Ipv4Addr 10 0 0 2) 53 40000 [1, 2, 3] = Some p \<and>
     UdpView_parse (p @ [0]) = Some v \<and> UdpView_payload v = [1, 2, 3] \<and>
     UdpView_checksum_valid v (Ipv4Addr 10 0 0 1) (Ipv4Addr 10 0 0 2)"
proof -
  obtain p where p: "udp_build (Ipv4Addr 10 0 0 1) (Ipv4Addr 10 0 0 2) 53 40000 [1, 2, 3] = Some p"
    by (simp add: frame_eval)
  from udp_build_roundtrip [OF p, of "[0]"] p show ?thesis by blast
qed

text \<open>
  A segment built by \<open>tcp_build\<close> parses to the given ports, sequence numbers, flags, window
  and payload; its options are the given ones cut at 40 bytes and zero-padded to a multiple of
  four; its checksum verifies against the pseudo-header.
\<close>

theorem tcp_build_roundtrip:
  assumes "tcp_build sip dip f payload = Some p"
  shows "\<exists>v. TcpView_parse p = Some v \<and> TcpView_src_port v = tf_src_port f \<and>
     TcpView_dst_port v = tf_dst_port f \<and> TcpView_seq v = tf_seq f \<and> TcpView_ack v = tf_ack f \<and>
     TcpView_flags v = tf_flags f \<and> TcpView_window v = tf_window f \<and>
     take (min 40 (length (tf_options f))) (TcpView_options v) = take 40 (tf_options f) \<and>
     length (TcpView_options v) mod 4 = 0 \<and>
     set (drop (min 40 (length (tf_options f))) (TcpView_options v)) \<subseteq> {0} \<and>
     TcpView_payload v = payload \<and> TcpView_checksum_valid v sip dip"
proof -
  have o: "take (min 40 (length (tf_options f))) (tcp_opts f) = take 40 (tf_options f)"
    "set (drop (min 40 (length (tf_options f))) (tcp_opts f)) \<subseteq> {0}"
    by (auto simp: tcp_opts_def Let_def min.commute take_min_40)
  moreover have "length (tcp_opts f) mod 4 = 0" by (simp add: length_tcp_opts)
  ultimately show ?thesis
    using tcp_build_view [OF assms refl] by (intro exI [of _ "TcpView p"]) simp
qed

theorem tcp_build_roundtrip_witness:
  "\<exists>p v. tcp_build (Ipv4Addr 10 0 0 1) (Ipv4Addr 10 0 0 2)
      \<lparr>tf_src_port = 80, tf_dst_port = 4000, tf_seq = 7, tf_ack = 9, tf_flags = 0x12,
       tf_window = 1000, tf_options = [2, 4, 5]\<rparr> [1, 2, 3] = Some p \<and>
     TcpView_parse p = Some v \<and> TcpView_payload v = [1, 2, 3] \<and>
     TcpView_checksum_valid v (Ipv4Addr 10 0 0 1) (Ipv4Addr 10 0 0 2)"
proof -
  let ?f = "\<lparr>tf_src_port = 80, tf_dst_port = 4000, tf_seq = 7, tf_ack = 9, tf_flags = 0x12,
       tf_window = 1000, tf_options = [2, 4, 5]\<rparr>"
  have "20 + length (tcp_opts ?f) + 3 < 65536" using length_tcp_opts_le [of ?f] by simp
  then obtain p where p: "tcp_build (Ipv4Addr 10 0 0 1) (Ipv4Addr 10 0 0 2) ?f [1, 2, 3] = Some p"
    using tcp_build_Some_iff [of _ _ ?f "[1, 2, 3]"] by auto
  from tcp_build_roundtrip [OF p] p show ?thesis by blast
qed

text \<open>
  C15: \<open>icmp_echo_reply_for\<close> answers every well-formed echo request, and only those. The answer
  is a valid IPv4 packet from the pinged address back to the sender, with the request's
  identifier, carrying an echo reply with the request's rest-of-header and payload and a valid
  ICMP checksum.
\<close>

theorem icmp_echo_reply_correct:
  assumes ip: "Ipv4View_parse pkt = Some ip" and proto: "Ipv4View_proto ip = IPPROTO_ICMP"
    and icmp: "IcmpView_parse (Ipv4View_payload ip) = Some i"
  shows "case icmp_echo_reply_for pkt of
      None \<Rightarrow> \<not> (IcmpView_icmp_type i = ICMP_ECHO_REQUEST \<and> IcmpView_code i = 0)
    | Some r \<Rightarrow> IcmpView_icmp_type i = ICMP_ECHO_REQUEST \<and> IcmpView_code i = 0 \<and>
      (\<exists>v w. Ipv4View_parse r = Some v \<and> Ipv4View_src v = Ipv4View_dst ip \<and>
        Ipv4View_dst v = Ipv4View_src ip \<and> Ipv4View_id v = Ipv4View_id ip \<and>
        Ipv4View_proto v = IPPROTO_ICMP \<and> Ipv4View_checksum_valid v \<and>
        IcmpView_parse (Ipv4View_payload v) = Some w \<and> IcmpView_icmp_type w = ICMP_ECHO_REPLY \<and>
        IcmpView_code w = 0 \<and> IcmpView_rest w = IcmpView_rest i \<and>
        IcmpView_payload w = IcmpView_payload i \<and> IcmpView_checksum_valid w)"
proof -
  let ?m = "icmp_build ICMP_ECHO_REPLY 0 (IcmpView_rest i) (IcmpView_payload i)"
  have rest: "length (IcmpView_rest i) = 4" by (simp add: IcmpView_rest_def)
  note m = icmp_build_view [OF rest refl, where ty = ICMP_ECHO_REPLY and code = 0
      and payload = "IcmpView_payload i"]
  have eq: "icmp_echo_reply_for pkt =
      (if IcmpView_icmp_type i = ICMP_ECHO_REQUEST \<and> IcmpView_code i = 0
       then ipv4_build (Ipv4View_dst ip) (Ipv4View_src ip) IPPROTO_ICMP 64 ?m (Ipv4View_id ip)
       else None)"
    by (simp add: icmp_echo_reply_for_def ip proto icmp Let_def)
  have i: "icmp_buf i = Ipv4View_payload ip" "8 \<le> length (Ipv4View_payload ip)"
    using icmp by (auto simp: IcmpView_parse_Some)
  have "unat (Ipv4View_total_len ip) < 65536" by (rule unat_u16_bound)
  then have len: "length (IcmpView_payload i) + 8 \<le> 65515"
    using length_Ipv4View_payload [OF ip] ipv4_parse_bounds [OF ip] i
    by (simp add: IcmpView_payload_def ICMP_HEADER_LEN_def)
  then have "length ?m < 65516" using m(6) by simp
  then obtain q where q: "ipv4_build (Ipv4View_dst ip) (Ipv4View_src ip) IPPROTO_ICMP 64 ?m
      (Ipv4View_id ip) = Some q"
    using ipv4_build_Some_iff by blast
  show ?thesis
    using ipv4_build_view [OF q refl, where pad = "[]"] m len
    by (auto simp: eq q intro!: exI [of _ "Ipv4View q"])
qed

theorem icmp_echo_reply_correct_witness:
  "\<exists>r v. icmp_echo_reply_for [0x45, 0, 0, 30, 0, 9, 0, 0, 64, 1, 0, 0, 10, 0, 0, 2, 10, 0, 0, 1,
       8, 0, 0, 0, 0, 1, 0, 2, 0xAA, 0xBB] = Some r \<and> Ipv4View_parse r = Some v \<and>
     Ipv4View_src v = Ipv4Addr 10 0 0 1 \<and> Ipv4View_dst v = Ipv4Addr 10 0 0 2"
proof -
  let ?pkt = "[0x45, 0, 0, 30, 0, 9, 0, 0, 64, 1, 0, 0, 10, 0, 0, 2, 10, 0, 0, 1,
       8, 0, 0, 0, 0, 1, 0, 2, 0xAA, 0xBB] :: bytes"
  let ?ip = "Ipv4View ?pkt" and ?i = "IcmpView [8, 0, 0, 0, 0, 1, 0, 2, 0xAA, 0xBB]"
  have ip: "Ipv4View_parse ?pkt = Some ?ip" and pr: "Ipv4View_proto ?ip = IPPROTO_ICMP"
    and ic: "IcmpView_parse (Ipv4View_payload ?ip) = Some ?i"
    and ends: "Ipv4View_dst ?ip = Ipv4Addr 10 0 0 1" "Ipv4View_src ?ip = Ipv4Addr 10 0 0 2"
    and echo: "IcmpView_icmp_type ?i = ICMP_ECHO_REQUEST" "IcmpView_code ?i = 0"
    by (simp_all add: frame_eval view_eval)
  from icmp_echo_reply_correct [OF ip pr ic] show ?thesis
    by (auto simp: ends echo split: option.splits)
qed

section \<open>Reading fields of a patched buffer\<close>

lemma u16_at_splice_same [simp]:
  "off + 2 \<le> length out \<Longrightarrow> u16_at (splice off (to_be16 c) out) off = c"
  by (simp add: u16_at_def nth_splice to_be16_def)

lemma u16_at_cong: "b ! i = c ! i \<Longrightarrow> b ! Suc i = c ! Suc i \<Longrightarrow> u16_at b i = u16_at c i"
  by (simp add: u16_at_def)

lemma ipv4_at_splice_same [simp]:
  "off + 4 \<le> length out \<Longrightarrow> ipv4_at (splice off (octets a) out) off = a"
  by (cases a) (simp add: ipv4_at_def nth_splice)

lemma ipv4_at_cong:
  "b ! i = c ! i \<Longrightarrow> b ! (i + 1) = c ! (i + 1) \<Longrightarrow> b ! (i + 2) = c ! (i + 2) \<Longrightarrow>
   b ! (i + 3) = c ! (i + 3) \<Longrightarrow> ipv4_at b i = ipv4_at c i"
  by (simp add: ipv4_at_def)

end
