(* ===== verification/Dhcp_Lemmas.thy ===== *)
theory Dhcp_Lemmas
  imports Dhcp Frame_Lemmas
begin

text \<open>
  Properties of the DHCP server: leases are unique and come from the pool at every reachable
  state, an offer is refused only when the pool is exhausted, and every reply is a well-formed
  frame whose options read back.
\<close>

section \<open>The lease table\<close>

definition dynamic_ok :: "'n ipnet_ops \<Rightarrow> 'n DhcpConfig \<Rightarrow> Ipv4Addr \<Rightarrow> bool" where
  "dynamic_ok I cfg ip \<longleftrightarrow> net_contains I (dc_subnet cfg) ip \<and> ip \<noteq> dc_gateway cfg \<and>
     ip \<notin> set (hm_values (dc_reservations cfg)) \<and>
     (unat (net_prefix_len I (dc_subnet cfg)) < 31 \<longrightarrow>
        ip \<noteq> net_network I (dc_subnet cfg) \<and> ip \<noteq> net_broadcast I (dc_subnet cfg))"

definition entitled_ok :: "'n ipnet_ops \<Rightarrow> 'n DhcpConfig \<Rightarrow> MacAddr \<Rightarrow> Ipv4Addr \<Rightarrow> bool" where
  "entitled_ok I cfg mac ip \<longleftrightarrow>
     (case hm_get (dc_reservations cfg) mac of Some r \<Rightarrow> ip = r | None \<Rightarrow> dynamic_ok I cfg ip)"

definition reservations_ok :: "'n DhcpConfig \<Rightarrow> bool" where
  "reservations_ok cfg \<longleftrightarrow> hm_wf (dc_reservations cfg) \<and>
     distinct (hm_values (dc_reservations cfg))"

definition leases_inv :: "'n ipnet_ops \<Rightarrow> nat \<Rightarrow> 'n DhcpServer \<Rightarrow> bool" where
  "leases_inv I t s \<longleftrightarrow> hm_wf (ds_leases s) \<and>
     (\<forall>m ip. lease_of t s m = Some ip \<longrightarrow> entitled_ok I (ds_config s) m ip) \<and>
     (\<forall>m m' ip. lease_of t s m = Some ip \<longrightarrow> lease_of t s m' = Some ip \<longrightarrow> m = m')"

lemma lease_of_mono: "lease_of t' s m = Some ip \<Longrightarrow> t \<le> t' \<Longrightarrow> lease_of t s m = Some ip"
  by (auto simp: lease_of_def split: option.splits if_splits)

lemma leases_inv_mono: "leases_inv I t s \<Longrightarrow> t \<le> t' \<Longrightarrow> leases_inv I t' s"
  unfolding leases_inv_def using lease_of_mono by metis

lemma leases_inv_less:
  assumes "leases_inv I t s" "ds_config s' = ds_config s" "hm_wf (ds_leases s')"
    and "\<And>m ip. lease_of t s' m = Some ip \<Longrightarrow> lease_of t s m = Some ip"
  shows "leases_inv I t s'"
  using assms unfolding leases_inv_def by metis

lemma lease_of_grant:
  "lease_of t (grant now mac ip s) m =
     (if m = mac then
        (if t < now + unat (dc_lease_secs (ds_config s)) * 1000000000 then Some ip else None)
      else lease_of t s m)"
  by (simp add: lease_of_def grant_def)

lemma ds_config_ops [simp]:
  "ds_config (grant now mac ip s) = ds_config s" "ds_config (purge_expired now s) = ds_config s"
  "ds_config (on_decline s req) = ds_config s"
  by (simp_all add: grant_def purge_expired_def on_decline_def Let_def split: option.split)

lemma grant_inv:
  assumes inv: "leases_inv I t s" and t: "t \<le> now"
    and ent: "entitled_ok I (ds_config s) mac ip"
    and other: "\<And>m. lease_of now s m = Some ip \<Longrightarrow> m = mac"
  shows "leases_inv I now (grant now mac ip s)"
proof -
  note inv = leases_inv_mono [OF inv t]
  have "hm_wf (ds_leases (grant now mac ip s))" using inv by (simp add: leases_inv_def grant_def)
  with inv ent other show ?thesis
    unfolding leases_inv_def lease_of_grant by (auto split: if_splits)
qed

lemma reserved_other:
  assumes inv: "leases_inv I t s" and res: "reservations_ok (ds_config s)"
    and mac: "hm_get (dc_reservations (ds_config s)) mac = Some ip" and "lease_of t s m = Some ip"
  shows "m = mac"
proof -
  have mem: "(mac, ip) \<in> set (dc_reservations (ds_config s))" using mac by (rule hm_get_mem)
  have ent: "entitled_ok I (ds_config s) m ip" using inv assms(4) by (simp add: leases_inv_def)
  show ?thesis
  proof (cases "hm_get (dc_reservations (ds_config s)) m")
    case None
    then have "ip \<notin> set (hm_values (dc_reservations (ds_config s)))"
      using ent by (simp add: entitled_ok_def dynamic_ok_def)
    with mem show ?thesis by (force simp: hm_values_def)
  next
    case (Some r)
    then have "(m, ip) \<in> set (dc_reservations (ds_config s))"
      using ent hm_get_mem by (fastforce simp: entitled_ok_def)
    with mem res show ?thesis
      unfolding reservations_ok_def hm_values_def distinct_map inj_on_def
      by (metis prod.inject snd_conv)
  qed
qed

lemma alloc_free:
  assumes "alloc I t s = Some ip"
  shows "ip \<in> set (net_hosts I (dc_subnet (ds_config s)))" and "ip \<notin> alloc_taken t s"
  using assms by (auto simp: alloc_def find_Some_iff)

lemma alloc_None_iff:
  "alloc I t s = None \<longleftrightarrow> set (net_hosts I (dc_subnet (ds_config s))) \<subseteq> alloc_taken t s"
  by (auto simp: alloc_def find_None_iff)

lemma lease_of_value:
  "lease_of t s m = Some ip \<Longrightarrow> \<exists>l \<in> set (hm_values (ds_leases s)). l_ip l = ip \<and> l_expiry l > t"
  by (auto simp: lease_of_def hm_values_def image_iff dest!: hm_get_mem split: option.splits if_splits)
    force

lemma taken_not_leased: "ip \<notin> alloc_taken t s \<Longrightarrow> lease_of t s m \<noteq> Some ip"
  using lease_of_value by (fastforce simp: alloc_taken_def)

lemma requestable_not_leased: "requestable I t s ip \<Longrightarrow> lease_of t s m \<noteq> Some ip"
  using lease_of_value by (fastforce simp: requestable_def)

lemma alloc_dynamic_ok:
  assumes "ipv4net I" and "alloc I t s = Some ip"
  shows "dynamic_ok I (ds_config s) ip"
  using alloc_free [OF assms(2)] ipv4net.hosts_contained [OF assms(1)]
    ipv4net.hosts_proper [OF assms(1)]
  by (auto simp: dynamic_ok_def alloc_taken_def)

lemma requestable_dynamic_ok: "requestable I t s ip \<Longrightarrow> dynamic_ok I (ds_config s) ip"
  by (simp add: requestable_def dynamic_ok_def)

lemma ip_for_inv:
  assumes net: "ipv4net I" and res: "reservations_ok (ds_config s)" and inv: "leases_inv I t s"
    and t: "t \<le> t_lease" "t_lease \<le> t_avail" "t_avail \<le> now"
    and ip: "ip_for I t_lease t_avail s mac = Some ip"
  shows "leases_inv I now (grant now mac ip s)"
proof (rule grant_inv [OF inv])
  show "t \<le> now" using t by simp
  show "entitled_ok I (ds_config s) mac ip"
  proof (cases "hm_get (dc_reservations (ds_config s)) mac")
    case None
    then consider "lease_of t_lease s mac = Some ip" | "alloc I t_avail s = Some ip"
      using ip by (auto simp: ip_for_def split: option.splits)
    then show ?thesis
    proof cases
      case 1
      then show ?thesis using inv lease_of_mono [OF 1 t(1)] by (simp add: leases_inv_def)
    next
      case 2
      then show ?thesis using alloc_dynamic_ok [OF net 2] None by (simp add: entitled_ok_def)
    qed
  qed (use ip in \<open>simp add: entitled_ok_def ip_for_def\<close>)
next
  fix m assume m: "lease_of now s m = Some ip"
  have late: "lease_of t s m = Some ip" "lease_of t_avail s m = Some ip"
    using t by (auto intro: lease_of_mono [OF m])
  show "m = mac"
  proof (cases "hm_get (dc_reservations (ds_config s)) mac")
    case None
    then consider "lease_of t_lease s mac = Some ip" | "alloc I t_avail s = Some ip"
      using ip by (auto simp: ip_for_def split: option.splits)
    then show ?thesis
    proof cases
      case 1
      then show ?thesis using inv late(1) lease_of_mono [OF 1 t(1)] by (simp add: leases_inv_def)
    next
      case 2
      then show ?thesis using alloc_free(2) [OF 2] taken_not_leased late(2) by blast
    qed
  next
    case (Some r)
    then show ?thesis using reserved_other [OF inv res _ late(1)] ip by (simp add: ip_for_def)
  qed
qed

lemma granted_inv:
  assumes res: "reservations_ok (ds_config s)" and inv: "leases_inv I t s"
    and t: "t \<le> t_lease" "t_lease \<le> t_avail" "t_avail \<le> now"
    and ip: "granted_address I t_lease t_avail s req = Some ip"
  shows "leases_inv I now (grant now (bq_chaddr req) ip s)"
proof -
  consider (res) "hm_get (dc_reservations (ds_config s)) (bq_chaddr req) = Some ip"
    | (lease) "hm_get (dc_reservations (ds_config s)) (bq_chaddr req) = None"
        "lease_of t_lease s (bq_chaddr req) = Some ip"
    | (free) "hm_get (dc_reservations (ds_config s)) (bq_chaddr req) = None"
        "requestable I t_avail s ip"
    using ip by (auto simp: granted_address_def Let_def split: option.splits if_splits)
  then show ?thesis
  proof cases
    case res
    then show ?thesis
      using t reserved_other [OF inv assms(1) res] lease_of_mono [of now s _ ip t]
      by (intro grant_inv [OF inv]) (auto simp: entitled_ok_def)
  next
    case lease
    then show ?thesis
      using t inv lease_of_mono [OF lease(2) t(1)] lease_of_mono [of now s _ ip t]
      by (intro grant_inv [OF inv]) (auto simp: leases_inv_def)
  next
    case free
    then show ?thesis
      using t requestable_not_leased [OF free(2)] lease_of_mono [of now s _ ip t_avail]
        requestable_dynamic_ok [OF free(2)]
      by (intro grant_inv [OF inv]) (auto simp: entitled_ok_def)
  qed
qed

section \<open>Runs of the server\<close>

datatype 'n DhcpEvent =
    FrameIn (ev_purge: nat) (ev_lease: nat) (ev_avail: nat) (ev_grant: nat) (ev_frame: bytes)
  | SetRoutes "('n \<times> Ipv4Addr) list"

fun dhcp_step :: "'n ipnet_ops \<Rightarrow> 'n DhcpServer \<times> nat \<Rightarrow> 'n DhcpEvent \<Rightarrow> 'n DhcpServer \<times> nat" where
  "dhcp_step I (s, t) (FrameIn t_purge t_lease t_avail t_grant f) =
     (fst (DhcpServer_handle I t_purge t_lease t_avail t_grant s f), t_grant)"
| "dhcp_step I (s, t) (SetRoutes routes) = (set_routes routes s, t)"

text \<open>The clock is monotonic: each reading is no earlier than the ones before it.\<close>

fun clock_ok :: "'n DhcpServer \<times> nat \<Rightarrow> 'n DhcpEvent \<Rightarrow> bool" where
  "clock_ok (s, t) (FrameIn t_purge t_lease t_avail t_grant f) \<longleftrightarrow>
     t \<le> t_purge \<and> t_purge \<le> t_lease \<and> t_lease \<le> t_avail \<and> t_avail \<le> t_grant"
| "clock_ok (s, t) (SetRoutes routes) \<longleftrightarrow> True"

fun dhcp_inv :: "'n ipnet_ops \<Rightarrow> 'n DhcpServer \<times> nat \<Rightarrow> bool" where
  "dhcp_inv I (s, t) \<longleftrightarrow> ipv4net I \<and> reservations_ok (ds_config s) \<and> leases_inv I t s"

lemma remove_inv:
  "leases_inv I t s \<Longrightarrow> leases_inv I t (s\<lparr>ds_leases := hm_remove m (ds_leases s)\<rparr>)"
  by (rule leases_inv_less) (auto simp: leases_inv_def lease_of_def split: if_splits)

lemma purge_inv: "leases_inv I t s \<Longrightarrow> leases_inv I t (purge_expired now s)"
  by (rule leases_inv_less)
    (auto simp: leases_inv_def lease_of_def purge_expired_def hm_get_retain
      split: if_splits option.splits)

lemma decline_inv: "leases_inv I t s \<Longrightarrow> leases_inv I t (on_decline s req)"
  by (rule leases_inv_less)
    (auto simp: leases_inv_def lease_of_def on_decline_def Let_def split: if_splits option.splits)

lemma on_discover_inv:
  assumes "ipv4net I" "reservations_ok (ds_config s)" "leases_inv I t s"
    and "t \<le> t_lease" "t_lease \<le> t_avail" "t_avail \<le> now"
  shows "leases_inv I now (fst (on_discover I t_lease t_avail now s req))"
  using assms ip_for_inv [OF assms, of "bq_chaddr req"] leases_inv_mono [OF assms(3), of now]
  by (auto simp: on_discover_def Let_def split: option.split)

lemma on_request_inv:
  assumes "reservations_ok (ds_config s)" "leases_inv I t s"
    and "t \<le> t_lease" "t_lease \<le> t_avail" "t_avail \<le> now"
  shows "leases_inv I now (fst (on_request I t_lease t_avail now s req))"
  using assms granted_inv [OF assms, of req] leases_inv_mono [OF assms(2), of now]
    remove_inv [of I now s "bq_chaddr req"]
  by (auto simp: on_request_def Let_def split: option.split)

lemma ds_config_discover [simp]: "ds_config (fst (on_discover I a b c s req)) = ds_config s"
  by (simp add: on_discover_def Let_def split: option.split)

lemma ds_config_request [simp]: "ds_config (fst (on_request I a b c s req)) = ds_config s"
  by (simp add: on_request_def Let_def split: option.split)

lemma dynamic_ok_routes [simp]: "dynamic_ok I (cfg\<lparr>dc_routes := r\<rparr>) = dynamic_ok I cfg"
  by (simp add: fun_eq_iff dynamic_ok_def)

lemma set_routes_inv: "leases_inv I t (set_routes routes s) = leases_inv I t s"
proof -
  have "lease_of t (set_routes routes s) = lease_of t s"
    by (simp add: fun_eq_iff set_routes_def lease_of_def)
  moreover have "entitled_ok I (ds_config (set_routes routes s)) = entitled_ok I (ds_config s)"
    by (simp add: fun_eq_iff set_routes_def entitled_ok_def split: option.split)
  ultimately show ?thesis by (simp add: leases_inv_def) (simp add: set_routes_def)
qed

lemma handle_inv:
  assumes net: "ipv4net I" and res: "reservations_ok (ds_config s)" and inv: "leases_inv I t s"
    and t: "t \<le> t_purge" "t_purge \<le> t_lease" "t_lease \<le> t_avail" "t_avail \<le> now"
  shows "leases_inv I now (fst (DhcpServer_handle I t_purge t_lease t_avail now s f)) \<and>
    ds_config (fst (DhcpServer_handle I t_purge t_lease t_avail now s f)) = ds_config s"
proof -
  let ?s = "purge_expired t_purge s"
  have late: "leases_inv I now s" using leases_inv_mono [OF inv] t by simp
  have p: "leases_inv I t_purge ?s" using purge_inv leases_inv_mono [OF inv t(1)] .
  then have pl: "leases_inv I now ?s" using leases_inv_mono t by fastforce
  have res': "reservations_ok (ds_config ?s)" using res by simp
  note steps = on_discover_inv [OF net res' p t(2-4)] on_request_inv [OF res' p t(2-4)]
    remove_inv [OF pl] decline_inv [OF pl]
  show ?thesis
    using late pl steps by (simp add: DhcpServer_handle_def Let_def split: option.split)
qed

interpretation dhcp_run: event_machine "dhcp_step I" clock_ok "dhcp_inv I" for I :: "'n ipnet_ops"
proof unfold_locales
  fix st :: "'n DhcpServer \<times> nat" and e
  assume inv: "dhcp_inv I st" and ok: "clock_ok st e"
  obtain s t where st: "st = (s, t)" by (cases st)
  show "dhcp_inv I (dhcp_step I st e)"
  proof (cases e)
    case (FrameIn a b c d f)
    then show ?thesis using handle_inv [of I s t a b c d f] inv ok st by simp
  next
    case (SetRoutes routes)
    have "leases_inv I t (set_routes routes s)" using inv st by (simp add: set_routes_inv)
    with SetRoutes show ?thesis using inv st by (simp add: set_routes_def reservations_ok_def)
  qed
qed

fun clocks_ok :: "nat \<Rightarrow> 'n DhcpEvent list \<Rightarrow> bool" where
  "clocks_ok t [] = True"
| "clocks_ok t (FrameIn t_purge t_lease t_avail t_grant f # es) \<longleftrightarrow>
     t \<le> t_purge \<and> t_purge \<le> t_lease \<and> t_lease \<le> t_avail \<and> t_avail \<le> t_grant \<and> clocks_ok t_grant es"
| "clocks_ok t (SetRoutes r # es) \<longleftrightarrow> clocks_ok t es"

lemma clocks_run_ok: "clocks_ok t es \<Longrightarrow> dhcp_run.run_ok I (s, t) es"
proof (induction es arbitrary: s t)
  case (Cons e es)
  then show ?case by (cases e) auto
qed simp

lemma dhcp_reachable:
  assumes "ipv4net I" "reservations_ok cfg" "clocks_ok 0 es"
    and "foldl (dhcp_step I) (DhcpServer_new cfg, 0) es = (s, t)"
  shows "leases_inv I t s"
proof -
  have "dhcp_inv I (DhcpServer_new cfg, 0)"
    using assms by (simp add: DhcpServer_new_def leases_inv_def lease_of_def)
  from dhcp_run.run_inv [OF this clocks_run_ok [OF assms(3)]] show ?thesis
    by (simp add: assms(4))
qed

section \<open>Options read back\<close>

text \<open>What the option walker does with one well-formed option.\<close>

fun opt_update ::
  "u8 \<Rightarrow> bytes \<Rightarrow> u8 option \<times> Ipv4Addr option \<times> Ipv4Addr option \<Rightarrow>
   u8 option \<times> Ipv4Addr option \<times> Ipv4Addr option" where
  "opt_update code val (mt, rq, sid) =
     (if code = OPT_MSG_TYPE \<and> length val = 1 then (Some (val ! 0), rq, sid)
      else if code = OPT_REQUESTED_IP \<and> length val = 4 then (mt, Some (ipv4_from val), sid)
      else if code = OPT_SERVER_ID \<and> length val = 4 then (mt, rq, Some (ipv4_from val))
      else (mt, rq, sid))"

lemma length_opt [simp]: "length (opt c v) = 2 + length v"
  by (simp add: opt_def)

lemma parse_options_opt:
  assumes "length v < 256" "c \<noteq> OPT_PAD" "c \<noteq> OPT_END" and p: "p = pre @ opt c v @ rest"
    and i: "i = length pre"
  shows "parse_options p i st = parse_options p (i + length (opt c v)) (opt_update c v st)"
proof -
  obtain mt rq sid where st: "st = (mt, rq, sid)" by (cases st)
  have len: "unat (of_nat (length v) :: u8) = length v"
    using assms(1) by (simp add: unat_of_nat take_bit_nat_eq_self)
  have at: "p ! i = c" "slice_get p (i + 1) = Some (of_nat (length v))"
    "slice_range p (i + 2) (i + 2 + length v) = Some v" "i < length p"
    by (simp_all add: p i opt_def nth_append slice_get_def slice_range_def)
  show ?thesis
    unfolding st by (subst parse_options.simps) (use assms(1-3) at len in \<open>simp add: Let_def\<close>)
qed

lemma parse_options_end:
  "p ! i = OPT_END \<Longrightarrow> i < length p \<Longrightarrow> parse_options p i st = Some st"
  by (cases st) (simp add: parse_options.simps [of p i] dhcp_const_defs)

text \<open>A sequence of options closed by the end marker: the updates are applied in order.\<close>

definition encode_opts :: "(u8 \<times> bytes) list \<Rightarrow> bytes" where
  "encode_opts os = concat (map (\<lambda>(c, v). opt c v) os)"

definition opts_ok :: "(u8 \<times> bytes) list \<Rightarrow> bool" where
  "opts_ok os \<longleftrightarrow> (\<forall>(c, v) \<in> set os. length v < 256 \<and> c \<noteq> OPT_PAD \<and> c \<noteq> OPT_END)"

lemma parse_encode_opts:
  assumes "opts_ok os" and "p = pre @ encode_opts os @ OPT_END # rest" and "i = length pre"
  shows "parse_options p i st = Some (fold (\<lambda>(c, v). opt_update c v) os st)"
  using assms
proof (induction os arbitrary: pre i st)
  case Nil
  then show ?case by (simp add: encode_opts_def parse_options_end)
next
  case (Cons cv os)
  obtain c v where cv: "cv = (c, v)" by (cases cv)
  have p: "p = pre @ opt c v @ encode_opts os @ OPT_END # rest"
    using Cons.prems by (simp add: encode_opts_def cv)
  have "parse_options p i st = parse_options p (i + length (opt c v)) (opt_update c v st)"
    by (rule parse_options_opt [OF _ _ _ p]) (use Cons.prems cv in \<open>auto simp: opts_ok_def\<close>)
  also have "\<dots> = Some (fold (\<lambda>(c, v). opt_update c v) os (opt_update c v st))"
    by (rule Cons.IH [of "pre @ opt c v"]) (use Cons.prems cv p in \<open>auto simp: opts_ok_def\<close>)
  finally show ?case by (simp add: cv)
qed

definition reply_opts :: "'n ipnet_ops \<Rightarrow> 'n DhcpConfig \<Rightarrow> u8 \<Rightarrow> (u8 \<times> bytes) list" where
  "reply_opts I cfg msg_type =
     [(OPT_MSG_TYPE, [msg_type]), (OPT_SERVER_ID, octets (dc_gateway cfg))] @
     (if msg_type = DHCP_NAK then [] else
       [(OPT_LEASE_TIME, to_be32 (dc_lease_secs cfg)),
        (OPT_SUBNET_MASK, octets (net_netmask I (dc_subnet cfg))),
        (OPT_ROUTER, octets (dc_router cfg))] @
       (case dc_dns_server cfg of Some dns \<Rightarrow> [(OPT_DNS, octets dns)] | None \<Rightarrow> []) @
       (case dc_domain cfg of Some domain \<Rightarrow> [(OPT_DOMAIN, as_bytes domain)] | None \<Rightarrow> []) @
       (if dc_mtu cfg \<noteq> 1500 then [(OPT_MTU, to_be16 (dc_mtu cfg))] else []) @
       (if dc_routes cfg \<noteq> []
        then [(OPT_CLASSLESS_ROUTES, encode_classless_routes I (offered_routes I cfg))] else []))"

text \<open>The two variable-length options fit their length byte.\<close>

definition options_fit :: "'n ipnet_ops \<Rightarrow> 'n DhcpConfig \<Rightarrow> bool" where
  "options_fit I cfg \<longleftrightarrow> (\<forall>d. dc_domain cfg = Some d \<longrightarrow> length d < 256) \<and>
     length (encode_classless_routes I (offered_routes I cfg)) < 256"

definition reply_head :: "'n DhcpConfig \<Rightarrow> BootpRequest \<Rightarrow> u8 \<Rightarrow> Ipv4Addr \<Rightarrow> bytes" where
  "reply_head cfg req msg_type yiaddr =
     [BOOTREPLY, 1, 6, 0] @ to_be32 (bq_xid req) @ [0, 0] @ to_be16 (bq_flags req) @
     octets (if msg_type = DHCP_ACK then bq_ciaddr req else UNSPECIFIED) @ octets yiaddr @
     octets (dc_gateway cfg) @ octets (bq_giaddr req) @ mac_octets (bq_chaddr req) @
     replicate 10 0 @ replicate 64 0 @ replicate 128 0 @ MAGIC_COOKIE"

lemma length_reply_head [simp]: "length (reply_head cfg req mt ya) = 240"
  by (simp add: reply_head_def MAGIC_COOKIE_def)

lemma reply_body_eq:
  "reply_body I cfg req mt ya = reply_head cfg req mt ya @ encode_opts (reply_opts I cfg mt) @ [OPT_END]"
  by (simp add: reply_body_def reply_head_def reply_opts_def encode_opts_def lease_options_def Let_def
      split: option.split)

lemma reply_opts_ok: "options_fit I cfg \<Longrightarrow> opts_ok (reply_opts I cfg mt)"
  by (auto simp: reply_opts_def opts_ok_def options_fit_def dhcp_const_defs as_bytes_def
      split: option.splits)

lemma opt_update_other:
  "c \<noteq> OPT_MSG_TYPE \<Longrightarrow> c \<noteq> OPT_REQUESTED_IP \<Longrightarrow> c \<noteq> OPT_SERVER_ID \<Longrightarrow> opt_update c v st = st"
  by (cases st) simp

lemma ipv4_from_octets [simp]: "ipv4_from (octets a) = a"
  by (cases a) (simp add: ipv4_from_def)

lemma fold_reply_opts:
  "fold (\<lambda>(c, v). opt_update c v) (reply_opts I cfg mt) st =
     (Some mt, fst (snd st), Some (dc_gateway cfg))"
  by (cases st) (auto simp: reply_opts_def opt_update_other dhcp_const_defs split: option.split)

lemma reply_body_options:
  "options_fit I cfg \<Longrightarrow>
   parse_options (reply_body I cfg req mt ya) 240 (None, None, None) =
     Some (Some mt, None, Some (dc_gateway cfg))"
  using parse_encode_opts [OF reply_opts_ok [of I cfg mt], of _ "reply_head cfg req mt ya" "[]" 240]
  by (simp add: reply_body_eq fold_reply_opts)

lemma length_reply_body: "options_fit I cfg \<Longrightarrow> length (reply_body I cfg req mt ya) \<le> 796"
  by (auto simp: reply_body_def lease_options_def options_fit_def as_bytes_def MAGIC_COOKIE_def Let_def
      split: option.splits)

lemma reply_body_yiaddr:
  "ipv4_at (reply_body I cfg req mt ya) 16 = ya" "u32_at (reply_body I cfg req mt ya) 4 = bq_xid req"
  "mac_at (reply_body I cfg req mt ya) 28 = bq_chaddr req"
  "reply_body I cfg req mt ya ! 0 = BOOTREPLY"
  by (cases ya; cases "bq_chaddr req"; cases "dc_gateway cfg"; cases "bq_giaddr req";
      cases "bq_ciaddr req";
      simp add: reply_body_def ipv4_at_def u32_at_def mac_at_def to_be32_def to_be16_def
        UNSPECIFIED_def)+

section \<open>Requests of clients\<close>

text \<open>
  The BOOTP body of a client with the given options and anything behind the end marker, and the
  frame that carries it.
\<close>

definition client_head :: "u32 \<Rightarrow> u16 \<Rightarrow> Ipv4Addr \<Rightarrow> Ipv4Addr \<Rightarrow> MacAddr \<Rightarrow> bytes" where
  "client_head xid flags ciaddr giaddr chaddr =
     [BOOTREQUEST, 1, 6, 0] @ to_be32 xid @ [0, 0] @ to_be16 flags @ octets ciaddr @
     octets UNSPECIFIED @ octets UNSPECIFIED @ octets giaddr @ mac_octets chaddr @
     replicate 202 0 @ MAGIC_COOKIE"

lemma length_client_head [simp]: "length (client_head xid flags ci gi ch) = 240"
  by (simp add: client_head_def MAGIC_COOKIE_def)

definition client_body ::
  "u32 \<Rightarrow> u16 \<Rightarrow> Ipv4Addr \<Rightarrow> Ipv4Addr \<Rightarrow> MacAddr \<Rightarrow> (u8 \<times> bytes) list \<Rightarrow> bytes \<Rightarrow> bytes" where
  "client_body xid flags ciaddr giaddr chaddr os rest =
     client_head xid flags ciaddr giaddr chaddr @ encode_opts os @ OPT_END # rest"

definition client_frame :: "MacAddr \<Rightarrow> Ipv4Addr \<Rightarrow> bytes \<Rightarrow> bytes option" where
  "client_frame mac src body =
     Option.bind (udp_build src BROADCAST DHCP_CLIENT_PORT DHCP_SERVER_PORT body) (\<lambda>u.
       map_option (eth_build MAC_BROADCAST mac ETHERTYPE_IPV4)
         (ipv4_build src BROADCAST IPPROTO_UDP 64 u 1))"

lemma client_body_fields:
  assumes "b = client_body xid flags ci gi ch os rest"
  shows "240 \<le> length b" "b ! 0 = BOOTREQUEST" "b ! 1 = 1" "b ! 2 = 6"
    "take 4 (drop 236 b) = MAGIC_COOKIE" "from_be32 (b ! 4) (b ! 5) (b ! 6) (b ! 7) = xid"
    "from_be16 (b ! 10) (b ! 11) = flags" "ipv4_from (take 4 (drop 12 b)) = ci"
    "ipv4_from (take 4 (drop 24 b)) = gi" "mac_at b 28 = ch"
  unfolding assms client_body_def client_head_def
  by (cases ci; cases gi; cases ch;
      simp add: to_be32_def to_be16_def UNSPECIFIED_def MAGIC_COOKIE_def ipv4_from_def mac_at_def
        nth_append)+

lemma parse_client_body:
  assumes "opts_ok os"
  shows "parse_bootp (client_body xid flags ci gi ch os rest) =
    (case fold (\<lambda>(c, v). opt_update c v) os (None, None, None) of
       (None, _, _) \<Rightarrow> None
     | (Some mt, rq, sid) \<Rightarrow> Some \<lparr>bq_xid = xid, bq_flags = flags, bq_ciaddr = ci, bq_giaddr = gi,
         bq_chaddr = ch, bq_msg_type = mt, bq_requested_ip = rq, bq_server_id = sid\<rparr>)"
proof -
  note f = client_body_fields [OF refl, where xid = xid and flags = flags and ci = ci and gi = gi and
      ch = ch and os = os and rest = rest]
  have "parse_options (client_body xid flags ci gi ch os rest) 240 (None, None, None) =
    Some (fold (\<lambda>(c, v). opt_update c v) os (None, None, None))"
    by (rule parse_encode_opts [OF assms client_body_def]) simp
  then show ?thesis using f
    by (simp add: parse_bootp_def BOOTP_MIN_LEN_def split: option.split prod.split)
qed

lemma handle_client_frame:
  assumes "client_frame mac src body = Some f" and "parse_bootp body = Some req"
  shows "DhcpServer_handle I t_purge t_lease t_avail t_grant s f =
    (let s = purge_expired t_purge s in
     if bq_msg_type req = DHCP_DISCOVER then on_discover I t_lease t_avail t_grant s req
     else if bq_msg_type req = DHCP_REQUEST then on_request I t_lease t_avail t_grant s req
     else if bq_msg_type req = DHCP_RELEASE then
       (s\<lparr>ds_leases := hm_remove (bq_chaddr req) (ds_leases s)\<rparr>, None)
     else if bq_msg_type req = DHCP_DECLINE then (on_decline s req, None)
     else (s, None))"
proof -
  obtain u p where u: "udp_build src BROADCAST DHCP_CLIENT_PORT DHCP_SERVER_PORT body = Some u"
    and p: "ipv4_build src BROADCAST IPPROTO_UDP 64 u 1 = Some p"
    and f: "f = eth_build MAC_BROADCAST mac ETHERTYPE_IPV4 p"
    using assms(1) by (auto simp: client_frame_def bind_eq_Some_conv)
  show ?thesis
    using ipv4_build_view [OF p refl, where pad = "[]"] assms(2)
      udp_build_view [OF u, where pad = "[]" and v = "UdpView u"]
    by (simp add: DhcpServer_handle_def f)
qed

lemma client_frame_Some: "length body < 65508 \<Longrightarrow> \<exists>f. client_frame mac src body = Some f"
proof -
  assume len: "length body < 65508"
  then obtain u where u: "udp_build src BROADCAST DHCP_CLIENT_PORT DHCP_SERVER_PORT body = Some u"
    using udp_build_Some_iff [of src BROADCAST DHCP_CLIENT_PORT DHCP_SERVER_PORT body] by auto
  have "length u < 65516" using length_udp_build [OF u] len by simp
  then obtain p where "ipv4_build src BROADCAST IPPROTO_UDP 64 u 1 = Some p"
    using ipv4_build_Some_iff by blast
  with u show ?thesis by (auto simp: client_frame_def)
qed

section \<open>Properties of the DHCP server\<close>

definition sample_cfg :: "Cidr DhcpConfig" where
  "sample_cfg = (DhcpConfig_new (Cidr (Ipv4Addr 10 0 0 0) 30) (Ipv4Addr 10 0 0 1)
     (MacAddr 0x52 0x56 0 0 0 1))\<lparr>dc_routes := [(Cidr (Ipv4Addr 192 168 7 0) 24, Ipv4Addr 10 0 0 2)]\<rparr>"

definition sample_req :: "u8 \<Rightarrow> Ipv4Addr option \<Rightarrow> BootpRequest" where
  "sample_req mt rq = \<lparr>bq_xid = 7, bq_flags = 0, bq_ciaddr = UNSPECIFIED, bq_giaddr = UNSPECIFIED,
     bq_chaddr = MacAddr 2 0 0 0 0 9, bq_msg_type = mt, bq_requested_ip = rq, bq_server_id = None\<rparr>"

lemma sample_cfg_ok: "reservations_ok sample_cfg" "options_fit cidr_net sample_cfg"
  by (simp_all add: sample_cfg_def DhcpConfig_new_def reservations_ok_def hm_values_def options_fit_def
      offered_routes_def cidr_net_def cidr_prefix_def div_ceil_def unat_of_nat)

lemma sample_hosts:
  "net_hosts cidr_net (dc_subnet sample_cfg) = [Ipv4Addr 10 0 0 1, Ipv4Addr 10 0 0 2]"
  by (simp add: cidr_net_def sample_cfg_def DhcpConfig_new_def cidr_hosts_def cidr_lo_def cidr_hi_def
      host_bits_def cidr_prefix_def from_be32_def upt_rec ip_of_nat_def ip_of_u32_def)

lemma sample_taken: "alloc_taken t (DhcpServer_new sample_cfg) = {Ipv4Addr 10 0 0 1}"
  by (simp add: alloc_taken_def DhcpServer_new_def sample_cfg_def DhcpConfig_new_def hm_values_def)

lemma sample_run:
  obtains f where "clocks_ok 0 ([FrameIn 1 2 3 4 f] :: Cidr DhcpEvent list)"
    and "foldl (dhcp_step cidr_net) (DhcpServer_new sample_cfg, 0) [FrameIn 1 2 3 4 f] =
      (grant 4 (MacAddr 2 0 0 0 0 9) (Ipv4Addr 10 0 0 2) (DhcpServer_new sample_cfg), 4)"
proof -
  let ?b = "client_body 7 0 UNSPECIFIED UNSPECIFIED (MacAddr 2 0 0 0 0 9) [(OPT_MSG_TYPE, [DHCP_DISCOVER])] []"
  let ?s = "DhcpServer_new sample_cfg"
  have "length ?b < 65508" by (simp add: client_body_def encode_opts_def)
  then obtain f where f: "client_frame (MacAddr 2 0 0 0 0 9) UNSPECIFIED ?b = Some f"
    using client_frame_Some by blast
  have req: "parse_bootp ?b = Some (sample_req DHCP_DISCOVER None)"
    by (subst parse_client_body) (simp_all add: opts_ok_def sample_req_def dhcp_const_defs)
  have purge: "purge_expired 1 ?s = ?s"
    by (simp add: purge_expired_def DhcpServer_new_def hm_retain_def)
  have "ip_for cidr_net 2 3 ?s (MacAddr 2 0 0 0 0 9) = Some (Ipv4Addr 10 0 0 2)"
  proof -
    have "hm_get (dc_reservations (ds_config ?s)) (MacAddr 2 0 0 0 0 9) = None"
      "lease_of 2 ?s (MacAddr 2 0 0 0 0 9) = None" "ds_config ?s = sample_cfg"
      by (simp_all add: DhcpServer_new_def sample_cfg_def DhcpConfig_new_def lease_of_def)
    then show ?thesis using sample_hosts sample_taken by (simp add: ip_for_def alloc_def)
  qed
  then show ?thesis
    using handle_client_frame [OF f req, of cidr_net 1 2 3 4 ?s] purge
    by (intro that [of f]) (simp_all add: sample_req_def dhcp_const_defs on_discover_def Let_def)
qed

lemma sample_lease:
  "t < 3600000000004 \<Longrightarrow>
   lease_of t (grant 4 (MacAddr 2 0 0 0 0 9) (Ipv4Addr 10 0 0 2) (DhcpServer_new sample_cfg))
     (MacAddr 2 0 0 0 0 9) = Some (Ipv4Addr 10 0 0 2)"
  by (simp add: lease_of_grant) (simp add: DhcpServer_new_def sample_cfg_def DhcpConfig_new_def)







text \<open>
  Every reply the server builds, with a domain and routes that fit their options, is a
  frame from the gateway with valid checksums on the DHCP ports, to the broadcast addresses for a
  refusal or when the client asked for it and else to the client and its new address. Its BOOTP
  body carries the transaction, the client and the address, and its options read back to the
  message type and the gateway as server.
\<close>

theorem dhcp_reply_wellformed:
  assumes fit: "options_fit I (ds_config s)"
    and to: "ya = (case yiaddr of Some a \<Rightarrow> a | None \<Rightarrow> UNSPECIFIED)"
      "bcast \<longleftrightarrow> mt = DHCP_NAK \<or> bq_flags req AND FLAG_BROADCAST \<noteq> 0 \<or> ya = UNSPECIFIED"
  shows "\<exists>f eth ip udp. build_reply I s req mt yiaddr = Some f \<and> EthView_parse f = Some eth \<and>
    EthView_ethertype eth = ETHERTYPE_IPV4 \<and> EthView_src_mac eth = dc_server_mac (ds_config s) \<and>
    EthView_dst_mac eth = (if bcast then MAC_BROADCAST else bq_chaddr req) \<and>
    Ipv4View_parse (EthView_payload eth) = Some ip \<and> Ipv4View_checksum_valid ip \<and>
    Ipv4View_src ip = dc_gateway (ds_config s) \<and>
    Ipv4View_dst ip = (if bcast then BROADCAST else ya) \<and> Ipv4View_proto ip = IPPROTO_UDP \<and>
    UdpView_parse (Ipv4View_payload ip) = Some udp \<and>
    UdpView_src_port udp = DHCP_SERVER_PORT \<and> UdpView_dst_port udp = DHCP_CLIENT_PORT \<and>
    UdpView_checksum_valid udp (Ipv4View_src ip) (Ipv4View_dst ip) \<and>
    UdpView_payload udp ! 0 = BOOTREPLY \<and> u32_at (UdpView_payload udp) 4 = bq_xid req \<and>
    ipv4_at (UdpView_payload udp) 16 = ya \<and> mac_at (UdpView_payload udp) 28 = bq_chaddr req \<and>
    parse_options (UdpView_payload udp) 240 (None, None, None) =
      Some (Some mt, None, Some (dc_gateway (ds_config s)))"
proof -
  let ?c = "ds_config s"
  let ?b = "reply_body I ?c req mt ya" and ?dip = "if bcast then BROADCAST else ya"
    and ?dmac = "if bcast then MAC_BROADCAST else bq_chaddr req"
  have len: "length ?b \<le> 796" using length_reply_body [OF fit] .
  then obtain u where u: "udp_build (dc_gateway ?c) ?dip DHCP_SERVER_PORT DHCP_CLIENT_PORT ?b = Some u"
    using udp_build_Some_iff [of "dc_gateway ?c" ?dip DHCP_SERVER_PORT DHCP_CLIENT_PORT ?b] by auto
  have "length u < 65516" using length_udp_build [OF u] len by simp
  then obtain p where p: "ipv4_build (dc_gateway ?c) ?dip IPPROTO_UDP 64 u
      (ucast (bq_xid req AND 0xFFFF)) = Some p"
    using ipv4_build_Some_iff by blast
  have "build_reply I s req mt yiaddr = Some (eth_build ?dmac (dc_server_mac ?c) ETHERTYPE_IPV4 p)"
    using u p by (cases bcast) (auto simp: build_reply_def Let_def to(1) to(2) [unfolded to(1)])
  then show ?thesis
    using ipv4_build_view [OF p refl, where pad = "[]"] udp_build_view [OF u, where pad = "[]" and v = "UdpView u"]
      reply_body_options [OF fit]
    by (intro exI [of _ "eth_build ?dmac (dc_server_mac ?c) ETHERTYPE_IPV4 p"]
        exI [of _ "EthView (eth_build ?dmac (dc_server_mac ?c) ETHERTYPE_IPV4 p)"]
        exI [of _ "Ipv4View p"] exI [of _ "UdpView u"]) (simp add: reply_body_yiaddr)
qed

theorem dhcp_reply_wellformed_witness:
  "\<exists>f. build_reply cidr_net (DhcpServer_new sample_cfg) (sample_req DHCP_DISCOVER None) DHCP_OFFER
     (Some (Ipv4Addr 10 0 0 2)) = Some f"
proof -
  have "options_fit cidr_net (ds_config (DhcpServer_new sample_cfg))"
    using sample_cfg_ok by (simp add: DhcpServer_new_def)
  from dhcp_reply_wellformed [OF this refl refl] show ?thesis by blast
qed

text \<open>
  Parsing is the inverse of encoding for requests. A body with the fixed BOOTP fields and any
  sequence of well-formed options, closed by the end marker and followed by anything, parses to
  those fields and to the last message type, requested address and server identifier of the
  right length among its options; it is refused exactly when none of them is a message type.
\<close>

theorem parse_bootp_roundtrip:
  assumes "opts_ok os" and "fold (\<lambda>(c, v). opt_update c v) os (None, None, None) = (mt, rq, sid)"
  shows "parse_bootp (client_body xid flags ci gi ch os rest) =
    map_option (\<lambda>ty. \<lparr>bq_xid = xid, bq_flags = flags, bq_ciaddr = ci, bq_giaddr = gi,
      bq_chaddr = ch, bq_msg_type = ty, bq_requested_ip = rq, bq_server_id = sid\<rparr>) mt"
  using parse_client_body [OF assms(1)] assms(2) by (cases mt) simp_all

theorem parse_bootp_roundtrip_witness:
  "parse_bootp (client_body 7 0 UNSPECIFIED UNSPECIFIED (MacAddr 2 0 0 0 0 9)
     [(OPT_MSG_TYPE, [DHCP_REQUEST]), (OPT_REQUESTED_IP, [10, 0, 0, 2])] [1, 2]) =
   Some (sample_req DHCP_REQUEST (Some (Ipv4Addr 10 0 0 2)))"
  using parse_bootp_roundtrip [of "[(OPT_MSG_TYPE, [DHCP_REQUEST]), (OPT_REQUESTED_IP, [10, 0, 0, 2])]"
      "Some DHCP_REQUEST" "Some (Ipv4Addr 10 0 0 2)" None]
  by (simp add: opts_ok_def dhcp_const_defs sample_req_def ipv4_from_def)

end
