(* ===== verification/Dns.thy ===== *)
theory Dns
  imports Frame "HOL-Library.Product_Lexorder" "HOL-Library.List_Lexorder" "HOL-Library.Char_ord"
begin

text \<open>
  The DNS server of a segment gateway (\<open>src/net/dns.rs\<close>): the name database with its static,
  wildcard and sinkhole rules, the query parser, the response builder and the frame handler. A
  \<open>String\<close> is the list of its UTF-8 bytes. The upstream resolver's \<open>SocketAddr\<close> is only passed
  on and is a type variable.
\<close>

section \<open>Constants and types\<close>

definition DNS_PORT :: u16 where "DNS_PORT = 53"
definition QTYPE_A :: u16 where "QTYPE_A = 1"
definition QTYPE_AAAA :: u16 where "QTYPE_AAAA = 28"
definition QTYPE_ANY :: u16 where "QTYPE_ANY = 255"
definition QCLASS_IN :: u16 where "QCLASS_IN = 1"
definition RCODE_NOERROR :: u8 where "RCODE_NOERROR = 0"
definition RCODE_NXDOMAIN :: u8 where "RCODE_NXDOMAIN = 3"
definition RCODE_NOTIMP :: u8 where "RCODE_NOTIMP = 4"
definition ANSWER_TTL :: u32 where "ANSWER_TTL = 60"

lemmas dns_const_defs = DNS_PORT_def QTYPE_A_def QTYPE_AAAA_def QTYPE_ANY_def QCLASS_IN_def
  RCODE_NOERROR_def RCODE_NXDOMAIN_def RCODE_NOTIMP_def ANSWER_TTL_def

datatype SinkholeMode = ModeNxdomain | ModeZero

datatype DnsAnswer = A Ipv4Addr | Nxdomain | Zero | Forward

datatype RecordKind = Dynamic | Static

record RecordEntry =
  rec_ip :: Ipv4Addr
  rec_kind :: RecordKind

record WildcardRecord =
  wc_id :: u64
  wc_pattern :: string
  wc_ip :: Ipv4Addr

record SinkholeEntry =
  sh_id :: u64
  sh_pattern :: string
  sh_mode :: SinkholeMode

record 'u DnsZone =
  dz_suffix :: string
  dz_upstream :: "'u option"
  dz_records :: "(string, RecordEntry) hashmap"
  dz_wildcards :: "WildcardRecord list"
  dz_sinkholes :: "SinkholeEntry list"
  dz_rule_names :: "(u64, string) hashmap"
  dz_next_id :: u64

section \<open>Names\<close>

definition to_ascii_lowercase :: "char \<Rightarrow> char" where
  "to_ascii_lowercase c =
     (let n = of_char c :: nat in if 65 \<le> n \<and> n \<le> 90 then char_of (n + 32) else c)"

definition trim_end_dots :: "string \<Rightarrow> string" where
  "trim_end_dots s = rev (dropWhile (\<lambda>c. c = CHR ''.'') (rev s))"

definition normalize :: "string \<Rightarrow> string" where
  "normalize name = map to_ascii_lowercase (trim_end_dots name)"

definition strip_wildcard :: "string \<Rightarrow> string option" where
  "strip_wildcard pattern = (if take 2 pattern = ''*.'' then Some (drop 2 pattern) else None)"

definition ends_with :: "string \<Rightarrow> string \<Rightarrow> bool" where
  "ends_with s t \<longleftrightarrow> length t \<le> length s \<and> drop (length s - length t) s = t"

definition pattern_matches :: "string \<Rightarrow> string \<Rightarrow> bool" where
  "pattern_matches pattern name \<longleftrightarrow>
     (case strip_wildcard pattern of
        Some rest \<Rightarrow> length name > length rest + 1 \<and> ends_with name rest \<and>
          name ! (length name - length rest - 1) = CHR ''.''
      | None \<Rightarrow> pattern = name)"

definition specificity :: "string \<Rightarrow> nat \<times> bool" where
  "specificity pattern =
     (length (filter (\<lambda>c. c = CHR ''.'') pattern) + 1, strip_wildcard pattern = None)"

section \<open>The zone\<close>

definition DnsZone_new :: "string \<Rightarrow> 'u DnsZone" where
  "DnsZone_new suffix =
     \<lparr>dz_suffix = normalize suffix, dz_upstream = None, dz_records = [], dz_wildcards = [],
      dz_sinkholes = [], dz_rule_names = [], dz_next_id = 0\<rparr>"

definition DnsZone_alloc_id :: "'u DnsZone \<Rightarrow> 'u DnsZone \<times> u64" where
  "DnsZone_alloc_id z = (z\<lparr>dz_next_id := dz_next_id z + 1\<rparr>, dz_next_id z + 1)"

definition fqdn :: "'u DnsZone \<Rightarrow> string \<Rightarrow> string" where
  "fqdn z name =
     (let n = normalize name
      in if n = dz_suffix z \<or> ends_with n (''.'' @ dz_suffix z) then n
         else n @ ''.'' @ dz_suffix z)"

definition register :: "string \<Rightarrow> Ipv4Addr \<Rightarrow> 'u DnsZone \<Rightarrow> 'u DnsZone" where
  "register name ip z =
     z\<lparr>dz_records := hm_insert (fqdn z name) \<lparr>rec_ip = ip, rec_kind = Dynamic\<rparr> (dz_records z)\<rparr>"

definition unregister :: "string \<Rightarrow> 'u DnsZone \<Rightarrow> 'u DnsZone \<times> bool" where
  "unregister name z =
     (let f = fqdn z name
      in (z\<lparr>dz_records := hm_remove f (dz_records z)\<rparr>, hm_get (dz_records z) f \<noteq> None))"

definition set_static :: "string \<Rightarrow> Ipv4Addr \<Rightarrow> 'u DnsZone \<Rightarrow> 'u DnsZone \<times> u64" where
  "set_static pattern ip z =
     (let (z, i) = DnsZone_alloc_id z;
          p = normalize pattern
      in if strip_wildcard p \<noteq> None then
           (z\<lparr>dz_wildcards := dz_wildcards z @ [\<lparr>wc_id = i, wc_pattern = p, wc_ip = ip\<rparr>]\<rparr>, i)
         else
           (z\<lparr>dz_records := hm_insert p \<lparr>rec_ip = ip, rec_kind = Static\<rparr> (dz_records z),
              dz_rule_names := hm_insert i p (dz_rule_names z)\<rparr>, i))"

definition add_sinkhole :: "string \<Rightarrow> SinkholeMode \<Rightarrow> 'u DnsZone \<Rightarrow> 'u DnsZone \<times> u64" where
  "add_sinkhole pattern mode z =
     (let (z, i) = DnsZone_alloc_id z
      in (z\<lparr>dz_sinkholes := dz_sinkholes z @
            [\<lparr>sh_id = i, sh_pattern = normalize pattern, sh_mode = mode\<rparr>]\<rparr>, i))"

definition remove_rule :: "u64 \<Rightarrow> 'u DnsZone \<Rightarrow> 'u DnsZone \<times> bool" where
  "remove_rule i z =
     (case hm_get (dz_rule_names z) i of
        Some name \<Rightarrow>
          (z\<lparr>dz_rule_names := hm_remove i (dz_rule_names z),
             dz_records := hm_remove name (dz_records z)\<rparr>, hm_get (dz_records z) name \<noteq> None)
      | None \<Rightarrow>
          let before = length (dz_wildcards z) + length (dz_sinkholes z);
              z' = z\<lparr>dz_wildcards := filter (\<lambda>w. wc_id w \<noteq> i) (dz_wildcards z),
                     dz_sinkholes := filter (\<lambda>s. sh_id s \<noteq> i) (dz_sinkholes z)\<rparr>
          in (z', before \<noteq> length (dz_wildcards z') + length (dz_sinkholes z')))"

fun sinkhole_loop ::
  "string \<Rightarrow> (SinkholeEntry \<times> (nat \<times> bool)) option \<Rightarrow> SinkholeEntry list \<Rightarrow>
   (SinkholeEntry \<times> (nat \<times> bool)) option" where
  "sinkhole_loop name best [] = best"
| "sinkhole_loop name best (s # rest) =
     (if pattern_matches (sh_pattern s) name then
        let k = specificity (sh_pattern s) in
        sinkhole_loop name
          (if (case best of None \<Rightarrow> True | Some (_, bk) \<Rightarrow> bk < k) then Some (s, k) else best) rest
      else sinkhole_loop name best rest)"

fun wildcard_loop ::
  "string \<Rightarrow> (WildcardRecord \<times> (nat \<times> bool)) option \<Rightarrow> WildcardRecord list \<Rightarrow>
   (WildcardRecord \<times> (nat \<times> bool)) option" where
  "wildcard_loop name best [] = best"
| "wildcard_loop name best (w # rest) =
     (if pattern_matches (wc_pattern w) name then
        let k = specificity (wc_pattern w) in
        wildcard_loop name
          (if (case best of None \<Rightarrow> True | Some (_, bk) \<Rightarrow> bk < k) then Some (w, k) else best) rest
      else wildcard_loop name best rest)"

definition lookup :: "'u DnsZone \<Rightarrow> string \<Rightarrow> DnsAnswer" where
  "lookup z qname =
     (let name = normalize qname
      in case sinkhole_loop name None (dz_sinkholes z) of
           Some (s, _) \<Rightarrow> (case sh_mode s of ModeNxdomain \<Rightarrow> Nxdomain | ModeZero \<Rightarrow> Zero)
         | None \<Rightarrow>
             (case hm_get (dz_records z) name of
                Some entry \<Rightarrow> A (rec_ip entry)
              | None \<Rightarrow>
                  (case wildcard_loop name None (dz_wildcards z) of
                     Some (w, _) \<Rightarrow> A (wc_ip w)
                   | None \<Rightarrow> if dz_upstream z \<noteq> None then Forward else Nxdomain)))"

record DnsRecordEntry =
  dr_name :: string
  dr_ip :: Ipv4Addr
  dr_kind :: RecordKind

record DnsZoneSnapshot =
  zs_suffix :: string
  zs_records :: "DnsRecordEntry list"
  zs_wildcards :: "WildcardRecord list"
  zs_sinkholes :: "SinkholeEntry list"

definition snapshot :: "'u DnsZone \<Rightarrow> DnsZoneSnapshot" where
  "snapshot z =
     \<lparr>zs_suffix = dz_suffix z,
      zs_records = sort_key dr_name
        (map (\<lambda>(name, e). \<lparr>dr_name = name, dr_ip = rec_ip e, dr_kind = rec_kind e\<rparr>) (dz_records z)),
      zs_wildcards = dz_wildcards z, zs_sinkholes = dz_sinkholes z\<rparr>"

section \<open>Wire format\<close>

text \<open>\<open>String::push(char::from(b))\<close>: the UTF-8 encoding of the code point \<open>b\<close>.\<close>

definition push_char :: "u8 \<Rightarrow> string" where
  "push_char b = (if b < 128 then [char_of (unat b)]
     else [char_of (unat (0xC0 OR drop_bit 6 b)), char_of (unat (0x80 OR (b AND 0x3F)))])"

definition u8_lowercase :: "u8 \<Rightarrow> u8" where
  "u8_lowercase b = (if 65 \<le> b \<and> b \<le> 90 then b + 32 else b)"

definition push_label :: "string \<Rightarrow> bytes \<Rightarrow> string" where
  "push_label name label =
     (if name \<noteq> [] then name @ ''.'' else name) @ concat (map (\<lambda>b. push_char (u8_lowercase b)) label)"

function qname_loop :: "bytes \<Rightarrow> nat \<Rightarrow> string \<Rightarrow> (string \<times> nat) option" where
  "qname_loop msg off name =
     (case slice_get msg off of
        None \<Rightarrow> None
      | Some l \<Rightarrow>
          let len = unat l in
          if len = 0 then Some (name, off + 1)
          else if len > 63 then None
          else (case slice_range msg (off + 1) (off + 1 + len) of
                  None \<Rightarrow> None
                | Some label \<Rightarrow>
                    let name' = push_label name label in
                    if length name' > 255 then None else qname_loop msg (off + 1 + len) name'))"
  by pat_completeness auto
termination
  by (relation "measure (\<lambda>(msg, off, _). length msg - off)")
    (auto simp: slice_get_def split: if_splits)

declare qname_loop.simps [simp del]

definition parse_qname :: "bytes \<Rightarrow> nat \<Rightarrow> (string \<times> nat) option" where
  "parse_qname msg off = qname_loop msg off []"

definition build_response :: "bytes \<Rightarrow> nat \<Rightarrow> u8 \<Rightarrow> Ipv4Addr option \<Rightarrow> bytes" where
  "build_response query question_end rcode answer =
     take 2 query @
     [0x80 OR (query ! 2 AND 0x78) OR 0x04 OR (query ! 2 AND 0x01)] @
     [0x80 OR (rcode AND 0x0F)] @
     to_be16 1 @ to_be16 (of_bool (answer \<noteq> None)) @ to_be16 0 @ to_be16 0 @
     take (question_end - 12) (drop 12 query) @
     (case answer of
        Some ip \<Rightarrow> [0xC0, 0x0C] @ to_be16 QTYPE_A @ to_be16 QCLASS_IN @ to_be32 ANSWER_TTL @
          to_be16 4 @ octets ip
      | None \<Rightarrow> [])"

section \<open>The server\<close>

record DnsRespondCtx =
  rc_client_mac :: MacAddr
  rc_server_mac :: MacAddr
  rc_client_ip :: Ipv4Addr
  rc_server_ip :: Ipv4Addr
  rc_client_port :: u16

definition build_frame :: "DnsRespondCtx \<Rightarrow> bytes \<Rightarrow> bytes option" where
  "build_frame c dns_payload =
     Option.bind (udp_build (rc_server_ip c) (rc_client_ip c) DNS_PORT (rc_client_port c) dns_payload)
       (\<lambda>udp. map_option (\<lambda>ip. eth_build (rc_client_mac c) (rc_server_mac c) ETHERTYPE_IPV4 ip)
         (ipv4_build (rc_server_ip c) (rc_client_ip c) IPPROTO_UDP 64 udp 0))"

datatype 'u DnsAction =
    SendReply bytes
  | ForwardUpstream (fu_upstream: 'u) (fu_query_id: u16) (fu_raw_query: bytes)
      (fu_respond: DnsRespondCtx)
  | Ignore

definition forward_action :: "'u \<Rightarrow> bytes \<Rightarrow> DnsRespondCtx \<Rightarrow> 'u DnsAction" where
  "forward_action upstream msg respond =
     ForwardUpstream upstream (from_be16 (msg ! 0) (msg ! 1)) msg respond"

definition send_reply :: "DnsRespondCtx \<Rightarrow> bytes \<Rightarrow> 'u DnsAction" where
  "send_reply respond payload =
     (case build_frame respond payload of Some frame \<Rightarrow> SendReply frame | None \<Rightarrow> Ignore)"

definition answer_query ::
  "DnsRespondCtx \<Rightarrow> bytes \<Rightarrow> nat \<Rightarrow> u16 \<Rightarrow> u16 \<Rightarrow> DnsAnswer \<Rightarrow> 'u option \<Rightarrow> 'u DnsAction" where
  "answer_query respond msg question_end qtype qclass answer upstream =
     (let nxdomain = send_reply respond (build_response msg question_end RCODE_NXDOMAIN None);
          notimp = (case upstream of
            Some u \<Rightarrow> forward_action u msg respond
          | None \<Rightarrow> send_reply respond (build_response msg question_end RCODE_NOTIMP None));
          forward = (case upstream of Some u \<Rightarrow> forward_action u msg respond | None \<Rightarrow> nxdomain);
          opcode = drop_bit 3 (msg ! 2) AND 0x0F
      in if opcode \<noteq> 0 \<or> qclass \<noteq> QCLASS_IN then notimp
         else if qtype = QTYPE_A \<or> qtype = QTYPE_ANY then
           (case answer of
              A a \<Rightarrow> send_reply respond (build_response msg question_end RCODE_NOERROR (Some a))
            | Zero \<Rightarrow> send_reply respond
                (build_response msg question_end RCODE_NOERROR (Some UNSPECIFIED))
            | Nxdomain \<Rightarrow> nxdomain
            | Forward \<Rightarrow> forward)
         else if qtype = QTYPE_AAAA then
           (case answer of
              A _ \<Rightarrow> send_reply respond (build_response msg question_end RCODE_NOERROR None)
            | Zero \<Rightarrow> send_reply respond (build_response msg question_end RCODE_NOERROR None)
            | Nxdomain \<Rightarrow> nxdomain
            | Forward \<Rightarrow> forward)
         else notimp)"

definition DnsServer_handle :: "'u DnsZone \<Rightarrow> bytes \<Rightarrow> 'u DnsAction" where
  "DnsServer_handle zone eth_frame =
     (case EthView_parse eth_frame of None \<Rightarrow> Ignore | Some eth \<Rightarrow>
        if EthView_ethertype eth \<noteq> ETHERTYPE_IPV4 then Ignore
        else (case Ipv4View_parse (EthView_payload eth) of None \<Rightarrow> Ignore | Some ip \<Rightarrow>
          if Ipv4View_proto ip \<noteq> IPPROTO_UDP then Ignore
          else (case UdpView_parse (Ipv4View_payload ip) of None \<Rightarrow> Ignore | Some udp \<Rightarrow>
            if UdpView_dst_port udp \<noteq> DNS_PORT then Ignore
            else
              let msg = UdpView_payload udp in
              if length msg < 12 \<or> msg ! 2 AND 0x80 \<noteq> 0 then Ignore
              else if from_be16 (msg ! 4) (msg ! 5) \<noteq> 1 then Ignore
              else (case parse_qname msg 12 of None \<Rightarrow> Ignore | Some (qname, off) \<Rightarrow>
                (case slice_range msg off (off + 4) of None \<Rightarrow> Ignore | Some rest \<Rightarrow>
                  let qtype = from_be16 (rest ! 0) (rest ! 1);
                      qclass = from_be16 (rest ! 2) (rest ! 3);
                      respond = \<lparr>rc_client_mac = EthView_src_mac eth,
                        rc_server_mac = EthView_dst_mac eth, rc_client_ip = Ipv4View_src ip,
                        rc_server_ip = Ipv4View_dst ip, rc_client_port = UdpView_src_port udp\<rparr>
                  in answer_query respond msg (off + 4) qtype qclass (lookup zone qname)
                       (dz_upstream zone))))))"

text \<open>
  \<open>forward_upstream\<close> with what its socket calls yielded: \<open>None\<close> for any error or timeout, else
  the received datagram.
\<close>

definition forward_upstream :: "bytes option \<Rightarrow> bytes \<Rightarrow> bytes option" where
  "forward_upstream received raw_query =
     (case received of
        None \<Rightarrow> None
      | Some buf \<Rightarrow>
          if length buf < 2 \<or> length raw_query < 2 \<or> take 2 buf \<noteq> take 2 raw_query then None
          else Some buf)"

end
