(* ===== verification/Dns_Lemmas.thy ===== *)
theory Dns_Lemmas
  imports Dns Frame_Lemmas
begin

text \<open>
  Properties of the DNS server: the precedence of the zone's rules, what is forwarded upstream,
  the answer to an address query, and names on the wire.
\<close>

section \<open>Patterns\<close>

lemma strip_wildcard_Some: "strip_wildcard p = Some r \<longleftrightarrow> p = ''*.'' @ r"
proof
  assume "strip_wildcard p = Some r"
  then have "take 2 p = ''*.''" "drop 2 p = r" by (auto simp: strip_wildcard_def split: if_splits)
  then show "p = ''*.'' @ r" by (metis append_take_drop_id)
qed (simp add: strip_wildcard_def)

text \<open>A wildcard matches exactly the names with one or more labels before its suffix.\<close>

lemma wildcard_matches_iff:
  "pattern_matches (''*.'' @ rest) name \<longleftrightarrow> (\<exists>pre. pre \<noteq> [] \<and> name = pre @ ''.'' @ rest)"
proof -
  have s: "strip_wildcard (''*.'' @ rest) = Some rest" by (simp add: strip_wildcard_def)
  show ?thesis
  proof
    assume "pattern_matches (''*.'' @ rest) name"
    then have m: "length rest + 1 < length name" "drop (length name - length rest) name = rest"
        "name ! (length name - length rest - 1) = CHR ''.''"
      using s by (auto simp: pattern_matches_def ends_with_def)
    let ?k = "length name - length rest - 1"
    have "name = take ?k name @ name ! ?k # drop (Suc ?k) name"
      using m(1) by (intro id_take_nth_drop) simp
    moreover have "Suc ?k = length name - length rest" using m(1) by simp
    ultimately have "name = take ?k name @ ''.'' @ rest" using m(2,3) by simp
    moreover have "take ?k name \<noteq> []" using m(1) by auto
    ultimately show "\<exists>pre. pre \<noteq> [] \<and> name = pre @ ''.'' @ rest" by blast
  next
    assume "\<exists>pre. pre \<noteq> [] \<and> name = pre @ ''.'' @ rest"
    then obtain pre where "pre \<noteq> []" "name = pre @ ''.'' @ rest" by blast
    then show "pattern_matches (''*.'' @ rest) name"
      using s by (auto simp: pattern_matches_def ends_with_def nth_append)
  qed
qed

section \<open>Which rule answers\<close>

interpretation sinkhole_scan: best_match "\<lambda>s. pattern_matches (sh_pattern s) name"
  "\<lambda>s. specificity (sh_pattern s)"
  "\<lambda>best ss. map_option fst
     (sinkhole_loop name (map_option (\<lambda>s. (s, specificity (sh_pattern s))) best) ss)" for name
proof unfold_locales
  fix best s ss
  show "map_option fst
      (sinkhole_loop name (map_option (\<lambda>s. (s, specificity (sh_pattern s))) best) []) = best"
    by (cases best) simp_all
  show "map_option fst
      (sinkhole_loop name (map_option (\<lambda>s. (s, specificity (sh_pattern s))) best) (s # ss)) =
    map_option fst (sinkhole_loop name (map_option (\<lambda>s. (s, specificity (sh_pattern s)))
      (if pattern_matches (sh_pattern s) name \<and>
          (case best of None \<Rightarrow> True | Some b \<Rightarrow> specificity (sh_pattern b) < specificity (sh_pattern s))
       then Some s else best)) ss)"
    by (cases best) (auto simp: Let_def simp del: less_prod_simp)
qed

interpretation wildcard_scan: best_match "\<lambda>w. pattern_matches (wc_pattern w) name"
  "\<lambda>w. specificity (wc_pattern w)"
  "\<lambda>best ws. map_option fst
     (wildcard_loop name (map_option (\<lambda>w. (w, specificity (wc_pattern w))) best) ws)" for name
proof unfold_locales
  fix best w ws
  show "map_option fst
      (wildcard_loop name (map_option (\<lambda>w. (w, specificity (wc_pattern w))) best) []) = best"
    by (cases best) simp_all
  show "map_option fst
      (wildcard_loop name (map_option (\<lambda>w. (w, specificity (wc_pattern w))) best) (w # ws)) =
    map_option fst (wildcard_loop name (map_option (\<lambda>w. (w, specificity (wc_pattern w)))
      (if pattern_matches (wc_pattern w) name \<and>
          (case best of None \<Rightarrow> True | Some b \<Rightarrow> specificity (wc_pattern b) < specificity (wc_pattern w))
       then Some w else best)) ws)"
    by (cases best) (auto simp: Let_def simp del: less_prod_simp)
qed

text \<open>
  The first of the most specific rules that match a name: those before it are less specific,
  those after it not more.
\<close>

definition most_specific :: "('r \<Rightarrow> string) \<Rightarrow> string \<Rightarrow> 'r list \<Rightarrow> 'r \<Rightarrow> bool" where
  "most_specific pat name rs r \<longleftrightarrow> (\<exists>xs ys. rs = xs @ r # ys \<and> pattern_matches (pat r) name \<and>
     (\<forall>x \<in> set xs. pattern_matches (pat x) name \<longrightarrow> specificity (pat x) < specificity (pat r)) \<and>
     (\<forall>x \<in> set ys. pattern_matches (pat x) name \<longrightarrow> specificity (pat x) \<le> specificity (pat r)))"

definition none_matches :: "('r \<Rightarrow> string) \<Rightarrow> string \<Rightarrow> 'r list \<Rightarrow> bool" where
  "none_matches pat name rs \<longleftrightarrow> (\<forall>r \<in> set rs. \<not> pattern_matches (pat r) name)"

lemma sinkhole_loop_None:
  "sinkhole_loop name None ss = None \<longleftrightarrow> none_matches sh_pattern name ss"
  using sinkhole_scan.scan_None_iff [of name ss] by (simp add: none_matches_def)

lemma sinkhole_loop_Some:
  "sinkhole_loop name None ss = Some (s, k) \<Longrightarrow> most_specific sh_pattern name ss s"
  using sinkhole_scan.scan_selects [of name ss s] by (simp add: most_specific_def)

lemma wildcard_loop_None:
  "wildcard_loop name None ws = None \<longleftrightarrow> none_matches wc_pattern name ws"
  using wildcard_scan.scan_None_iff [of name ws] by (simp add: none_matches_def)

lemma wildcard_loop_Some:
  "wildcard_loop name None ws = Some (w, k) \<Longrightarrow> most_specific wc_pattern name ws w"
  using wildcard_scan.scan_selects [of name ws w] by (simp add: most_specific_def)

fun mode_answer :: "SinkholeMode \<Rightarrow> DnsAnswer" where
  "mode_answer ModeNxdomain = Nxdomain"
| "mode_answer ModeZero = Zero"

lemma mode_answer_case:
  "(case m of ModeNxdomain \<Rightarrow> Nxdomain | ModeZero \<Rightarrow> Zero) = mode_answer m"
  by (cases m) simp_all

lemma lookup_cases:
  assumes n: "n = normalize q"
  obtains (sinkhole) s where "most_specific sh_pattern n (dz_sinkholes z) s"
      "lookup z q = mode_answer (sh_mode s)"
    | (exact) e where "none_matches sh_pattern n (dz_sinkholes z)" "hm_get (dz_records z) n = Some e"
      "lookup z q = A (rec_ip e)"
    | (wildcard) w where "none_matches sh_pattern n (dz_sinkholes z)" "hm_get (dz_records z) n = None"
      "most_specific wc_pattern n (dz_wildcards z) w" "lookup z q = A (wc_ip w)"
    | (unknown) "none_matches sh_pattern n (dz_sinkholes z)" "hm_get (dz_records z) n = None"
      "none_matches wc_pattern n (dz_wildcards z)"
      "lookup z q = (if dz_upstream z \<noteq> None then Forward else Nxdomain)"
proof (cases "sinkhole_loop n None (dz_sinkholes z)")
  case (Some sk)
  then show ?thesis
    using sinkhole_loop_Some [of n "dz_sinkholes z" "fst sk" "snd sk"]
    by (intro sinkhole) (auto simp: lookup_def n [symmetric] mode_answer_case split: prod.splits)
next
  case None
  note s = None sinkhole_loop_None [of n "dz_sinkholes z"]
  show ?thesis
  proof (cases "hm_get (dz_records z) n")
    case (Some e)
    then show ?thesis using s by (intro exact) (auto simp: lookup_def n [symmetric])
  next
    case r: None
    show ?thesis
    proof (cases "wildcard_loop n None (dz_wildcards z)")
      case None
      then show ?thesis using s r wildcard_loop_None [of n "dz_wildcards z"]
        by (intro unknown) (auto simp: lookup_def n [symmetric])
    next
      case (Some wk)
      then show ?thesis
        using s r wildcard_loop_Some [of n "dz_wildcards z" "fst wk" "snd wk"]
        by (intro wildcard) (auto simp: lookup_def n [symmetric] split: prod.splits)
    qed
  qed
qed

lemma most_specific_matches: "most_specific pat n rs r \<Longrightarrow> \<not> none_matches pat n rs"
  by (auto simp: most_specific_def none_matches_def)

section \<open>Names on the wire\<close>

definition encode_labels :: "bytes list \<Rightarrow> bytes" where
  "encode_labels labels = concat (map (\<lambda>l. of_nat (length l) # l) labels) @ [0]"

definition label_ok :: "bytes \<Rightarrow> bool" where
  "label_ok l \<longleftrightarrow> l \<noteq> [] \<and> length l \<le> 63"

lemma length_push_label: "length name \<le> length (push_label name label)"
  by (simp add: push_label_def)

lemma length_fold_push: "length name \<le> length (fold (\<lambda>l n. push_label n l) labels name)"
proof (induction labels arbitrary: name)
  case (Cons l labels)
  show ?case using length_push_label [of name l] Cons [of "push_label name l"] by simp
qed simp

lemma qname_loop_labels:
  assumes "\<forall>l \<in> set labels. label_ok l" and "msg = pre @ encode_labels labels @ rest"
    and "off = length pre" and "length (fold (\<lambda>l n. push_label n l) labels name) \<le> 255"
  shows "qname_loop msg off name =
    Some (fold (\<lambda>l n. push_label n l) labels name, off + length (encode_labels labels))"
  using assms
proof (induction labels arbitrary: pre off name)
  case Nil
  then show ?case
    by (subst qname_loop.simps) (simp add: slice_get_def encode_labels_def nth_append)
next
  case (Cons l labels)
  let ?tail = "encode_labels labels @ rest"
  have l: "l \<noteq> []" "length l \<le> 63" using Cons.prems by (auto simp: label_ok_def)
  have msg: "msg = pre @ (of_nat (length l) # l) @ ?tail"
    using Cons.prems by (simp add: encode_labels_def)
  have len: "unat (of_nat (length l) :: u8) = length l"
    using l by (simp add: unat_of_nat take_bit_nat_eq_self)
  have short: "length (push_label name l) \<le> 255"
    using Cons.prems(4) length_fold_push [of "push_label name l" labels] by simp
  have step: "qname_loop msg off name = qname_loop msg (off + 1 + length l) (push_label name l)"
  proof -
    have "slice_get msg off = Some (of_nat (length l))"
      "slice_range msg (off + 1) (off + 1 + length l) = Some l"
      using Cons.prems(3) by (simp_all add: msg slice_get_def slice_range_def nth_append)
    then show ?thesis using len l short by (subst qname_loop.simps) (simp add: Let_def)
  qed
  have "qname_loop msg (off + 1 + length l) (push_label name l) =
    Some (fold (\<lambda>l n. push_label n l) labels (push_label name l),
      off + 1 + length l + length (encode_labels labels))"
    by (rule Cons.IH [of "pre @ (of_nat (length l) # l)"]) (use Cons.prems msg in auto)
  with step show ?case by (simp add: encode_labels_def)
qed

lemma qname_loop_off: "qname_loop msg off name = Some (q, off') \<Longrightarrow> off < off'"
proof (induction msg off name rule: qname_loop.induct)
  case (1 msg off name)
  from "1.prems" show ?case
    by (subst (asm) qname_loop.simps)
      (auto simp: Let_def split: option.splits if_splits dest: "1.IH" [OF _ refl _ _ _ refl])
qed

text \<open>For ASCII labels the parsed name is the lower-case labels joined by dots.\<close>

definition label_string :: "bytes \<Rightarrow> string" where
  "label_string l = map (\<lambda>b. char_of (unat (u8_lowercase b))) l"

fun dotted :: "bytes list \<Rightarrow> string" where
  "dotted [] = []"
| "dotted [l] = label_string l"
| "dotted (l # m # ls) = label_string l @ ''.'' @ dotted (m # ls)"

lemma u8_lowercase_ascii: "b < 128 \<Longrightarrow> u8_lowercase b < 128"
  by (auto simp: u8_lowercase_def word_less_nat_alt word_le_nat_alt unat_word_ariths)

lemma push_label_ascii:
  assumes "\<forall>b \<in> set l. b < 128"
  shows "push_label name l = (if name \<noteq> [] then name @ ''.'' else name) @ label_string l"
proof -
  have "concat (map (\<lambda>b. push_char (u8_lowercase b)) l) = label_string l"
    using assms by (induction l) (auto simp: label_string_def push_char_def u8_lowercase_ascii)
  then show ?thesis by (simp add: push_label_def)
qed

lemma label_string_Nil [simp]: "label_string l = [] \<longleftrightarrow> l = []"
  by (simp add: label_string_def)

lemma fold_push_ascii:
  assumes "\<forall>l \<in> set labels. l \<noteq> [] \<and> (\<forall>b \<in> set l. b < 128)"
  shows "fold (\<lambda>l n. push_label n l) labels name =
    (if labels = [] then name else if name = [] then dotted labels else name @ ''.'' @ dotted labels)"
  using assms
proof (induction labels arbitrary: name rule: dotted.induct)
  case (3 l m ls)
  then have IH: "fold (\<lambda>l n. push_label n l) (m # ls) (push_label name l) =
      push_label name l @ ''.'' @ dotted (m # ls)"
    by (subst "3.IH") (auto simp: push_label_ascii)
  then show ?case using "3.prems" by (auto simp: push_label_ascii)
qed (auto simp: push_label_ascii)

text \<open>
  C30: a question name on the wire reads back. Labels of 1 to 63 ASCII bytes, at any place of the
  message, followed by anything, parse to the lower-case labels joined by dots and to the offset
  behind the terminating zero, as long as the name has at most 255 bytes.
\<close>

theorem parse_qname_roundtrip:
  assumes "\<forall>l \<in> set labels. label_ok l \<and> (\<forall>b \<in> set l. b < 128)" and "length (dotted labels) \<le> 255"
  shows "parse_qname (pre @ encode_labels labels @ rest) (length pre) =
    Some (dotted labels, length pre + length (encode_labels labels))"
proof -
  have "fold (\<lambda>l n. push_label n l) labels [] = dotted labels"
    using assms(1) by (subst fold_push_ascii) (auto simp: label_ok_def)
  then show ?thesis
    using assms qname_loop_labels [of labels _ pre rest "length pre" "[]"]
    by (simp add: parse_qname_def)
qed

theorem parse_qname_roundtrip_witness:
  "parse_qname ([9, 9] @ encode_labels [[0x57, 0x65, 0x62], [0x6C]] @ [7]) 2 = Some (''web.l'', 9)"
proof -
  have lower: "label_string [0x57, 0x65, 0x62] = ''web''" "label_string [0x6C] = ''l''"
    by (simp_all add: label_string_def u8_lowercase_def char_of_def bit_0)
  let ?L = "[[0x57, 0x65, 0x62], [0x6C]] :: bytes list"
  have "parse_qname ([9, 9] @ encode_labels ?L @ [7]) (length [9, 9 :: u8]) =
      Some (dotted ?L, length [9, 9 :: u8] + length (encode_labels ?L))"
    by (rule parse_qname_roundtrip) (simp_all add: label_ok_def lower)
  moreover have "dotted ?L = ''web.l''" by (simp add: lower)
  moreover have "length [9, 9 :: u8] = 2" "length [9, 9 :: u8] + length (encode_labels ?L) = 9"
    by (simp_all add: encode_labels_def)
  ultimately show ?thesis by (simp only:)
qed

section \<open>Properties of the server\<close>

lemma slice_u16:
  assumes "slice_range msg off (off + 4) = Some rest"
  shows "from_be16 (rest ! 0) (rest ! 1) = u16_at msg off"
    and "from_be16 (rest ! 2) (rest ! 3) = u16_at msg (off + 2)"
proof -
  have k: "rest ! k = msg ! (off + k)" if "k < 4" for k
    using assms that by (auto simp: slice_range_def split: if_splits)
  show "from_be16 (rest ! 0) (rest ! 1) = u16_at msg off" by (simp add: k u16_at_def)
  have "msg ! (off + 2 + 1) = msg ! (off + 3)" by (simp add: eval_nat_numeral)
  then show "from_be16 (rest ! 2) (rest ! 3) = u16_at msg (off + 2)" by (simp only: k u16_at_def)
qed

text \<open>
  C24: the answer for a name is decided in this order. The first of the most specific sinkholes
  that match it gives its verdict; otherwise an exact record of the name gives its address;
  otherwise the first of the most specific matching wildcards does; otherwise the query is for
  the upstream resolver, or the name does not exist where there is none.
\<close>

theorem dns_lookup_precedence:
  assumes "n = normalize q"
  shows "(\<exists>s. most_specific sh_pattern n (dz_sinkholes z) s \<and> lookup z q = mode_answer (sh_mode s)) \<or>
    none_matches sh_pattern n (dz_sinkholes z) \<and>
    (case hm_get (dz_records z) n of
       Some e \<Rightarrow> lookup z q = A (rec_ip e)
     | None \<Rightarrow> (\<exists>w. most_specific wc_pattern n (dz_wildcards z) w \<and> lookup z q = A (wc_ip w)) \<or>
         none_matches wc_pattern n (dz_wildcards z) \<and>
         lookup z q = (if dz_upstream z \<noteq> None then Forward else Nxdomain))"
  by (rule lookup_cases [OF assms, of z]) auto

definition sample_zone :: "nat DnsZone" where
  "sample_zone = \<lparr>dz_suffix = ''l'', dz_upstream = Some 1,
     dz_records = [(''w.l'', \<lparr>rec_ip = Ipv4Addr 10 0 0 2, rec_kind = Static\<rparr>)], dz_wildcards = [],
     dz_sinkholes = [\<lparr>sh_id = 1, sh_pattern = ''*.l'', sh_mode = ModeZero\<rparr>,
       \<lparr>sh_id = 2, sh_pattern = ''w.l'', sh_mode = ModeNxdomain\<rparr>], dz_rule_names = [],
     dz_next_id = 2\<rparr>"

lemma sample_normalize: "normalize ''W.l.'' = ''w.l''" "normalize ''w.l'' = ''w.l''"
  by (simp_all add: normalize_def trim_end_dots_def to_ascii_lowercase_def char_of_def bit_0)

theorem dns_lookup_precedence_witness:
  "lookup sample_zone ''W.l.'' = Nxdomain \<and>
   (\<exists>s. most_specific sh_pattern ''w.l'' (dz_sinkholes sample_zone) s \<and>
      lookup sample_zone ''W.l.'' = mode_answer (sh_mode s))"
proof
  show l: "lookup sample_zone ''W.l.'' = Nxdomain"
    by (simp add: lookup_def sample_normalize) (simp add: sample_zone_def pattern_matches_def
        strip_wildcard_def ends_with_def specificity_def)
  show "\<exists>s. most_specific sh_pattern ''w.l'' (dz_sinkholes sample_zone) s \<and>
      lookup sample_zone ''W.l.'' = mode_answer (sh_mode s)"
    using dns_lookup_precedence [OF sample_normalize(1) [symmetric], of sample_zone] l
    by (auto simp: sample_zone_def none_matches_def pattern_matches_def strip_wildcard_def)
qed

text \<open>
  C25: only what the zone does not answer leaves the segment. A query the handler forwards is
  passed on unchanged to the configured resolver, and if it is a standard Internet query for an
  address (A, AAAA or ANY), then no sinkhole, record or wildcard of the zone covers its name.
\<close>

theorem dns_forwards_only_unknown:
  assumes "DnsServer_handle z f = ForwardUpstream u i raw ctx"
    and "parse_qname raw 12 = Some (qname, off)" and "n = normalize qname"
  shows "dz_upstream z = Some u \<and> i = u16_at raw 0 \<and>
    (drop_bit 3 (raw ! 2) AND 0x0F = 0 \<and> u16_at raw (off + 2) = QCLASS_IN \<and>
     u16_at raw off \<in> {QTYPE_A, QTYPE_AAAA, QTYPE_ANY} \<longrightarrow>
       none_matches sh_pattern n (dz_sinkholes z) \<and> hm_get (dz_records z) n = None \<and>
       none_matches wc_pattern n (dz_wildcards z))"
proof -
  obtain respond rest where r: "slice_range raw off (off + 4) = Some rest"
    "answer_query respond raw (off + 4) (from_be16 (rest ! 0) (rest ! 1))
       (from_be16 (rest ! 2) (rest ! 3)) (lookup z qname) (dz_upstream z) =
     ForwardUpstream u i raw ctx"
    using assms(1,2)
    by (auto simp: DnsServer_handle_def answer_query_def send_reply_def forward_action_def Let_def
        split: option.splits if_splits prod.splits DnsAnswer.splits)
  note q = r(2) [unfolded slice_u16 [OF r(1)]]
  have up: "dz_upstream z = Some u \<and> i = u16_at raw 0"
    using q by (auto simp: answer_query_def send_reply_def forward_action_def Let_def u16_at_def
        split: option.splits if_splits DnsAnswer.splits)
  have "lookup z qname = Forward"
    if "drop_bit 3 (raw ! 2) AND 0x0F = 0" "u16_at raw (off + 2) = QCLASS_IN"
      "u16_at raw off \<in> {QTYPE_A, QTYPE_AAAA, QTYPE_ANY}"
    using q that by (auto simp: answer_query_def send_reply_def forward_action_def Let_def
        split: option.splits if_splits DnsAnswer.splits)
  moreover have "none_matches sh_pattern n (dz_sinkholes z) \<and> hm_get (dz_records z) n = None \<and>
       none_matches wc_pattern n (dz_wildcards z)" if "lookup z qname = Forward"
  proof (rule lookup_cases [OF assms(3), of z])
    fix s assume "lookup z qname = mode_answer (sh_mode s)"
    with that show ?thesis by (cases "sh_mode s") auto
  qed (use that in auto)
  ultimately show ?thesis using up by blast
qed

lemma handle_query:
  assumes "EthView_parse f = Some eth" "EthView_ethertype eth = ETHERTYPE_IPV4"
    and "Ipv4View_parse (EthView_payload eth) = Some ip" "Ipv4View_proto ip = IPPROTO_UDP"
    and "UdpView_parse (Ipv4View_payload ip) = Some udp" "UdpView_dst_port udp = DNS_PORT"
    and msg: "msg = UdpView_payload udp" and "12 \<le> length msg" "msg ! 2 AND 0x80 = 0" "u16_at msg 4 = 1"
    and "parse_qname msg 12 = Some (qname, off)" and off: "off + 4 \<le> length msg"
  shows "DnsServer_handle z f =
    answer_query \<lparr>rc_client_mac = EthView_src_mac eth, rc_server_mac = EthView_dst_mac eth,
        rc_client_ip = Ipv4View_src ip, rc_server_ip = Ipv4View_dst ip,
        rc_client_port = UdpView_src_port udp\<rparr> msg (off + 4) (u16_at msg off) (u16_at msg (off + 2))
      (lookup z qname) (dz_upstream z)"
proof -
  have rest: "slice_range msg off (off + 4) = Some (take 4 (drop off msg))"
    using off by (simp add: slice_range_def)
  note q = slice_u16 [OF rest]
  have "from_be16 (msg ! 4) (msg ! 5) = 1" using assms(10) by (simp add: u16_at_def)
  with assms rest q show ?thesis
    by (simp add: DnsServer_handle_def Let_def msg [symmetric])
qed

lemma send_reply_view:
  assumes "length m < 65508"
  obtains g where "send_reply ctx m = SendReply g" and "EthView_parse g = Some (EthView g)"
    and "EthView_ethertype (EthView g) = ETHERTYPE_IPV4"
    and "EthView_dst_mac (EthView g) = rc_client_mac ctx"
    and "EthView_src_mac (EthView g) = rc_server_mac ctx"
    and "\<exists>ip udp. Ipv4View_parse (EthView_payload (EthView g)) = Some ip \<and>
      Ipv4View_src ip = rc_server_ip ctx \<and> Ipv4View_dst ip = rc_client_ip ctx \<and>
      Ipv4View_proto ip = IPPROTO_UDP \<and> Ipv4View_checksum_valid ip \<and>
      UdpView_parse (Ipv4View_payload ip) = Some udp \<and> UdpView_src_port udp = DNS_PORT \<and>
      UdpView_dst_port udp = rc_client_port ctx \<and> UdpView_payload udp = m \<and>
      UdpView_checksum_valid udp (rc_server_ip ctx) (rc_client_ip ctx)"
proof -
  obtain u where u: "udp_build (rc_server_ip ctx) (rc_client_ip ctx) DNS_PORT (rc_client_port ctx) m = Some u"
    using assms udp_build_Some_iff [of "rc_server_ip ctx" "rc_client_ip ctx" DNS_PORT "rc_client_port ctx" m]
    by auto
  have "length u < 65516" using length_udp_build [OF u] assms by simp
  then obtain p where p: "ipv4_build (rc_server_ip ctx) (rc_client_ip ctx) IPPROTO_UDP 64 u 0 = Some p"
    using ipv4_build_Some_iff by blast
  show ?thesis
    using ipv4_build_view [OF p refl, where pad = "[]"] u p
      udp_build_view [OF u, where pad = "[]" and v = "UdpView u"]
    by (intro that [of "eth_build (rc_client_mac ctx) (rc_server_mac ctx) ETHERTYPE_IPV4 p"])
      (simp_all add: send_reply_def build_frame_def)
qed

lemma build_response_fields:
  assumes "2 \<le> length query" and m: "m = build_response query qend rcode ans" and "qend \<le> length query"
    and "12 \<le> qend"
  shows "take 2 m = take 2 query" "m ! 2 AND 0x80 \<noteq> 0" "m ! 3 AND 0x0F = rcode AND 0x0F"
    "u16_at m 4 = 1" "u16_at m 6 = of_bool (ans \<noteq> None)"
    "take (qend - 12) (drop 12 m) = take (qend - 12) (drop 12 query)"
    "length m = qend + (if ans = None then 0 else 16)"
    "ans = Some a \<Longrightarrow> drop (length m - 4) m = octets a"
proof -
  let ?fl = "0x80 OR (query ! 2 AND 0x78) OR 0x04 OR (query ! 2 AND 0x01)"
  obtain a b where ab: "take 2 query = [a, b]"
    using assms(1) by (cases query; cases "tl query") auto
  have m': "m = [a, b, ?fl, 0x80 OR (rcode AND 0x0F)] @ to_be16 1 @ to_be16 (of_bool (ans \<noteq> None)) @
      to_be16 0 @ to_be16 0 @ take (qend - 12) (drop 12 query) @
      (case ans of Some ip \<Rightarrow> [0xC0, 0x0C] @ to_be16 QTYPE_A @ to_be16 QCLASS_IN @ to_be32 ANSWER_TTL @
          to_be16 4 @ octets ip | None \<Rightarrow> [])"
    using ab by (simp add: m build_response_def)
  show "take 2 m = take 2 query" using ab by (simp add: m')
  show "m ! 2 AND 0x80 \<noteq> 0"
  proof -
    have "bit (?fl AND 0x80) 7" by (simp add: bit_and_iff bit_or_iff)
    then have "?fl AND 0x80 \<noteq> 0" by (intro notI) simp
    then show ?thesis by (simp add: m')
  qed
  show "m ! 3 AND 0x0F = rcode AND 0x0F"
  proof -
    have "(0x80 OR (rcode AND 0x0F)) AND 0x0F = rcode AND 0x0F"
      by (simp add: and.assoc bit.conj_disj_distrib2)
    then show ?thesis by (simp add: m' numeral_3_eq_3)
  qed
  show "u16_at m 4 = 1" "u16_at m 6 = of_bool (ans \<noteq> None)"
    by (simp_all add: m' u16_at_def to_be16_def from_be16_def)
  show "length m = qend + (if ans = None then 0 else 16)"
    using assms(3,4) by (auto simp: m' split: option.split)
  show "take (qend - 12) (drop 12 m) = take (qend - 12) (drop 12 query)"
    using assms(3,4) by (simp add: m' to_be16_def)
  show "ans = Some a \<Longrightarrow> drop (length m - 4) m = octets a" for a
    using assms(3,4) by (simp add: m' drop_Cons')
qed

text \<open>A query for \<open>x\<close> in a frame, and a zone with a resolver.\<close>

definition sample_query :: bytes where
  "sample_query = [0, 7, 1, 0, 0, 1, 0, 0, 0, 0, 0, 0] @ encode_labels [[0x78]] @ [0, 1, 0, 1]"

lemma sample_query_fields:
  "parse_qname sample_query 12 = Some (''x'', 15)" "length sample_query = 19"
  "sample_query ! 2 AND 0x80 = 0" "u16_at sample_query 4 = 1" "u16_at sample_query 15 = QTYPE_A"
  "u16_at sample_query (15 + 2) = QCLASS_IN" "drop_bit 3 (sample_query ! 2) AND 0x0F = 0"
proof -
  have lower: "label_string [0x78] = ''x''"
    by (simp add: label_string_def u8_lowercase_def char_of_def bit_0)
  let ?pre = "[0, 7, 1, 0, 0, 1, 0, 0, 0, 0, 0, 0] :: bytes" and ?L = "[[0x78]] :: bytes list"
  have "parse_qname (?pre @ encode_labels ?L @ [0, 1, 0, 1]) (length ?pre) =
      Some (fold (\<lambda>l n. push_label n l) ?L [], length ?pre + length (encode_labels ?L))"
    unfolding parse_qname_def by (rule qname_loop_labels [OF _ refl refl])
      (simp_all add: label_ok_def push_label_ascii lower)
  moreover have "length ?pre = 12" "length ?pre + length (encode_labels ?L) = 15"
    "fold (\<lambda>l n. push_label n l) ?L [] = ''x''"
    by (simp_all add: encode_labels_def push_label_ascii lower)
  ultimately show "parse_qname sample_query 12 = Some (''x'', 15)"
    unfolding sample_query_def by (simp only:)
qed (simp_all add: sample_query_def encode_labels_def u16_at_def from_be16_def dns_const_defs)

lemma sample_frame:
  obtains f eth ip udp where "EthView_parse f = Some eth" "EthView_ethertype eth = ETHERTYPE_IPV4"
    "Ipv4View_parse (EthView_payload eth) = Some ip" "Ipv4View_proto ip = IPPROTO_UDP"
    "UdpView_parse (Ipv4View_payload ip) = Some udp" "UdpView_dst_port udp = DNS_PORT"
    "sample_query = UdpView_payload udp"
proof -
  let ?c = "Ipv4Addr 10 0 0 9" and ?s = "Ipv4Addr 10 0 0 1"
  obtain u where u: "udp_build ?c ?s 4000 DNS_PORT sample_query = Some u"
    using udp_build_Some_iff [of ?c ?s 4000 DNS_PORT sample_query] sample_query_fields(2) by auto
  have "length u < 65516" using length_udp_build [OF u] sample_query_fields(2) by simp
  then obtain p where p: "ipv4_build ?c ?s IPPROTO_UDP 64 u 0 = Some p"
    using ipv4_build_Some_iff by blast
  show ?thesis
    using ipv4_build_view [OF p refl, where pad = "[]"]
      udp_build_view [OF u, where pad = "[]" and v = "UdpView u"]
    by (intro that [of "eth_build (MacAddr 1 0 0 0 0 0) (MacAddr 2 0 0 0 0 0) ETHERTYPE_IPV4 p"
        "EthView (eth_build (MacAddr 1 0 0 0 0 0) (MacAddr 2 0 0 0 0 0) ETHERTYPE_IPV4 p)"
        "Ipv4View p" "UdpView u"]) simp_all
qed

lemma normalize_x: "normalize ''x'' = ''x''"
  by (simp add: normalize_def trim_end_dots_def to_ascii_lowercase_def)

theorem dns_forwards_only_unknown_witness:
  "\<exists>f i raw ctx. DnsServer_handle sample_zone f = ForwardUpstream 1 i raw ctx \<and>
     none_matches sh_pattern ''x'' (dz_sinkholes sample_zone)"
proof -
  obtain f eth ip udp where f: "EthView_parse f = Some eth" "EthView_ethertype eth = ETHERTYPE_IPV4"
    "Ipv4View_parse (EthView_payload eth) = Some ip" "Ipv4View_proto ip = IPPROTO_UDP"
    "UdpView_parse (Ipv4View_payload ip) = Some udp" "UdpView_dst_port udp = DNS_PORT"
    "sample_query = UdpView_payload udp"
    by (rule sample_frame)
  have l: "lookup sample_zone ''x'' = Forward"
    by (simp add: lookup_def normalize_x Let_def) (simp add: sample_zone_def pattern_matches_def
        strip_wildcard_def hm_get_def)
  have "dz_upstream sample_zone = Some 1" by (simp add: sample_zone_def)
  then obtain i ctx where h: "DnsServer_handle sample_zone f = ForwardUpstream 1 i sample_query ctx"
    using handle_query [OF f _ sample_query_fields(3,4,1), of sample_zone] l sample_query_fields
    by (simp add: answer_query_def forward_action_def Let_def)
  from dns_forwards_only_unknown [OF h sample_query_fields(1) normalize_x [symmetric]] h show ?thesis
    using sample_query_fields by blast
qed

text \<open>
  C29: an address query for a name the zone knows is answered with its address. For a standard
  Internet A query in a frame on the DNS port, whose name the zone resolves, the handler sends a
  frame with valid checksums back from the server's addresses and port to the client's. Its
  message has the query's identifier and question, the response bit, no error and one answer
  ending in the four octets of the address.
\<close>

theorem dns_answers_address:
  assumes eth: "EthView_parse f = Some eth" "EthView_ethertype eth = ETHERTYPE_IPV4"
    and ip: "Ipv4View_parse (EthView_payload eth) = Some ip" "Ipv4View_proto ip = IPPROTO_UDP"
    and udp: "UdpView_parse (Ipv4View_payload ip) = Some udp" "UdpView_dst_port udp = DNS_PORT"
    and msg: "msg = UdpView_payload udp" "12 \<le> length msg" "length msg \<le> 65000"
      "msg ! 2 AND 0x80 = 0" "u16_at msg 4 = 1"
    and name: "parse_qname msg 12 = Some (qname, off)" "off + 4 \<le> length msg"
    and query: "drop_bit 3 (msg ! 2) AND 0x0F = 0" "u16_at msg off = QTYPE_A"
      "u16_at msg (off + 2) = QCLASS_IN"
    and known: "lookup z qname = A a"
  shows "\<exists>g geth gip gudp m. DnsServer_handle z f = SendReply g \<and> EthView_parse g = Some geth \<and>
    EthView_dst_mac geth = EthView_src_mac eth \<and> EthView_src_mac geth = EthView_dst_mac eth \<and>
    EthView_ethertype geth = ETHERTYPE_IPV4 \<and> Ipv4View_parse (EthView_payload geth) = Some gip \<and>
    Ipv4View_src gip = Ipv4View_dst ip \<and> Ipv4View_dst gip = Ipv4View_src ip \<and>
    Ipv4View_checksum_valid gip \<and> UdpView_parse (Ipv4View_payload gip) = Some gudp \<and>
    UdpView_src_port gudp = DNS_PORT \<and> UdpView_dst_port gudp = UdpView_src_port udp \<and>
    UdpView_checksum_valid gudp (Ipv4View_src gip) (Ipv4View_dst gip) \<and>
    m = UdpView_payload gudp \<and> take 2 m = take 2 msg \<and> m ! 2 AND 0x80 \<noteq> 0 \<and>
    m ! 3 AND 0x0F = RCODE_NOERROR \<and> u16_at m 4 = 1 \<and> u16_at m 6 = 1 \<and>
    take (off - 8) (drop 12 m) = take (off - 8) (drop 12 msg) \<and> drop (length m - 4) m = octets a"
proof -
  let ?ctx = "\<lparr>rc_client_mac = EthView_src_mac eth, rc_server_mac = EthView_dst_mac eth,
        rc_client_ip = Ipv4View_src ip, rc_server_ip = Ipv4View_dst ip,
        rc_client_port = UdpView_src_port udp\<rparr>"
  define m where "m = build_response msg (off + 4) RCODE_NOERROR (Some a)"
  have h: "DnsServer_handle z f = send_reply ?ctx m"
    using handle_query [OF eth ip udp msg(1,2,4,5) name, of z] query known
    by (simp add: answer_query_def Let_def m_def)
  have off: "12 < off" using qname_loop_off name(1) by (fastforce simp: parse_qname_def)
  have two: "2 \<le> length msg" "12 \<le> off + 4" using msg(2) off by simp_all
  note b = build_response_fields [OF two(1) m_def name(2) two(2)]
  have len: "length m < 65508" using b(7) name(2) msg(3) by simp
  from send_reply_view [OF len, of ?ctx] obtain g where
    g: "send_reply ?ctx m = (SendReply g :: 'a DnsAction)" "EthView_parse g = Some (EthView g)"
      "EthView_ethertype (EthView g) = ETHERTYPE_IPV4"
      "EthView_dst_mac (EthView g) = EthView_src_mac eth"
      "EthView_src_mac (EthView g) = EthView_dst_mac eth"
    and v: "\<exists>gip gudp. Ipv4View_parse (EthView_payload (EthView g)) = Some gip \<and>
      Ipv4View_src gip = Ipv4View_dst ip \<and> Ipv4View_dst gip = Ipv4View_src ip \<and>
      Ipv4View_proto gip = IPPROTO_UDP \<and> Ipv4View_checksum_valid gip \<and>
      UdpView_parse (Ipv4View_payload gip) = Some gudp \<and> UdpView_src_port gudp = DNS_PORT \<and>
      UdpView_dst_port gudp = UdpView_src_port udp \<and> UdpView_payload gudp = m \<and>
      UdpView_checksum_valid gudp (Ipv4View_dst ip) (Ipv4View_src ip)"
    by (auto simp: elim!: that)
  have q: "off + 4 - 12 = off - 8" using off by simp
  from v obtain gip gudp where
    "Ipv4View_parse (EthView_payload (EthView g)) = Some gip"
    "Ipv4View_src gip = Ipv4View_dst ip" "Ipv4View_dst gip = Ipv4View_src ip"
    "Ipv4View_checksum_valid gip" "UdpView_parse (Ipv4View_payload gip) = Some gudp"
    "UdpView_src_port gudp = DNS_PORT" "UdpView_dst_port gudp = UdpView_src_port udp"
    "UdpView_payload gudp = m" "UdpView_checksum_valid gudp (Ipv4View_dst ip) (Ipv4View_src ip)"
    by blast
  then show ?thesis
    using h g b(1-6) b(8) [OF refl]
    by (intro exI [of _ g] exI [of _ "EthView g"] exI [of _ gip] exI [of _ gudp] exI [of _ m])
      (simp add: q dns_const_defs)
qed

theorem dns_answers_address_witness:
  "\<exists>f g. DnsServer_handle (fst (set_static ''x'' (Ipv4Addr 10 0 0 5) (DnsZone_new ''l'' :: nat DnsZone))) f =
     SendReply g"
proof -
  let ?z = "fst (set_static ''x'' (Ipv4Addr 10 0 0 5) (DnsZone_new ''l'' :: nat DnsZone))"
  obtain f eth ip udp where f: "EthView_parse f = Some eth" "EthView_ethertype eth = ETHERTYPE_IPV4"
    "Ipv4View_parse (EthView_payload eth) = Some ip" "Ipv4View_proto ip = IPPROTO_UDP"
    "UdpView_parse (Ipv4View_payload ip) = Some udp" "UdpView_dst_port udp = DNS_PORT"
    "sample_query = UdpView_payload udp"
    by (rule sample_frame)
  have l: "lookup ?z ''x'' = A (Ipv4Addr 10 0 0 5)"
    by (simp add: lookup_def normalize_x set_static_def DnsZone_alloc_id_def DnsZone_new_def
        strip_wildcard_def)
  from dns_answers_address [OF f _ _ sample_query_fields(3,4,1) _ sample_query_fields(7,5,6) l]
  show ?thesis using sample_query_fields(2) by auto
qed

section \<open>Removing rules\<close>

text \<open>
  Removing a static rule by its identifier removes whatever record its name has by then. A name
  that was set twice loses the newer record to the removal of the older rule, and the newer rule's
  identifier then removes nothing.
\<close>

lemma stale_rule_removes_newer_record:
  fixes z :: "nat DnsZone"
  assumes "set_static ''x'' (Ipv4Addr 10 0 0 1) (DnsZone_new ''l'') = (z1, i1)"
    and "set_static ''x'' (Ipv4Addr 10 0 0 2) z1 = (z2, i2)" and "remove_rule i1 z2 = (z, r)"
  shows "i1 \<noteq> i2 \<and> lookup z2 ''x'' = A (Ipv4Addr 10 0 0 2) \<and> lookup z ''x'' = Nxdomain \<and>
    snd (remove_rule i2 z) = False"
  using assms by (auto simp: set_static_def DnsZone_alloc_id_def DnsZone_new_def normalize_x
      strip_wildcard_def remove_rule_def lookup_def Let_def)

end
