(* ===== verification/Vnet.thy ===== *)
theory Vnet
  imports Frame "HOL-Library.List_Lexorder" "HOL-Library.Product_Lexorder"
begin

text \<open>
  Switch metadata and software offload completion (\<open>hv/crates/vmlab-hv-proto/src/net.rs\<close>): the
  virtio-net header with its codec and validation, the packet layout parser, segmentation of
  large packets with recomputed checksums, and the flow hash. A fallible operation returns
  \<open>Inl\<close> an error or \<open>Inr\<close> its result. Byte order here is little-endian inside the header.
\<close>

section \<open>Errors, constants and the header\<close>

datatype io_error = InvalidData | InvalidInput | UnexpectedEof

type_synonym 'a io_result = "io_error + 'a"

definition VNET_MAX_FRAME_LEN :: nat where "VNET_MAX_FRAME_LEN = 65536 + 14"
definition METADATA_LEN :: nat where "METADATA_LEN = 16"
definition NEEDS_CSUM :: u8 where "NEEDS_CSUM = 1"
definition DATA_VALID :: u8 where "DATA_VALID = 2"
definition GSO_NONE :: u8 where "GSO_NONE = 0"
definition GSO_TCPV4 :: u8 where "GSO_TCPV4 = 1"
definition GSO_TCPV6 :: u8 where "GSO_TCPV6 = 4"
definition GSO_UDP :: u8 where "GSO_UDP = 5"
definition GSO_ECN :: u8 where "GSO_ECN = 128"

lemmas vnet_const_defs = VNET_MAX_FRAME_LEN_def METADATA_LEN_def NEEDS_CSUM_def DATA_VALID_def
  GSO_NONE_def GSO_TCPV4_def GSO_TCPV6_def GSO_UDP_def GSO_ECN_def

record Header =
  h_flags :: u8
  h_gso_type :: u8
  h_hdr_len :: u16
  h_gso_size :: u16
  h_csum_start :: u16
  h_csum_offset :: u16

definition Header_default :: Header where
  "Header_default = \<lparr>h_flags = 0, h_gso_type = 0, h_hdr_len = 0, h_gso_size = 0, h_csum_start = 0,
     h_csum_offset = 0\<rparr>"

definition to_le16 :: "u16 \<Rightarrow> bytes" where
  "to_le16 w = [ucast w, ucast (drop_bit 8 w)]"

definition le16_at :: "bytes \<Rightarrow> nat \<Rightarrow> u16" where
  "le16_at b i = from_be16 (b ! (i + 1)) (b ! i)"

definition be16 :: "bytes \<Rightarrow> nat \<Rightarrow> u16 io_result" where
  "be16 b i = (case slice_range b i (i + 2) of
     None \<Rightarrow> Inl InvalidData | Some w \<Rightarrow> Inr (from_be16 (w ! 0) (w ! 1)))"

definition byte_at :: "bytes \<Rightarrow> nat \<Rightarrow> u8 io_result" where
  "byte_at b i = (case slice_get b i of None \<Rightarrow> Inl InvalidData | Some x \<Rightarrow> Inr x)"

definition io_bind :: "'a io_result \<Rightarrow> ('a \<Rightarrow> 'b io_result) \<Rightarrow> 'b io_result" where
  "io_bind r f = (case r of Inl e \<Rightarrow> Inl e | Inr x \<Rightarrow> f x)"

definition header_ok :: "Header \<Rightarrow> bool" where
  "header_ok h \<longleftrightarrow> \<not> (h_flags h AND NOT (NEEDS_CSUM OR DATA_VALID) \<noteq> 0 \<or>
     h_flags h = NEEDS_CSUM OR DATA_VALID \<or>
     h_gso_type h AND NOT GSO_ECN \<notin> {GSO_NONE, GSO_TCPV4, GSO_TCPV6, GSO_UDP} \<or>
     h_gso_type h AND GSO_ECN \<noteq> 0 \<and> h_gso_type h AND NOT GSO_ECN \<notin> {GSO_TCPV4, GSO_TCPV6})"

definition Header_decode :: "bytes \<Rightarrow> Header io_result" where
  "Header_decode b =
     (if length b < 10 then Inl InvalidData
      else let h = \<lparr>h_flags = b ! 0, h_gso_type = b ! 1, h_hdr_len = le16_at b 2,
                    h_gso_size = le16_at b 4, h_csum_start = le16_at b 6,
                    h_csum_offset = le16_at b 8\<rparr>
           in if \<not> header_ok h then Inl InvalidData else Inr h)"

definition Header_encode :: "Header \<Rightarrow> bytes" where
  "Header_encode h = [h_flags h, h_gso_type h] @ to_le16 (h_hdr_len h) @ to_le16 (h_gso_size h) @
     to_le16 (h_csum_start h) @ to_le16 (h_csum_offset h) @ [0, 0]"

section \<open>Packet layout\<close>

record Layout =
  ly_ip :: nat
  ly_transport :: nat
  ly_protocol :: u8
  ly_ipv4 :: bool

fun skip_vlan :: "nat \<Rightarrow> bytes \<Rightarrow> nat \<Rightarrow> u16 \<Rightarrow> (nat \<times> u16) io_result" where
  "skip_vlan 0 frame ip kind = Inr (ip, kind)"
| "skip_vlan (Suc n) frame ip kind =
     (if kind \<noteq> 0x8100 \<and> kind \<noteq> 0x88a8 then Inr (ip, kind)
      else io_bind (be16 frame (ip + 2)) (\<lambda>kind. skip_vlan n frame (ip + 4) kind))"

fun skip_extensions :: "nat \<Rightarrow> bytes \<Rightarrow> nat \<Rightarrow> u8 \<Rightarrow> (nat \<times> u8) io_result" where
  "skip_extensions 0 frame pos protocol = Inr (pos, protocol)"
| "skip_extensions (Suc n) frame pos protocol =
     (if protocol \<notin> {0, 43, 60, 51} then Inr (pos, protocol)
      else io_bind (byte_at frame pos) (\<lambda>next_p.
        io_bind (byte_at frame (pos + 1)) (\<lambda>len.
          skip_extensions n frame
            (pos + (if protocol = 51 then (unat len + 2) * 4 else (unat len + 1) * 8)) next_p)))"

definition parse_ip :: "bytes \<Rightarrow> nat \<Rightarrow> u16 \<Rightarrow> (nat \<times> u8 \<times> bool) io_result" where
  "parse_ip frame ip kind =
     (if kind = 0x0800 then
        io_bind (byte_at frame ip) (\<lambda>first.
          let len = unat (first AND 15) * 4 in
          if drop_bit 4 first \<noteq> 4 \<or> len < 20 then Inl InvalidData
          else io_bind (be16 frame (ip + 6)) (\<lambda>frag.
            if frag AND 0x3fff \<noteq> 0 then Inl InvalidData
            else io_bind (byte_at frame (ip + 9)) (\<lambda>protocol. Inr (ip + len, protocol, True))))
      else if kind = 0x86dd then
        (if (case slice_get frame ip of None \<Rightarrow> True | Some first \<Rightarrow> drop_bit 4 first \<noteq> 6)
         then Inl InvalidData
         else io_bind (byte_at frame (ip + 6)) (\<lambda>protocol.
           io_bind (skip_extensions 8 frame (ip + 40) protocol) (\<lambda>(pos, protocol).
             Inr (pos, protocol, False))))
      else Inl InvalidData)"

definition Layout_parse :: "bytes \<Rightarrow> Layout io_result" where
  "Layout_parse frame =
     io_bind (be16 frame 12) (\<lambda>kind.
       io_bind (skip_vlan 2 frame 14 kind) (\<lambda>(ip, kind).
         io_bind (parse_ip frame ip kind) (\<lambda>(transport, protocol, ipv4).
           if protocol \<noteq> 6 \<and> protocol \<noteq> 17 then Inl InvalidData
           else let min_len = (if protocol = 6 then 20 else 8) in
             if transport + min_len > length frame then Inl InvalidData
             else Inr \<lparr>ly_ip = ip, ly_transport = transport, ly_protocol = protocol,
                       ly_ipv4 = ipv4\<rparr>)))"

section \<open>Checksums\<close>

fun sum_add :: "u64 \<Rightarrow> bytes \<Rightarrow> u64" where
  "sum_add s (a # b # rest) = sum_add (s + ucast (from_be16 a b)) rest"
| "sum_add s [b] = s + push_bit 8 (ucast b)"
| "sum_add s [] = s"

lemma unat_and_ffff_64: "unat ((s :: u64) AND 0xFFFF) = unat s mod 65536"
proof -
  have "s AND 0xFFFF = take_bit 16 s" by (simp add: take_bit_eq_mask mask_numeral)
  also have "\<dots> = s mod 65536" by (simp add: take_bit_eq_mod)
  finally show ?thesis by (simp add: unat_mod_distrib)
qed

lemma unat_drop_16_64: "unat (drop_bit 16 (s :: u64)) = unat s div 65536"
  by (simp add: drop_bit_eq_div unat_div_distrib)

lemma unat_fold_step_64:
  "unat (((s :: u64) AND 0xFFFF) + drop_bit 16 s) = unat s mod 65536 + unat s div 65536"
proof -
  have "unat s < 18446744073709551616" using unsigned_less [of s] by simp
  then have "unat s div 65536 < 281474976710656" by simp
  moreover have "unat s mod 65536 < 65536" by simp
  ultimately have "unat s mod 65536 + unat s div 65536 < 18446744073709551616" by linarith
  then show ?thesis by (simp add: unat_word_ariths unat_and_ffff_64 unat_drop_16_64)
qed

function sum_fold :: "u64 \<Rightarrow> u64" where
  "sum_fold s = (if s > 0xffff then sum_fold ((s AND 0xffff) + drop_bit 16 s) else s)"
  by pat_completeness auto
termination
proof (relation "measure unat")
  fix s :: u64
  assume "s > 0xffff"
  then have "unat s > 65535" by (simp add: word_less_nat_alt)
  then have "1 \<le> unat s div 65536" by (simp add: Suc_le_eq)
  moreover have "unat s = 65536 * (unat s div 65536) + unat s mod 65536" by simp
  ultimately have "unat s mod 65536 + unat s div 65536 < unat s" by linarith
  then show "((s AND 0xffff) + drop_bit 16 s, s) \<in> measure unat" by (simp add: unat_fold_step_64)
qed simp

declare sum_fold.simps [simp del]

definition sum_finish :: "u64 \<Rightarrow> u16" where
  "sum_finish s = NOT (ucast (sum_fold s))"

definition checksum :: "bytes \<Rightarrow> u16" where
  "checksum b = sum_finish (sum_add 0 b)"

definition transport_checksum :: "Layout \<Rightarrow> bytes \<Rightarrow> u16" where
  "transport_checksum ly frame =
     (let len = of_nat (length frame - ly_transport ly) :: u32;
          s = (if ly_ipv4 ly then
                 sum_add (sum_add (sum_add 0 (take 8 (drop (ly_ip ly + 12) frame)))
                   [0, ly_protocol ly]) (to_be16 (ucast len))
               else
                 sum_add (sum_add (sum_add 0 (take 32 (drop (ly_ip ly + 8) frame)))
                   (to_be32 len)) [0, 0, 0, ly_protocol ly])
      in sum_finish (sum_add s (drop (ly_transport ly) frame)))"

section \<open>Validation and metadata\<close>

definition validate :: "Header \<Rightarrow> bytes \<Rightarrow> unit io_result" where
  "validate h frame =
     io_bind (Header_decode (Header_encode h)) (\<lambda>_.
       if length frame > VNET_MAX_FRAME_LEN \<or> length frame < 14 then Inl InvalidData
       else if h_flags h AND NEEDS_CSUM \<noteq> 0 \<and>
         unat (h_csum_start h) + unat (h_csum_offset h) + 2 > length frame then Inl InvalidData
       else
         let kind = h_gso_type h AND NOT GSO_ECN in
         if kind \<noteq> GSO_NONE then
           io_bind (Layout_parse frame) (\<lambda>layout.
             let tcp = (kind = GSO_TCPV4 \<or> kind = GSO_TCPV6) in
             if h_gso_size h = 0 \<or> h_flags h AND NEEDS_CSUM = 0 \<or>
                unat (h_csum_start h) \<noteq> ly_transport layout \<or>
                h_csum_offset h \<noteq> (if tcp then 16 else 6) \<or>
                tcp \<and> ly_protocol layout \<noteq> 6 \<or> \<not> tcp \<and> ly_protocol layout \<noteq> 17 \<or>
                kind = GSO_TCPV4 \<and> \<not> ly_ipv4 layout \<or> kind = GSO_TCPV6 \<and> ly_ipv4 layout
             then Inl InvalidData else Inr ())
         else Inr ())"

definition metadata :: "Header \<Rightarrow> u16 \<Rightarrow> bytes" where
  "metadata h queue = to_be16 1 @ to_be16 queue @ Header_encode h"

definition from_metadata :: "bytes \<Rightarrow> (Header \<times> u16 \<times> bytes) io_result" where
  "from_metadata body =
     (if length body < METADATA_LEN then Inl InvalidData
      else io_bind (be16 body 0) (\<lambda>version.
        if version \<noteq> 1 then Inl InvalidData
        else io_bind (Header_decode (take (METADATA_LEN - 4) (drop 4 body))) (\<lambda>header.
          let frame = drop METADATA_LEN body in
          io_bind (validate header frame) (\<lambda>_.
            io_bind (be16 body 2) (\<lambda>queue. Inr (header, queue, frame))))))"

section \<open>Segmentation\<close>

definition segment_network ::
  "Layout \<Rightarrow> bytes \<Rightarrow> nat \<Rightarrow> bytes \<Rightarrow> bytes io_result" where
  "segment_network ly frame index part =
     (let ip = ly_ip ly in
      if ly_ipv4 ly then
        (case u16_try_from (length part - ip) of
           None \<Rightarrow> Inl InvalidData
         | Some len \<Rightarrow>
             let part = splice (ip + 2) (to_be16 len) part in
             io_bind (be16 frame (ip + 4)) (\<lambda>w.
               let part = splice (ip + 4) (to_be16 (w + of_nat index)) part;
                   part = splice (ip + 10) [0, 0] part;
                   value = checksum (take (ly_transport ly - ip) (drop ip part))
               in Inr (splice (ip + 10) (to_be16 value) part)))
      else
        (case u16_try_from (length part - ip - 40) of
           None \<Rightarrow> Inl InvalidData
         | Some len \<Rightarrow> Inr (splice (ip + 4) (to_be16 len) part)))"

definition segment_transport ::
  "Layout \<Rightarrow> bytes \<Rightarrow> nat \<Rightarrow> nat \<Rightarrow> nat \<Rightarrow> bytes \<Rightarrow> bytes" where
  "segment_transport ly frame count index offset part =
     (let transport = ly_transport ly;
          tcp = (ly_protocol ly = 6);
          (part, field) =
            (if tcp then
               let sequence = u32_at frame (transport + 4);
                   part = splice (transport + 4) (to_be32 (sequence + of_nat offset)) part;
                   part = (if index + 1 \<noteq> count
                           then part[transport + 13 := part ! (transport + 13) AND NOT (1 OR 8)]
                           else part);
                   part = (if index \<noteq> 0
                           then part[transport + 13 := part ! (transport + 13) AND NOT 128]
                           else part)
               in (part, transport + 16)
             else
               let len = of_nat (length part - transport) :: u16
               in (splice (transport + 4) (to_be16 len) part, transport + 6));
          part = splice field [0, 0] part;
          value = transport_checksum ly part;
          value = (if \<not> tcp \<and> value = 0 then 0xffff else value)
      in splice field (to_be16 value) part)"

definition segment_part ::
  "Layout \<Rightarrow> bytes \<Rightarrow> nat \<Rightarrow> nat \<Rightarrow> nat \<Rightarrow> nat \<Rightarrow> bytes io_result" where
  "segment_part ly frame payload seg_size count index =
     (let data = drop payload frame;
          offset = index * seg_size;
          stop = min (offset + seg_size) (length data);
          part = take payload frame @ take (stop - offset) (drop offset data)
      in io_bind (segment_network ly frame index part) (\<lambda>part.
           Inr (segment_transport ly frame count index offset part)))"

fun collect :: "'a io_result list \<Rightarrow> 'a list io_result" where
  "collect [] = Inr []"
| "collect (r # rs) = io_bind r (\<lambda>x. io_bind (collect rs) (\<lambda>xs. Inr (x # xs)))"

definition payload_start :: "Layout \<Rightarrow> bytes \<Rightarrow> nat io_result" where
  "payload_start ly frame =
     (if ly_protocol ly = 6 then
        io_bind (byte_at frame (ly_transport ly + 12)) (\<lambda>b.
          let len = unat (drop_bit 4 b) * 4 in
          if len < 20 then Inl InvalidData else Inr (ly_transport ly + len))
      else Inr (ly_transport ly + 8))"

definition segments :: "Header \<Rightarrow> bytes \<Rightarrow> u16 \<Rightarrow> bytes list io_result" where
  "segments h frame mtu =
     io_bind (validate h frame) (\<lambda>_.
       if h_gso_type h = GSO_NONE then
         Inr [if h_flags h AND NEEDS_CSUM \<noteq> 0 then
                let start = unat (h_csum_start h);
                    field = start + unat (h_csum_offset h);
                    value = checksum (drop start frame);
                    value = (if value = 0 then 0xffff else value)
                in splice field (to_be16 value) frame
              else frame]
       else io_bind (Layout_parse frame) (\<lambda>ly.
         io_bind (payload_start ly frame) (\<lambda>payload.
           if payload > length frame then Inl InvalidData
           else if unat mtu < payload - ly_ip ly then Inl InvalidData
           else
             let budget = unat mtu - (payload - ly_ip ly);
                 seg_size = min budget (unat (h_gso_size h));
                 data_len = length frame - payload
             in if seg_size = 0 then Inl InvalidData
                else if ly_protocol ly \<noteq> 6 \<and> min (unat (h_gso_size h)) data_len > budget
                then Inl InvalidData
                else
                  let count = max (div_ceil data_len seg_size) 1 in
                  if count * payload + data_len > 4 * 1024 * 1024 then Inl InvalidData
                  else collect (map (segment_part ly frame payload seg_size count) [0..<count]))))"

section \<open>The flow hash\<close>

fun hash_add :: "u32 \<Rightarrow> bytes \<Rightarrow> u32" where
  "hash_add hash [] = hash"
| "hash_add hash (b # bs) = hash_add ((hash XOR ucast b) * 16777619) bs"

definition slice_of :: "bytes \<Rightarrow> nat \<Rightarrow> nat \<Rightarrow> bytes" where
  "slice_of b i j = take (j - i) (drop i b)"

definition flow_hash :: "bytes \<Rightarrow> u32" where
  "flow_hash frame =
     (case Layout_parse frame of
        Inr ly \<Rightarrow>
          let (source, destination) =
                (if ly_ipv4 ly
                 then (slice_of frame (ly_ip ly + 12) (ly_ip ly + 16),
                       slice_of frame (ly_ip ly + 16) (ly_ip ly + 20))
                 else (slice_of frame (ly_ip ly + 8) (ly_ip ly + 24),
                       slice_of frame (ly_ip ly + 24) (ly_ip ly + 40)));
              source_port = slice_of frame (ly_transport ly) (ly_transport ly + 2);
              destination_port = slice_of frame (ly_transport ly + 2) (ly_transport ly + 4);
              h = (if (source, source_port) \<le> (destination, destination_port)
                   then hash_add (hash_add (hash_add (hash_add 2166136261 source) source_port)
                          destination) destination_port
                   else hash_add (hash_add (hash_add (hash_add 2166136261 destination)
                          destination_port) source) source_port)
          in hash_add h [ly_protocol ly]
      | Inl _ \<Rightarrow> hash_add 2166136261 (take (min (length frame) 14) frame))"

end
