(* ===== verification/Framing.thy ===== *)
theory Framing
  imports Vnet
begin

text \<open>
  The stream framing codec (\<open>src/net/framing.rs\<close>): every packet travels as a four-byte big-endian
  length and a body, which in \<open>Vnet\<close> mode starts with the offload metadata. The byte streams are
  the asynchronous I/O of a third-party crate: their operations are records that the codec takes as an argument,
  the locales \<open>byte_source\<close> and \<open>byte_sink\<close> state what their documentation promises,
  and \<open>chunk_source\<close> and \<open>list_sink\<close> are concrete instances.
\<close>

section \<open>Byte streams\<close>

text \<open>\<open>rd_read n r\<close> is one \<open>AsyncReadExt::read\<close> into a buffer of \<open>n\<close> bytes, \<open>rd_exact n r\<close> one
  \<open>read_exact\<close>; both return the stream that is left.\<close>

record 'r source_ops =
  rd_read :: "nat \<Rightarrow> 'r \<Rightarrow> bytes io_result \<times> 'r"
  rd_exact :: "nat \<Rightarrow> 'r \<Rightarrow> bytes io_result \<times> 'r"

record 'w sink_ops =
  wr_all :: "bytes \<Rightarrow> 'w \<Rightarrow> unit io_result \<times> 'w"
  wr_flush :: "'w \<Rightarrow> unit io_result \<times> 'w"

text \<open>\<open>content r\<close> is what is still to be read from a stream, up to its end, and \<open>alive r\<close> says that it
  will end without an I/O error of its own.\<close>

locale byte_source =
  fixes I :: "'r source_ops" and content :: "'r \<Rightarrow> bytes" and alive :: "'r \<Rightarrow> bool"
  assumes read_Inr: "rd_read I n r = (Inr c, r') \<Longrightarrow> content r = c @ content r' \<and> length c \<le> n"
    and read_eof: "rd_read I n r = (Inr [], r') \<Longrightarrow> 0 < n \<Longrightarrow> content r = []"
    and exact_Inr: "rd_exact I n r = (Inr c, r') \<Longrightarrow> content r = c @ content r' \<and> length c = n"
    and read_alive: "alive r \<Longrightarrow> \<exists>c r'. rd_read I n r = (Inr c, r') \<and> alive r'"
    and exact_alive: "alive r \<Longrightarrow> n \<le> length (content r) \<Longrightarrow>
      \<exists>c r'. rd_exact I n r = (Inr c, r') \<and> alive r'"
    and exact_short: "alive r \<Longrightarrow> length (content r) < n \<Longrightarrow> fst (rd_exact I n r) = Inl UnexpectedEof"

locale byte_sink =
  fixes I :: "'w sink_ops" and sunk :: "'w \<Rightarrow> bytes"
  assumes all_Inr: "wr_all I b w = (Inr (), w') \<Longrightarrow> sunk w' = sunk w @ b"
    and flush_Inr: "wr_flush I w = (Inr (), w') \<Longrightarrow> sunk w' = sunk w"

section \<open>Modes and packets\<close>

datatype FramingMode = Raw | ModeVnet u16

definition FramingMode_default :: FramingMode where "FramingMode_default = Raw"

definition queue_pairs :: "u32 \<Rightarrow> u16" where
  "queue_pairs vcpus = ucast (max 1 (min 31 vcpus))"

record Packet =
  pk_frame :: bytes
  pk_header :: Header
  pk_queue :: u16

definition Packet_raw :: "bytes \<Rightarrow> Packet" where
  "Packet_raw frame = \<lparr>pk_frame = frame, pk_header = Header_default, pk_queue = 0\<rparr>"

definition for_port :: "Packet \<Rightarrow> FramingMode \<Rightarrow> u16 \<Rightarrow> Packet list io_result" where
  "for_port p mode mtu =
     (case mode of
        ModeVnet pairs \<Rightarrow>
          if pairs \<noteq> 0
          then Inr [p\<lparr>pk_queue := ucast (flow_hash (pk_frame p) mod ucast pairs)\<rparr>]
          else Inl InvalidInput
      | Raw \<Rightarrow>
          if pk_header p = Header_default then Inr [p]
          else io_bind (segments (pk_header p) (pk_frame p) mtu)
                 (\<lambda>frames. Inr (map Packet_raw frames)))"

section \<open>Reading\<close>

definition MAX_FRAME_LEN :: nat where "MAX_FRAME_LEN = 65536 + 14 + 4"

text \<open>The loop that fills the length buffer: \<open>None\<close> is a clean end of the stream.\<close>

function read_prefix :: "'r source_ops \<Rightarrow> bytes \<Rightarrow> 'r \<Rightarrow> bytes option io_result \<times> 'r" where
  "read_prefix I len_buf r =
     (if length len_buf < 4 then
        (case rd_read I (4 - length len_buf) r of
           (Inl e, r) \<Rightarrow> (Inl e, r)
         | (Inr c, r) \<Rightarrow>
             if c = [] then (if len_buf = [] then (Inr None, r) else (Inl UnexpectedEof, r))
             else read_prefix I (len_buf @ c) r)
      else (Inr (Some len_buf), r))"
  by pat_completeness auto
termination
  by (relation "measure (\<lambda>(I, len_buf, r). 4 - length len_buf)") (auto intro!: diff_less_mono2)

declare read_prefix.simps [simp del]

definition read_body :: "'r source_ops \<Rightarrow> 'r \<Rightarrow> nat \<Rightarrow> bytes option io_result \<times> 'r" where
  "read_body I r limit =
     (case read_prefix I [] r of
        (Inl e, r) \<Rightarrow> (Inl e, r)
      | (Inr None, r) \<Rightarrow> (Inr None, r)
      | (Inr (Some b), r) \<Rightarrow>
          let len = unat (from_be32 (b ! 0) (b ! 1) (b ! 2) (b ! 3)) in
          if len > limit then (Inl InvalidData, r)
          else (case rd_exact I len r of
                  (Inl e, r) \<Rightarrow> (Inl e, r)
                | (Inr frame, r) \<Rightarrow> (Inr (Some frame), r)))"

definition read_frame :: "'r source_ops \<Rightarrow> 'r \<Rightarrow> bytes option io_result \<times> 'r" where
  "read_frame I r = read_body I r MAX_FRAME_LEN"

definition read_packet :: "'r source_ops \<Rightarrow> 'r \<Rightarrow> FramingMode \<Rightarrow> Packet option io_result \<times> 'r" where
  "read_packet I r mode =
     (case mode of
        Raw \<Rightarrow> (case read_frame I r of
                  (res, r) \<Rightarrow> (io_bind res (\<lambda>frame. Inr (map_option Packet_raw frame)), r))
      | ModeVnet pairs \<Rightarrow>
          (case read_body I r (VNET_MAX_FRAME_LEN + METADATA_LEN) of
             (Inl e, r) \<Rightarrow> (Inl e, r)
           | (Inr None, r) \<Rightarrow> (Inr None, r)
           | (Inr (Some body), r) \<Rightarrow>
               (io_bind (from_metadata body) (\<lambda>(header, queue, frame).
                  if queue \<ge> pairs then Inl InvalidData
                  else let offset = length body - length frame
                       in Inr (Some \<lparr>pk_frame = drop offset body, pk_header = header,
                            pk_queue = queue\<rparr>)), r)))"

section \<open>Writing\<close>

text \<open>A sequence of writes stops at the first that fails.\<close>

fun write_seq :: "'w sink_ops \<Rightarrow> bytes list \<Rightarrow> 'w \<Rightarrow> unit io_result \<times> 'w" where
  "write_seq I [] w = wr_flush I w"
| "write_seq I (b # bs) w =
     (case wr_all I b w of (Inl e, w) \<Rightarrow> (Inl e, w) | (Inr _, w) \<Rightarrow> write_seq I bs w)"

definition write_frame :: "'w sink_ops \<Rightarrow> bytes \<Rightarrow> 'w \<Rightarrow> unit io_result \<times> 'w" where
  "write_frame I frame w =
     (if length frame > MAX_FRAME_LEN then (Inl InvalidInput, w)
      else let len = of_nat (length frame) :: u32 in write_seq I [to_be32 len, frame] w)"

definition write_packet :: "'w sink_ops \<Rightarrow> Packet \<Rightarrow> FramingMode \<Rightarrow> 'w \<Rightarrow> unit io_result \<times> 'w" where
  "write_packet I packet mode w =
     (case mode of
        Raw \<Rightarrow> write_frame I (pk_frame packet) w
      | ModeVnet pairs \<Rightarrow>
          (case validate (pk_header packet) (pk_frame packet) of
             Inl e \<Rightarrow> (Inl e, w)
           | Inr _ \<Rightarrow>
               if pk_queue packet \<ge> pairs then (Inl InvalidInput, w)
               else let len = of_nat (METADATA_LEN + length (pk_frame packet)) :: u32
                    in write_seq I [to_be32 len, metadata (pk_header packet) (pk_queue packet),
                         pk_frame packet] w))"

section \<open>Concrete streams\<close>

text \<open>A stream that arrives in chunks: a read returns no more than the first chunk.\<close>

fun chunk_read :: "nat \<Rightarrow> bytes list \<Rightarrow> bytes io_result \<times> bytes list" where
  "chunk_read n [] = (Inr [], [])"
| "chunk_read n (c # cs) =
     (if c = [] then chunk_read n cs
      else if length c \<le> n then (Inr c, cs) else (Inr (take n c), drop n c # cs))"

definition chunk_exact :: "nat \<Rightarrow> bytes list \<Rightarrow> bytes io_result \<times> bytes list" where
  "chunk_exact n cs =
     (if n \<le> length (concat cs) then (Inr (take n (concat cs)), [drop n (concat cs)])
      else (Inl UnexpectedEof, []))"

definition chunk_source :: "bytes list source_ops" where
  "chunk_source = \<lparr>rd_read = chunk_read, rd_exact = chunk_exact\<rparr>"

definition list_sink :: "bytes sink_ops" where
  "list_sink = \<lparr>wr_all = (\<lambda>b w. (Inr (), w @ b)), wr_flush = (\<lambda>w. (Inr (), w))\<rparr>"

lemma chunk_read_Inr: "\<exists>c r'. chunk_read n cs = (Inr c, r') \<and> concat cs = c @ concat r' \<and> length c \<le> n \<and>
    (0 < n \<longrightarrow> c = [] \<longrightarrow> concat cs = [])"
  by (induction n cs rule: chunk_read.induct) auto

interpretation chunks: byte_source chunk_source concat "\<lambda>r. True"
proof
  fix n r c r'
  show "rd_read chunk_source n r = (Inr c, r') \<Longrightarrow> concat r = c @ concat r' \<and> length c \<le> n"
    using chunk_read_Inr [of n r] by (auto simp: chunk_source_def)
  show "rd_read chunk_source n r = (Inr [], r') \<Longrightarrow> 0 < n \<Longrightarrow> concat r = []"
    using chunk_read_Inr [of n r] by (auto simp: chunk_source_def simp del: concat_eq_Nil_conv Nil_eq_concat_conv)
  show "rd_exact chunk_source n r = (Inr c, r') \<Longrightarrow> concat r = c @ concat r' \<and> length c = n"
    by (auto simp: chunk_source_def chunk_exact_def split: if_splits)
  show "\<exists>c r'. rd_read chunk_source n r = (Inr c, r') \<and> True"
    using chunk_read_Inr [of n r] by (auto simp: chunk_source_def)
qed (auto simp: chunk_source_def chunk_exact_def)

interpretation lists: byte_sink list_sink "\<lambda>w. w"
  by unfold_locales (auto simp: list_sink_def)

end
