(* ===== verification/Fastpath.thy ===== *)
theory Fastpath
  imports Frame
begin

text \<open>
  The in-kernel fast path. \<open>ebpf/fastpath-logic\<close> holds the decisions: the state machine that
  finds frame boundaries in a byte stream seen one socket buffer at a time, and the redirect
  verdicts. \<open>ebpf/fastpath-sockmap\<close> and \<open>ebpf/xdp-switch\<close> bind them to kernel maps, and
  \<open>src/net/fastpath/sockmap.rs\<close> keeps the maps in step with the userspace switch.

  Lengths and offsets are natural numbers: every sum the code computes is bounded by the
  buffer's length and every difference is guarded by a comparison. What the kernel decides is
  an argument: \<open>read\<close> loads bytes of the buffer or fails, and \<open>kernel_ok\<close> says whether a map
  accepts an insertion.
\<close>

section \<open>Frame boundaries in a byte stream\<close>

definition PREFIX_LEN :: nat where "PREFIX_LEN = 4"
definition FP_MAX_FRAME_LEN :: nat where "FP_MAX_FRAME_LEN = 65536 + 14 + 4"
definition MAX_BOUNDARIES_PER_SKB :: nat where "MAX_BOUNDARIES_PER_SKB = 16"
definition FLAG_DESYNC :: u8 where "FLAG_DESYNC = 1"

record FrameState =
  remaining :: nat
  prefix_buf :: bytes
  prefix_have :: nat
  fs_flags :: u8

definition FrameState_default :: FrameState where
  "FrameState_default = \<lparr>remaining = 0, prefix_buf = [0, 0, 0, 0], prefix_have = 0, fs_flags = 0\<rparr>"

datatype SkbClass = Aligned nat | Passthrough | Desync

type_synonym reader = "nat \<Rightarrow> nat \<Rightarrow> bytes option"

definition set_desync :: "FrameState \<Rightarrow> SkbClass \<times> FrameState" where
  "set_desync st = (Desync, st\<lparr>fs_flags := fs_flags st OR FLAG_DESYNC\<rparr>)"

definition be32_len :: "bytes \<Rightarrow> nat" where
  "be32_len b = unat (from_be32 (b ! 0) (b ! 1) (b ! 2) (b ! 3))"

primrec walk_boundaries :: "nat \<Rightarrow> FrameState \<Rightarrow> nat \<Rightarrow> nat \<Rightarrow> reader \<Rightarrow> SkbClass \<times> FrameState" where
  "walk_boundaries 0 st len off read = set_desync st"
| "walk_boundaries (Suc budget) st len off read =
     (if off \<ge> len then (Passthrough, st)
      else
        let start = prefix_have st mod 4;
            need = PREFIX_LEN - start;
            avail = len - off;
            taken = (if need < avail then need else avail)
        in case read off taken of
             None \<Rightarrow> set_desync st
           | Some b \<Rightarrow>
               let st = st\<lparr>prefix_buf := splice start b (prefix_buf st), prefix_have := start + taken\<rparr>;
                   off = off + taken
               in if prefix_have st < PREFIX_LEN then (Passthrough, st)
                  else
                    let flen = be32_len (prefix_buf st);
                        st = st\<lparr>prefix_have := 0\<rparr>
                    in if flen > FP_MAX_FRAME_LEN then set_desync st
                       else
                         let rest = len - off in
                         if flen \<ge> rest then (Passthrough, st\<lparr>remaining := flen - rest\<rparr>)
                         else walk_boundaries budget st len (off + flen) read)"

definition step_skb :: "FrameState \<Rightarrow> nat \<Rightarrow> reader \<Rightarrow> SkbClass \<times> FrameState" where
  "step_skb st len read =
     (if fs_flags st AND FLAG_DESYNC \<noteq> 0 then (Passthrough, st)
      else if remaining st > 0 \<and> len \<le> remaining st
      then (Passthrough, st\<lparr>remaining := remaining st - len\<rparr>)
      else
        let (off, st) = (if remaining st > 0 then (remaining st, st\<lparr>remaining := 0\<rparr>) else (0, st)) in
        if off = 0 \<and> prefix_have st = 0 \<and> len > PREFIX_LEN then
          (case read 0 4 of
             None \<Rightarrow> set_desync st
           | Some b \<Rightarrow>
               let flen = be32_len b in
               if flen > FP_MAX_FRAME_LEN then set_desync st
               else if flen \<ge> ETH_HEADER_LEN \<and> flen = len - PREFIX_LEN then (Aligned flen, st)
               else walk_boundaries MAX_BOUNDARIES_PER_SKB st len off read)
        else walk_boundaries MAX_BOUNDARIES_PER_SKB st len off read)"

section \<open>Redirect verdicts\<close>

datatype FrameVerdict = Redirect u64 | VerdictPass

fun mac_first :: "MacAddr \<Rightarrow> u8" where
  "mac_first (MacAddr a b c d e f) = a"

definition classify_frame :: "MacAddr \<Rightarrow> MacAddr \<Rightarrow> u64 \<Rightarrow> (MacAddr \<Rightarrow> u64 option) \<Rightarrow> FrameVerdict" where
  "classify_frame dst_mac src_mac ingress_port lookup =
     (if mac_first dst_mac AND 1 \<noteq> 0 then VerdictPass
      else (case lookup src_mac of
              None \<Rightarrow> VerdictPass
            | Some p \<Rightarrow>
                if p \<noteq> ingress_port then VerdictPass
                else (case lookup dst_mac of
                        None \<Rightarrow> VerdictPass
                      | Some p \<Rightarrow> if p \<noteq> ingress_port then Redirect p else VerdictPass)))"

definition XDP_FLAG_ISOLATED :: u32 where "XDP_FLAG_ISOLATED = 1"
definition XDP_FLAG_HOST :: u32 where "XDP_FLAG_HOST = 2"
definition HOST_TAG :: u32 where "HOST_TAG = 0"
definition TAG_LEN :: nat where "TAG_LEN = 4"

datatype XdpVerdict = ForwardTo u32 | Punt | XdpVerdictDrop

definition classify_xdp_guest :: "u32 \<Rightarrow> u32 \<Rightarrow> MacAddr \<Rightarrow> (MacAddr \<Rightarrow> u32 option) \<Rightarrow> XdpVerdict" where
  "classify_xdp_guest conf_flags my_tag dst_mac lookup =
     (if conf_flags AND XDP_FLAG_ISOLATED = 0 \<and> mac_first dst_mac AND 1 = 0 then
        (case lookup dst_mac of
           Some tag \<Rightarrow> if tag = my_tag then XdpVerdictDrop else ForwardTo tag
         | None \<Rightarrow> Punt)
      else Punt)"

section \<open>The socket-map programs\<close>

record SockState =
  ss_port_id :: u64
  ss_fs :: FrameState

record FpStats =
  fp_frames :: u64
  fp_bytes :: u64

record Maps =
  port_hash :: "u64 set"
  tx_hash :: "u64 set"
  mac_map :: "(MacAddr, u64) hashmap"
  sock_state :: "(u64, SockState) hashmap"
  tx_target :: "(u64, u64) hashmap"
  fp_stats :: FpStats
  fp_debug :: "nat \<Rightarrow> u64"

datatype KernelInsert =
  PortInsert u64 | TxInsert u64 | MacInsert MacAddr | StateInsert u64 | TargetInsert u64

type_synonym kernel = "KernelInsert \<Rightarrow> Maps \<Rightarrow> bool"

datatype SkAction = SK_PASS | SK_DROP | SkRedirect u64

definition DBG_INVOKED :: nat where "DBG_INVOKED = 0"
definition DBG_NO_STATE :: nat where "DBG_NO_STATE = 1"
definition DBG_PASSTHROUGH :: nat where "DBG_PASSTHROUGH = 2"
definition DBG_ALIGNED :: nat where "DBG_ALIGNED = 3"
definition DBG_CLASSIFY_PASS :: nat where "DBG_CLASSIFY_PASS = 4"
definition DBG_REDIRECT :: nat where "DBG_REDIRECT = 5"
definition DBG_REDIRECT_DROP :: nat where "DBG_REDIRECT_DROP = 6"
definition DBG_TX_INVOKED :: nat where "DBG_TX_INVOKED = 7"

definition dbg :: "nat \<Rightarrow> Maps \<Rightarrow> Maps" where
  "dbg i m = m\<lparr>fp_debug := (fp_debug m)(i := fp_debug m i + 1)\<rparr>"

definition load_exact :: "reader \<Rightarrow> reader" where
  "load_exact load off n = (if 1 \<le> n \<and> n \<le> 4 then load off n else None)"

text \<open>\<open>bpf_sk_redirect_hash\<close> drops the buffer when the map has no socket under the key.\<close>

definition redirect_skb :: "Maps \<Rightarrow> u64 \<Rightarrow> SkAction" where
  "redirect_skb m port = (if port \<in> port_hash m then SkRedirect port else SK_DROP)"

definition load_mac :: "reader \<Rightarrow> nat \<Rightarrow> MacAddr option" where
  "load_mac load off = (case load off 6 of None \<Rightarrow> None | Some b \<Rightarrow> Some (mac_at b 0))"

definition redirect_verdict ::
  "MacAddr \<Rightarrow> MacAddr \<Rightarrow> u64 \<Rightarrow> nat \<Rightarrow> Maps \<Rightarrow> SkAction \<times> Maps" where
  "redirect_verdict dst_mac src_mac port len m =
     (case classify_frame dst_mac src_mac port (hm_get (mac_map m)) of
        Redirect dst_port \<Rightarrow>
          let m = dbg DBG_REDIRECT m;
              m = m\<lparr>fp_stats := \<lparr>fp_frames = fp_frames (fp_stats m) + 1,
                    fp_bytes = fp_bytes (fp_stats m) + of_nat len\<rparr>\<rparr>;
              ret = redirect_skb m dst_port
          in (ret, if ret = SK_DROP then dbg DBG_REDIRECT_DROP m else m)
      | VerdictPass \<Rightarrow> (SK_PASS, dbg DBG_CLASSIFY_PASS m))"

definition verdict_guest :: "kernel \<Rightarrow> u64 \<Rightarrow> nat \<Rightarrow> reader \<Rightarrow> Maps \<Rightarrow> SkAction \<times> Maps" where
  "verdict_guest kernel_ok cookie len load m =
     (let m = dbg DBG_INVOKED m in
      if cookie = 0 then (SK_PASS, dbg DBG_NO_STATE m)
      else
        let state = hm_get (sock_state m) cookie;
            st = (case state of Some s \<Rightarrow> s
                  | None \<Rightarrow> \<lparr>ss_port_id = - 1, ss_fs = FrameState_default\<rparr>);
            (cls, fs) = step_skb (ss_fs st) len (load_exact load);
            st = st\<lparr>ss_fs := fs\<rparr>;
            m = (if state = None then m else m\<lparr>sock_state := hm_insert cookie st (sock_state m)\<rparr>)
        in case cls of
             Aligned _ \<Rightarrow>
               let m = dbg DBG_ALIGNED m in
               (case load_mac load PREFIX_LEN of
                  None \<Rightarrow> (SK_PASS, m)
                | Some dst_mac \<Rightarrow>
                    (case load_mac load (PREFIX_LEN + 6) of
                       None \<Rightarrow> (SK_PASS, m)
                     | Some src_mac \<Rightarrow>
                         if state = None then
                           (case hm_get (mac_map m) src_mac of
                              None \<Rightarrow> (SK_PASS, dbg DBG_NO_STATE m)
                            | Some port \<Rightarrow>
                                let st = st\<lparr>ss_port_id := port\<rparr>;
                                    m = (if kernel_ok (StateInsert cookie) m
                                         then m\<lparr>sock_state := hm_insert cookie st (sock_state m)\<rparr> else m)
                                in redirect_verdict dst_mac src_mac port len m)
                         else redirect_verdict dst_mac src_mac (ss_port_id st) len m))
           | _ \<Rightarrow> (SK_PASS, dbg DBG_PASSTHROUGH m))"

definition verdict_tx :: "u64 \<Rightarrow> Maps \<Rightarrow> SkAction \<times> Maps" where
  "verdict_tx cookie m =
     (let m = dbg DBG_TX_INVOKED m in
      case hm_get (tx_target m) cookie of
        None \<Rightarrow> (SK_DROP, m)
      | Some port \<Rightarrow> (redirect_skb m port, m))"

section \<open>Keeping the maps in step with the switch\<close>

definition register_stream :: "kernel \<Rightarrow> u64 \<Rightarrow> Maps \<Rightarrow> Maps option" where
  "register_stream kernel_ok port m =
     (if kernel_ok (PortInsert port) m then Some (m\<lparr>port_hash := insert port (port_hash m)\<rparr>) else None)"

text \<open>\<open>cookie\<close> is \<open>None\<close> when the socket's cookie cannot be read. The maps are returned also on failure.\<close>

definition register_tx :: "kernel \<Rightarrow> u64 \<Rightarrow> u64 option \<Rightarrow> Maps \<Rightarrow> u64 option \<times> Maps" where
  "register_tx kernel_ok port cookie m =
     (case cookie of
        None \<Rightarrow> (None, m)
      | Some c \<Rightarrow>
          if \<not> kernel_ok (TargetInsert c) m then (None, m)
          else
            let m = m\<lparr>tx_target := hm_insert c port (tx_target m)\<rparr> in
            if kernel_ok (TxInsert port) m
            then (Some c, m\<lparr>tx_hash := insert port (tx_hash m)\<rparr>)
            else (None, m\<lparr>tx_target := hm_remove c (tx_target m)\<rparr>))"

definition insert_mac :: "kernel \<Rightarrow> MacAddr \<Rightarrow> u64 \<Rightarrow> Maps \<Rightarrow> Maps option" where
  "insert_mac kernel_ok mac port m =
     (if kernel_ok (MacInsert mac) m then Some (m\<lparr>mac_map := hm_insert mac port (mac_map m)\<rparr>) else None)"

definition remove_mac :: "MacAddr \<Rightarrow> Maps \<Rightarrow> Maps" where
  "remove_mac mac m = m\<lparr>mac_map := hm_remove mac (mac_map m)\<rparr>"

definition Engine_unregister :: "u64 \<Rightarrow> u64 \<Rightarrow> MacAddr list \<Rightarrow> Maps \<Rightarrow> Maps" where
  "Engine_unregister port tx_cookie macs m =
     m\<lparr>port_hash := port_hash m - {port}, tx_hash := tx_hash m - {port},
       tx_target := hm_remove tx_cookie (tx_target m),
       mac_map := fold hm_remove macs (mac_map m),
       sock_state := hm_retain (\<lambda>_ v. ss_port_id v \<noteq> port) (sock_state m)\<rparr>"

record OffloadPort =
  tx_cookie :: u64
  write_half :: bool

record SegmentOffload =
  engine :: Maps
  off_ports :: "(u64, OffloadPort) hashmap"

text \<open>\<open>pair\<close> is \<open>None\<close> when the loopback pair cannot be made, and otherwise its sender's cookie, if
  that can be read.\<close>

definition SegmentOffload_add_port ::
  "kernel \<Rightarrow> u64 \<Rightarrow> u64 option option \<Rightarrow> SegmentOffload \<Rightarrow> bool \<times> SegmentOffload" where
  "SegmentOffload_add_port kernel_ok port pair off =
     (case register_stream kernel_ok port (engine off) of
        None \<Rightarrow> (False, off)
      | Some m \<Rightarrow>
          (case pair of
             None \<Rightarrow> (False, off\<lparr>engine := m\<rparr>)
           | Some cookie \<Rightarrow>
               (case register_tx kernel_ok port cookie m of
                  (None, m) \<Rightarrow> (False, off\<lparr>engine := Engine_unregister port 0 [] m\<rparr>)
                | (Some c, m) \<Rightarrow>
                    (True, off\<lparr>engine := m, off_ports :=
                       hm_insert port \<lparr>tx_cookie = c, write_half = False\<rparr> (off_ports off)\<rparr>))))"

definition adopt_write_half :: "u64 \<Rightarrow> SegmentOffload \<Rightarrow> SegmentOffload" where
  "adopt_write_half port off =
     (case hm_get (off_ports off) port of
        None \<Rightarrow> off
      | Some p \<Rightarrow> off\<lparr>off_ports := hm_insert port (p\<lparr>write_half := True\<rparr>) (off_ports off)\<rparr>)"

definition relearn :: "kernel \<Rightarrow> MacAddr \<Rightarrow> u64 \<Rightarrow> SegmentOffload \<Rightarrow> SegmentOffload" where
  "relearn kernel_ok mac port off =
     (if hm_contains (off_ports off) port then
        (case insert_mac kernel_ok mac port (engine off) of
           None \<Rightarrow> off
         | Some m \<Rightarrow> off\<lparr>engine := m\<rparr>)
      else off\<lparr>engine := remove_mac mac (engine off)\<rparr>)"

definition SegmentOffload_remove_port :: "u64 \<Rightarrow> MacAddr list \<Rightarrow> SegmentOffload \<Rightarrow> SegmentOffload" where
  "SegmentOffload_remove_port port purged off =
     (case hm_get (off_ports off) port of
        None \<Rightarrow> off\<lparr>engine := fold remove_mac purged (engine off)\<rparr>
      | Some p \<Rightarrow>
          off\<lparr>off_ports := hm_remove port (off_ports off),
              engine := Engine_unregister port (tx_cookie p) purged (engine off)\<rparr>)"

definition SegmentOffload_stats :: "SegmentOffload \<Rightarrow> u64 \<times> u64" where
  "SegmentOffload_stats off = (fp_frames (fp_stats (engine off)), fp_bytes (fp_stats (engine off)))"

section \<open>The XDP switch\<close>

record PortConf =
  pc_tag :: u32
  pc_flags :: u32

record XdpMaps =
  mac_table :: "(MacAddr, u32) hashmap"
  xdp_ports :: "(u32, u32) hashmap"
  port_conf :: "(u32, PortConf) hashmap"
  xdp_stats :: "nat \<Rightarrow> u64"

datatype XdpAction = XDP_DROP | XdpRedirect u32 bytes

definition STAT_FORWARDED :: nat where "STAT_FORWARDED = 0"
definition STAT_PUNTED :: nat where "STAT_PUNTED = 1"
definition STAT_DROPPED :: nat where "STAT_DROPPED = 2"
definition STAT_INJECTED :: nat where "STAT_INJECTED = 3"

definition bump :: "nat \<Rightarrow> XdpMaps \<Rightarrow> XdpMaps" where
  "bump i m = m\<lparr>xdp_stats := (xdp_stats m)(i := xdp_stats m i + 1)\<rparr>"

text \<open>A device-map redirect fails when the slot is empty; the code then drops the packet.\<close>

definition devmap_redirect :: "XdpMaps \<Rightarrow> u32 \<Rightarrow> bytes \<Rightarrow> XdpAction" where
  "devmap_redirect m tag pkt =
     (case hm_get (xdp_ports m) tag of None \<Rightarrow> XDP_DROP | Some ifindex \<Rightarrow> XdpRedirect ifindex pkt)"

text \<open>\<open>head_ok\<close> says whether \<open>bpf_xdp_adjust_head\<close> succeeds.\<close>

definition host_ingress :: "bool \<Rightarrow> bytes \<Rightarrow> XdpMaps \<Rightarrow> XdpAction \<times> XdpMaps" where
  "host_ingress head_ok pkt m =
     (if length pkt < 4 then (XDP_DROP, m)
      else
        let tag = from_be32 (pkt ! 0) (pkt ! 1) (pkt ! 2) (pkt ! 3) in
        if tag = HOST_TAG then (XDP_DROP, m)
        else if \<not> head_ok then (XDP_DROP, m)
        else let m = bump STAT_INJECTED m in (devmap_redirect m tag (drop TAG_LEN pkt), m))"

text \<open>After the head has moved down by \<open>TAG_LEN\<close> the packet has room for the tag, so the second
  bounds check of the source never fails.\<close>

definition punt :: "bool \<Rightarrow> u32 \<Rightarrow> bytes \<Rightarrow> XdpMaps \<Rightarrow> XdpAction \<times> XdpMaps" where
  "punt head_ok tag pkt m =
     (if \<not> head_ok then (XDP_DROP, bump STAT_DROPPED m)
      else let m = bump STAT_PUNTED m in (devmap_redirect m HOST_TAG (to_be32 tag @ pkt), m))"

definition xdp_switch :: "bool \<Rightarrow> u32 \<Rightarrow> bytes \<Rightarrow> XdpMaps \<Rightarrow> XdpAction \<times> XdpMaps" where
  "xdp_switch head_ok ifindex pkt m =
     (case hm_get (port_conf m) ifindex of
        None \<Rightarrow> (XDP_DROP, m)
      | Some conf \<Rightarrow>
          if pc_flags conf AND XDP_FLAG_HOST \<noteq> 0 then host_ingress head_ok pkt m
          else if length pkt < 6 then (XDP_DROP, bump STAT_DROPPED m)
          else
            (case classify_xdp_guest (pc_flags conf) (pc_tag conf) (mac_at pkt 0) (hm_get (mac_table m)) of
               ForwardTo tag \<Rightarrow> let m = bump STAT_FORWARDED m in (devmap_redirect m tag pkt, m)
             | XdpVerdictDrop \<Rightarrow> (XDP_DROP, bump STAT_DROPPED m)
             | Punt \<Rightarrow> punt head_ok (pc_tag conf) pkt m))"

end
