(* ===== verification/Switch.thy ===== *)
theory Switch
  imports Framing Fastpath
begin

text \<open>
  The per-segment L2 switch (\<open>src/net/switch.rs\<close>): ports with bounded egress queues, MAC learning,
  private-VLAN isolation, the ingress hook, and the mirror of learned addresses into the kernel
  fast path. Each operation that the source runs under the table lock is one function on the
  state.

  A port's egress channel is third-party code: its state has a type of its own, \<open>'q\<close>, and
  \<open>try_send\<close> returns the state after a successful send. The hook carries its own state \<open>'h\<close>.
\<close>

section \<open>Ports and the switch state\<close>

type_synonym PortId = u64

datatype PortClass = Guest bool | Service

datatype HookAction =
  HookPass | HookDrop | Replace bytes | Inject "bytes option" "bytes list"

record PortConfig =
  cfg_framing :: FramingMode
  cfg_mtu :: u16

definition PortConfig_default :: PortConfig where
  "PortConfig_default = \<lparr>cfg_framing = Raw, cfg_mtu = 1500\<rparr>"

datatype 'q PortTx = Packets 'q | Frames 'q

datatype Egress = EgressPacket Packet | EgressFrame bytes

record 'q PortEntry =
  pe_class :: PortClass
  pe_tx :: "'q PortTx"
  pe_config :: PortConfig

record ('q, 'h) Switch =
  sw_ports :: "(PortId, 'q PortEntry) hashmap"
  sw_macs :: "(MacAddr, PortId) hashmap"
  sw_hook :: "'h option"
  sw_next_port :: u64
  sw_forwarded :: u64
  sw_flooded :: u64
  sw_dropped :: u64
  sw_offload :: "SegmentOffload option"

record ('q, 'h) switch_env =
  try_send :: "'q \<Rightarrow> Egress \<Rightarrow> 'q option"
  run_hook :: "'h \<Rightarrow> PortId \<Rightarrow> PortClass \<Rightarrow> bytes \<Rightarrow> HookAction \<times> 'h"
  kernel_ok :: kernel

record SwitchStats =
  st_ports :: nat
  st_forwarded :: u64
  st_flooded :: u64
  st_dropped :: u64
  st_offloaded :: u64

fun delivery_allowed :: "PortClass \<Rightarrow> PortClass \<Rightarrow> bool" where
  "delivery_allowed (Guest True) (Guest _) = False"
| "delivery_allowed (Guest _) (Guest True) = False"
| "delivery_allowed _ _ = True"

definition is_multicast :: "MacAddr \<Rightarrow> bool" where
  "is_multicast mac \<longleftrightarrow> mac_first mac AND 1 \<noteq> 0"

definition Switch_new :: "SegmentOffload option \<Rightarrow> ('q, 'h) Switch" where
  "Switch_new offload = \<lparr>sw_ports = [], sw_macs = [], sw_hook = None, sw_next_port = 0,
     sw_forwarded = 0, sw_flooded = 0, sw_dropped = 0, sw_offload = offload\<rparr>"

definition set_ingress_hook :: "'h \<Rightarrow> ('q, 'h) Switch \<Rightarrow> ('q, 'h) Switch" where
  "set_ingress_hook hook sw = sw\<lparr>sw_hook := Some hook\<rparr>"

definition Switch_stats :: "('q, 'h) Switch \<Rightarrow> SwitchStats" where
  "Switch_stats sw =
     (let offloaded = (case sw_offload sw of None \<Rightarrow> 0 | Some off \<Rightarrow> fst (SegmentOffload_stats off))
      in \<lparr>st_ports = length (sw_ports sw), st_forwarded = sw_forwarded sw + offloaded,
          st_flooded = sw_flooded sw, st_dropped = sw_dropped sw, st_offloaded = offloaded\<rparr>)"

section \<open>Attaching and removing ports\<close>

definition alloc_port :: "('q, 'h) Switch \<Rightarrow> PortId \<times> ('q, 'h) Switch" where
  "alloc_port sw = (sw_next_port sw, sw\<lparr>sw_next_port := sw_next_port sw + 1\<rparr>)"

definition attach :: "PortId \<Rightarrow> PortClass \<Rightarrow> PortConfig \<Rightarrow> 'q \<Rightarrow> ('q, 'h) Switch \<Rightarrow> ('q, 'h) Switch" where
  "attach port cls config queue sw =
     sw\<lparr>sw_ports := hm_insert port \<lparr>pe_class = cls, pe_tx = Packets queue, pe_config = config\<rparr>
        (sw_ports sw)\<rparr>"

text \<open>\<open>pair\<close> is the outcome of making the loopback pair of an offloaded port. The result says which writer the
  port gets.\<close>

definition add_stream_port_with_config ::
  "('q, 'h) switch_env \<Rightarrow> 'q \<Rightarrow> u64 option option \<Rightarrow> PortClass \<Rightarrow> PortConfig \<Rightarrow> ('q, 'h) Switch \<Rightarrow>
   PortId \<times> bool \<times> ('q, 'h) Switch" where
  "add_stream_port_with_config E queue pair cls config sw =
     (let (port, sw) = alloc_port sw;
          sw = attach port cls config queue sw
      in case (sw_offload sw, cls, cfg_framing config) of
           (Some off, Guest False, Raw) \<Rightarrow>
             (case SegmentOffload_add_port (kernel_ok E) port pair off of
                (True, off) \<Rightarrow> (port, True, sw\<lparr>sw_offload := Some (adopt_write_half port off)\<rparr>)
              | (False, off) \<Rightarrow> (port, False, sw\<lparr>sw_offload := Some off\<rparr>))
         | _ \<Rightarrow> (port, False, sw))"

definition add_channel_port_with_mtu ::
  "'q \<Rightarrow> PortClass \<Rightarrow> u16 \<Rightarrow> ('q, 'h) Switch \<Rightarrow> PortId \<times> ('q, 'h) Switch" where
  "add_channel_port_with_mtu queue cls mtu sw =
     (let (port, sw) = alloc_port sw
      in (port, sw\<lparr>sw_ports := hm_insert port \<lparr>pe_class = cls, pe_tx = Frames queue,
            pe_config = \<lparr>cfg_framing = Raw, cfg_mtu = mtu\<rparr>\<rparr> (sw_ports sw)\<rparr>))"

definition remove_port :: "PortId \<Rightarrow> ('q, 'h) Switch \<Rightarrow> ('q, 'h) Switch" where
  "remove_port port sw =
     (case hm_get (sw_ports sw) port of
        None \<Rightarrow> sw
      | Some _ \<Rightarrow>
          let purged = map fst (filter (\<lambda>(_, p). p = port) (sw_macs sw));
              sw = sw\<lparr>sw_ports := hm_remove port (sw_ports sw),
                      sw_macs := hm_retain (\<lambda>_ p. p \<noteq> port) (sw_macs sw)\<rparr>
          in sw\<lparr>sw_offload := map_option (SegmentOffload_remove_port port purged) (sw_offload sw)\<rparr>)"

section \<open>Delivering and forwarding\<close>

definition send_tx :: "('q, 'h) switch_env \<Rightarrow> 'q PortTx \<Rightarrow> Packet \<Rightarrow> 'q PortTx option" where
  "send_tx E tx packet =
     (case tx of
        Packets q \<Rightarrow> map_option Packets (try_send E q (EgressPacket packet))
      | Frames q \<Rightarrow> map_option Frames (try_send E q (EgressFrame (pk_frame packet))))"

fun deliver_loop ::
  "('q, 'h) switch_env \<Rightarrow> 'q PortTx \<Rightarrow> Packet list \<Rightarrow> bool \<Rightarrow> u64 \<Rightarrow> bool \<times> 'q PortTx \<times> u64" where
  "deliver_loop E tx [] delivered dropped = (delivered, tx, dropped)"
| "deliver_loop E tx (p # ps) delivered dropped =
     (case send_tx E tx p of
        Some tx \<Rightarrow> deliver_loop E tx ps True dropped
      | None \<Rightarrow> deliver_loop E tx ps delivered (dropped + 1))"

text \<open>Returns whether anything was sent, the port after it, and the drop counter.\<close>

definition deliver ::
  "('q, 'h) switch_env \<Rightarrow> 'q PortEntry \<Rightarrow> Packet \<Rightarrow> u64 \<Rightarrow> bool \<times> 'q PortEntry \<times> u64" where
  "deliver E entry packet dropped =
     (case for_port packet (cfg_framing (pe_config entry)) (cfg_mtu (pe_config entry)) of
        Inl _ \<Rightarrow> (False, entry, dropped + 1)
      | Inr packets \<Rightarrow>
          (case deliver_loop E (pe_tx entry) packets False dropped of
             (delivered, tx, dropped) \<Rightarrow> (delivered, entry\<lparr>pe_tx := tx\<rparr>, dropped)))"

fun flood ::
  "('q, 'h) switch_env \<Rightarrow> PortId \<Rightarrow> PortClass \<Rightarrow> Packet \<Rightarrow> (PortId, 'q PortEntry) hashmap \<Rightarrow> u64 \<Rightarrow> u64 \<Rightarrow>
   (PortId, 'q PortEntry) hashmap \<times> u64 \<times> u64" where
  "flood E port cls packet [] delivered dropped = ([], delivered, dropped)"
| "flood E port cls packet ((p, entry) # ports) delivered dropped =
     (if p = port \<or> \<not> delivery_allowed cls (pe_class entry) then
        (case flood E port cls packet ports delivered dropped of (ports, r) \<Rightarrow> ((p, entry) # ports, r))
      else
        (case deliver E entry packet dropped of
           (sent, entry, dropped) \<Rightarrow>
             (case flood E port cls packet ports (if sent then delivered + 1 else delivered) dropped of
                (ports, r) \<Rightarrow> ((p, entry) # ports, r))))"

definition learn :: "('q, 'h) switch_env \<Rightarrow> PortId \<Rightarrow> MacAddr \<Rightarrow> ('q, 'h) Switch \<Rightarrow> ('q, 'h) Switch" where
  "learn E port src sw =
     (if is_multicast src then sw
      else
        let prev = hm_get (sw_macs sw) src;
            sw = sw\<lparr>sw_macs := hm_insert src port (sw_macs sw)\<rparr>
        in if prev \<noteq> Some port
           then sw\<lparr>sw_offload := map_option (relearn (kernel_ok E) src port) (sw_offload sw)\<rparr>
           else sw)"

definition drop_frame :: "('q, 'h) Switch \<Rightarrow> ('q, 'h) Switch" where
  "drop_frame sw = sw\<lparr>sw_dropped := sw_dropped sw + 1\<rparr>"

definition forward_packet ::
  "('q, 'h) switch_env \<Rightarrow> PortId \<Rightarrow> PortClass \<Rightarrow> Packet \<Rightarrow> ('q, 'h) Switch \<Rightarrow> ('q, 'h) Switch" where
  "forward_packet E port cls packet sw =
     (let frame = pk_frame packet in
      if length frame < ETH_HEADER_LEN then drop_frame sw
      else
        let dst = mac_at frame 0;
            src = mac_at frame 6;
            sw = learn E port src sw;
            unicast_target = (if is_multicast dst then None else hm_get (sw_macs sw) dst)
        in case unicast_target of
             Some target \<Rightarrow>
               if target \<noteq> port then
                 (case hm_get (sw_ports sw) target of
                    None \<Rightarrow> drop_frame sw
                  | Some entry \<Rightarrow>
                      if \<not> delivery_allowed cls (pe_class entry) then drop_frame sw
                      else
                        (case deliver E entry packet (sw_dropped sw) of
                           (sent, entry, dropped) \<Rightarrow>
                             sw\<lparr>sw_ports := hm_insert target entry (sw_ports sw), sw_dropped := dropped,
                                sw_forwarded := (if sent then sw_forwarded sw + 1 else sw_forwarded sw)\<rparr>))
               else drop_frame sw
           | None \<Rightarrow>
               (case flood E port cls packet (sw_ports sw) 0 (sw_dropped sw) of
                  (ports, delivered, dropped) \<Rightarrow>
                    let sw = sw\<lparr>sw_ports := ports, sw_dropped := dropped\<rparr>
                    in if delivered > 0 then sw\<lparr>sw_flooded := sw_flooded sw + 1\<rparr> else drop_frame sw))"

section \<open>Ingress\<close>

definition rewritten ::
  "Packet \<Rightarrow> bytes \<Rightarrow> u16 \<Rightarrow> ('q, 'h) Switch \<Rightarrow> Packet list \<times> ('q, 'h) Switch" where
  "rewritten original frame mtu sw =
     (if h_gso_type (pk_header original) = GSO_NONE then ([Packet_raw frame], sw)
      else (case segments (pk_header original) frame mtu of
              Inr frames \<Rightarrow> (map Packet_raw frames, sw)
            | Inl _ \<Rightarrow> ([], drop_frame sw)))"

fun deliver_replies ::
  "('q, 'h) switch_env \<Rightarrow> 'q PortEntry \<Rightarrow> bytes list \<Rightarrow> u64 \<Rightarrow> 'q PortEntry \<times> u64" where
  "deliver_replies E entry [] dropped = (entry, dropped)"
| "deliver_replies E entry (r # rs) dropped =
     (case deliver E entry (Packet_raw r) dropped of (_, entry, dropped) \<Rightarrow> deliver_replies E entry rs dropped)"

definition reply_to ::
  "('q, 'h) switch_env \<Rightarrow> PortId \<Rightarrow> bytes list \<Rightarrow> ('q, 'h) Switch \<Rightarrow> ('q, 'h) Switch" where
  "reply_to E port replies sw =
     (case hm_get (sw_ports sw) port of
        None \<Rightarrow> sw
      | Some entry \<Rightarrow>
          (case deliver_replies E entry replies (sw_dropped sw) of
             (entry, dropped) \<Rightarrow>
               sw\<lparr>sw_ports := hm_insert port entry (sw_ports sw), sw_dropped := dropped\<rparr>))"

definition hook_action ::
  "('q, 'h) switch_env \<Rightarrow> PortId \<Rightarrow> PortClass \<Rightarrow> bytes \<Rightarrow> ('q, 'h) Switch \<Rightarrow> HookAction \<times> ('q, 'h) Switch" where
  "hook_action E port cls frame sw =
     (case sw_hook sw of
        None \<Rightarrow> (HookPass, sw)
      | Some h \<Rightarrow> (case run_hook E h port cls frame of (action, h) \<Rightarrow> (action, sw\<lparr>sw_hook := Some h\<rparr>)))"

text \<open>What is left to forward after the hook's verdict.\<close>

definition apply_action ::
  "('q, 'h) switch_env \<Rightarrow> PortId \<Rightarrow> Packet \<Rightarrow> u16 \<Rightarrow> HookAction \<Rightarrow> ('q, 'h) Switch \<Rightarrow>
   Packet list \<times> ('q, 'h) Switch" where
  "apply_action E port packet mtu action sw =
     (case action of
        HookPass \<Rightarrow> ([packet], sw)
      | HookDrop \<Rightarrow> ([], drop_frame sw)
      | Replace f \<Rightarrow> rewritten packet f mtu sw
      | Inject forward replies \<Rightarrow>
          let sw = (if replies \<noteq> [] then reply_to E port replies sw else sw) in
          (case forward of
             None \<Rightarrow> ([], sw)
           | Some f \<Rightarrow> rewritten packet f mtu sw))"

definition ingress_packet ::
  "('q, 'h) switch_env \<Rightarrow> PortId \<Rightarrow> Packet \<Rightarrow> ('q, 'h) Switch \<Rightarrow> ('q, 'h) Switch" where
  "ingress_packet E port packet sw =
     (case hm_get (sw_ports sw) port of
        None \<Rightarrow> sw
      | Some p \<Rightarrow>
          let ingress_class = pe_class p;
              mtu = cfg_mtu (pe_config p);
              (action, sw) = hook_action E port ingress_class (pk_frame packet) sw;
              (forward, sw) = apply_action E port packet mtu action sw
          in fold (forward_packet E port ingress_class) forward sw)"

definition ingress :: "('q, 'h) switch_env \<Rightarrow> PortId \<Rightarrow> bytes \<Rightarrow> ('q, 'h) Switch \<Rightarrow> ('q, 'h) Switch" where
  "ingress E port frame sw = ingress_packet E port (Packet_raw frame) sw"

section \<open>The tasks of a stream port\<close>

text \<open>The writer drains the egress queue until a write fails. The reader runs until the end of
  the stream or an error, then removes its port; \<open>None\<close> is a run that needs more steps.\<close>

fun writer_task :: "'w sink_ops \<Rightarrow> FramingMode \<Rightarrow> Packet list \<Rightarrow> 'w \<Rightarrow> bool \<times> 'w" where
  "writer_task J mode [] w = (True, w)"
| "writer_task J mode (p # ps) w =
     (case write_packet J p mode w of (Inl _, w) \<Rightarrow> (False, w) | (Inr _, w) \<Rightarrow> writer_task J mode ps w)"

definition send_frame :: "bytes \<Rightarrow> bytes" where
  "send_frame frame = to_be32 (of_nat (length frame)) @ frame"

fun reader_task ::
  "nat \<Rightarrow> ('q, 'h) switch_env \<Rightarrow> 'r source_ops \<Rightarrow> PortId \<Rightarrow> FramingMode \<Rightarrow> 'r \<Rightarrow> ('q, 'h) Switch \<Rightarrow>
   ('q, 'h) Switch option" where
  "reader_task 0 E I port mode r sw = None"
| "reader_task (Suc n) E I port mode r sw =
     (case read_packet I r mode of
        (Inr (Some packet), r) \<Rightarrow> reader_task n E I port mode r (ingress_packet E port packet sw)
      | (Inr None, r) \<Rightarrow> Some (remove_port port sw)
      | (Inl _, r) \<Rightarrow> Some (remove_port port sw))"

end
