(* ===== verification/Vnet_Lemmas.thy ===== *)
theory Vnet_Lemmas
  imports Vnet Frame_Lemmas
begin

text \<open>
  Properties of the offload layer: the metadata codec, the equivalence of its checksum with the
  frame layer's, segmentation, and the symmetry of the flow hash.
\<close>

lemma io_bind_simps [simp]: "io_bind (Inl e) f = Inl e" "io_bind (Inr x) f = f x"
  by (simp_all add: io_bind_def)

lemma io_bind_Inr: "io_bind r f = Inr y \<longleftrightarrow> (\<exists>x. r = Inr x \<and> f x = Inr y)"
  by (cases r) auto

lemma be16_Inr: "be16 b i = Inr w \<longleftrightarrow> i + 2 \<le> length b \<and> w = u16_at b i"
proof (cases "i + 2 \<le> length b")
  case True
  then have "take 2 (drop i b) ! 0 = b ! i" "take 2 (drop i b) ! 1 = b ! (i + 1)" by simp_all
  with True show ?thesis by (auto simp: be16_def slice_range_def u16_at_def)
qed (simp add: be16_def slice_range_def)

lemma byte_at_Inr: "byte_at b i = Inr x \<longleftrightarrow> i < length b \<and> x = b ! i"
  by (auto simp: byte_at_def slice_get_def)

section \<open>The header\<close>

lemma from_be16_0_1 [simp]: "from_be16 0 1 = 1"
  by (simp add: from_be16_def)

lemma Header_decode_encode:
  "Header_decode (Header_encode h @ rest) = (if header_ok h then Inr h else Inl InvalidData)"
  by (cases h) (simp add: Header_decode_def Header_encode_def to_le16_def le16_at_def Let_def)

lemma length_Header_encode [simp]: "length (Header_encode h) = 12"
  by (simp add: Header_encode_def to_le16_def)

lemma validate_header_ok: "validate h frame = Inr u \<Longrightarrow> header_ok h"
  using Header_decode_encode [of h "[]"]
  by (auto simp: validate_def io_bind_Inr split: if_splits)

lemma from_metadata_metadata:
  "from_metadata (metadata h q @ frame) =
     (case validate h frame of Inr _ \<Rightarrow> Inr (h, q, frame) | Inl e \<Rightarrow> Inl e)"
proof -
  let ?b = "metadata h q @ frame"
  have len: "length (metadata h q) = 16" by (simp add: metadata_def)
  have v: "be16 ?b 0 = Inr 1" "be16 ?b 2 = Inr q"
    by (simp_all add: be16_Inr metadata_def u16_at_def to_be16_def)
  have d: "take (METADATA_LEN - 4) (drop 4 ?b) = Header_encode h" "drop METADATA_LEN ?b = frame"
    by (simp_all add: metadata_def METADATA_LEN_def to_be16_def)
  have bad: "\<not> header_ok h \<Longrightarrow> validate h frame = Inl InvalidData"
    using Header_decode_encode [of h "[]"] by (simp add: validate_def)
  show ?thesis
    using Header_decode_encode [of h "[]"] v d len bad
    by (cases "header_ok h") (auto simp: from_metadata_def METADATA_LEN_def split: sum.split)
qed

text \<open>
  A record's metadata reads back. The body made of the metadata of a header and queue and of
  an ethernet frame decodes to exactly these three if the header is valid for the frame, and is
  refused otherwise.
\<close>

theorem vnet_metadata_roundtrip:
  "from_metadata (metadata h q @ frame) =
     (case validate h frame of Inr _ \<Rightarrow> Inr (h, q, frame) | Inl e \<Rightarrow> Inl e)"
  by (rule from_metadata_metadata)

section \<open>Checksums\<close>

lemma unat_sum_add:
  "unat s + wsum d < 18446744073709551616 \<Longrightarrow> unat (sum_add s d) = unat s + wsum d"
proof (induction s d rule: sum_add.induct)
  case (1 s a b rest)
  have "unat (from_be16 a b) < 65536" by (rule unat_u16_bound)
  then have "unat (ucast (from_be16 a b) :: u64) = 256 * unat a + unat b"
    by (simp add: unsigned_ucast_eq take_bit_nat_eq_self unat_from_be16)
  then have "unat (s + ucast (from_be16 a b)) = unat s + (256 * unat a + unat b)"
    using "1.prems" by (simp add: unat_word_ariths)
  with 1 show ?case by simp
next
  case (2 s b)
  have "unat b < 256" by (rule unat_u8_bound)
  then have "unat (push_bit 8 (ucast b) :: u64) = 256 * unat b"
    by (simp add: push_bit_eq_mult unat_word_ariths unsigned_ucast_eq take_bit_nat_eq_self)
  then show ?case using 2 by (simp add: unat_word_ariths)
qed simp

lemma unat_sum_fold: "unat (sum_fold s) = folded (unat s)"
proof (induction s rule: sum_fold.induct)
  case (1 s)
  show ?case
  proof (cases "s > 0xffff")
    case True
    then have big: "65536 \<le> unat s" by (simp add: word_less_nat_alt)
    let ?t = "(s AND 0xffff) + drop_bit 16 s"
    have "1 \<le> unat s div 65536" using big by (simp add: Suc_le_eq)
    then have "unat ?t \<noteq> 0" unfolding unat_fold_step_64 by linarith
    with 1 True have "unat (sum_fold ?t) = (unat ?t - 1) mod 65535 + 1" by (simp add: folded_def)
    also have "\<dots> = (unat s - 1) mod 65535 + 1"
      using mod_65535_step [OF big] by (simp add: unat_fold_step_64)
    finally show ?thesis using True big by (simp add: sum_fold.simps [of s] folded_def)
  next
    case False
    then have "unat s \<le> 65535" by (simp add: word_less_nat_alt not_less)
    then show ?thesis using False by (auto simp: sum_fold.simps [of s] folded_def)
  qed
qed

lemma sum_finish_eq:
  assumes "unat s = wsum d" and "length d \<le> 131072"
  shows "sum_finish s = internet_checksum d"
proof -
  have "unat (ucast (sum_fold s) :: u16) = folded (wsum d)"
    using folded_le [of "wsum d"] by (simp add: unsigned_ucast_eq take_bit_nat_eq_self unat_sum_fold assms)
  then have "unat (sum_finish s) = unat (internet_checksum d)"
    using unat_not_u16 by (simp add: sum_finish_def unat_internet_checksum [OF assms(2)])
  then show ?thesis by (rule injD [OF inj_unsigned])
qed

lemma wsum_small: "length d \<le> 131072 \<Longrightarrow> wsum d < 4294967296"
proof -
  assume "length d \<le> 131072"
  then have "(length d + 1) div 2 \<le> 65536" by simp
  then have "65535 * ((length d + 1) div 2) \<le> 65535 * 65536" by (rule mult_le_mono2)
  with wsum_bound [of d] show ?thesis by simp
qed

lemma checksum_eq: "length d \<le> 131072 \<Longrightarrow> checksum d = internet_checksum d"
  using unat_sum_add [of 0 d] wsum_small [of d] by (simp add: checksum_def sum_finish_eq)

text \<open>The transport checksum of an IPv4 packet is the frame layer's, over its pseudo-header.\<close>

lemma octets_ipv4_at: "i + 4 \<le> length f \<Longrightarrow> octets (ipv4_at f i) = take 4 (drop i f)"
  by (rule nth_equalityI) (auto simp: ipv4_at_def less_Suc_eq numeral_eq_Suc add.commute)

lemma transport_checksum_ipv4:
  assumes "ly_ipv4 ly" and "ly_ip ly + 20 \<le> length f" and "ly_transport ly \<le> length f"
    and "length f - ly_transport ly < 65536"
  shows "l4_checksum (ipv4_at f (ly_ip ly + 12)) (ipv4_at f (ly_ip ly + 16)) (ly_protocol ly)
      (drop (ly_transport ly) f) = Some (transport_checksum ly f)"
proof -
  let ?seg = "drop (ly_transport ly) f" and ?n = "length f - ly_transport ly"
  let ?src = "ipv4_at f (ly_ip ly + 12)" and ?dst = "ipv4_at f (ly_ip ly + 16)"
  let ?len = "of_nat ?n :: u16"
  let ?p = "pseudo_header ?src ?dst (ly_protocol ly) ?len @ ?seg"
  have cast: "ucast (of_nat ?n :: u32) = ?len"
    using assms(4) by (simp add: unsigned_of_nat take_bit_nat_eq_self)
  have addrs: "octets ?src @ octets ?dst = take 8 (drop (ly_ip ly + 12) f)"
    using assms(2) take_add [of 4 4 "drop (ly_ip ly + 12) f"]
    by (simp add: octets_ipv4_at add.commute)
  have parts: "wsum ?p = wsum (take 8 (drop (ly_ip ly + 12) f)) + wsum [0, ly_protocol ly] +
      wsum (to_be16 ?len) + wsum ?seg"
    using assms(2) by (simp add: pseudo_header_def addrs [symmetric] wsum_append_even)
  have short: "length ?p \<le> 131072" using assms(4) by simp
  have b: "wsum ?p < 18446744073709551616" using wsum_small [OF short] by simp
  have "unat (sum_add (sum_add (sum_add (sum_add 0 (take 8 (drop (ly_ip ly + 12) f)))
      [0, ly_protocol ly]) (to_be16 ?len)) ?seg) = wsum ?p"
    using b unfolding parts by (simp add: unat_sum_add del: sum_add.simps)
  then show ?thesis
    using assms(1,4) short cast
    by (simp add: l4_checksum_def u16_try_from_def transport_checksum_def Let_def sum_finish_eq)
qed

section \<open>Segmentation\<close>

lemma skip_vlan_ip: "skip_vlan n f ip kind = Inr (ip', kind') \<Longrightarrow> ip \<le> ip'"
  by (induction n f ip kind rule: skip_vlan.induct) (fastforce simp: io_bind_Inr split: if_splits)+

lemma skip_extensions_pos: "skip_extensions n f pos proto = Inr (pos', proto') \<Longrightarrow> pos \<le> pos'"
  by (induction n f pos proto rule: skip_extensions.induct)
    (fastforce simp: io_bind_Inr split: if_splits)+

lemma Layout_bounds:
  assumes "Layout_parse f = Inr ly"
  shows "14 \<le> ly_ip ly" and "ly_ip ly + 20 \<le> ly_transport ly"
    and "ly_transport ly + (if ly_protocol ly = 6 then 20 else 8) \<le> length f"
    and "ly_protocol ly = 6 \<or> ly_protocol ly = 17"
proof -
  obtain ip kind kind0 transport protocol v4 where
    s: "skip_vlan 2 f 14 kind0 = Inr (ip, kind)" and p: "parse_ip f ip kind = Inr (transport, protocol, v4)"
    and ly: "ly = \<lparr>ly_ip = ip, ly_transport = transport, ly_protocol = protocol, ly_ipv4 = v4\<rparr>"
    and len: "protocol = 6 \<or> protocol = 17" "transport + (if protocol = 6 then 20 else 8) \<le> length f"
    using assms by (auto simp: Layout_parse_def io_bind_Inr Let_def split: if_splits)
  have "14 \<le> ip" using skip_vlan_ip [OF s] .
  moreover have "ip + 20 \<le> transport"
    using p by (auto simp: parse_ip_def io_bind_Inr Let_def split: if_splits dest!: skip_extensions_pos)
  ultimately show "14 \<le> ly_ip ly" "ly_ip ly + 20 \<le> ly_transport ly"
    "ly_transport ly + (if ly_protocol ly = 6 then 20 else 8) \<le> length f"
    "ly_protocol ly = 6 \<or> ly_protocol ly = 17"
    using ly len by simp_all
qed

lemma payload_start_bounds:
  "payload_start ly f = Inr payload \<Longrightarrow>
   ly_transport ly + (if ly_protocol ly = 6 then 20 else 8) \<le> payload"
  by (auto simp: payload_start_def io_bind_Inr Let_def split: if_splits)

lemma collect_Inr: "collect rs = Inr ys \<longleftrightarrow> rs = map Inr ys"
  by (induction rs arbitrary: ys) (auto simp: io_bind_Inr)

definition chunk :: "nat \<Rightarrow> bytes \<Rightarrow> nat \<Rightarrow> bytes" where
  "chunk s data i = take s (drop (i * s) data)"

lemma concat_chunks: "concat (map (chunk s data) [0..<k]) = take (k * s) data"
proof (induction k)
  case (Suc k)
  have "Suc k * s = k * s + s" by simp
  then show ?case using Suc.IH by (simp only: upt_Suc_append take_add) (simp add: chunk_def)
qed simp

lemma div_ceil_covers: "0 < s \<Longrightarrow> n \<le> max (div_ceil n s) 1 * s"
proof -
  assume s: "0 < s"
  have "n + s - 1 < ((n + s - 1) div s) * s + s"
    using mod_less_divisor [OF s, of "n + s - 1"] div_mult_mod_eq [of "n + s - 1" s] by linarith
  then have "n \<le> ((n + s - 1) div s) * s" using s by linarith
  then have "n \<le> div_ceil n s * s" by (simp add: div_ceil_def)
  also have "\<dots> \<le> max (div_ceil n s) 1 * s" by (rule mult_le_mono1) simp
  finally show ?thesis .
qed

lemma div_ceil_tight: "0 < s \<Longrightarrow> k < max (div_ceil n s) 1 \<Longrightarrow> k * s \<le> n"
proof (cases "k = 0")
  case False
  assume s: "0 < s" and k: "k < max (div_ceil n s) 1"
  then have "k + 1 \<le> (n + s - 1) div s" using False by (simp add: div_ceil_def)
  then have "(k + 1) * s \<le> (n + s - 1) div s * s" by (rule mult_le_mono1)
  also have "\<dots> \<le> n + s - 1" by (rule div_times_less_eq_dividend)
  finally show ?thesis using s by simp
qed simp

lemma segment_network_ipv4:
  assumes v4: "ly_ipv4 ly" and res: "segment_network ly f index part = Inr p"
    and b: "ly_ip ly + 20 \<le> ly_transport ly" "ly_transport ly \<le> length part"
      "ly_transport ly - ly_ip ly \<le> 131072"
  shows "length p = length part" and "length part - ly_ip ly < 65536"
    and "\<And>i. i < ly_ip ly + 2 \<or> ly_ip ly + 12 \<le> i \<Longrightarrow> i < length part \<Longrightarrow> p ! i = part ! i"
    and "u16_at p (ly_ip ly + 2) = of_nat (length part - ly_ip ly)"
    and "internet_checksum (take (ly_transport ly - ly_ip ly) (drop (ly_ip ly) p)) = 0"
    and "drop (ly_transport ly) p = drop (ly_transport ly) part"
proof -
  let ?ip = "ly_ip ly" and ?len = "of_nat (length part - ly_ip ly) :: u16"
  obtain w where n: "length part - ?ip < 65536"
    and p: "p = (let q = splice (?ip + 10) [0, 0] (splice (?ip + 4) (to_be16 w)
      (splice (?ip + 2) (to_be16 ?len) part)) in splice (?ip + 10)
        (to_be16 (checksum (take (ly_transport ly - ?ip) (drop ?ip q)))) q)"
    using res v4 by (auto simp: segment_network_def Let_def io_bind_Inr u16_try_from_def
        split: option.splits if_splits)
  define q where "q = splice (?ip + 10) [0, 0] (splice (?ip + 4) (to_be16 w)
      (splice (?ip + 2) (to_be16 ?len) part))"
  define hdr where "hdr = take (ly_transport ly - ?ip) (drop ?ip q)"
  have lq: "length q = length part" using b by (simp add: q_def)
  have pq: "p = splice (?ip + 10) (to_be16 (checksum hdr)) q"
    using p unfolding q_def hdr_def Let_def .
  show "length p = length part" "length part - ?ip < 65536" using lq b n by (simp_all add: pq)
  show "\<And>i. i < ?ip + 2 \<or> ?ip + 12 \<le> i \<Longrightarrow> i < length part \<Longrightarrow> p ! i = part ! i"
    using lq b by (auto simp: pq nth_splice) (auto simp: q_def nth_splice)
  show "u16_at p (?ip + 2) = ?len"
    using lq b by (simp add: u16_at_def pq nth_splice) (simp add: q_def nth_splice to_be16_def)
  show "drop (ly_transport ly) p = drop (ly_transport ly) part"
    using lq b by (simp add: pq) (simp add: q_def)
  have lh: "length hdr = ly_transport ly - ?ip" using lq b by (simp add: hdr_def)
  have "take (ly_transport ly - ?ip) (drop ?ip p) = splice 10 (to_be16 (checksum hdr)) hdr"
    by (rule nth_equalityI) (use lq lh b in \<open>auto simp: pq nth_splice hdr_def\<close>)
  moreover have "take 2 (drop 10 hdr) = [0, 0]"
    by (rule nth_equalityI) (use lq lh b in
      \<open>auto simp: hdr_def q_def nth_splice less_Suc_eq numeral_2_eq_2\<close>)
  ultimately show "internet_checksum (take (ly_transport ly - ?ip) (drop ?ip p)) = 0"
    using lh b by (simp add: checksum_insert checksum_eq)
qed

lemma segment_transport_shape:
  assumes "ly_transport ly + (if ly_protocol ly = 6 then 20 else 8) \<le> payload" "payload \<le> length part"
  obtains q k c where "segment_transport ly f count index offset part = splice (ly_transport ly + k) (to_be16 c) q"
    and "length q = length part" and "even k" and "ly_transport ly + k + 2 \<le> payload"
    and "\<And>i. i < ly_transport ly \<or> payload \<le> i \<Longrightarrow> i < length part \<Longrightarrow> q ! i = part ! i"
    and "take 2 (drop (ly_transport ly + k) q) = [0, 0]"
    and "c = transport_checksum ly q \<or> transport_checksum ly q = 0 \<and> c = 0xFFFF"
    and "ly_protocol ly = 6 \<Longrightarrow> k = 16 \<and> take 4 (drop (ly_transport ly + 4) q) =
           to_be32 (u32_at f (ly_transport ly + 4) + of_nat offset)"
proof -
  let ?t = "ly_transport ly"
  show thesis
  proof (cases "ly_protocol ly = 6")
    case True
    define p1 where "p1 = splice (?t + 4) (to_be32 (u32_at f (?t + 4) + of_nat offset)) part"
    define p2 where "p2 = (if index + 1 \<noteq> count then p1[?t + 13 := p1 ! (?t + 13) AND NOT (1 OR 8)] else p1)"
    define p3 where "p3 = (if index \<noteq> 0 then p2[?t + 13 := p2 ! (?t + 13) AND NOT 128] else p2)"
    define q where "q = splice (?t + 16) [0, 0] p3"
    have t: "?t + 20 \<le> payload" using assms True by simp
    have l: "length p1 = length part" "length p2 = length part" "length p3 = length part" "length q = length part"
      using t assms by (simp_all add: p1_def p2_def p3_def q_def)
    have p3: "\<And>i. i \<noteq> ?t + 13 \<Longrightarrow> p3 ! i = p1 ! i" by (simp add: p3_def p2_def)
    show thesis
    proof (rule that [of 16 "transport_checksum ly q" q])
      show "segment_transport ly f count index offset part = splice (?t + 16) (to_be16 (transport_checksum ly q)) q"
        using True unfolding segment_transport_def Let_def q_def p3_def p2_def p1_def by simp
      show "q ! i = part ! i" if "i < ?t \<or> payload \<le> i" "i < length part" for i
      proof -
        have "q ! i = p3 ! i" using that t assms l by (auto simp: q_def nth_splice)
        also have "\<dots> = p1 ! i" using that t by (intro p3) auto
        also have "\<dots> = part ! i" using that t assms by (auto simp: p1_def nth_splice)
        finally show ?thesis .
      qed
      show "take 2 (drop (?t + 16) q) = [0, 0]" using t assms l by (simp add: q_def take_drop_splice_same)
      show "16 = (16::nat) \<and> take 4 (drop (?t + 4) q) = to_be32 (u32_at f (?t + 4) + of_nat offset)"
      proof -
        have "take 4 (drop (?t + 4) q) = take 4 (drop (?t + 4) p1)"
          by (rule nth_equalityI) (use t assms l p3 in \<open>auto simp: q_def nth_splice\<close>)
        then show ?thesis using t assms by (simp add: p1_def take_drop_splice_same)
      qed
    qed (use t l in auto)
  next
    case False
    define p1 where "p1 = splice (?t + 4) (to_be16 (of_nat (length part - ?t))) part"
    define q where "q = splice (?t + 6) [0, 0] p1"
    have t: "?t + 8 \<le> payload" using assms False by simp
    have l: "length p1 = length part" "length q = length part"
      using t assms by (simp_all add: p1_def q_def)
    show thesis
    proof (rule that [of 6 "if transport_checksum ly q = 0 then 0xFFFF else transport_checksum ly q" q])
      show "segment_transport ly f count index offset part =
          splice (?t + 6) (to_be16 (if transport_checksum ly q = 0 then 0xFFFF else transport_checksum ly q)) q"
        using False unfolding segment_transport_def Let_def q_def p1_def by simp
      show "q ! i = part ! i" if "i < ?t \<or> payload \<le> i" "i < length part" for i
        using that t assms l by (auto simp: q_def nth_splice) (auto simp: p1_def nth_splice)
      show "take 2 (drop (?t + 6) q) = [0, 0]" using t assms l by (simp add: q_def take_drop_splice_same)
    qed (use t l False in auto)
  qed
qed

lemma segment_transport_ipv4:
  assumes v4: "ly_ipv4 ly" and b: "ly_ip ly + 20 \<le> ly_transport ly"
    "ly_transport ly + (if ly_protocol ly = 6 then 20 else 8) \<le> payload" "payload \<le> length part"
    "length part - ly_transport ly < 65536"
    and p_def: "p = segment_transport ly f count index offset part"
  shows "length p = length part"
    and "\<And>i. i < ly_transport ly \<or> payload \<le> i \<Longrightarrow> i < length part \<Longrightarrow> p ! i = part ! i"
    and "l4_checksum (ipv4_at p (ly_ip ly + 12)) (ipv4_at p (ly_ip ly + 16)) (ly_protocol ly)
           (drop (ly_transport ly) p) = Some 0"
    and "ly_protocol ly = 6 \<Longrightarrow>
           u32_at p (ly_transport ly + 4) = u32_at f (ly_transport ly + 4) + of_nat offset"
proof -
  let ?t = "ly_transport ly"
  obtain q k c where p: "p = splice (?t + k) (to_be16 c) q" and l: "length q = length part"
    and k: "even k" "?t + k + 2 \<le> payload"
    and same: "\<And>i. i < ?t \<or> payload \<le> i \<Longrightarrow> i < length part \<Longrightarrow> q ! i = part ! i"
    and z: "take 2 (drop (?t + k) q) = [0, 0]"
    and c: "c = transport_checksum ly q \<or> transport_checksum ly q = 0 \<and> c = 0xFFFF"
    and sequence: "ly_protocol ly = 6 \<Longrightarrow> k = 16 \<and> take 4 (drop (?t + 4) q) =
           to_be32 (u32_at f (?t + 4) + of_nat offset)"
    unfolding p_def by (rule segment_transport_shape [OF b(2,3), of f count index offset]) blast
  show "length p = length part" using l k b by (simp add: p)
  show "\<And>i. i < ?t \<or> payload \<le> i \<Longrightarrow> i < length part \<Longrightarrow> p ! i = part ! i"
    using l k b same by (auto simp: p nth_splice)
  have low: "\<And>i. i < ?t \<Longrightarrow> p ! i = q ! i" using l k b by (auto simp: p nth_splice)
  have addr: "ipv4_at p (ly_ip ly + 12) = ipv4_at q (ly_ip ly + 12)"
    "ipv4_at p (ly_ip ly + 16) = ipv4_at q (ly_ip ly + 16)"
    using low b by (auto intro!: ipv4_at_cong)
  have "drop ?t p = splice k (to_be16 c) (drop ?t q)"
    using l k b by (simp add: p splice_def drop_take add.commute)
  moreover have "l4_checksum (ipv4_at q (ly_ip ly + 12)) (ipv4_at q (ly_ip ly + 16)) (ly_protocol ly)
      (splice k (to_be16 c) (drop ?t q)) = Some 0"
    by (rule l4_checksum_insert [OF _ _ _ transport_checksum_ipv4 [OF v4] c])
      (use l k b z in \<open>auto simp: add.commute\<close>)
  ultimately show "l4_checksum (ipv4_at p (ly_ip ly + 12)) (ipv4_at p (ly_ip ly + 16)) (ly_protocol ly)
           (drop ?t p) = Some 0" by (simp add: addr)
  show "u32_at p (?t + 4) = u32_at f (?t + 4) + of_nat offset" if "ly_protocol ly = 6"
  proof -
    let ?v = "u32_at f (?t + 4) + of_nat offset"
    have at: "?t + 20 \<le> payload" "k = 16" using b sequence that by auto
    have four: "p ! (?t + 4 + i) = to_be32 ?v ! i" if "i < 4" for i
    proof -
      have "p ! (?t + 4 + i) = q ! (?t + 4 + i)" using l k b at that by (simp add: p nth_splice)
      also have "\<dots> = take 4 (drop (?t + 4) q) ! i" using l b at that by simp
      finally show ?thesis using sequence \<open>ly_protocol ly = 6\<close> by simp
    qed
    show ?thesis
      using four [of 0] four [of 1] four [of 2] four [of 3]
      by (simp add: u32_at_def to_be32_def numeral_3_eq_3 numeral_2_eq_2)
  qed
qed

text \<open>What a receiver of an emitted IPv4 segment checks: the total length, the header checksum and
  the transport checksum under the pseudo header.\<close>

definition ipv4_segment_ok :: "Layout \<Rightarrow> bytes \<Rightarrow> bool" where
  "ipv4_segment_ok ly p \<longleftrightarrow>
     unat (u16_at p (ly_ip ly + 2)) = length p - ly_ip ly \<and>
     internet_checksum (take (ly_transport ly - ly_ip ly) (drop (ly_ip ly) p)) = 0 \<and>
     l4_checksum (ipv4_at p (ly_ip ly + 12)) (ipv4_at p (ly_ip ly + 16)) (ly_protocol ly)
       (drop (ly_transport ly) p) = Some 0"

lemma segment_part_ipv4:
  assumes ly: "Layout_parse f = Inr ly" and v4: "ly_ipv4 ly" and pay: "payload_start ly f = Inr payload"
    and b: "payload \<le> length f" "payload - ly_ip ly + s < 65536"
    and res: "segment_part ly f payload s count i = Inr p"
  shows "ipv4_segment_ok ly p" and "length p = payload + length (chunk s (drop payload f) i)"
    and "drop payload p = chunk s (drop payload f) i"
    and "ipv4_at p (ly_ip ly + 12) = ipv4_at f (ly_ip ly + 12)"
    and "ipv4_at p (ly_ip ly + 16) = ipv4_at f (ly_ip ly + 16)"
    and "ly_protocol ly = 6 \<Longrightarrow>
      u32_at p (ly_transport ly + 4) = u32_at f (ly_transport ly + 4) + of_nat (i * s)"
proof -
  let ?ip = "ly_ip ly" and ?t = "ly_transport ly" and ?c = "chunk s (drop payload f) i"
  note lb = Layout_bounds [OF ly] and pb = payload_start_bounds [OF pay]
  define part where "part = take payload f @ ?c"
  have len: "length part = payload + length ?c" "length ?c \<le> s" using b by (simp_all add: part_def chunk_def)
  have "take (min (i * s + s) (length (drop payload f)) - i * s) (drop (i * s) (drop payload f)) = ?c"
    unfolding chunk_def by (rule nth_equalityI) auto
  then obtain q where q: "segment_network ly f i part = Inr q"
    and p: "p = segment_transport ly f count i (i * s) q"
    using res by (auto simp: segment_part_def Let_def io_bind_Inr part_def)
  have tp: "?ip + 20 \<le> ?t" "?t + 8 \<le> payload" "?t \<le> length part" "?t - ?ip \<le> 131072"
    using lb pb len b by (auto split: if_splits)
  note net = segment_network_ipv4 [OF v4 q tp(1,3,4)]
  have tr: "?ip + 20 \<le> ?t" "payload \<le> length q" "length q - ?t < 65536" using tp len net b by auto
  note trans = segment_transport_ipv4 [OF v4 tr(1) pb tr(2,3) p]
  have at: "p ! j = part ! j" if "?ip + 12 \<le> j \<and> j < ?t \<or> payload \<le> j" "j < length part" for j
    using that trans(2) [of j] net(1) net(3) [of j] tp by auto
  have "ipv4_at part (?ip + 12) = ipv4_at f (?ip + 12)" "ipv4_at part (?ip + 16) = ipv4_at f (?ip + 16)"
    using tp b by (auto intro!: ipv4_at_cong simp: part_def nth_append)
  moreover have "ipv4_at p (?ip + 12) = ipv4_at part (?ip + 12)" "ipv4_at p (?ip + 16) = ipv4_at part (?ip + 16)"
    using tp b by (auto intro!: ipv4_at_cong at)
  ultimately show "ipv4_at p (?ip + 12) = ipv4_at f (?ip + 12)" "ipv4_at p (?ip + 16) = ipv4_at f (?ip + 16)"
    by simp_all
  show lp: "length p = payload + length ?c" using trans(1) net(1) len by simp
  show "drop payload p = ?c"
  proof (rule nth_equalityI)
    fix j assume "j < length (drop payload p)"
    then show "drop payload p ! j = ?c ! j" using lp len at [of "payload + j"] b
      by (simp add: part_def nth_append)
  qed (simp add: lp)
  have "u16_at p (?ip + 2) = u16_at q (?ip + 2)"
    by (rule u16_at_cong) (use trans(2) net tp in auto)
  moreover have "take (?t - ?ip) (drop ?ip p) = take (?t - ?ip) (drop ?ip q)"
    by (rule nth_equalityI) (use trans(1) net(1) tp(1,3) in \<open>auto intro!: trans(2)\<close>)
  ultimately show "ipv4_segment_ok ly p"
    using net(1,2,4,5) trans(1,3)
    by (simp add: ipv4_segment_ok_def unsigned_of_nat take_bit_nat_eq_self)
  show "u32_at p (?t + 4) = u32_at f (?t + 4) + of_nat (i * s)" if "ly_protocol ly = 6"
    using trans(4) [OF that] .
qed

lemma mtu_bound: "unat (mtu :: u16) < 65536"
proof -
  have "unat mtu < 2 ^ LENGTH(16)" by (rule unsigned_less)
  then show ?thesis by simp
qed

lemma segments_gso_parts:
  assumes res: "segments h f mtu = Inr parts" and gso: "h_gso_type h \<noteq> GSO_NONE"
    and ly: "Layout_parse f = Inr ly" and pay: "payload_start ly f = Inr payload"
  obtains s count where "payload \<le> length f" "0 < s" "payload - ly_ip ly + s \<le> unat mtu"
    "s \<le> unat (h_gso_size h)"
    "count = max (div_ceil (length f - payload) s) 1" "count * payload + (length f - payload) \<le> 4194304"
    "map (segment_part ly f payload s count) [0..<count] = map Inr parts"
proof -
  let ?s = "min (unat mtu - (payload - ly_ip ly)) (unat (h_gso_size h))"
  let ?n = "max (div_ceil (length f - payload) ?s) 1"
  have "payload \<le> length f \<and> payload - ly_ip ly \<le> unat mtu \<and> ?s \<noteq> 0 \<and>
      ?n * payload + (length f - payload) \<le> 4194304 \<and>
      collect (map (segment_part ly f payload ?s ?n) [0..<?n]) = Inr parts"
    using res gso unfolding segments_def ly pay io_bind_simps Let_def
    by (cases "validate h f") (simp_all only: io_bind_simps ly pay if_False simp_thms sum.distinct Inr_Inl_False not_less split: if_split_asm)
  moreover from this have "payload - ly_ip ly + ?s \<le> unat mtu" by linarith
  ultimately show thesis by (intro that [of ?s ?n]) (simp_all only: collect_Inr, simp_all)
qed

lemma segment_part_total:
  assumes "Layout_parse f = Inr ly" "ly_ipv4 ly" "payload - ly_ip ly + s < 65536"
  shows "\<exists>p. segment_part ly f payload s count i = Inr p"
proof -
  define part where "part = take payload f @
    take (min (i * s + s) (length (drop payload f)) - i * s) (drop (i * s) (drop payload f))"
  have "min (i * s + s) k - i * s \<le> s" for k by simp
  then have "length part \<le> payload + s" unfolding part_def length_append length_take
    by (intro add_mono) (auto intro: order_trans [OF min.cobounded2])
  then have "length part - ly_ip ly < 65536" using assms(3) by linarith
  then have len: "u16_try_from (length part - ly_ip ly) = Some (of_nat (length part - ly_ip ly))"
    by (simp add: u16_try_from_def)
  obtain w where w: "be16 f (ly_ip ly + 4) = Inr w"
    using Layout_bounds(2,3) [OF assms(1)] by (auto simp: be16_Inr split: if_splits)
  show ?thesis
    unfolding segment_part_def segment_network_def Let_def part_def [symmetric]
    by (simp only: assms(2) if_True len option.case w io_bind_simps) blast
qed

lemma div_ceil_le:
  assumes "0 < s"
  shows "max (div_ceil n s) 1 \<le> n + 1"
proof (rule ccontr)
  assume "\<not> max (div_ceil n s) 1 \<le> n + 1"
  then have "(n + 1) * s \<le> n" by (intro div_ceil_tight [OF assms]) simp
  moreover have "(n + 1) * 1 \<le> (n + 1) * s" by (rule mult_le_mono2) (use assms in simp)
  ultimately have "(n + 1) * 1 \<le> n" by (rule order_trans [rotated])
  then show False by simp
qed

lemma collect_total: "(\<And>x. \<exists>y. g x = Inr y) \<Longrightarrow> \<exists>ys. collect (map g xs) = Inr ys"
proof (induction xs)
  case (Cons x xs)
  moreover obtain y where "g x = Inr y" using Cons.prems by blast
  ultimately show ?case by (auto simp: io_bind_Inr)
qed simp

lemma segments_gso_total:
  assumes "validate h f = Inr ()" and gso: "h_gso_type h \<noteq> GSO_NONE"
    and ly: "Layout_parse f = Inr ly" "ly_ipv4 ly" "ly_protocol ly = 6"
    and pay: "payload_start ly f = Inr payload" "payload \<le> length f" "payload - ly_ip ly < unat mtu"
    and pos: "0 < unat (h_gso_size h)"
    and few: "(length f - payload + 1) * payload + (length f - payload) \<le> 4 * 1024 * 1024"
  shows "\<exists>parts. segments h f mtu = Inr parts"
proof -
  define s where "s = min (unat mtu - (payload - ly_ip ly)) (unat (h_gso_size h))"
  define n where "n = max (div_ceil (length f - payload) s) 1"
  have s: "s \<noteq> 0" "payload - ly_ip ly + s \<le> unat mtu" using pay(3) pos by (auto simp: s_def)
  have "n * payload \<le> (length f - payload + 1) * payload"
    using div_ceil_le [of s "length f - payload"] s(1) unfolding n_def by (intro mult_le_mono1) simp
  then have small: "\<not> n * payload + (length f - payload) > 4 * 1024 * 1024" using few by linarith
  have "\<exists>p. segment_part ly f payload s n i = Inr p" for i
    by (rule segment_part_total [OF ly(1,2)]) (use mtu_bound [of mtu] s(2) in linarith)
  then obtain ps where ps: "collect (map (segment_part ly f payload s n) [0..<n]) = Inr ps"
    using collect_total by metis
  have le: "\<not> payload > length f" "\<not> unat mtu < payload - ly_ip ly" using pay by simp_all
  have "segments h f mtu = Inr ps"
    unfolding segments_def assms(1) io_bind_simps ly(1) pay(1) Let_def s_def [symmetric] n_def [symmetric]
    by (simp only: gso ly(3) le s(1) small ps if_False simp_thms)
  then show ?thesis by blast
qed



definition gso_frame :: "u8 \<Rightarrow> u8 \<Rightarrow> bytes" where
  "gso_frame a b = replicate 12 0 @ [8, 0] @
     [0x45, 0, 0, 43, 0, 0, 0, 0, 64, 6, 0, 0, 10, 0, 0, a, 10, 0, 0, b] @
     [0, a, 0, b, 0, 0, 0, 7, 0, 0, 0, 0, 0x50, 0x18, 0, 0, 0, 0, 0, 0] @ [1, 2, 3]"

definition gso_header :: Header where
  "gso_header = Header_default\<lparr>h_flags := NEEDS_CSUM, h_gso_type := GSO_TCPV4, h_gso_size := 2,
     h_hdr_len := 54, h_csum_start := 34, h_csum_offset := 16\<rparr>"

abbreviation (input) gso_layout :: Layout where
  "gso_layout \<equiv> \<lparr>ly_ip = 14, ly_transport = 34, ly_protocol = 6, ly_ipv4 = True\<rparr>"

lemma gso_frame_layout:
  "Layout_parse (gso_frame 1 2) = Inr gso_layout" "Layout_parse (gso_frame 2 1) = Inr gso_layout"
  by code_simp+

lemma gso_frame_payload:
  "payload_start gso_layout (gso_frame 1 2) = Inr 54" "length (gso_frame 1 2) = 57"
  "drop 54 (gso_frame 1 2) = [1, 2, 3]"
  by (code_simp, simp add: gso_frame_def, simp add: gso_frame_def)

lemma gso_header_valid: "validate gso_header (gso_frame 1 2) = Inr ()"
proof -
  have "header_ok gso_header"
    by (simp add: gso_header_def Header_default_def vnet_const_defs header_ok_def)
  then have "Header_decode (Header_encode gso_header) = Inr gso_header"
    using Header_decode_encode [of gso_header "[]"] by simp
  then show ?thesis unfolding validate_def gso_frame_layout
    by (simp add: gso_frame_payload) (simp add: gso_header_def Header_default_def vnet_const_defs)
qed


section \<open>The flow hash\<close>

definition flow_ends :: "Layout \<Rightarrow> bytes \<Rightarrow> (bytes \<times> bytes) \<times> bytes \<times> bytes" where
  "flow_ends ly f =
     (let a = (if ly_ipv4 ly then ly_ip ly + 12 else ly_ip ly + 8);
          n = (if ly_ipv4 ly then 4 else 16);
          t = ly_transport ly
      in ((slice_of f a (a + n), slice_of f t (t + 2)),
          (slice_of f (a + n) (a + 2 * n), slice_of f (t + 2) (t + 4))))"

lemma flow_hash_ends:
  assumes "Layout_parse f = Inr ly"
  shows "flow_hash f = (let (x, y) = flow_ends ly f; (lo, hi) = (if x \<le> y then (x, y) else (y, x))
     in hash_add (hash_add (hash_add (hash_add (hash_add 2166136261 (fst lo)) (snd lo)) (fst hi)) (snd hi))
          [ly_protocol ly])"
  using assms by (simp add: flow_hash_def flow_ends_def Let_def add.commute add.assoc)

text \<open>The two directions of a flow hash alike, so both are steered to the same queue: two frames
  with the same header layout whose address and port pairs are each other's mirror image have
  the same \<open>flow_hash\<close>.\<close>

theorem flow_hash_symmetric:
  assumes "Layout_parse f = Inr ly" "Layout_parse g = Inr ly"
    and "flow_ends ly g = prod.swap (flow_ends ly f)"
  shows "flow_hash g = flow_hash f"
  using assms(3) unfolding flow_hash_ends [OF assms(1)] flow_hash_ends [OF assms(2)]
  by (cases "flow_ends ly f") (auto simp: Let_def)


theorem flow_hash_symmetric_witness:
  "flow_hash (gso_frame 2 1) = flow_hash (gso_frame 1 2) \<and> gso_frame 1 2 \<noteq> gso_frame 2 1"
  using flow_hash_symmetric [OF gso_frame_layout]
  by (simp add: flow_ends_def slice_of_def gso_frame_def)

end
