(* ===== verification/Framing_Lemmas.thy ===== *)
theory Framing_Lemmas
  imports Framing Vnet_Lemmas
begin

text \<open>
  What the framing codec promises over any byte stream: a body written with its length prefix is
  read back whole whatever the chunks it arrives in, a stream that ends between packets ends
  cleanly, one that ends inside a packet or announces too long a body is an error.
\<close>

section \<open>Reading from a stream\<close>

context byte_source
begin

lemma read_prefix_spec:
  assumes "alive r" and "length buf \<le> 4"
  shows "if 4 \<le> length (buf @ content r) then
      (\<exists>r'. read_prefix I buf r = (Inr (Some (take 4 (buf @ content r))), r') \<and>
         content r' = drop (4 - length buf) (content r) \<and> alive r')
    else if buf @ content r = [] then (\<exists>r'. read_prefix I buf r = (Inr None, r'))
    else (\<exists>r'. read_prefix I buf r = (Inl UnexpectedEof, r'))"
  using assms
proof (induction "4 - length buf" arbitrary: buf r rule: less_induct)
  case less
  show ?case
  proof (cases "length buf < 4")
    case False
    then show ?thesis using less.prems by (simp add: read_prefix.simps)
  next
    case True
    obtain c r1 where rd: "rd_read I (4 - length buf) r = (Inr c, r1)" "alive r1"
      using read_alive [OF less.prems(1)] by blast
    have c: "content r = c @ content r1" "length c \<le> 4 - length buf" using read_Inr [OF rd(1)] by simp_all
    show ?thesis
    proof (cases "c = []")
      case True
      then have "content r = []" using read_eof [of "4 - length buf" r r1] rd \<open>length buf < 4\<close> by simp
      then show ?thesis using rd True \<open>length buf < 4\<close> by (auto simp: read_prefix.simps)
    next
      case False
      then have step: "read_prefix I buf r = read_prefix I (buf @ c) r1"
        using rd True by (simp add: read_prefix.simps [of I buf])
      have "4 - length (buf @ c) < 4 - length buf" using False True by (auto intro!: diff_less_mono2)
      note hyp = less.hyps [OF this rd(2)]
      have short: "length (buf @ c) \<le> 4" using c(2) True by simp
      have "(buf @ c) @ content r1 = buf @ content r"
        "drop (4 - length (buf @ c)) (content r1) = drop (4 - length buf) (content r)"
        using c True by simp_all
      then show ?thesis using hyp [OF short] unfolding step by (simp only:)
    qed
  qed
qed

lemma read_body_ok:
  assumes "alive r" and "content r = to_be32 (of_nat (length body)) @ body @ rest"
    and "length body \<le> limit" and "limit < 2 ^ 32"
  shows "\<exists>r'. read_body I r limit = (Inr (Some body), r') \<and> content r' = rest \<and> alive r'"
proof -
  let ?n = "of_nat (length body) :: u32"
  obtain r1 where r1: "read_prefix I [] r = (Inr (Some (to_be32 ?n)), r1)" "content r1 = body @ rest" "alive r1"
    using read_prefix_spec [OF assms(1), of "[]"] assms(2) by auto
  have "unat ?n = length body" using assms(3,4) by (simp add: unsigned_of_nat take_bit_nat_eq_self)
  then have len: "unat (from_be32 (to_be32 ?n ! 0) (to_be32 ?n ! 1) (to_be32 ?n ! 2) (to_be32 ?n ! 3)) = length body"
    by (simp add: to_be32_def)
  obtain c r2 where r2: "rd_exact I (length body) r1 = (Inr c, r2)" "alive r2"
    using exact_alive [OF r1(3), of "length body"] r1(2) by auto
  then have "c = body" "content r2 = rest" using exact_Inr [OF r2(1)] r1(2) by auto
  then show ?thesis using r1(1) r2 len assms(3) by (simp add: read_body_def Let_def)
qed

lemma read_body_eof: "alive r \<Longrightarrow> content r = [] \<Longrightarrow> \<exists>r'. read_body I r limit = (Inr None, r')"
  using read_prefix_spec [of r "[]"] by (fastforce simp: read_body_def)

lemma read_body_cut:
  assumes "alive r" and "content r @ rest = to_be32 (of_nat (length body)) @ body"
    and "content r \<noteq> []" and "rest \<noteq> []" and "length body < 2 ^ 32" and "length body \<le> limit"
  shows "\<exists>r'. read_body I r limit = (Inl UnexpectedEof, r')"
proof (cases "4 \<le> length (content r)")
  case False
  then show ?thesis using read_prefix_spec [OF assms(1), of "[]"] assms(3)
    by (fastforce simp: read_body_def)
next
  case True
  let ?n = "of_nat (length body) :: u32"
  have "take 4 (content r) = to_be32 ?n"
    using arg_cong [OF assms(2), of "take 4"] True by simp
  then obtain r1 where r1: "read_prefix I [] r = (Inr (Some (to_be32 ?n)), r1)" "content r1 = drop 4 (content r)" "alive r1"
    using read_prefix_spec [OF assms(1), of "[]"] True by auto
  have "unat ?n = length body" using assms(5) by (simp add: unsigned_of_nat take_bit_nat_eq_self)
  then have len: "unat (from_be32 (to_be32 ?n ! 0) (to_be32 ?n ! 1) (to_be32 ?n ! 2) (to_be32 ?n ! 3)) = length body"
    by (simp add: to_be32_def)
  have "length (content r) + length rest = 4 + length body" using arg_cong [OF assms(2), of length] by simp
  then have "length (content r1) < length body" using assms(4) r1(2) True by (cases rest) simp_all
  from exact_short [OF r1(3) this] obtain r2 where "rd_exact I (length body) r1 = (Inl UnexpectedEof, r2)"
    by (metis prod.collapse)
  then show ?thesis using r1(1) len assms(6) by (simp add: read_body_def Let_def)
qed

lemma read_packet_raw:
  assumes "alive r" and "content r = to_be32 (of_nat (length f)) @ f @ rest" and "length f \<le> MAX_FRAME_LEN"
  shows "\<exists>r'. read_packet I r Raw = (Inr (Some (Packet_raw f)), r') \<and> content r' = rest \<and> alive r'"
  using read_body_ok [OF assms] by (auto simp: read_packet_def read_frame_def MAX_FRAME_LEN_def)

lemma read_packet_vnet:
  assumes "alive r" and "validate (pk_header p) (pk_frame p) = Inr u" and "pk_queue p < pairs"
    and "content r = to_be32 (of_nat (METADATA_LEN + length (pk_frame p))) @
      metadata (pk_header p) (pk_queue p) @ pk_frame p @ rest"
  shows "\<exists>r'. read_packet I r (ModeVnet pairs) = (Inr (Some p), r') \<and> content r' = rest \<and> alive r'"
proof -
  let ?body = "metadata (pk_header p) (pk_queue p) @ pk_frame p"
  have len: "length ?body = METADATA_LEN + length (pk_frame p)" by (simp add: metadata_def METADATA_LEN_def)
  have "length (pk_frame p) \<le> VNET_MAX_FRAME_LEN"
    using assms(2) by (auto simp: validate_def io_bind_Inr split: if_splits)
  then obtain r' where r': "read_body I r (VNET_MAX_FRAME_LEN + METADATA_LEN) = (Inr (Some ?body), r')"
    "content r' = rest" "alive r'"
    using read_body_ok [OF assms(1), of ?body rest "VNET_MAX_FRAME_LEN + METADATA_LEN"] assms(4) len
    by (auto simp: VNET_MAX_FRAME_LEN_def METADATA_LEN_def)
  have "from_metadata ?body = Inr (pk_header p, pk_queue p, pk_frame p)"
    using assms(2) by (simp add: from_metadata_metadata)
  then show ?thesis using r' assms(3) len by (simp add: read_packet_def not_le [symmetric])
qed

lemma read_packet_eof: "alive r \<Longrightarrow> content r = [] \<Longrightarrow> \<exists>r'. read_packet I r mode = (Inr None, r')"
  using read_body_eof [of r MAX_FRAME_LEN] read_body_eof [of r "VNET_MAX_FRAME_LEN + METADATA_LEN"]
  by (auto simp: read_packet_def read_frame_def split: FramingMode.split)

end

section \<open>Writing to a stream\<close>

text \<open>The bytes of a packet on the wire, and the packet its reader sees.\<close>

definition packet_bytes :: "FramingMode \<Rightarrow> Packet \<Rightarrow> bytes" where
  "packet_bytes mode p = (case mode of
     Raw \<Rightarrow> to_be32 (of_nat (length (pk_frame p))) @ pk_frame p
   | ModeVnet _ \<Rightarrow> to_be32 (of_nat (METADATA_LEN + length (pk_frame p))) @
       metadata (pk_header p) (pk_queue p) @ pk_frame p)"

definition packet_seen :: "FramingMode \<Rightarrow> Packet \<Rightarrow> Packet" where
  "packet_seen mode p = (case mode of Raw \<Rightarrow> Packet_raw (pk_frame p) | ModeVnet _ \<Rightarrow> p)"

definition packet_sendable :: "FramingMode \<Rightarrow> Packet \<Rightarrow> bool" where
  "packet_sendable mode p = (case mode of
     Raw \<Rightarrow> length (pk_frame p) \<le> MAX_FRAME_LEN
   | ModeVnet pairs \<Rightarrow> validate (pk_header p) (pk_frame p) = Inr () \<and> pk_queue p < pairs)"

context byte_sink
begin

lemma write_seq_Inr: "write_seq I bs w = (Inr (), w') \<Longrightarrow> sunk w' = sunk w @ concat bs"
  by (induction bs arbitrary: w) (auto split: prod.splits sum.splits dest: all_Inr flush_Inr)

lemma write_packet_Inr:
  "write_packet I p mode w = (Inr (), w') \<Longrightarrow>
   packet_sendable mode p \<and> sunk w' = sunk w @ packet_bytes mode p"
  by (auto simp: write_packet_def write_frame_def packet_sendable_def packet_bytes_def Let_def
      simp del: write_seq.simps of_nat_add split: FramingMode.splits sum.splits if_splits dest!: write_seq_Inr)

end

context byte_source
begin

lemma read_packet_seen:
  assumes "alive r" and "packet_sendable mode p" and "content r = packet_bytes mode p @ rest"
  shows "\<exists>r'. read_packet I r mode = (Inr (Some (packet_seen mode p)), r') \<and> content r' = rest \<and> alive r'"
  using assms read_packet_raw [OF assms(1), of "pk_frame p"] read_packet_vnet [OF assms(1), of p]
  by (auto simp: packet_sendable_def packet_bytes_def packet_seen_def split: FramingMode.splits)

end

end
