(* ===== verification/Fastpath_Lemmas.thy ===== *)
theory Fastpath_Lemmas
  imports Fastpath Framing_Lemmas
begin

text \<open>
  The boundary state machine of the fast path refines a machine that reads the stream byte by
  byte, so a buffer it classifies as one whole frame is one: whatever way the kernel cuts a
  stream of framed packets, no buffer is redirected out of the middle of a frame once the state
  follows the stream from its start. What the verdict programs redirect, and to where, follows
  from the maps.
\<close>

section \<open>A byte-level receiver\<close>

datatype rx = InPrefix bytes | InBody nat | Lost

definition rx_length :: "bytes \<Rightarrow> rx" where
  "rx_length p = (let n = be32_len p in
     if n > FP_MAX_FRAME_LEN then Lost else if n = 0 then InPrefix [] else InBody n)"

fun rx_byte :: "rx \<Rightarrow> u8 \<Rightarrow> rx" where
  "rx_byte (InPrefix p) b = (if length p < 3 then InPrefix (p @ [b]) else rx_length (p @ [b]))"
| "rx_byte (InBody n) b = (if n \<le> 1 then InPrefix [] else InBody (n - 1))"
| "rx_byte Lost b = Lost"

abbreviation rx_bytes :: "rx \<Rightarrow> bytes \<Rightarrow> rx" where "rx_bytes \<equiv> foldl rx_byte"

definition rx_of :: "FrameState \<Rightarrow> rx" where
  "rx_of st = (if fs_flags st AND FLAG_DESYNC \<noteq> 0 then Lost
     else if remaining st > 0 then InBody (remaining st)
     else InPrefix (take (prefix_have st) (prefix_buf st)))"

definition fs_wf :: "FrameState \<Rightarrow> bool" where
  "fs_wf st \<longleftrightarrow> length (prefix_buf st) = 4 \<and> prefix_have st < 4 \<and> (remaining st > 0 \<longrightarrow> prefix_have st = 0)"

lemma rx_body:
  "length bs \<le> n \<Longrightarrow> 0 < n \<Longrightarrow>
   rx_bytes (InBody n) bs = (if length bs = n then InPrefix [] else InBody (n - length bs))"
proof (induction bs arbitrary: n)
  case (Cons b bs)
  then show ?case by (cases "n = 1") auto
qed simp

lemma rx_prefix_short: "length p + length bs < 4 \<Longrightarrow> rx_bytes (InPrefix p) bs = InPrefix (p @ bs)"
  by (induction bs arbitrary: p) auto

lemma rx_prefix_full:
  assumes "length p + length bs = 4" "bs \<noteq> []"
  shows "rx_bytes (InPrefix p) bs = rx_length (p @ bs)"
proof -
  have "bs = butlast bs @ [last bs]" using assms(2) by simp
  moreover have "rx_bytes (InPrefix p) (butlast bs) = InPrefix (p @ butlast bs)"
    using assms by (intro rx_prefix_short) (cases bs, simp_all)
  ultimately have "rx_bytes (InPrefix p) bs = rx_byte (InPrefix (p @ butlast bs)) (last bs)"
    by (metis foldl_Cons foldl_Nil foldl_append)
  also have "\<dots> = rx_length ((p @ butlast bs) @ [last bs])"
    using assms by (cases bs rule: rev_cases) simp_all
  also have "(p @ butlast bs) @ [last bs] = p @ bs" using assms(2) by simp
  finally show ?thesis .
qed

lemma rx_after_length:
  assumes "be32_len p \<le> FP_MAX_FRAME_LEN"
  shows "rx_bytes (rx_length p) bs =
    (if length bs \<le> be32_len p
     then (if be32_len p = length bs then InPrefix [] else InBody (be32_len p - length bs))
     else rx_bytes (InPrefix []) (drop (be32_len p) bs))"
proof (cases "be32_len p = 0")
  case True
  then show ?thesis by (simp add: rx_length_def)
next
  case False
  let ?n = "be32_len p"
  have start: "rx_length p = InBody ?n" using assms False by (simp add: rx_length_def)
  show ?thesis
  proof (cases "length bs \<le> ?n")
    case True
    then show ?thesis using False by (auto simp: start rx_body)
  next
    case longer: False
    have "rx_bytes (InBody ?n) (take ?n bs) = InPrefix []" using False longer by (subst rx_body) auto
    then have "rx_bytes (InBody ?n) (take ?n bs @ drop ?n bs) = rx_bytes (InPrefix []) (drop ?n bs)"
      by (simp only: foldl_append)
    then show ?thesis using longer by (simp add: start)
  qed
qed

lemma flag_desync [simp]: "FLAG_DESYNC \<noteq> 0"
  by (simp add: FLAG_DESYNC_def)

lemma rx_of_set_desync: "set_desync st = (c, st') \<Longrightarrow> c = Desync \<and> rx_of st' = Lost"
  by (auto simp: set_desync_def rx_of_def)

lemma fs_wf_set_desync: "set_desync st = (c, st') \<Longrightarrow> fs_wf st \<Longrightarrow> fs_wf st'"
  by (auto simp: set_desync_def fs_wf_def)

section \<open>One buffer\<close>

definition reads :: "reader \<Rightarrow> bytes \<Rightarrow> bool" where
  "reads read skb \<longleftrightarrow> (\<forall>off n b. off + n \<le> length skb \<longrightarrow> read off n = Some b \<longrightarrow> b = take n (drop off skb))"

lemma readsD: "reads read skb \<Longrightarrow> read off n = Some b \<Longrightarrow> off + n \<le> length skb \<Longrightarrow> b = take n (drop off skb)"
  by (auto simp: reads_def)

text \<open>One iteration of the walk, once the state is well formed.\<close>

definition after_prefix :: "FrameState \<Rightarrow> bytes \<Rightarrow> FrameState" where
  "after_prefix st p = st\<lparr>prefix_buf := p, prefix_have := 0\<rparr>"

lemma walk_step:
  assumes "length (prefix_buf st) = 4" "prefix_have st < 4" "off < len"
  defines "taken \<equiv> min (4 - prefix_have st) (len - off)"
  shows "walk_boundaries (Suc k) st len off read =
    (case read off taken of
       None \<Rightarrow> set_desync st
     | Some b \<Rightarrow>
         let buf = splice (prefix_have st) b (prefix_buf st) in
         if prefix_have st + taken < 4
         then (Passthrough, st\<lparr>prefix_buf := buf, prefix_have := prefix_have st + taken\<rparr>)
         else if be32_len buf > FP_MAX_FRAME_LEN then set_desync (after_prefix st buf)
         else if be32_len buf \<ge> len - (off + taken)
         then (Passthrough, (after_prefix st buf)\<lparr>remaining := be32_len buf - (len - (off + taken))\<rparr>)
         else walk_boundaries k (after_prefix st buf) len (off + taken + be32_len buf) read)"
proof -
  have eq: "(if 4 - prefix_have st < len - off then 4 - prefix_have st else len - off) = taken"
    by (simp add: taken_def)
  have start: "prefix_have st mod 4 = prefix_have st" using assms(2) by simp
  have off: "(off \<ge> len) = False" using assms(3) by simp
  show ?thesis
    unfolding walk_boundaries.simps start PREFIX_LEN_def Let_def eq off if_False after_prefix_def
    by (cases "read off taken") simp_all
qed

lemma walk_refines:
  assumes "reads read skb" and "fs_wf st" and "remaining st = 0" and "fs_flags st AND FLAG_DESYNC = 0"
    and "off \<le> length skb" and "walk_boundaries budget st (length skb) off read = (c, st')"
  shows "(c = Passthrough \<and> fs_wf st' \<and> fs_flags st' = fs_flags st \<and>
            rx_of st' = rx_bytes (rx_of st) (drop off skb)) \<or> c = Desync \<and> rx_of st' = Lost"
  using assms(2-6)
proof (induction budget arbitrary: st off)
  case 0
  then show ?case by (simp add: rx_of_set_desync)
next
  case (Suc k)
  let ?have = "prefix_have st" and ?buf = "prefix_buf st"
  have wf: "length ?buf = 4" "?have < 4" using Suc.prems by (auto simp: fs_wf_def)
  have rx: "rx_of st = InPrefix (take ?have ?buf)" using Suc.prems by (simp add: rx_of_def)
  show ?case
  proof (cases "off = length skb")
    case True
    then show ?thesis using Suc.prems by (auto simp: rx_of_def)
  next
    case False
    then have off: "off < length skb" using Suc.prems by simp
    define taken where "taken = min (4 - ?have) (length skb - off)"
    note step = Suc.prems(5) [unfolded walk_step [OF wf off] taken_def [symmetric]]
    have tk: "0 < taken" "?have + taken \<le> 4" "off + taken \<le> length skb"
      "?have + taken < 4 \<Longrightarrow> off + taken = length skb"
      using wf off by (auto simp: taken_def)
    show ?thesis
    proof (cases "read off taken")
      case None
      then show ?thesis using step by (simp add: rx_of_set_desync)
    next
      case (Some b)
      then have b: "b = take taken (drop off skb)" using readsD [OF assms(1)] tk by blast
      then have lb: "length b = taken" using tk by simp
      define p where "p = take ?have ?buf @ b"
      have buf: "take (?have + taken) (splice ?have b ?buf) = p" "length (splice ?have b ?buf) = 4"
        using wf tk lb by (simp_all add: p_def splice_def)
      have split: "drop off skb = b @ drop (off + taken) skb"
        using b by (metis append_take_drop_id drop_drop add.commute)
      show ?thesis
      proof (cases "?have + taken < 4")
        case True
        moreover have "rx_bytes (rx_of st) (drop off skb) = InPrefix p"
          using True wf lb tk rx split by (simp add: rx_prefix_short p_def)
        ultimately show ?thesis using step Some wf buf Suc.prems by (auto simp: rx_of_def fs_wf_def)
      next
        case full: False
        then have four: "?have + taken = 4" using tk by simp
        then have p: "splice ?have b ?buf = p" using buf by simp
        let ?st = "after_prefix st p" and ?rest = "length skb - (off + taken)"
        have wf2: "fs_wf ?st" "remaining ?st = 0" "fs_flags ?st = fs_flags st" "rx_of ?st = InPrefix []"
          using Suc.prems buf p by (simp_all add: fs_wf_def after_prefix_def rx_of_def)
        have "rx_bytes (rx_of st) b = rx_length p"
          using four wf lb tk rx rx_prefix_full [of "take ?have ?buf" b] by (force simp: p_def)
        then have rxb: "rx_bytes (rx_of st) (drop off skb) = rx_bytes (rx_length p) (drop (off + taken) skb)"
          using split by simp
        have step2: "(if be32_len p > FP_MAX_FRAME_LEN then set_desync ?st
            else if be32_len p \<ge> ?rest then (Passthrough, ?st\<lparr>remaining := be32_len p - ?rest\<rparr>)
            else walk_boundaries k ?st (length skb) (off + taken + be32_len p) read) = (c, st')"
          using step Some full p by (simp add: Let_def)
        show ?thesis
        proof (cases "be32_len p > FP_MAX_FRAME_LEN")
          case True
          then show ?thesis using step2 by (simp add: rx_of_set_desync)
        next
          case small: False
          note after = rx_after_length [of p "drop (off + taken) skb"]
          show ?thesis
          proof (cases "be32_len p \<ge> ?rest")
            case True
            then have "c = Passthrough" and st': "st' = ?st\<lparr>remaining := be32_len p - ?rest\<rparr>"
              using step2 small by auto
            moreover have "rx_of st' = rx_bytes (rx_length p) (drop (off + taken) skb)"
              using True small st' wf2 Suc.prems(3) after by (auto simp: rx_of_def fs_wf_def)
            moreover have "fs_wf st'" "fs_flags st' = fs_flags st" using st' wf2 by (simp_all add: fs_wf_def after_prefix_def)
            ultimately show ?thesis by (simp only: rxb simp_thms)
          next
            case False
            then have "walk_boundaries k ?st (length skb) (off + taken + be32_len p) read = (c, st')"
              using step2 small by simp
            from Suc.IH [OF wf2(1,2) _ _ this] show ?thesis
              using False small wf2 Suc.prems(3) after by (simp add: rxb add.commute)
          qed
        qed
      qed
    qed
  qed
qed

text \<open>A framed body, as the stream writer sends it.\<close>

definition frame_bytes :: "bytes \<Rightarrow> bytes" where
  "frame_bytes f = packet_bytes Raw (Packet_raw f)"

lemma frame_bytes_eq: "frame_bytes f = to_be32 (of_nat (length f)) @ f"
  by (simp add: frame_bytes_def packet_bytes_def Packet_raw_def)

lemma be32_len_word: "be32_len (to_be32 w @ r) = unat w"
  by (simp add: be32_len_def to_be32_def)

lemma be32_len_to_be32: "n < 2 ^ 32 \<Longrightarrow> be32_len (to_be32 (of_nat n) @ r) = n"
  by (simp only: be32_len_word) (simp add: unsigned_of_nat take_bit_nat_eq_self)

lemma frame_of_be32_len:
  assumes "4 \<le> length skb" and "be32_len (take 4 skb) = length skb - 4"
  shows "skb = frame_bytes (drop 4 skb)"
proof -
  obtain a b c d r where skb: "skb = a # b # c # d # r"
    using assms(1) by (auto simp: Suc_le_length_iff eval_nat_numeral)
  then have "unat (from_be32 a b c d) = length r" using assms(2) by (simp add: be32_len_def)
  moreover have "of_nat (unat (from_be32 a b c d)) = from_be32 a b c d" by simp
  ultimately have "of_nat (length r) = from_be32 a b c d" by simp
  then show ?thesis using skb by (simp add: frame_bytes_eq)
qed

lemma rx_of_Lost [simp]: "rx_of st = Lost \<longleftrightarrow> fs_flags st AND FLAG_DESYNC \<noteq> 0"
  by (simp add: rx_of_def)

lemma step_lost: "rx_of st = Lost \<Longrightarrow> step_skb st len read = (Passthrough, st)"
  by (simp add: step_skb_def)

lemma step_refines:
  assumes r: "reads read skb" and wf: "fs_wf st" and live: "rx_of st \<noteq> Lost"
    and step: "step_skb st (length skb) read = (c, st')"
  shows "(c = Desync \<and> rx_of st' = Lost) \<or>
    (c \<noteq> Desync \<and> fs_wf st' \<and> rx_of st' = rx_bytes (rx_of st) skb \<and>
      (\<forall>n. c = Aligned n \<longrightarrow> rx_of st = InPrefix [] \<and> ETH_HEADER_LEN \<le> n \<and> n \<le> FP_MAX_FRAME_LEN \<and>
        skb = frame_bytes (drop 4 skb) \<and> length skb = n + 4))"
proof -
  have flag: "fs_flags st AND FLAG_DESYNC = 0" using live by simp
  have walk: ?thesis if "walk_boundaries MAX_BOUNDARIES_PER_SKB st0 (length skb) off read = (c, st')"
    "fs_wf st0" "remaining st0 = 0" "fs_flags st0 = fs_flags st" "off \<le> length skb"
    "rx_bytes (rx_of st0) (drop off skb) = rx_bytes (rx_of st) skb" for st0 off
    using walk_refines [OF r that(2,3) _ that(5,1)] that(4,6) flag by auto
  show ?thesis
  proof (cases "remaining st > 0")
    case True
    show ?thesis
    proof (cases "length skb \<le> remaining st")
      case le: True
      then have "c = Passthrough" "st' = st\<lparr>remaining := remaining st - length skb\<rparr>"
        using True step flag by (auto simp: step_skb_def)
      then show ?thesis using True le flag wf rx_body [OF le True] by (auto simp: rx_of_def fs_wf_def)
    next
      case False
      let ?st = "st\<lparr>remaining := 0\<rparr>" and ?n = "remaining st"
      have "rx_bytes (rx_of st) (take ?n skb) = InPrefix []"
        using True False flag by (simp add: rx_of_def rx_body)
      then have "rx_bytes (rx_of st) (take ?n skb @ drop ?n skb) = rx_bytes (InPrefix []) (drop ?n skb)"
        by (simp only: foldl_append)
      then show ?thesis using True False step flag wf
        by (intro walk [of ?st ?n]) (auto simp: step_skb_def rx_of_def fs_wf_def)
    qed
  next
    case False
    show ?thesis
    proof (cases "prefix_have st = 0 \<and> length skb > PREFIX_LEN")
      case no: False
      then show ?thesis using \<open>\<not> remaining st > 0\<close> step flag wf
        by (intro walk [of st 0]) (auto simp: step_skb_def)
    next
      case True
      show ?thesis
      proof (cases "read 0 4")
        case None
        then show ?thesis using True False step flag by (auto simp: step_skb_def dest: rx_of_set_desync)
      next
        case (Some b)
        then have b: "b = take 4 skb" using readsD [OF r Some] True by (simp add: PREFIX_LEN_def)
        consider (big) "be32_len b > FP_MAX_FRAME_LEN"
          | (whole) "be32_len b \<le> FP_MAX_FRAME_LEN" "be32_len b \<ge> ETH_HEADER_LEN" "be32_len b = length skb - PREFIX_LEN"
          | (other) "be32_len b \<le> FP_MAX_FRAME_LEN" "\<not> (be32_len b \<ge> ETH_HEADER_LEN \<and> be32_len b = length skb - PREFIX_LEN)"
          by linarith
        then show ?thesis
        proof cases
          case big
          then show ?thesis using True False Some step flag
            by (auto simp: step_skb_def Let_def dest: rx_of_set_desync)
        next
          case whole
          then have c: "c = Aligned (be32_len b)" "st' = st" using True False Some step flag
            by (auto simp: step_skb_def Let_def)
          have skb: "skb = take 4 skb @ drop 4 skb" by simp
          have "rx_bytes (InPrefix []) (take 4 skb) = rx_length b"
            using True b by (subst rx_prefix_full) (auto simp: PREFIX_LEN_def)
          then have "rx_bytes (InPrefix []) skb = rx_bytes (rx_length b) (drop 4 skb)"
            using skb by (metis foldl_append)
          also have "\<dots> = InPrefix []" using whole by (simp add: rx_after_length PREFIX_LEN_def)
          finally have "rx_bytes (InPrefix []) skb = InPrefix []" .
          then show ?thesis using c True False flag wf whole b frame_of_be32_len [of skb]
            by (auto simp: rx_of_def PREFIX_LEN_def)
        next
          case other
          then show ?thesis using True False Some step flag wf
            by (intro walk [of st 0]) (auto simp: step_skb_def Let_def)
        qed
      qed
    qed
  qed
qed

section \<open>A stream of buffers\<close>

text \<open>The classes of the buffers a socket receives, each with the loads the kernel allows on it.\<close>

fun skb_run :: "FrameState \<Rightarrow> (bytes \<times> reader) list \<Rightarrow> SkbClass list" where
  "skb_run st [] = []"
| "skb_run st ((skb, read) # xs) = (case step_skb st (length skb) read of (c, st') \<Rightarrow> c # skb_run st' xs)"

lemma skb_run_lost: "rx_of st = Lost \<Longrightarrow> k < length xs \<Longrightarrow> skb_run st xs ! k = Passthrough"
proof (induction xs arbitrary: st k)
  case (Cons x xs)
  then show ?case by (cases x; cases k) (simp_all add: step_lost)
qed simp

lemma skb_run_aligned:
  assumes "\<forall>(skb, read) \<in> set xs. reads read skb" and "fs_wf st" and "rx_of st \<noteq> Lost"
    and "k < length xs" and "skb_run st xs ! k = Aligned n"
  shows "rx_bytes (rx_of st) (concat (map fst (take k xs))) = InPrefix [] \<and>
    ETH_HEADER_LEN \<le> n \<and> n \<le> FP_MAX_FRAME_LEN \<and>
    fst (xs ! k) = frame_bytes (drop 4 (fst (xs ! k))) \<and> length (fst (xs ! k)) = n + 4"
  using assms
proof (induction xs arbitrary: st k)
  case (Cons x xs)
  obtain skb read c st' where x: "x = (skb, read)" and step: "step_skb st (length skb) read = (c, st')"
    by (metis prod.collapse)
  have "reads read skb" using Cons.prems(1) x by auto
  note ref = step_refines [OF this Cons.prems(2,3) step]
  show ?case
  proof (cases k)
    case 0
    then have "c = Aligned n" using Cons.prems(5) x step by simp
    then show ?thesis using ref 0 x by auto
  next
    case (Suc j)
    then have run: "skb_run st' xs ! j = Aligned n" "j < length xs" using Cons.prems(4,5) x step by auto
    then have live: "rx_of st' \<noteq> Lost" using skb_run_lost by fastforce
    then have "fs_wf st'" and rx: "rx_of st' = rx_bytes (rx_of st) skb" using ref by auto
    from Cons.IH [OF _ this(1) live run(2,1)] show ?thesis using Cons.prems(1) Suc x rx by simp
  qed
qed simp

lemma rx_frame: "length f \<le> FP_MAX_FRAME_LEN \<Longrightarrow> rx_bytes (InPrefix []) (frame_bytes f @ r) = rx_bytes (InPrefix []) r"
proof -
  assume f: "length f \<le> FP_MAX_FRAME_LEN"
  let ?p = "to_be32 (of_nat (length f))"
  have p: "be32_len ?p = length f"
    using be32_len_to_be32 [of "length f" "[]"] f by (simp add: FP_MAX_FRAME_LEN_def)
  have "rx_bytes (InPrefix []) (?p @ f) = rx_bytes (rx_length ?p) f"
    using rx_prefix_full [of "[]" ?p] by (simp add: to_be32_def)
  also have "\<dots> = InPrefix []" using f p by (simp add: rx_after_length)
  finally show ?thesis unfolding frame_bytes_eq by (simp only: foldl_append)
qed

lemma rx_partial:
  assumes "frame_bytes f = xs @ ys" "xs \<noteq> []" "ys \<noteq> []" "length f \<le> FP_MAX_FRAME_LEN"
  shows "rx_bytes (InPrefix []) xs \<noteq> InPrefix []"
proof (cases "length xs < 4")
  case True
  then show ?thesis using rx_prefix_short [of "[]" xs] assms(2) by simp
next
  case False
  let ?p = "to_be32 (of_nat (length f))"
  have p: "be32_len ?p = length f"
    using be32_len_to_be32 [of "length f" "[]"] assms(4) by (simp add: FP_MAX_FRAME_LEN_def)
  have "take 4 xs = ?p" using arg_cong [OF assms(1), of "take 4"] False by (simp add: frame_bytes_eq)
  then have xs: "xs = ?p @ drop 4 xs" by (metis append_take_drop_id)
  have "length xs < length f + 4" using arg_cong [OF assms(1), of length] assms(3)
    by (cases ys) (simp_all add: frame_bytes_eq)
  then have short: "length (drop 4 xs) < length f" using False by simp
  have "rx_bytes (InPrefix []) (?p @ drop 4 xs) = rx_bytes (rx_length ?p) (drop 4 xs)"
    using rx_prefix_full [of "[]" ?p] by (simp add: to_be32_def)
  also have "\<dots> \<noteq> InPrefix []" using short p assms(4) by (simp add: rx_after_length)
  finally show ?thesis using xs by simp
qed

lemma boundary_decodes:
  assumes "xs @ ys = concat (map frame_bytes fs)" and "\<forall>f \<in> set fs. length f \<le> FP_MAX_FRAME_LEN"
    and "rx_bytes (InPrefix []) xs = InPrefix []"
  shows "\<exists>fs1 fs2. fs = fs1 @ fs2 \<and> xs = concat (map frame_bytes fs1) \<and> ys = concat (map frame_bytes fs2)"
  using assms
proof (induction fs arbitrary: xs)
  case (Cons f fs)
  show ?case
  proof (cases "xs = []")
    case True
    then show ?thesis using Cons.prems(1) by (intro exI [of _ "[]"] exI [of _ "f # fs"]) simp
  next
    case False
    have eq: "xs @ ys = frame_bytes f @ concat (map frame_bytes fs)" using Cons.prems(1) by simp
    from eq [unfolded append_eq_append_conv2] obtain us where
      "xs = frame_bytes f @ us \<and> us @ ys = concat (map frame_bytes fs) \<or>
       xs @ us = frame_bytes f \<and> ys = us @ concat (map frame_bytes fs)" by blast
    then consider "xs = frame_bytes f @ us" "us @ ys = concat (map frame_bytes fs)"
      | "frame_bytes f = xs @ us" "us \<noteq> []" by force
    then show ?thesis
    proof cases
      case 1
      then have "rx_bytes (InPrefix []) us = InPrefix []" using Cons.prems(2,3) rx_frame by simp
      from Cons.IH [OF 1(2) _ this] Cons.prems(2) obtain fs1 fs2 where
        "fs = fs1 @ fs2" "us = concat (map frame_bytes fs1)" "ys = concat (map frame_bytes fs2)" by auto
      then show ?thesis using 1(1) by (intro exI [of _ "f # fs1"] exI [of _ fs2]) simp
    next
      case 2
      then show ?thesis using rx_partial [OF 2(1) False] Cons.prems(2,3) by auto
    qed
  qed
qed simp

lemma frame_bytes_prefix:
  assumes "frame_bytes g @ r = concat (map frame_bytes fs)"
    and "\<forall>f \<in> set fs. length f \<le> FP_MAX_FRAME_LEN" and "length g \<le> FP_MAX_FRAME_LEN"
  shows "\<exists>fs'. fs = g # fs'"
proof (cases fs)
  case Nil
  then show ?thesis using assms(1) by (simp add: frame_bytes_eq to_be32_def)
next
  case (Cons f fs')
  have eq: "to_be32 (of_nat (length g)) @ g @ r = to_be32 (of_nat (length f)) @ f @ concat (map frame_bytes fs')"
    using assms(1) Cons by (simp add: frame_bytes_eq)
  then have "to_be32 (of_nat (length g)) = to_be32 (of_nat (length f))" and rest: "g @ r = f @ concat (map frame_bytes fs')"
    by (simp_all add: append_eq_append_conv)
  then have "be32_len (to_be32 (of_nat (length g)) @ []) = be32_len (to_be32 (of_nat (length f)) @ [])" by simp
  then have "length g = length f"
    using assms(2,3) Cons by (subst (asm) (1 2) be32_len_to_be32) (auto simp: FP_MAX_FRAME_LEN_def)
  then show ?thesis using rest Cons by simp
qed

text \<open>C3: however the kernel cuts a stream of framed packets into buffers, and whichever of its
  loads fail, a buffer the state machine calls aligned is exactly one whole frame of the
  stream, with its length prefix, and everything before it is whole frames. So a redirected buffer
  never tears a frame.\<close>

theorem aligned_is_whole_frame:
  assumes "concat (map fst xs) @ rest = concat (map frame_bytes frames)"
    and "\<forall>f \<in> set frames. length f \<le> FP_MAX_FRAME_LEN"
    and "\<forall>(skb, read) \<in> set xs. reads read skb"
    and "k < length xs" and "skb_run FrameState_default xs ! k = Aligned n"
  shows "\<exists>before f after. frames = before @ f # after \<and> fst (xs ! k) = frame_bytes f \<and> length f = n \<and>
    concat (map fst (take k xs)) = concat (map frame_bytes before)"
proof -
  have start: "fs_wf FrameState_default" "rx_of FrameState_default = InPrefix []"
    by (simp_all add: fs_wf_def FrameState_default_def rx_of_def)
  let ?skb = "fst (xs ! k)" and ?done = "concat (map fst (take k xs))"
  have al: "rx_bytes (InPrefix []) ?done = InPrefix []" "n \<le> FP_MAX_FRAME_LEN"
    "?skb = frame_bytes (drop 4 ?skb)" "length ?skb = n + 4"
    using skb_run_aligned [OF assms(3) start(1) _ assms(4,5)] start(2) by auto
  have "concat (map fst xs) = ?done @ ?skb @ concat (map fst (drop (Suc k) xs))"
    by (subst id_take_nth_drop [OF assms(4)]) simp
  then have "?done @ (?skb @ concat (map fst (drop (Suc k) xs)) @ rest) = concat (map frame_bytes frames)"
    using assms(1) by simp
  from boundary_decodes [OF this assms(2) al(1)] obtain fs1 fs2 where fs: "frames = fs1 @ fs2"
    "?done = concat (map frame_bytes fs1)"
    "frame_bytes (drop 4 ?skb) @ concat (map fst (drop (Suc k) xs)) @ rest = concat (map frame_bytes fs2)"
    using al(3) by metis
  moreover have "length (drop 4 ?skb) \<le> FP_MAX_FRAME_LEN" using al(2,4) by simp
  ultimately obtain fs' where "fs2 = drop 4 ?skb # fs'"
    using frame_bytes_prefix [OF fs(3)] assms(2) by auto
  then show ?thesis using fs al by (intro exI [of _ fs1] exI [of _ "drop 4 ?skb"] exI [of _ fs']) simp
qed

text \<open>Conversely, on a boundary a buffer that is one whole frame of an acceptable length is
  recognised when its prefix can be loaded.\<close>

lemma whole_frame_aligned:
  assumes "rx_of st = InPrefix []" and "fs_wf st" and "ETH_HEADER_LEN \<le> length f" and "length f \<le> FP_MAX_FRAME_LEN"
    and "read 0 4 = Some (take 4 (frame_bytes f))"
  shows "step_skb st (length (frame_bytes f)) read = (Aligned (length f), st)"
proof -
  have st: "fs_flags st AND FLAG_DESYNC = 0" "remaining st = 0" "prefix_have st = 0"
    using assms(1,2) by (auto simp: rx_of_def fs_wf_def split: if_splits)
  have "be32_len (take 4 (frame_bytes f)) = length f"
    using be32_len_to_be32 [of "length f" "[]"] assms(4) by (simp add: frame_bytes_eq FP_MAX_FRAME_LEN_def)
  then show ?thesis using st assms(3-5)
    by (auto simp: step_skb_def Let_def frame_bytes_eq PREFIX_LEN_def ETH_HEADER_LEN_def)
qed

abbreviation (input) skb_reader :: "bytes \<Rightarrow> reader" where
  "skb_reader skb off n \<equiv> Some (take n (drop off skb))"

theorem aligned_is_whole_frame_witness:
  "\<exists>before f after. [replicate 14 7, replicate 20 9] = before @ f # after \<and>
     frame_bytes (replicate 14 7) = frame_bytes f \<and> length f = 14 \<and> concat (map frame_bytes before) = []"
proof -
  let ?f = "replicate 14 7 :: bytes"
  let ?xs = "[(frame_bytes ?f, skb_reader (frame_bytes ?f))]"
  have "step_skb FrameState_default (length (frame_bytes ?f)) (skb_reader (frame_bytes ?f)) =
      (Aligned (length ?f), FrameState_default)"
    by (rule whole_frame_aligned)
      (simp_all add: rx_of_def fs_wf_def FrameState_default_def ETH_HEADER_LEN_def FP_MAX_FRAME_LEN_def)
  then have "skb_run FrameState_default ?xs ! 0 = Aligned 14" by simp
  then show ?thesis
    using aligned_is_whole_frame [of ?xs "frame_bytes (replicate 20 9)" "[?f, replicate 20 9]" 0 14]
    by (simp add: reads_def FP_MAX_FRAME_LEN_def)
qed

section \<open>What the verdict programs redirect\<close>

lemma dbg_sel [simp]:
  "port_hash (dbg i m) = port_hash m" "mac_map (dbg i m) = mac_map m"
  "sock_state (dbg i m) = sock_state m" "tx_target (dbg i m) = tx_target m" "tx_hash (dbg i m) = tx_hash m"
  by (simp_all add: dbg_def)

lemma classify_Redirect:
  "classify_frame dst src port lookup = Redirect p \<longleftrightarrow>
     mac_first dst AND 1 = 0 \<and> lookup src = Some port \<and> lookup dst = Some p \<and> p \<noteq> port"
  by (auto simp: classify_frame_def split: option.splits)

lemma redirect_verdict_Redirect:
  "fst (redirect_verdict dst src port len m) = SkRedirect p \<longleftrightarrow>
     classify_frame dst src port (hm_get (mac_map m)) = Redirect p \<and> p \<in> port_hash m"
  by (auto simp: redirect_verdict_def Let_def redirect_skb_def split: FrameVerdict.split)

lemma verdict_guest_Redirect:
  assumes "fst (verdict_guest kernel_ok cookie len load m) = SkRedirect p"
  shows "\<exists>dst src port. load_mac load PREFIX_LEN = Some dst \<and> load_mac load (PREFIX_LEN + 6) = Some src \<and>
    mac_first dst AND 1 = 0 \<and> hm_get (mac_map m) src = Some port \<and> hm_get (mac_map m) dst = Some p \<and>
    p \<noteq> port \<and> p \<in> port_hash m \<and>
    (\<forall>s. hm_get (sock_state m) cookie = Some s \<longrightarrow> port = ss_port_id s \<and>
       (\<exists>n. fst (step_skb (ss_fs s) len (load_exact load)) = Aligned n))"
  using assms unfolding verdict_guest_def
  by (auto simp: Let_def redirect_verdict_Redirect classify_Redirect
      split: if_splits option.splits prod.splits SkbClass.splits)

lemma redirect_verdict_mac_map: "mac_map (snd (redirect_verdict dst src port len m)) = mac_map m"
  by (simp add: redirect_verdict_def Let_def split: FrameVerdict.split)

lemma verdict_guest_mac_map: "mac_map (snd (verdict_guest kernel_ok cookie len load m)) = mac_map m"
  by (simp add: verdict_guest_def Let_def redirect_verdict_mac_map split: option.split prod.split SkbClass.split)

lemma verdict_tx_mac_map: "mac_map (snd (verdict_tx cookie m)) = mac_map m"
  by (simp add: verdict_tx_def Let_def split: option.split)

text \<open>Without a recorded state the program takes any buffer that looks like one frame as the start
  of a frame. A guest can send one long frame whose second buffer looks like a frame from a
  learned address: the first buffer passes to userspace and the second is redirected out of the
  middle of the frame.\<close>

definition mac_a :: MacAddr where "mac_a = MacAddr 2 0 0 0 0 1"
definition mac_b :: MacAddr where "mac_b = MacAddr 2 0 0 0 0 2"

definition primed_maps :: Maps where
  "primed_maps = \<lparr>port_hash = {1, 2}, tx_hash = {1, 2}, mac_map = [(mac_a, 1), (mac_b, 2)],
     sock_state = [], tx_target = [], fp_stats = \<lparr>fp_frames = 0, fp_bytes = 0\<rparr>, fp_debug = (\<lambda>_. 0)\<rparr>"

definition inner_frame :: bytes where
  "inner_frame = [0, 0, 0, 14] @ mac_octets mac_b @ mac_octets mac_a @ [8, 0]"

definition outer_head :: bytes where
  "outer_head = mac_octets mac_b @ mac_octets mac_a @ [8, 0]"

lemma inner_frame_eq: "inner_frame = frame_bytes outer_head" "length outer_head = 14"
  by (simp_all add: inner_frame_def outer_head_def frame_bytes_eq mac_a_def mac_b_def to_be32_def)

lemma verdict_unprimed_pass:
  assumes "cookie \<noteq> 0" and "hm_get (sock_state m) cookie = None"
    and "\<forall>n. fst (step_skb FrameState_default len (load_exact load)) \<noteq> Aligned n"
  shows "verdict_guest kernel_ok cookie len load m = (SK_PASS, dbg DBG_PASSTHROUGH (dbg DBG_INVOKED m))"
  using assms by (auto simp: verdict_guest_def Let_def split: prod.splits SkbClass.splits)

lemma verdict_unprimed_redirect:
  assumes "cookie \<noteq> 0" and "hm_get (sock_state m) cookie = None"
    and "fst (step_skb FrameState_default len (load_exact load)) = Aligned n"
    and "load_mac load PREFIX_LEN = Some dst" "load_mac load (PREFIX_LEN + 6) = Some src"
    and "mac_first dst AND 1 = 0" "hm_get (mac_map m) src = Some port" "hm_get (mac_map m) dst = Some p"
    and "p \<noteq> port" "p \<in> port_hash m"
  shows "fst (verdict_guest kernel_ok cookie len load m) = SkRedirect p"
  using assms by (cases "step_skb FrameState_default len (load_exact load)")
    (simp add: verdict_guest_def Let_def redirect_verdict_Redirect classify_Redirect)

lemma load_exact_reads: "reads (load_exact (skb_reader skb)) skb"
  by (auto simp: reads_def load_exact_def split: if_splits)



section \<open>The XDP switch\<close>

text \<open>C31: an isolated tap reaches only the daemon. Whatever frame arrives on a guest tap that is
  flagged isolated, the XDP program drops it or sends it, behind the tap's tag, to the host tap; and a
  frame the daemon sends back behind that tag is delivered unchanged to the tap registered under it.\<close>

theorem xdp_isolated_only_host:
  assumes "hm_get (port_conf m) ifindex = Some conf" and "pc_flags conf AND XDP_FLAG_HOST = 0"
    and "pc_flags conf AND XDP_FLAG_ISOLATED \<noteq> 0"
    and "hm_get (port_conf m) host = Some hconf" and "pc_flags hconf AND XDP_FLAG_HOST \<noteq> 0"
  shows "(\<forall>out pkt'. fst (xdp_switch head_ok ifindex pkt m) = XdpRedirect out pkt' \<longrightarrow>
      hm_get (xdp_ports m) HOST_TAG = Some out \<and> pkt' = to_be32 (pc_tag conf) @ pkt \<and>
      (pc_tag conf \<noteq> HOST_TAG \<longrightarrow> hm_get (xdp_ports m) (pc_tag conf) = Some ifindex \<longrightarrow>
        fst (xdp_switch True host (to_be32 (pc_tag conf) @ reply) m) = XdpRedirect ifindex reply))"
proof -
  have host: "fst (xdp_switch True host (to_be32 t @ reply) m) = XdpRedirect ifindex reply"
    if "t \<noteq> HOST_TAG" "hm_get (xdp_ports m) t = Some ifindex" for t
    using assms(4,5) that
    by (simp add: xdp_switch_def host_ingress_def Let_def to_be32_def devmap_redirect_def bump_def TAG_LEN_def)
  have "fst (xdp_switch head_ok ifindex pkt m) = XDP_DROP \<or>
      fst (xdp_switch head_ok ifindex pkt m) = devmap_redirect m HOST_TAG (to_be32 (pc_tag conf) @ pkt)"
    using assms(1-3) by (auto simp: xdp_switch_def classify_xdp_guest_def punt_def Let_def bump_def devmap_redirect_def)
  then show ?thesis using host by (auto simp: devmap_redirect_def split: option.splits)
qed

definition demo_xdp :: XdpMaps where
  "demo_xdp = \<lparr>mac_table = [], xdp_ports = [(0, 10), (1, 11)],
     port_conf = [(10, \<lparr>pc_tag = 0, pc_flags = 2\<rparr>), (11, \<lparr>pc_tag = 1, pc_flags = 1\<rparr>)], xdp_stats = (\<lambda>_. 0)\<rparr>"

theorem xdp_isolated_only_host_witness:
  "fst (xdp_switch True 11 [1, 2, 3, 4, 5, 6, 7] demo_xdp) = XdpRedirect 10 [0, 0, 0, 1, 1, 2, 3, 4, 5, 6, 7] \<and>
   fst (xdp_switch True 10 [0, 0, 0, 1, 42] demo_xdp) = XdpRedirect 11 [42]"
  using xdp_isolated_only_host [of demo_xdp 11 "\<lparr>pc_tag = 1, pc_flags = 1\<rparr>" 10 "\<lparr>pc_tag = 0, pc_flags = 2\<rparr>"
      True "[1, 2, 3, 4, 5, 6, 7]" "[42]"]
  by (simp add: demo_xdp_def hm_get_def XDP_FLAG_HOST_def XDP_FLAG_ISOLATED_def HOST_TAG_def to_be32_def
      xdp_switch_def classify_xdp_guest_def punt_def Let_def bump_def devmap_redirect_def)

end
