(* ===== verification/Switch_Lemmas.thy ===== *)
theory Switch_Lemmas
  imports Switch Fastpath_Lemmas
begin

text \<open>
  Properties of the switch: which port queues a frame can change, that forwarding sends a frame
  to exactly the ports it should reach, that isolation holds over any sequence of frames, that
  learned addresses point at attached ports, and that a frame redirected in the kernel goes where
  the userspace switch would have sent it. The stream tasks carry packets unchanged.
\<close>

section \<open>Delivering to one port\<close>

definition delivered_entry :: "('q, 'h) switch_env \<Rightarrow> 'q PortEntry \<Rightarrow> Packet \<Rightarrow> 'q PortEntry" where
  "delivered_entry E entry packet = fst (snd (deliver E entry packet 0))"

lemma deliver_loop_tx:
  "deliver_loop E tx ps d n = (d', tx', n') \<Longrightarrow> fst (snd (deliver_loop E tx ps c k)) = tx'"
  by (induction E tx ps d n arbitrary: d' tx' n' c k rule: deliver_loop.induct) (auto split: option.splits)

lemma deliver_entry: "deliver E e p n = (sent, e', n') \<Longrightarrow> e' = delivered_entry E e p"
  by (auto simp: deliver_def delivered_entry_def split: sum.splits prod.splits dest: deliver_loop_tx)
    (metis deliver_loop_tx fst_conv snd_conv)

lemma delivered_entry_sel [simp]:
  "pe_class (delivered_entry E e p) = pe_class e" "pe_config (delivered_entry E e p) = pe_config e"
  by (simp_all add: delivered_entry_def deliver_def split: sum.split prod.split)

section \<open>Which ports a frame reaches\<close>

text \<open>The port table after a frame: \<open>hit q c\<close> says that port \<open>q\<close> of class \<open>c\<close> receives it.\<close>

definition reaches ::
  "('q, 'h) switch_env \<Rightarrow> Packet \<Rightarrow> (PortId \<Rightarrow> PortClass \<Rightarrow> bool) \<Rightarrow>
   (PortId, 'q PortEntry) hashmap \<Rightarrow> (PortId, 'q PortEntry) hashmap \<Rightarrow> bool" where
  "reaches E packet hit m m' \<longleftrightarrow>
     (\<forall>q. hm_get m' q = map_option (\<lambda>e. if hit q (pe_class e) then delivered_entry E e packet else e) (hm_get m q))"

lemma flood_ports:
  "flood E port cls packet m d n = (m', r) \<Longrightarrow>
   m' = map (\<lambda>(q, e). (q, if q \<noteq> port \<and> delivery_allowed cls (pe_class e)
     then delivered_entry E e packet else e)) m"
  by (induction E port cls packet m d n arbitrary: m' r rule: flood.induct)
    (auto split: if_splits prod.splits dest: deliver_entry)

lemma map_of_map_entries: "map_of (map (\<lambda>(q, e). (q, f q e)) m) k = map_option (f k) (map_of m k)"
  by (induction m) auto

lemma flood_reaches:
  "flood E port cls packet m d n = (m', r) \<Longrightarrow>
   reaches E packet (\<lambda>q c. q \<noteq> port \<and> delivery_allowed cls c) m m'"
  unfolding reaches_def hm_get_def by (drule flood_ports) (simp add: map_of_map_entries)

lemma learn_sel [simp]:
  "sw_ports (learn E port src sw) = sw_ports sw" "sw_dropped (learn E port src sw) = sw_dropped sw"
  "sw_hook (learn E port src sw) = sw_hook sw" "sw_next_port (learn E port src sw) = sw_next_port sw"
  "hm_get (sw_macs (learn E port src sw)) m =
     (if m = src \<and> \<not> is_multicast src then Some port else hm_get (sw_macs sw) m)"
  by (auto simp: learn_def Let_def)

lemma drop_frame_sel [simp]:
  "sw_ports (drop_frame sw) = sw_ports sw" "sw_macs (drop_frame sw) = sw_macs sw"
  "sw_offload (drop_frame sw) = sw_offload sw" "sw_next_port (drop_frame sw) = sw_next_port sw"
  "sw_hook (drop_frame sw) = sw_hook sw"
  by (simp_all add: drop_frame_def)

text \<open>The port a unicast frame is for, once its source has been learned.\<close>

definition unicast_target :: "PortId \<Rightarrow> bytes \<Rightarrow> ('q, 'h) Switch \<Rightarrow> PortId option" where
  "unicast_target port frame sw =
     (if is_multicast (mac_at frame 0) then None
      else if mac_at frame 0 = mac_at frame 6 then Some port
      else hm_get (sw_macs sw) (mac_at frame 0))"

lemma learned_target:
  "(if is_multicast (mac_at f 0) then None else hm_get (sw_macs (learn E port (mac_at f 6) sw)) (mac_at f 0)) =
   unicast_target port f sw"
  by (auto simp: unicast_target_def)

lemma reachesI:
  assumes "\<And>q. hm_get m q = None \<Longrightarrow> hm_get m' q = None"
    and "\<And>q e. hm_get m q = Some e \<Longrightarrow>
      hm_get m' q = Some (if hit q (pe_class e) then delivered_entry E e packet else e)"
  shows "reaches E packet hit m m'"
  unfolding reaches_def
proof
  fix q
  show "hm_get m' q = map_option (\<lambda>e. if hit q (pe_class e) then delivered_entry E e packet else e) (hm_get m q)"
    using assms by (cases "hm_get m q") simp_all
qed

lemma reachesD:
  "reaches E packet hit m m' \<Longrightarrow> hm_get m q = Some e \<Longrightarrow>
   hm_get m' q = Some (if hit q (pe_class e) then delivered_entry E e packet else e)"
  by (simp add: reaches_def)

lemma reaches_none: "(\<And>q e. hm_get m q = Some e \<Longrightarrow> \<not> hit q (pe_class e)) \<Longrightarrow> reaches E packet hit m m"
  by (rule reachesI) auto

lemma reaches_cong:
  "reaches E packet hit m m' \<Longrightarrow> (\<And>q c. hit q c = hit' q c) \<Longrightarrow> reaches E packet hit' m m'"
  by (simp add: reaches_def)

lemma forward_reaches:
  assumes "ETH_HEADER_LEN \<le> length (pk_frame packet)"
  shows "reaches E packet (\<lambda>q c. q \<noteq> port \<and> delivery_allowed cls c \<and>
       (\<forall>t. unicast_target port (pk_frame packet) sw = Some t \<longrightarrow> q = t))
     (sw_ports sw) (sw_ports (forward_packet E port cls packet sw))"
proof -
  let ?f = "pk_frame packet" and ?sw = "learn E port (mac_at (pk_frame packet) 6) sw"
  have fwd: "forward_packet E port cls packet sw =
    (case unicast_target port ?f sw of
       Some target \<Rightarrow>
         if target \<noteq> port then
           (case hm_get (sw_ports sw) target of
              None \<Rightarrow> drop_frame ?sw
            | Some entry \<Rightarrow>
                if \<not> delivery_allowed cls (pe_class entry) then drop_frame ?sw
                else (case deliver E entry packet (sw_dropped sw) of
                        (sent, entry, dropped) \<Rightarrow>
                          ?sw\<lparr>sw_ports := hm_insert target entry (sw_ports sw), sw_dropped := dropped,
                            sw_forwarded := (if sent then sw_forwarded ?sw + 1 else sw_forwarded ?sw)\<rparr>))
         else drop_frame ?sw
     | None \<Rightarrow>
         (case flood E port cls packet (sw_ports sw) 0 (sw_dropped sw) of
            (ports, delivered, dropped) \<Rightarrow>
              let sw = ?sw\<lparr>sw_ports := ports, sw_dropped := dropped\<rparr>
              in if delivered > 0 then sw\<lparr>sw_flooded := sw_flooded sw + 1\<rparr> else drop_frame sw))"
    using assms unfolding forward_packet_def Let_def learned_target learn_sel(1,2) by (simp only: not_less [symmetric] if_False)
  show ?thesis
  proof (cases "unicast_target port ?f sw")
    case None
    obtain ports d n where fl: "flood E port cls packet (sw_ports sw) 0 (sw_dropped sw) = (ports, d, n)"
      by (metis prod.collapse)
    then have "sw_ports (forward_packet E port cls packet sw) = ports" by (simp add: fwd None Let_def)
    with flood_reaches [OF fl] None show ?thesis by (auto elim: reaches_cong)
  next
    case (Some t)
    show ?thesis
    proof (cases "t \<noteq> port \<and> (\<exists>e. hm_get (sw_ports sw) t = Some e \<and> delivery_allowed cls (pe_class e))")
      case True
      then obtain e where e: "t \<noteq> port" "hm_get (sw_ports sw) t = Some e" "delivery_allowed cls (pe_class e)" by blast
      then have "sw_ports (forward_packet E port cls packet sw) =
          hm_insert t (delivered_entry E e packet) (sw_ports sw)"
        by (auto simp: fwd Some dest: deliver_entry split: prod.split)
      then show ?thesis using e Some by (auto intro!: reachesI)
    next
      case False
      then have "sw_ports (forward_packet E port cls packet sw) = sw_ports sw"
        by (auto simp: fwd Some split: option.splits)
      then show ?thesis using False Some by (auto intro!: reaches_none)
    qed
  qed
qed

section \<open>Ports an ingress frame cannot change\<close>

definition spared ::
  "(PortId \<Rightarrow> PortClass \<Rightarrow> bool) \<Rightarrow> (PortId, 'q PortEntry) hashmap \<Rightarrow> (PortId, 'q PortEntry) hashmap \<Rightarrow> bool" where
  "spared U m m' \<longleftrightarrow> (\<forall>q. (hm_get m q = None \<longrightarrow> hm_get m' q = None) \<and>
     (\<forall>e. hm_get m q = Some e \<longrightarrow> (\<exists>e'. hm_get m' q = Some e' \<and> pe_class e' = pe_class e \<and>
        pe_config e' = pe_config e \<and> (U q (pe_class e) \<longrightarrow> e' = e))))"

lemma spared_refl [simp]: "spared U m m"
  by (simp add: spared_def)

lemma spared_trans: "spared U m m' \<Longrightarrow> spared U m' m'' \<Longrightarrow> spared U m m''"
  unfolding spared_def by metis

lemma spared_mono: "spared U m m' \<Longrightarrow> (\<And>q c. V q c \<Longrightarrow> U q c) \<Longrightarrow> spared V m m'"
  unfolding spared_def by metis

lemma spared_same: "spared U m m' \<Longrightarrow> hm_get m q = Some e \<Longrightarrow> U q (pe_class e) \<Longrightarrow> hm_get m' q = Some e"
  unfolding spared_def by fastforce

lemma spared_class:
  "spared U m m' \<Longrightarrow> hm_get m' q = Some e' \<Longrightarrow> \<exists>e. hm_get m q = Some e \<and> pe_class e' = pe_class e"
  unfolding spared_def by (metis not_None_eq option.inject)

lemma reaches_spared: "reaches E packet hit m m' \<Longrightarrow> spared (\<lambda>q c. \<not> hit q c) m m'"
  by (auto simp: reaches_def spared_def)

lemma forward_spared:
  "spared (\<lambda>q c. q = port \<or> \<not> delivery_allowed cls c) (sw_ports sw) (sw_ports (forward_packet E port cls packet sw))"
proof (cases "ETH_HEADER_LEN \<le> length (pk_frame packet)")
  case True
  from reaches_spared [OF forward_reaches [OF this]] show ?thesis by (rule spared_mono) auto
next
  case False
  then show ?thesis by (simp add: forward_packet_def Let_def)
qed

lemma fold_forward_spared:
  "spared (\<lambda>q c. q = port \<or> \<not> delivery_allowed cls c) (sw_ports sw)
     (sw_ports (fold (forward_packet E port cls) ps sw))"
  by (induction ps arbitrary: sw) (auto intro: spared_trans forward_spared)

lemma deliver_replies_sel:
  "deliver_replies E e rs n = (e', n') \<Longrightarrow> pe_class e' = pe_class e \<and> pe_config e' = pe_config e"
proof (induction rs arbitrary: e n)
  case (Cons r rs)
  obtain s e1 n1 where d: "deliver E e (Packet_raw r) n = (s, e1, n1)" by (metis prod.collapse)
  have "pe_class e1 = pe_class e \<and> pe_config e1 = pe_config e" using deliver_entry [OF d] by simp
  moreover have "deliver_replies E e1 rs n1 = (e', n')" using Cons.prems d by simp
  ultimately show ?case using Cons.IH by metis
qed simp

lemma reply_to_spared: "spared (\<lambda>q c. q \<noteq> port) (sw_ports sw) (sw_ports (reply_to E port rs sw))"
proof (cases "hm_get (sw_ports sw) port")
  case None
  then show ?thesis by (simp add: reply_to_def)
next
  case (Some e)
  obtain e' n' where d: "deliver_replies E e rs (sw_dropped sw) = (e', n')" by (metis prod.collapse)
  show ?thesis using Some d deliver_replies_sel [OF d] by (simp add: reply_to_def spared_def)
qed

lemma rewritten_ports: "rewritten p f mtu sw = (ps, sw') \<Longrightarrow> sw_ports sw' = sw_ports sw"
  by (auto simp: rewritten_def split: if_splits sum.splits)

lemma hook_action_ports: "hook_action E port cls f sw = (a, sw') \<Longrightarrow> sw_ports sw' = sw_ports sw"
  by (auto simp: hook_action_def split: option.splits prod.splits)

lemma apply_action_spared:
  "apply_action E port packet mtu a sw = (ps, sw') \<Longrightarrow> spared (\<lambda>q c. q \<noteq> port) (sw_ports sw) (sw_ports sw')"
  using reply_to_spared [of port sw E]
  by (auto simp: apply_action_def Let_def dest!: rewritten_ports split: HookAction.splits option.splits if_splits)

lemma ingress_spared:
  assumes "hm_get (sw_ports sw) port = Some p"
  shows "spared (\<lambda>q c. q \<noteq> port \<and> \<not> delivery_allowed (pe_class p) c)
    (sw_ports sw) (sw_ports (ingress_packet E port packet sw))"
proof -
  let ?U = "\<lambda>q c. q \<noteq> port \<and> \<not> delivery_allowed (pe_class p) c"
  obtain a sw1 where h: "hook_action E port (pe_class p) (pk_frame packet) sw = (a, sw1)" by (metis prod.collapse)
  obtain ps sw2 where ap: "apply_action E port packet (cfg_mtu (pe_config p)) a sw1 = (ps, sw2)" by (metis prod.collapse)
  have eq: "ingress_packet E port packet sw = fold (forward_packet E port (pe_class p)) ps sw2"
    using assms h ap by (simp add: ingress_packet_def)
  have "spared ?U (sw_ports sw1) (sw_ports sw2)"
    by (rule spared_mono [OF apply_action_spared [OF ap]]) simp
  moreover have "spared ?U (sw_ports sw2) (sw_ports (fold (forward_packet E port (pe_class p)) ps sw2))"
    by (rule spared_mono [OF fold_forward_spared]) simp
  ultimately show ?thesis unfolding eq hook_action_ports [OF h, symmetric] by (rule spared_trans)
qed

text \<open>C1: isolation over time. Over any sequence of frames, each of them from a port whose class may not
  send to the class of port \<open>q\<close>, the port \<open>q\<close> and its egress queue stay as they are, whatever
  the frames hold and whatever the ingress hook does with them.\<close>

theorem isolation_holds:
  assumes "hm_get (sw_ports sw) q = Some f"
    and "\<forall>(p, packet) \<in> set evs. p \<noteq> q \<and>
      (\<forall>e. hm_get (sw_ports sw) p = Some e \<longrightarrow> \<not> delivery_allowed (pe_class e) (pe_class f))"
  shows "hm_get (sw_ports (fold (\<lambda>(p, packet). ingress_packet E p packet) evs sw)) q = Some f"
  using assms
proof (induction evs arbitrary: sw)
  case (Cons ev evs)
  obtain p packet where ev: "ev = (p, packet)" by (metis prod.collapse)
  let ?sw = "ingress_packet E p packet sw"
  show ?case
  proof (cases "hm_get (sw_ports sw) p")
    case None
    then have "?sw = sw" by (simp add: ingress_packet_def)
    then show ?thesis using Cons ev by simp
  next
    case (Some e)
    note sp = ingress_spared [OF Some, of E packet]
    have "hm_get (sw_ports ?sw) q = Some f" using Cons.prems ev Some by (auto intro: spared_same [OF sp])
    moreover have "\<forall>(p, packet) \<in> set evs. p \<noteq> q \<and>
        (\<forall>e. hm_get (sw_ports ?sw) p = Some e \<longrightarrow> \<not> delivery_allowed (pe_class e) (pe_class f))"
      using Cons.prems(2) by (auto dest!: spared_class [OF sp])
    ultimately have "hm_get (sw_ports (fold (\<lambda>(p, packet). ingress_packet E p packet) evs ?sw)) q = Some f"
      by (rule Cons.IH)
    then show ?thesis by (simp add: ev)
  qed
qed simp

lemma forward_macs:
  assumes "ETH_HEADER_LEN \<le> length (pk_frame packet)"
  shows "sw_macs (forward_packet E port cls packet sw) = sw_macs (learn E port (mac_at (pk_frame packet) 6) sw)"
    and "sw_offload (forward_packet E port cls packet sw) = sw_offload (learn E port (mac_at (pk_frame packet) 6) sw)"
  using assms by (simp_all add: forward_packet_def Let_def split: option.split prod.split)

lemma forward_next_port: "sw_next_port (forward_packet E port cls packet sw) = sw_next_port sw"
  by (simp add: forward_packet_def Let_def split: option.split prod.split)

text \<open>C16: forwarding reaches exactly the right ports. A frame of at least header size is put
  into the queue of every other port its class may send to when its destination is a group address
  or unknown, of the learned port alone when it is known (also the sender's own, which is then
  skipped), and every other port keeps its queue; the source address, unless it is a group
  address, is learned on the ingress port and no other binding changes.\<close>

theorem forward_delivers_exactly:
  assumes "ETH_HEADER_LEN \<le> length (pk_frame packet)"
  shows "hm_get (sw_ports (forward_packet E port cls packet sw)) q =
      map_option (\<lambda>e. if q \<noteq> port \<and> delivery_allowed cls (pe_class e) \<and>
           (\<forall>t. unicast_target port (pk_frame packet) sw = Some t \<longrightarrow> q = t)
         then delivered_entry E e packet else e) (hm_get (sw_ports sw) q) \<and>
    hm_get (sw_macs (forward_packet E port cls packet sw)) m =
      (if m = mac_at (pk_frame packet) 6 \<and> \<not> is_multicast m then Some port else hm_get (sw_macs sw) m)"
  using forward_reaches [OF assms, of E port cls sw] forward_macs [OF assms, of E port cls sw]
  by (auto simp: reaches_def)

section \<open>The state invariant\<close>

text \<open>Learned addresses point at attached ports; the kernel's address map is part of the
  userspace one and holds only ports that are offloaded, which are unisolated guests.\<close>

definition offload_inv :: "('q, 'h) Switch \<Rightarrow> SegmentOffload \<Rightarrow> bool" where
  "offload_inv sw off \<longleftrightarrow>
     (\<forall>p. hm_contains (off_ports off) p \<longrightarrow> (\<exists>e. hm_get (sw_ports sw) p = Some e \<and> pe_class e = Guest False)) \<and>
     (\<forall>m p. hm_get (mac_map (engine off)) m = Some p \<longrightarrow>
        hm_get (sw_macs sw) m = Some p \<and> hm_contains (off_ports off) p)"

definition sw_inv :: "('q, 'h) Switch \<Rightarrow> bool" where
  "sw_inv sw \<longleftrightarrow> hm_wf (sw_macs sw) \<and>
     (\<forall>m p. hm_get (sw_macs sw) m = Some p \<longrightarrow> hm_contains (sw_ports sw) p) \<and>
     (\<forall>p. hm_contains (sw_ports sw) p \<longrightarrow> p < sw_next_port sw) \<and>
     (\<forall>off. sw_offload sw = Some off \<longrightarrow> offload_inv sw off)"

definition fresh_offload :: "SegmentOffload option \<Rightarrow> bool" where
  "fresh_offload offload \<longleftrightarrow> (\<forall>off. offload = Some off \<longrightarrow> off_ports off = [] \<and> mac_map (engine off) = [])"

inductive switch_reach :: "('q, 'h) switch_env \<Rightarrow> ('q, 'h) Switch \<Rightarrow> bool" for E where
  reach_new: "fresh_offload offload \<Longrightarrow> switch_reach E (Switch_new offload)"
| reach_stream: "switch_reach E sw \<Longrightarrow> sw_next_port sw \<noteq> - 1 \<Longrightarrow>
    add_stream_port_with_config E queue pair cls config sw = (port, r, sw') \<Longrightarrow> switch_reach E sw'"
| reach_channel: "switch_reach E sw \<Longrightarrow> sw_next_port sw \<noteq> - 1 \<Longrightarrow>
    add_channel_port_with_mtu queue cls mtu sw = (port, sw') \<Longrightarrow> switch_reach E sw'"
| reach_remove: "switch_reach E sw \<Longrightarrow> switch_reach E (remove_port port sw)"
| reach_hook: "switch_reach E sw \<Longrightarrow> switch_reach E (set_ingress_hook h sw)"
| reach_ingress: "switch_reach E sw \<Longrightarrow> switch_reach E (ingress_packet E port packet sw)"
| reach_guest: "switch_reach E sw \<Longrightarrow> sw_offload sw = Some off \<Longrightarrow>
    verdict_guest (kernel_ok E) cookie len load (engine off) = (a, m) \<Longrightarrow>
    switch_reach E (sw\<lparr>sw_offload := Some (off\<lparr>engine := m\<rparr>)\<rparr>)"
| reach_tx: "switch_reach E sw \<Longrightarrow> sw_offload sw = Some off \<Longrightarrow>
    verdict_tx cookie (engine off) = (a, m) \<Longrightarrow> switch_reach E (sw\<lparr>sw_offload := Some (off\<lparr>engine := m\<rparr>)\<rparr>)"

text \<open>An update of a key that is already in a kernel map succeeds; only a new key can be refused.\<close>

definition kernel_updates :: "kernel \<Rightarrow> bool" where
  "kernel_updates ok \<longleftrightarrow> (\<forall>mac m. hm_contains (mac_map m) mac \<longrightarrow> ok (MacInsert mac) m)"

lemma relearn_inv:
  assumes "offload_inv sw off" and "kernel_updates ok" and "hm_contains (sw_ports sw) port"
  shows "offload_inv (sw\<lparr>sw_macs := hm_insert src port (sw_macs sw)\<rparr>) (relearn ok src port off)"
  using assms by (auto simp: offload_inv_def relearn_def insert_mac_def remove_mac_def kernel_updates_def
      hm_contains_iff split: if_splits)

lemma learn_inv:
  assumes "sw_inv sw" and "kernel_updates (kernel_ok E)" and "hm_contains (sw_ports sw) port"
  shows "sw_inv (learn E port src sw)"
proof (cases "is_multicast src \<or> hm_get (sw_macs sw) src = Some port")
  case True
  then show ?thesis using assms by (auto simp: sw_inv_def learn_def offload_inv_def split: if_splits)
next
  case False
  let ?sw = "sw\<lparr>sw_macs := hm_insert src port (sw_macs sw)\<rparr>"
  have l: "learn E port src sw = ?sw\<lparr>sw_offload := map_option (relearn (kernel_ok E) src port) (sw_offload sw)\<rparr>"
    using False by (simp add: learn_def Let_def)
  have "offload_inv (learn E port src sw) (relearn (kernel_ok E) src port off)" if "sw_offload sw = Some off" for off
    using relearn_inv [of sw off "kernel_ok E" port src] assms that unfolding l by (auto simp: sw_inv_def offload_inv_def)
  then show ?thesis using assms unfolding sw_inv_def by (auto simp: l)
qed

text \<open>The invariant only reads the classes of the ports, so a changed queue does not matter.\<close>

lemma spared_inv:
  assumes "sw_inv sw" and "spared U (sw_ports sw) (sw_ports sw')"
    and "sw_macs sw' = sw_macs sw" "sw_offload sw' = sw_offload sw" "sw_next_port sw' = sw_next_port sw"
  shows "sw_inv sw'"
proof -
  have iff: "hm_contains (sw_ports sw') p = hm_contains (sw_ports sw) p" for p
    using assms(2) unfolding spared_def hm_contains_def by (metis not_None_eq)
  have cls: "\<exists>e'. hm_get (sw_ports sw') p = Some e' \<and> pe_class e' = pe_class e" if "hm_get (sw_ports sw) p = Some e" for p e
    using assms(2) that unfolding spared_def by metis
  have off: "offload_inv sw' off" if inv: "offload_inv sw off" for off
    unfolding offload_inv_def assms(3)
  proof (intro conjI allI impI)
    fix p assume "hm_contains (off_ports off) p"
    then obtain e where "hm_get (sw_ports sw) p = Some e" "pe_class e = Guest False"
      using inv unfolding offload_inv_def by blast
    then show "\<exists>e. hm_get (sw_ports sw') p = Some e \<and> pe_class e = Guest False" using cls by fastforce
  qed (use inv in \<open>auto simp: offload_inv_def\<close>)
  then show ?thesis using assms(1) unfolding sw_inv_def iff assms(3-5) by blast
qed


lemma spared_contains: "spared U m m' \<Longrightarrow> hm_contains m' p = hm_contains m p"
  unfolding spared_def hm_contains_def by (metis not_None_eq)

lemma forward_inv:
  assumes "sw_inv sw" and "kernel_updates (kernel_ok E)" and "hm_contains (sw_ports sw) port"
  shows "sw_inv (forward_packet E port cls packet sw)"
proof (cases "ETH_HEADER_LEN \<le> length (pk_frame packet)")
  case True
  show ?thesis
    by (rule spared_inv [OF learn_inv [OF assms]])
      (use forward_spared [of port cls sw E packet] in \<open>simp_all add: forward_macs [OF True] forward_next_port\<close>)
next
  case False
  then show ?thesis using spared_inv [OF assms(1), of "\<lambda>_ _. True" "drop_frame sw"]
    by (simp add: forward_packet_def Let_def)
qed

lemma fold_forward_inv:
  assumes "sw_inv sw" and "kernel_updates (kernel_ok E)" and "hm_contains (sw_ports sw) port"
  shows "sw_inv (fold (forward_packet E port cls) ps sw)"
  using assms
proof (induction ps arbitrary: sw)
  case (Cons p ps)
  then have "sw_inv (forward_packet E port cls p sw)" by (intro forward_inv)
  moreover have "hm_contains (sw_ports (forward_packet E port cls p sw)) port"
    using Cons.prems(3) spared_contains [OF forward_spared] by metis
  ultimately show ?case using Cons by simp
qed simp

lemma reply_to_sel [simp]:
  "sw_macs (reply_to E port rs sw) = sw_macs sw" "sw_offload (reply_to E port rs sw) = sw_offload sw"
  "sw_next_port (reply_to E port rs sw) = sw_next_port sw"
  by (simp_all add: reply_to_def split: option.split prod.split)

lemma rewritten_sel:
  "rewritten p f mtu sw = (ps, sw') \<Longrightarrow>
   sw_macs sw' = sw_macs sw \<and> sw_offload sw' = sw_offload sw \<and> sw_next_port sw' = sw_next_port sw"
  by (auto simp: rewritten_def split: if_splits sum.splits)

lemma apply_action_sel:
  "apply_action E port packet mtu a sw = (ps, sw') \<Longrightarrow>
   sw_macs sw' = sw_macs sw \<and> sw_offload sw' = sw_offload sw \<and> sw_next_port sw' = sw_next_port sw"
  by (auto simp: apply_action_def Let_def dest!: rewritten_sel split: HookAction.splits option.splits if_splits)

lemma hook_action_sel:
  "hook_action E port cls f sw = (a, sw') \<Longrightarrow>
   sw_macs sw' = sw_macs sw \<and> sw_offload sw' = sw_offload sw \<and> sw_next_port sw' = sw_next_port sw"
  by (auto simp: hook_action_def split: option.splits prod.splits)

lemma ingress_inv:
  assumes "sw_inv sw" and "kernel_updates (kernel_ok E)"
  shows "sw_inv (ingress_packet E port packet sw)"
proof (cases "hm_get (sw_ports sw) port")
  case None
  then show ?thesis using assms by (simp add: ingress_packet_def)
next
  case (Some p)
  obtain a sw1 where h: "hook_action E port (pe_class p) (pk_frame packet) sw = (a, sw1)" by (metis prod.collapse)
  obtain ps sw2 where ap: "apply_action E port packet (cfg_mtu (pe_config p)) a sw1 = (ps, sw2)" by (metis prod.collapse)
  have sp: "spared (\<lambda>q c. q \<noteq> port) (sw_ports sw) (sw_ports sw2)"
    using apply_action_spared [OF ap] hook_action_ports [OF h] by simp
  then have "sw_inv sw2"
    using spared_inv [OF assms(1) sp] apply_action_sel [OF ap] hook_action_sel [OF h] by simp
  moreover have "hm_contains (sw_ports sw2) port" using spared_contains [OF sp] Some by (simp add: hm_contains_def)
  ultimately show ?thesis using fold_forward_inv assms(2) Some h ap by (simp add: ingress_packet_def)
qed

lemma hm_get_fold_remove: "hm_get (fold hm_remove ks m) k = (if k \<in> set ks then None else hm_get m k)"
  by (induction ks arbitrary: m) auto

lemma mac_map_fold_remove: "mac_map (fold remove_mac ms k) = fold hm_remove ms (mac_map k)"
  by (induction ms arbitrary: k) (auto simp: remove_mac_def)

lemma offload_remove:
  "hm_get (mac_map (engine (SegmentOffload_remove_port port ms off))) m =
     (if m \<in> set ms then None else hm_get (mac_map (engine off)) m)"
  "hm_contains (off_ports (SegmentOffload_remove_port port ms off)) p \<longleftrightarrow>
     p \<noteq> port \<and> hm_contains (off_ports off) p"
  by (auto simp: SegmentOffload_remove_port_def Engine_unregister_def hm_get_fold_remove mac_map_fold_remove
      hm_contains_def split: option.split)

lemma remove_port_inv:
  assumes "sw_inv sw"
  shows "sw_inv (remove_port port sw)"
proof (cases "hm_get (sw_ports sw) port")
  case None
  then show ?thesis using assms by (simp add: remove_port_def)
next
  case (Some e)
  define purged where "purged = map fst (filter (\<lambda>(_, p). p = port) (sw_macs sw))"
  have wf: "hm_wf (sw_macs sw)" using assms by (simp add: sw_inv_def)
  have purged: "m \<in> set purged \<longleftrightarrow> hm_get (sw_macs sw) m = Some port" for m
    using hm_get_iff_mem [OF wf] by (force simp: image_iff purged_def)
  let ?sw = "remove_port port sw"
  have r: "?sw = sw\<lparr>sw_ports := hm_remove port (sw_ports sw),
      sw_macs := hm_retain (\<lambda>_ p. p \<noteq> port) (sw_macs sw),
      sw_offload := map_option (SegmentOffload_remove_port port purged) (sw_offload sw)\<rparr>"
    using Some by (simp add: remove_port_def Let_def purged_def)
  have sel: "hm_get (sw_ports ?sw) p = (if p = port then None else hm_get (sw_ports sw) p)"
    "hm_get (sw_macs ?sw) m = Some p \<longleftrightarrow> hm_get (sw_macs sw) m = Some p \<and> p \<noteq> port"
    "hm_contains (sw_ports ?sw) p \<longleftrightarrow> p \<noteq> port \<and> hm_contains (sw_ports sw) p"
    "sw_next_port ?sw = sw_next_port sw" "hm_wf (sw_macs ?sw)" for p m
    using wf by (auto simp: r hm_get_retain [OF wf] hm_contains_def split: option.splits)
  have "offload_inv ?sw (SegmentOffload_remove_port port purged off)" if inv: "offload_inv sw off" for off
    using inv unfolding offload_inv_def offload_remove sel
    by (metis option.distinct(1) option.inject purged)
  then show ?thesis using assms sel unfolding sw_inv_def by (auto simp: r)
qed

lemma alloc_fresh:
  assumes "sw_inv sw" and "sw_next_port sw \<noteq> - 1"
  shows "hm_get (sw_ports sw) (sw_next_port sw) = None" "sw_next_port sw < sw_next_port sw + 1"
proof -
  show "hm_get (sw_ports sw) (sw_next_port sw) = None" using assms(1) by (auto simp: sw_inv_def hm_contains_def)
  have "1 + sw_next_port sw \<noteq> 0" using assms(2) by (metis add_eq_0_iff minus_equation_iff)
  then show "sw_next_port sw < sw_next_port sw + 1" by (simp add: word_less_nat_alt unatSuc add.commute)
qed

lemma attached_inv:
  assumes "sw_inv sw" and "sw_next_port sw \<noteq> - 1"
  shows "sw_inv (sw\<lparr>sw_next_port := sw_next_port sw + 1,
    sw_ports := hm_insert (sw_next_port sw) entry (sw_ports sw)\<rparr>)"
proof -
  note fresh = alloc_fresh [OF assms]
  have "\<not> hm_contains (off_ports off) (sw_next_port sw)" if "sw_offload sw = Some off" for off
    using assms(1) fresh(1) that by (auto simp: sw_inv_def offload_inv_def)
  then show ?thesis using assms(1) fresh less_trans [OF _ fresh(2)]
    by (auto simp: sw_inv_def offload_inv_def hm_contains_iff)
qed

lemma add_port_offload:
  assumes "SegmentOffload_add_port ok port pair off = (r, off')"
  shows "mac_map (engine off') = mac_map (engine off)"
    and "hm_contains (off_ports off') p \<longleftrightarrow> hm_contains (off_ports off) p \<or> r \<and> p = port"
  using assms
  by (auto simp: SegmentOffload_add_port_def register_stream_def register_tx_def Engine_unregister_def Let_def
      hm_contains_def split: option.splits if_splits)

lemma adopt_sel [simp]:
  "engine (adopt_write_half port off) = engine off"
  "hm_contains (off_ports (adopt_write_half port off)) p \<longleftrightarrow> hm_contains (off_ports off) p"
  by (auto simp: adopt_write_half_def hm_contains_def split: option.split)

lemma offload_inv_cong:
  "offload_inv sw off \<Longrightarrow> sw_ports sw' = sw_ports sw \<Longrightarrow> sw_macs sw' = sw_macs sw \<Longrightarrow>
   mac_map (engine off') = mac_map (engine off) \<Longrightarrow>
   (\<And>p. hm_contains (off_ports off') p \<Longrightarrow> hm_contains (off_ports off) p \<or>
      (\<exists>e. hm_get (sw_ports sw) p = Some e \<and> pe_class e = Guest False)) \<Longrightarrow>
   (\<And>p. hm_contains (off_ports off) p \<Longrightarrow> hm_contains (off_ports off') p) \<Longrightarrow> offload_inv sw' off'"
  by (auto simp: offload_inv_def)

lemma add_stream_inv:
  assumes inv: "sw_inv sw" and room: "sw_next_port sw \<noteq> - 1"
    and add: "add_stream_port_with_config E queue pair cls config sw = (port, r, sw')"
  shows "sw_inv sw'"
proof -
  let ?sw = "sw\<lparr>sw_next_port := sw_next_port sw + 1, sw_ports := hm_insert (sw_next_port sw)
    \<lparr>pe_class = cls, pe_tx = Packets queue, pe_config = config\<rparr> (sw_ports sw)\<rparr>"
  note base = attached_inv [OF inv room, of "\<lparr>pe_class = cls, pe_tx = Packets queue, pe_config = config\<rparr>"]
  show ?thesis
  proof (cases "cls = Guest False \<and> cfg_framing config = Raw \<and> sw_offload sw \<noteq> None")
    case False
    then have "sw' = ?sw" using add
      by (auto simp: add_stream_port_with_config_def alloc_port_def attach_def Let_def
          split: option.splits PortClass.splits bool.splits FramingMode.splits)
    then show ?thesis using base by simp
  next
    case True
    then obtain off where off: "sw_offload sw = Some off" by auto
    obtain ok off1 where ap: "SegmentOffload_add_port (kernel_ok E) (sw_next_port sw) pair off = (ok, off1)"
      by (metis prod.collapse)
    have sw': "sw' = ?sw\<lparr>sw_offload := Some (if ok then adopt_write_half (sw_next_port sw) off1 else off1)\<rparr>"
      using add True off ap
      by (auto simp: add_stream_port_with_config_def alloc_port_def attach_def Let_def split: bool.splits)
    have "offload_inv ?sw off" using base off by (simp add: sw_inv_def)
    then have "offload_inv sw' (if ok then adopt_write_half (sw_next_port sw) off1 else off1)"
      by (rule offload_inv_cong) (use True add_port_offload [OF ap] in \<open>auto simp: sw' split: if_splits\<close>)
    then show ?thesis using base by (simp add: sw_inv_def sw')
  qed
qed

lemma kernel_step_inv:
  assumes "sw_inv sw" and "sw_offload sw = Some off" and "mac_map m = mac_map (engine off)"
  shows "sw_inv (sw\<lparr>sw_offload := Some (off\<lparr>engine := m\<rparr>)\<rparr>)"
  using assms by (auto simp: sw_inv_def offload_inv_def)

lemma switch_reach_inv:
  assumes "switch_reach E sw" and "kernel_updates (kernel_ok E)"
  shows "sw_inv sw"
  using assms(1)
proof (induction rule: switch_reach.induct)
  case (reach_new offload)
  then show ?case by (auto simp: sw_inv_def Switch_new_def fresh_offload_def offload_inv_def hm_contains_def)
next
  case (reach_stream sw queue pair cls config port r sw')
  show ?case by (rule add_stream_inv [OF reach_stream.IH reach_stream.hyps(2,3)])
next
  case (reach_channel sw queue cls mtu port sw')
  then show ?case using attached_inv [OF reach_channel.IH reach_channel.hyps(2)]
    by (auto simp: add_channel_port_with_mtu_def alloc_port_def)
next
  case (reach_remove sw port)
  then show ?case by (simp add: remove_port_inv)
next
  case (reach_hook sw h)
  then show ?case using spared_inv [OF reach_hook.IH, of "\<lambda>_ _. True" "set_ingress_hook h sw"]
    by (simp add: set_ingress_hook_def)
next
  case (reach_ingress sw port packet)
  then show ?case using assms(2) by (simp add: ingress_inv)
next
  case (reach_guest sw off cookie len load a m)
  then show ?case using kernel_step_inv verdict_guest_mac_map [of "kernel_ok E" cookie len load "engine off"] by simp
next
  case (reach_tx sw off cookie a m)
  then show ?case using kernel_step_inv verdict_tx_mac_map [of cookie "engine off"] by simp
qed


lemma walk_not_aligned: "fst (walk_boundaries k st len off read) \<noteq> Aligned n"
  by (induction k arbitrary: st off) (auto simp: set_desync_def Let_def split: option.split)

lemma step_aligned:
  "fst (step_skb st len read) = Aligned n \<Longrightarrow> ETH_HEADER_LEN \<le> n \<and> n = len - PREFIX_LEN \<and> PREFIX_LEN < len"
  by (auto simp: step_skb_def Let_def set_desync_def walk_not_aligned split: if_splits option.splits)

lemma load_mac_frame:
  assumes "reads load (frame_bytes f)" and "off + 6 \<le> length f" and "load_mac load (PREFIX_LEN + off) = Some m"
  shows "m = mac_at f off"
proof -
  obtain b where b: "load (PREFIX_LEN + off) 6 = Some b" "m = mac_at b 0"
    using assms(3) by (auto simp: load_mac_def split: option.splits)
  have "b = take 6 (drop off f)"
    using readsD [OF assms(1) b(1)] assms(2) by (simp add: frame_bytes_eq PREFIX_LEN_def)
  then show ?thesis using b(2) assms(2) by (simp add: mac_at_def)
qed



section \<open>Stream tasks\<close>

lemma writer_task_bytes:
  assumes "byte_sink J sunk" and "writer_task J mode ps w = (True, w')"
  shows "sunk w' = sunk w @ concat (map (packet_bytes mode) ps) \<and> (\<forall>p \<in> set ps. packet_sendable mode p)"
  using assms(2)
proof (induction ps arbitrary: w)
  case (Cons p ps)
  then obtain w1 where w1: "write_packet J p mode w = (Inr (), w1)" "writer_task J mode ps w1 = (True, w')"
    by (auto split: prod.splits sum.splits)
  then show ?case using Cons.IH [OF w1(2)] byte_sink.write_packet_Inr [OF assms(1) w1(1)] by simp
qed simp

lemma reader_task_packets:
  assumes "byte_source I content alive" and "alive r" and "content r = concat (map (packet_bytes mode) ps)"
    and "\<forall>p \<in> set ps. packet_sendable mode p" and "length ps < n"
  shows "reader_task n E I port mode r sw =
    Some (remove_port port (fold (\<lambda>p. ingress_packet E port (packet_seen mode p)) ps sw))"
  using assms(2-5)
proof (induction ps arbitrary: n r sw)
  case Nil
  then obtain k where "n = Suc k" by (cases n) auto
  moreover obtain r' where "read_packet I r mode = (Inr None, r')"
    using byte_source.read_packet_eof [OF assms(1) Nil.prems(1)] Nil.prems(2) by auto
  ultimately show ?case by simp
next
  case (Cons p ps)
  then obtain k where n: "n = Suc k" "length ps < k" by (cases n) auto
  obtain r' where r': "read_packet I r mode = (Inr (Some (packet_seen mode p)), r')"
    "content r' = concat (map (packet_bytes mode) ps)" "alive r'"
    using byte_source.read_packet_seen [OF assms(1) Cons.prems(1), of mode p] Cons.prems(2,3) by auto
  then show ?case using n Cons.IH [OF r'(3,2)] Cons.prems(3) by simp
qed

text \<open>C17: a stream port carries packets unchanged. What a writer task sends without an error, the
  reader task at the other end of the stream puts into its switch packet by packet in the same
  order, however the stream is chopped up, and then removes the port: with more steps than there are
  packets the task ends. In raw mode a packet arrives as its frame, in vnet mode with its offload header
  and queue.\<close>

theorem stream_tasks_roundtrip:
  assumes "byte_sink J sunk" and "byte_source I content alive"
    and "writer_task J mode ps w = (True, w')" and "sunk w = []"
    and "alive r" and "content r = sunk w'" and "length ps < n"
  shows "reader_task n E I port mode r sw =
    Some (remove_port port (fold (\<lambda>p. ingress_packet E port (packet_seen mode p)) ps sw))"
proof -
  have "content r = concat (map (packet_bytes mode) ps)" "\<forall>p \<in> set ps. packet_sendable mode p"
    using writer_task_bytes [OF assms(1,3)] assms(4,6) by simp_all
  then show ?thesis by (rule reader_task_packets [OF assms(2,5) _ _ assms(7)])
qed


section \<open>A concrete switch\<close>

definition list_env :: "(Egress list, unit) switch_env" where
  "list_env = \<lparr>try_send = (\<lambda>q m. if length q < 512 then Some (q @ [m]) else None),
     run_hook = (\<lambda>h port cls frame. (HookPass, h)), kernel_ok = (\<lambda>_ _. True)\<rparr>"

definition demo_offload :: SegmentOffload where
  "demo_offload = \<lparr>engine = primed_maps\<lparr>mac_map := [], port_hash := {}, tx_hash := {}\<rparr>, off_ports = []\<rparr>"

definition frame_from :: "MacAddr \<Rightarrow> MacAddr \<Rightarrow> bytes" where
  "frame_from src dst = mac_octets dst @ mac_octets src @ [8, 0]"

definition demo_stream :: "u64 \<Rightarrow> (Egress list, unit) Switch \<Rightarrow> (Egress list, unit) Switch" where
  "demo_stream cookie sw =
     snd (snd (add_stream_port_with_config list_env [] (Some (Some cookie)) (Guest False) PortConfig_default sw))"

definition demo :: "(Egress list, unit) Switch" where
  "demo = ingress list_env 1 (frame_from mac_b mac_a) (ingress list_env 0 (frame_from mac_a mac_b)
     (demo_stream 6 (demo_stream 5 (Switch_new (Some demo_offload)))))"

lemmas demo_eval = demo_stream_def Switch_new_def add_stream_port_with_config_def alloc_port_def attach_def
  demo_offload_def primed_maps_def SegmentOffload_add_port_def register_stream_def register_tx_def list_env_def
  PortConfig_default_def adopt_write_half_def hm_insert_def hm_get_def Let_def

lemmas ingress_eval = ingress_def ingress_packet_def hook_action_def apply_action_def forward_packet_def learn_def
  relearn_def insert_mac_def Packet_raw_def frame_from_def mac_a_def mac_b_def mac_at_def is_multicast_def
  deliver_def for_port_def Header_default_def send_tx_def ETH_HEADER_LEN_def hm_contains_def

lemma demo_tables:
  "sw_macs demo = [(mac_a, 0), (mac_b, 1)]"
  "map_option pe_class (hm_get (sw_ports demo) 0) = Some (Guest False)"
  "map_option pe_class (hm_get (sw_ports demo) 1) = Some (Guest False)"
  "map_option (\<lambda>off. (mac_map (engine off), port_hash (engine off), sock_state (engine off))) (sw_offload demo) =
     Some ([(mac_a, 0), (mac_b, 1)], {0, 1}, [])"
  by (simp_all add: demo_def demo_eval ingress_eval insert_commute)

lemma list_env_updates [simp]: "kernel_updates (kernel_ok list_env)"
  by (simp add: kernel_updates_def list_env_def)

lemma demo_reach: "switch_reach list_env demo"
proof -
  have new: "switch_reach list_env (Switch_new (Some demo_offload))"
    by (rule reach_new) (simp add: fresh_offload_def demo_offload_def)
  have stream: "switch_reach list_env (demo_stream c sw)"
    if "switch_reach list_env sw" "sw_next_port sw \<noteq> - 1" for c sw
    unfolding demo_stream_def
    by (rule reach_stream [OF that, of "[]" "Some (Some c)" "Guest False" PortConfig_default
          "fst (add_stream_port_with_config list_env [] (Some (Some c)) (Guest False) PortConfig_default sw)"
          "fst (snd (add_stream_port_with_config list_env [] (Some (Some c)) (Guest False) PortConfig_default sw))"]) simp
  have "sw_next_port (Switch_new (Some demo_offload) :: (Egress list, unit) Switch) \<noteq> - 1"
    "sw_next_port (demo_stream 5 (Switch_new (Some demo_offload))) \<noteq> - 1"
    by (simp_all add: demo_eval)
  then show ?thesis unfolding demo_def ingress_def by (intro reach_ingress stream new)
qed

lemma demo_offload_Some:
  obtains off where "sw_offload demo = Some off" "mac_map (engine off) = [(mac_a, 0), (mac_b, 1)]"
    "port_hash (engine off) = {0, 1}" "sock_state (engine off) = []"
  using demo_tables(4) by (cases "sw_offload demo") auto

lemma demo_frame_aligned:
  "step_skb FrameState_default (length (frame_bytes (frame_from mac_a mac_b)))
     (load_exact (skb_reader (frame_bytes (frame_from mac_a mac_b)))) = (Aligned 14, FrameState_default)"
proof -
  have "length (frame_from mac_a mac_b) = 14" by (simp add: frame_from_def mac_a_def mac_b_def)
  then show ?thesis
    using whole_frame_aligned [of FrameState_default "frame_from mac_a mac_b"]
    by (simp add: load_exact_def ETH_HEADER_LEN_def FP_MAX_FRAME_LEN_def fs_wf_def FrameState_default_def rx_of_def)
qed

lemma demo_frame_macs:
  "load_mac (skb_reader (frame_bytes (frame_from mac_a mac_b))) PREFIX_LEN = Some mac_b"
  "load_mac (skb_reader (frame_bytes (frame_from mac_a mac_b))) (PREFIX_LEN + 6) = Some mac_a"
  by (simp_all add: load_mac_def frame_bytes_eq PREFIX_LEN_def frame_from_def mac_a_def mac_b_def mac_at_def)

text \<open>The first whole frame from port 0 records its stream; the second is redirected to port 1.\<close>

lemma demo_primed:
  obtains sw off s where "switch_reach list_env sw" "sw_offload sw = Some off"
    "hm_get (sock_state (engine off)) 9 = Some s" "ss_port_id s = 0"
    "fst (verdict_guest (\<lambda>_ _. True) 9 (length (frame_bytes (frame_from mac_a mac_b)))
       (skb_reader (frame_bytes (frame_from mac_a mac_b))) (engine off)) = SkRedirect 1"
proof -
  let ?skb = "frame_bytes (frame_from mac_a mac_b)"
  let ?v = "verdict_guest (\<lambda>_ _. True) 9 (length ?skb) (skb_reader ?skb)"
  obtain off where off: "sw_offload demo = Some off" "mac_map (engine off) = [(mac_a, 0), (mac_b, 1)]"
    "port_hash (engine off) = {0, 1}" "sock_state (engine off) = []" by (rule demo_offload_Some)
  define m where "m = snd (?v (engine off))"
  have neq: "mac_b \<noteq> mac_a" "mac_first mac_b AND 1 = 0" by (simp_all add: mac_a_def mac_b_def)
  have m: "mac_map m = mac_map (engine off)" "port_hash m = {0, 1}"
    "hm_get (sock_state m) 9 = Some \<lparr>ss_port_id = 0, ss_fs = FrameState_default\<rparr>"
    using off neq unfolding m_def
    by (simp_all add: verdict_guest_mac_map)
      (simp_all add: verdict_guest_def Let_def demo_frame_aligned demo_frame_macs redirect_verdict_def
        classify_frame_def hm_get_def hm_insert_def redirect_skb_def)
  have "switch_reach list_env (demo\<lparr>sw_offload := Some (off\<lparr>engine := m\<rparr>)\<rparr>)"
    by (rule reach_guest [OF demo_reach off(1), of 9 "length ?skb" "skb_reader ?skb" "fst (?v (engine off))"])
      (simp add: m_def list_env_def)
  moreover have "fst (?v m) = SkRedirect 1"
    using m off(2) neq by (simp add: verdict_guest_def Let_def demo_frame_aligned demo_frame_macs
        redirect_verdict_Redirect classify_Redirect hm_get_def)
  ultimately show thesis using that [of "demo\<lparr>sw_offload := Some (off\<lparr>engine := m\<rparr>)\<rparr>" "off\<lparr>engine := m\<rparr>"] m(3) by simp
qed



theorem forward_delivers_exactly_witness:
  "\<exists>e. hm_get (sw_ports demo) 1 = Some e \<and>
     hm_get (sw_ports (forward_packet list_env 0 (Guest False) (Packet_raw (frame_from mac_a mac_b)) demo)) 1 =
       Some (delivered_entry list_env e (Packet_raw (frame_from mac_a mac_b)))"
proof -
  let ?p = "Packet_raw (frame_from mac_a mac_b)"
  have "ETH_HEADER_LEN \<le> length (pk_frame ?p)" by (simp add: ingress_eval)
  moreover obtain e where "hm_get (sw_ports demo) 1 = Some e" "pe_class e = Guest False"
    using demo_tables(3) by (cases "hm_get (sw_ports demo) 1") auto
  moreover have "unicast_target 0 (pk_frame ?p) demo = Some 1"
    by (simp add: unicast_target_def demo_tables ingress_eval hm_get_def)
  ultimately show ?thesis
    using forward_delivers_exactly [of ?p list_env 0 "Guest False" demo 1 mac_a] by simp
qed

theorem isolation_holds_witness:
  "let sw = snd (add_channel_port_with_mtu [] (Guest True) 1500 (demo :: (Egress list, unit) Switch)) in
   hm_get (sw_ports (fold (\<lambda>(p, packet). ingress_packet list_env p packet)
     [(0, Packet_raw (frame_from mac_a MAC_BROADCAST)), (1, Packet_raw (frame_from mac_b MAC_BROADCAST))] sw)) 2 =
   hm_get (sw_ports sw) 2 \<and> hm_get (sw_ports sw) 2 \<noteq> None"
proof -
  let ?sw = "snd (add_channel_port_with_mtu [] (Guest True) 1500 (demo :: (Egress list, unit) Switch))"
  have room: "sw_next_port demo = 2" by (simp add: demo_def demo_eval ingress_eval)
  obtain e0 e1 where e: "hm_get (sw_ports demo) 0 = Some e0" "pe_class e0 = Guest False"
    "hm_get (sw_ports demo) 1 = Some e1" "pe_class e1 = Guest False"
    using demo_tables(2,3) by (cases "hm_get (sw_ports demo) 0"; cases "hm_get (sw_ports demo) 1") auto
  have port: "hm_get (sw_ports ?sw) 2 = Some \<lparr>pe_class = Guest True, pe_tx = Frames [],
      pe_config = \<lparr>cfg_framing = Raw, cfg_mtu = 1500\<rparr>\<rparr>"
    "hm_get (sw_ports ?sw) 0 = Some e0" "hm_get (sw_ports ?sw) 1 = Some e1"
    using e room by (simp_all add: add_channel_port_with_mtu_def alloc_port_def)
  show ?thesis using isolation_holds [OF port(1), of "[(0, Packet_raw (frame_from mac_a MAC_BROADCAST)),
      (1, Packet_raw (frame_from mac_b MAC_BROADCAST))]" list_env] port e by (simp add: Let_def)
qed

theorem stream_tasks_roundtrip_witness:
  "let p = Packet_raw (frame_from mac_a mac_b) in
   reader_task 2 list_env chunk_source 0 Raw (map (\<lambda>b. [b]) (frame_bytes (pk_frame p))) demo =
     Some (remove_port 0 (ingress_packet list_env 0 (packet_seen Raw p) demo))"
proof -
  let ?p = "Packet_raw (frame_from mac_a mac_b)"
  have "writer_task list_sink Raw [?p] [] = (True, frame_bytes (pk_frame ?p))"
    by (simp add: write_packet_def write_frame_def list_sink_def frame_bytes_eq Packet_raw_def MAX_FRAME_LEN_def
        frame_from_def mac_a_def mac_b_def)
  then show ?thesis
    using stream_tasks_roundtrip [OF lists.byte_sink_axioms chunks.byte_source_axioms, of Raw "[?p]" "[]"
        "frame_bytes (pk_frame ?p)" "map (\<lambda>b. [b]) (frame_bytes (pk_frame ?p))" 2 list_env 0 demo]
    by (simp add: Let_def concat_map_singleton)
qed

text \<open>The class of an ingress port is read under the lock, the frame is forwarded under a later one. If
  the port is removed in between, the frame still binds its source address to the removed port,
  and frames for that address are dropped until it is learned elsewhere.\<close>

lemma forward_after_removal_binds_gone_port:
  "let sw = forward_packet list_env 0 (Guest False) (Packet_raw (frame_from mac_a mac_b)) (remove_port 0 demo) in
   hm_get (sw_macs sw) mac_a = Some 0 \<and> hm_get (sw_ports sw) 0 = None"
proof -
  let ?p = "Packet_raw (frame_from mac_a mac_b)" and ?sw = "remove_port 0 demo"
  have "ETH_HEADER_LEN \<le> length (pk_frame ?p)" by (simp add: ingress_eval)
  note reach = forward_reaches [OF this, of list_env 0 "Guest False" ?sw] and macs = forward_macs(1) [OF this, of list_env 0 "Guest False" ?sw]
  have "hm_get (sw_ports ?sw) 0 = None" by (simp add: remove_port_def Let_def split: option.split)
  moreover have "mac_at (pk_frame ?p) 6 = mac_a" "\<not> is_multicast mac_a" by (simp_all add: ingress_eval)
  ultimately show ?thesis using reach macs by (simp add: Let_def reaches_def)
qed

end
