(* ===== verification/Rules.thy ===== *)
theory Rules
  imports Frame_Lemmas Ipnet "HOL-Library.Product_Lexorder"
begin

text \<open>
  The L3 filter and redirect engine (\<open>src/net/rules.rs\<close>) with the rule types of
  \<open>src/config/model.rs\<close>. A \<open>RuleSet\<close> is a record; evaluation returns the updated
  translation table with the verdict. Every separate reading of the clock is an argument, in
  nanoseconds; the readings a \<open>retain\<close> pass makes for its entries are one.
\<close>

section \<open>Rule types\<close>

datatype L4Proto = Tcp | Udp | Icmp

type_synonym Span = "nat \<times> nat"

record HostPort =
  hp_ip :: Ipv4Addr
  hp_port :: "u16 option"

record 'n BlockRule =
  br_cidr :: 'n
  br_proto :: "L4Proto option"
  br_port :: "u16 option"
  br_span :: Span

record RedirectRule =
  rr_from :: HostPort
  rr_to :: HostPort
  rr_proto :: "L4Proto option"
  rr_span :: Span

definition CONN_IDLE :: nat where
  "CONN_IDLE = 300 * 1000000000"

datatype RuleId = RuleId u64

datatype RuleKind = Redirect | Block

datatype Verdict = Pass | Drop (reply: "bytes option") | Rewrite bytes

record RuleEntry =
  re_id :: RuleId
  re_kind :: RuleKind
  re_description :: string
  re_cidr :: "string option"
  re_port :: "u16 option"
  re_from :: "string option"
  re_to :: "string option"
  re_proto :: "L4Proto option"

record ConnKey =
  ck_src :: Ipv4Addr
  ck_sport :: u16
  ck_dst :: Ipv4Addr
  ck_dport :: u16
  ck_proto :: u8

record RevVal =
  rv_orig_ip :: Ipv4Addr
  rv_orig_port :: "u16 option"
  rv_last :: nat

section \<open>Packet metadata\<close>

record Meta =
  m_l4 :: "L4Proto option"
  m_dst_port :: "u16 option"
  m_conn_ports :: "(u16 \<times> u16) option"

definition Meta_of :: "Ipv4View \<Rightarrow> Meta" where
  "Meta_of ip =
     (if Ipv4View_proto ip = IPPROTO_TCP then
        let p = TcpView_parse (Ipv4View_payload ip) in
        \<lparr>m_l4 = Some Tcp, m_dst_port = map_option TcpView_dst_port p,
         m_conn_ports = map_option (\<lambda>t. (TcpView_src_port t, TcpView_dst_port t)) p\<rparr>
      else if Ipv4View_proto ip = IPPROTO_UDP then
        let p = UdpView_parse (Ipv4View_payload ip) in
        \<lparr>m_l4 = Some Udp, m_dst_port = map_option UdpView_dst_port p,
         m_conn_ports = map_option (\<lambda>u. (UdpView_src_port u, UdpView_dst_port u)) p\<rparr>
      else if Ipv4View_proto ip = IPPROTO_ICMP then
        \<lparr>m_l4 = Some Icmp, m_dst_port = None,
         m_conn_ports = Option.bind (IcmpView_parse (Ipv4View_payload ip)) (\<lambda>i.
           let ident = from_be16 (IcmpView_rest i ! 0) (IcmpView_rest i ! 1) in
           if IcmpView_icmp_type i = ICMP_ECHO_REQUEST then Some (ident, 0)
           else if IcmpView_icmp_type i = ICMP_ECHO_REPLY then Some (0, ident)
           else None)\<rparr>
      else \<lparr>m_l4 = None, m_dst_port = None, m_conn_ports = None\<rparr>)"

section \<open>The rule set\<close>

record 'n RuleSet =
  rs_next_id :: u64
  rs_redirects :: "(RuleId \<times> RedirectRule) list"
  rs_blocks :: "(RuleId \<times> 'n BlockRule) list"
  rs_conns :: "(ConnKey, RevVal) hashmap"

definition RuleSet_new :: "'n RuleSet" where
  "RuleSet_new = \<lparr>rs_next_id = 0, rs_redirects = [], rs_blocks = [], rs_conns = []\<rparr>"

definition alloc_id :: "'n RuleSet \<Rightarrow> 'n RuleSet \<times> RuleId" where
  "alloc_id rs = (rs\<lparr>rs_next_id := rs_next_id rs + 1\<rparr>, RuleId (rs_next_id rs + 1))"

definition add_block :: "'n BlockRule \<Rightarrow> 'n RuleSet \<Rightarrow> 'n RuleSet \<times> RuleId" where
  "add_block rule rs =
     (let (rs, i) = alloc_id rs in (rs\<lparr>rs_blocks := rs_blocks rs @ [(i, rule)]\<rparr>, i))"

definition add_redirect :: "RedirectRule \<Rightarrow> 'n RuleSet \<Rightarrow> 'n RuleSet \<times> RuleId" where
  "add_redirect rule rs =
     (let (rs, i) = alloc_id rs in (rs\<lparr>rs_redirects := rs_redirects rs @ [(i, rule)]\<rparr>, i))"

definition RuleSet_remove :: "RuleId \<Rightarrow> 'n RuleSet \<Rightarrow> 'n RuleSet \<times> bool" where
  "RuleSet_remove i rs =
     (let before = length (rs_redirects rs) + length (rs_blocks rs);
          rs' = rs\<lparr>rs_redirects := filter (\<lambda>(rid, _). rid \<noteq> i) (rs_redirects rs),
                   rs_blocks := filter (\<lambda>(rid, _). rid \<noteq> i) (rs_blocks rs)\<rparr>
      in (rs', length (rs_redirects rs') + length (rs_blocks rs') \<noteq> before))"

fun proto_name :: "L4Proto \<Rightarrow> string" where
  "proto_name Tcp = ''tcp''"
| "proto_name Udp = ''udp''"
| "proto_name Icmp = ''icmp''"

definition host_port_str :: "Ipv4Addr \<Rightarrow> u16 option \<Rightarrow> string" where
  "host_port_str ip port =
     (case port of Some p \<Rightarrow> ip_str ip @ '':'' @ nat_str (unat p) | None \<Rightarrow> ip_str ip)"

definition proto_suffix :: "L4Proto option \<Rightarrow> string" where
  "proto_suffix p = (case p of Some p \<Rightarrow> '' '' @ proto_name p | None \<Rightarrow> '''')"

definition RuleSet_list :: "'n ipnet_ops \<Rightarrow> 'n RuleSet \<Rightarrow> RuleEntry list" where
  "RuleSet_list I rs =
     map (\<lambda>(i, r).
       let from_s = host_port_str (hp_ip (rr_from r)) (hp_port (rr_from r));
           to_s = host_port_str (hp_ip (rr_to r)) (hp_port (rr_to r))
       in \<lparr>re_id = i, re_kind = Redirect,
           re_description = ''redirect '' @ from_s @ '' -> '' @ to_s @ proto_suffix (rr_proto r),
           re_cidr = None, re_port = None, re_from = Some from_s, re_to = Some to_s,
           re_proto = rr_proto r\<rparr>) (rs_redirects rs) @
     map (\<lambda>(i, b).
       let port_s = (case br_port b of Some p \<Rightarrow> '' port '' @ nat_str (unat p) | None \<Rightarrow> '''')
       in \<lparr>re_id = i, re_kind = Block,
           re_description = ''block '' @ net_to_string I (br_cidr b) @ proto_suffix (br_proto b) @
             port_s,
           re_cidr = Some (net_to_string I (br_cidr b)), re_port = br_port b,
           re_from = None, re_to = None, re_proto = br_proto b\<rparr>) (rs_blocks rs)"

definition conn_count :: "'n RuleSet \<Rightarrow> nat" where
  "conn_count rs = length (rs_conns rs)"

definition expire_conns_older_than :: "nat \<Rightarrow> nat \<Rightarrow> 'n RuleSet \<Rightarrow> 'n RuleSet" where
  "expire_conns_older_than idle t_now rs =
     (if rs_conns rs \<noteq> []
      then rs\<lparr>rs_conns := hm_retain (\<lambda>_ v. t_now - rv_last v < idle) (rs_conns rs)\<rparr>
      else rs)"

definition expire_conns :: "nat \<Rightarrow> 'n RuleSet \<Rightarrow> 'n RuleSet" where
  "expire_conns t_now rs = expire_conns_older_than CONN_IDLE t_now rs"

subsection \<open>Choosing a rule\<close>

definition filter_ok :: "'a option \<Rightarrow> 'a option \<Rightarrow> bool" where
  "filter_ok want have \<longleftrightarrow> (case want of None \<Rightarrow> True | Some p \<Rightarrow> have = Some p)"

fun best_redirect_loop ::
  "Ipv4View \<Rightarrow> Meta \<Rightarrow> (RedirectRule \<times> bool) option \<Rightarrow> RedirectRule list \<Rightarrow>
   (RedirectRule \<times> bool) option" where
  "best_redirect_loop ip meta best [] = best"
| "best_redirect_loop ip meta best (r # rules) =
     (if hp_ip (rr_from r) \<noteq> Ipv4View_dst ip then best_redirect_loop ip meta best rules
      else if \<not> filter_ok (rr_proto r) (m_l4 meta) then best_redirect_loop ip meta best rules
      else if \<not> filter_ok (hp_port (rr_from r)) (m_dst_port meta)
        then best_redirect_loop ip meta best rules
      else
        let spec = hp_port (rr_from r) \<noteq> None in
        best_redirect_loop ip meta
          (if (case best of None \<Rightarrow> True | Some (_, b) \<Rightarrow> spec \<and> \<not> b) then Some (r, spec) else best)
          rules)"

definition best_redirect :: "'n RuleSet \<Rightarrow> Ipv4View \<Rightarrow> Meta \<Rightarrow> RedirectRule option" where
  "best_redirect rs ip meta =
     map_option fst (best_redirect_loop ip meta None (map snd (rs_redirects rs)))"

fun best_block_loop ::
  "'n ipnet_ops \<Rightarrow> Ipv4View \<Rightarrow> Meta \<Rightarrow> ('n BlockRule \<times> (u8 \<times> bool \<times> bool)) option \<Rightarrow>
   'n BlockRule list \<Rightarrow> ('n BlockRule \<times> (u8 \<times> bool \<times> bool)) option" where
  "best_block_loop I ip meta best [] = best"
| "best_block_loop I ip meta best (b # rules) =
     (if \<not> net_contains I (br_cidr b) (Ipv4View_dst ip) then best_block_loop I ip meta best rules
      else if \<not> filter_ok (br_proto b) (m_l4 meta) then best_block_loop I ip meta best rules
      else if \<not> filter_ok (br_port b) (m_dst_port meta) then best_block_loop I ip meta best rules
      else
        let spec = (net_prefix_len I (br_cidr b), br_port b \<noteq> None, br_proto b \<noteq> None) in
        best_block_loop I ip meta
          (if (case best of None \<Rightarrow> True | Some (_, s) \<Rightarrow> s < spec) then Some (b, spec) else best)
          rules)"

definition best_block ::
  "'n ipnet_ops \<Rightarrow> 'n RuleSet \<Rightarrow> Ipv4View \<Rightarrow> Meta \<Rightarrow> 'n BlockRule option" where
  "best_block I rs ip meta =
     map_option fst (best_block_loop I ip meta None (map snd (rs_blocks rs)))"

subsection \<open>Rewriting a packet\<close>

definition rewrite_addrs :: "Ipv4Addr option \<Rightarrow> Ipv4Addr option \<Rightarrow> bytes \<Rightarrow> bytes" where
  "rewrite_addrs new_src new_dst out =
     (let out = (case new_src of Some a \<Rightarrow> splice 12 (octets a) out | None \<Rightarrow> out)
      in case new_dst of Some a \<Rightarrow> splice 16 (octets a) out | None \<Rightarrow> out)"

definition rewrite_ports :: "u8 \<Rightarrow> nat \<Rightarrow> u16 option \<Rightarrow> u16 option \<Rightarrow> bytes \<Rightarrow> bytes" where
  "rewrite_ports proto hl sp dp out =
     (if (proto = IPPROTO_TCP \<or> proto = IPPROTO_UDP) \<and> length out \<ge> hl + 4 then
        let out = (case sp of Some p \<Rightarrow> splice hl (to_be16 p) out | None \<Rightarrow> out)
        in case dp of Some p \<Rightarrow> splice (hl + 2) (to_be16 p) out | None \<Rightarrow> out
      else out)"

definition rewrite_l4_checksum :: "u8 \<Rightarrow> nat \<Rightarrow> bytes \<Rightarrow> bytes option" where
  "rewrite_l4_checksum proto hl out =
     (let src = Ipv4Addr (out ! 12) (out ! 13) (out ! 14) (out ! 15);
          dst = Ipv4Addr (out ! 16) (out ! 17) (out ! 18) (out ! 19)
      in if proto = IPPROTO_TCP \<and> length out \<ge> hl + 18 then
           let out = splice (hl + 16) [0, 0] out in
           map_option (\<lambda>c. splice (hl + 16) (to_be16 c) out)
             (l4_checksum src dst IPPROTO_TCP (drop hl out))
         else if proto = IPPROTO_UDP \<and> length out \<ge> hl + 8 then
           (if out ! (hl + 6) \<noteq> 0 \<or> out ! (hl + 7) \<noteq> 0 then
              let out = splice (hl + 6) [0, 0] out in
              map_option (\<lambda>c. splice (hl + 6) (to_be16 (if c = 0 then 0xFFFF else c)) out)
                (l4_checksum src dst IPPROTO_UDP (drop hl out))
            else Some out)
         else Some out)"

definition rewrite_header_checksum :: "nat \<Rightarrow> bytes \<Rightarrow> bytes" where
  "rewrite_header_checksum hl out =
     (let out = splice 10 [0, 0] out;
          c = internet_checksum (take hl out)
      in splice 10 (to_be16 c) out)"

definition rewrite_packet ::
  "bytes \<Rightarrow> Ipv4View \<Rightarrow> (Ipv4Addr \<times> u16 option) option \<Rightarrow> (Ipv4Addr \<times> u16 option) option \<Rightarrow>
   bytes option" where
  "rewrite_packet pkt ip new_src new_dst =
     (let total_n = unat (Ipv4View_total_len ip);
          hl = Ipv4View_header_len ip;
          out = take total_n pkt;
          out = rewrite_addrs (map_option fst new_src) (map_option fst new_dst) out;
          sp = Option.bind new_src snd;
          dp = Option.bind new_dst snd;
          out = rewrite_ports (Ipv4View_proto ip) hl sp dp out
      in map_option (rewrite_header_checksum hl)
           (rewrite_l4_checksum (Ipv4View_proto ip) hl out))"

subsection \<open>Block replies\<close>

definition block_reply :: "bytes \<Rightarrow> Ipv4View \<Rightarrow> bytes option" where
  "block_reply pkt ip =
     (if Ipv4View_proto ip = IPPROTO_TCP then
        case TcpView_parse (Ipv4View_payload ip) of
          None \<Rightarrow> None
        | Some tcp \<Rightarrow>
            if TcpView_is_rst tcp then None
            else
              let (seq, ack, flags) =
                (if TcpView_is_ack tcp then (TcpView_ack tcp, 0, TCP_RST)
                 else let advance = of_nat (length (TcpView_payload tcp)) +
                            of_bool (TcpView_is_syn tcp) + of_bool (TcpView_is_fin tcp)
                      in (0, TcpView_seq tcp + advance, TCP_RST OR TCP_ACK))
              in Option.bind
                   (tcp_build (Ipv4View_dst ip) (Ipv4View_src ip)
                     \<lparr>tf_src_port = TcpView_dst_port tcp, tf_dst_port = TcpView_src_port tcp,
                      tf_seq = seq, tf_ack = ack, tf_flags = flags, tf_window = 0,
                      tf_options = []\<rparr> [])
                   (\<lambda>seg. ipv4_build (Ipv4View_dst ip) (Ipv4View_src ip) IPPROTO_TCP 64 seg 0)
      else if Ipv4View_proto ip = IPPROTO_UDP then
        let icmp = icmp_unreachable_for pkt 3
        in ipv4_build (Ipv4View_dst ip) (Ipv4View_src ip) IPPROTO_ICMP 64 icmp 0
      else
        let icmp = icmp_unreachable_for pkt 1
        in ipv4_build (Ipv4View_dst ip) (Ipv4View_src ip) IPPROTO_ICMP 64 icmp 0)"

subsection \<open>Evaluation\<close>

definition record_conn ::
  "nat \<Rightarrow> Ipv4View \<Rightarrow> Meta \<Rightarrow> Ipv4Addr \<Rightarrow> u16 option \<Rightarrow> 'n RuleSet \<Rightarrow> 'n RuleSet" where
  "record_conn t_now ip meta new_ip new_port rs =
     (case m_conn_ports meta of
        None \<Rightarrow> rs
      | Some (sport, dport) \<Rightarrow>
          let (rev_sport, rev_dport) =
                (if Ipv4View_proto ip = IPPROTO_TCP \<or> Ipv4View_proto ip = IPPROTO_UDP
                 then (case_option dport (\<lambda>p. p) new_port, sport)
                 else (0, max sport dport));
              key = \<lparr>ck_src = new_ip, ck_sport = rev_sport, ck_dst = Ipv4View_src ip,
                     ck_dport = rev_dport, ck_proto = Ipv4View_proto ip\<rparr>;
              val = \<lparr>rv_orig_ip = Ipv4View_dst ip, rv_orig_port = m_dst_port meta,
                     rv_last = t_now\<rparr>
          in rs\<lparr>rs_conns := hm_insert key val (rs_conns rs)\<rparr>)"

definition RuleSet_eval ::
  "'n ipnet_ops \<Rightarrow> nat \<Rightarrow> nat \<Rightarrow> 'n RuleSet \<Rightarrow> bytes \<Rightarrow> 'n RuleSet \<times> Verdict" where
  "RuleSet_eval I t_expire t_now rs pkt =
     (case Ipv4View_parse pkt of
        None \<Rightarrow> (rs, Pass)
      | Some ip \<Rightarrow>
          let rs = expire_conns t_expire rs;
              meta = Meta_of ip
          in case best_redirect rs ip meta of
               Some rule \<Rightarrow>
                 let new_ip = hp_ip (rr_to rule);
                     new_port = map_option (\<lambda>orig. case_option orig (\<lambda>p. p) (hp_port (rr_to rule)))
                       (m_dst_port meta);
                     rs = record_conn t_now ip meta new_ip new_port rs
                 in (case rewrite_packet pkt ip None (Some (new_ip, new_port)) of
                       Some out \<Rightarrow> (rs, Rewrite out)
                     | None \<Rightarrow> (rs, Pass))
             | None \<Rightarrow>
                 if best_block I rs ip meta \<noteq> None then
                   (rs, Drop (block_reply (take (unat (Ipv4View_total_len ip)) pkt) ip))
                 else (rs, Pass))"

definition RuleSet_eval_return ::
  "nat \<Rightarrow> nat \<Rightarrow> 'n RuleSet \<Rightarrow> bytes \<Rightarrow> 'n RuleSet \<times> Verdict" where
  "RuleSet_eval_return t_elapsed t_now rs pkt =
     (case Ipv4View_parse pkt of
        None \<Rightarrow> (rs, Pass)
      | Some ip \<Rightarrow>
          (case m_conn_ports (Meta_of ip) of
             None \<Rightarrow> (rs, Pass)
           | Some (sport, dport) \<Rightarrow>
               let key = \<lparr>ck_src = Ipv4View_src ip, ck_sport = sport, ck_dst = Ipv4View_dst ip,
                          ck_dport = dport, ck_proto = Ipv4View_proto ip\<rparr>;
                   (rs, rev) =
                     (case hm_get (rs_conns rs) key of
                        Some v \<Rightarrow>
                          if t_elapsed - rv_last v < CONN_IDLE then
                            let v = v\<lparr>rv_last := t_now\<rparr>
                            in (rs\<lparr>rs_conns := hm_insert key v (rs_conns rs)\<rparr>, Some v)
                          else (rs, None)
                      | None \<Rightarrow> (rs, None))
               in (case Option.bind rev (\<lambda>v. rewrite_packet pkt ip
                          (Some (rv_orig_ip v, rv_orig_port v)) None) of
                     Some out \<Rightarrow> (rs, Rewrite out)
                   | None \<Rightarrow> (rs, Pass))))"

end
