(* ===== verification/Gateway.thy ===== *)
theory Gateway
  imports Dhcp Dns Switch
begin

text \<open>
  The gateway service of a segment (\<open>src/net/gateway.rs\<close>): the neighbour table with the packets
  that wait for an ARP answer, the L3 port packets are routed onto the segment through, and the
  task that handles the frames the switch delivers to the gateway port.

  The handle and the task share their cells, so one record holds both. What the task does to the
  outside is a list of outputs in the order it does them: a frame offered to the switch port, a
  frame handed to the uplink handler (a value of type \<open>'f\<close>), a DNS query sent upstream. A clock
  reading is a \<open>nat\<close> of nanoseconds.
\<close>

section \<open>Identity and configuration\<close>

definition ARP_PENDING :: nat where "ARP_PENDING = 3 * 1000000000"
definition ARP_RETRY :: nat where "ARP_RETRY = 1000000000"
definition ARP_PENDING_PACKETS :: nat where "ARP_PENDING_PACKETS = 16"
definition ARP_PENDING_HOSTS :: nat where "ARP_PENDING_HOSTS = 256"

definition fnv1a :: "bytes \<Rightarrow> u64" where
  "fnv1a bs = fold (\<lambda>b h. (h XOR ucast b) * 0x100000001b3) bs 0xcbf29ce484222325"

definition gateway_mac :: "string \<Rightarrow> string \<Rightarrow> MacAddr" where
  "gateway_mac lab segment =
     (let h = fnv1a (as_bytes lab @ as_bytes ''/'' @ as_bytes segment);
          x = (\<lambda>i. ucast (drop_bit (56 - 8 * i) h) :: u8)
      in MacAddr 0x52 0x56 (x 0 XOR x 4) (x 1 XOR x 5) (x 2 XOR x 6) (x 3 XOR x 7))"

record ('n, 'u) GatewayConfig =
  gc_segment_name :: string
  gc_lab_name :: string
  gc_gw_ip :: Ipv4Addr
  gc_gw_mac :: MacAddr
  gc_dhcp :: "'n DhcpConfig option"
  gc_dns :: "'u DnsZone option"
  gc_upstream_dns :: "'u option"

section \<open>Neighbours\<close>

record Pending =
  pd_since :: nat
  pd_asked :: nat
  pd_packets :: "bytes list"

record Neighbours =
  nb_table :: "(Ipv4Addr, MacAddr) hashmap"
  nb_pending :: "(Ipv4Addr, Pending) hashmap"

definition Neighbours_default :: Neighbours where
  "Neighbours_default = \<lparr>nb_table = [], nb_pending = []\<rparr>"

definition Neighbours_learn :: "Ipv4Addr \<Rightarrow> MacAddr \<Rightarrow> Neighbours \<Rightarrow> bytes list \<times> Neighbours" where
  "Neighbours_learn ip mac n =
     (case_option [] pd_packets (hm_get (nb_pending n) ip),
      n\<lparr>nb_table := hm_insert ip mac (nb_table n), nb_pending := hm_remove ip (nb_pending n)\<rparr>)"

definition Neighbours_hold :: "Ipv4Addr \<Rightarrow> bytes \<Rightarrow> nat \<Rightarrow> Neighbours \<Rightarrow> bool \<times> Neighbours" where
  "Neighbours_hold ip packet now n =
     (let pending = hm_retain (\<lambda>_ p. now - pd_since p < ARP_PENDING) (nb_pending n);
          n = n\<lparr>nb_pending := pending\<rparr>
      in if \<not> hm_contains pending ip \<and> length pending \<ge> ARP_PENDING_HOSTS then (False, n)
         else
           let p = case_option \<lparr>pd_since = now, pd_asked = now, pd_packets = []\<rparr> (\<lambda>p. p)
                     (hm_get pending ip);
               p = (if length (pd_packets p) < ARP_PENDING_PACKETS
                    then p\<lparr>pd_packets := pd_packets p @ [packet]\<rparr> else p);
               (ask, p) =
                 (if length (pd_packets p) = 1 then (True, p)
                  else if now - pd_asked p \<ge> ARP_RETRY then (True, p\<lparr>pd_asked := now\<rparr>)
                  else (False, p))
           in (ask, n\<lparr>nb_pending := hm_insert ip p pending\<rparr>))"

section \<open>The L3 port\<close>

record L3Port =
  lp_gw_ip :: Ipv4Addr
  lp_gw_mac :: MacAddr
  lp_neighbours :: Neighbours

definition send_ip :: "nat \<Rightarrow> Ipv4Addr \<Rightarrow> bytes \<Rightarrow> L3Port \<Rightarrow> bytes list \<times> L3Port" where
  "send_ip now next_hop packet p =
     (case hm_get (nb_table (lp_neighbours p)) next_hop of
        Some mac \<Rightarrow> ([eth_build mac (lp_gw_mac p) ETHERTYPE_IPV4 packet], p)
      | None \<Rightarrow>
          let (ask, n) = Neighbours_hold next_hop packet now (lp_neighbours p)
          in (if ask then [arp_request_build (lp_gw_mac p) (lp_gw_ip p) next_hop] else [],
              p\<lparr>lp_neighbours := n\<rparr>))"

definition send_to :: "MacAddr \<Rightarrow> bytes \<Rightarrow> L3Port \<Rightarrow> bytes list" where
  "send_to mac packet p = [eth_build mac (lp_gw_mac p) ETHERTYPE_IPV4 packet]"

section \<open>The gateway and its handle\<close>

record ('n, 'u, 'f) GatewayTask =
  gt_gw_ip :: Ipv4Addr
  gt_gw_mac :: MacAddr
  gt_dhcp :: "'n DhcpServer option"
  gt_dns :: "'u DnsZone option"
  gt_uplink :: "'f option"
  gt_neighbours :: Neighbours

definition Gateway_spawn ::
  "'q \<Rightarrow> ('n, 'u) GatewayConfig \<Rightarrow> ('q, 'h) Switch \<Rightarrow>
   PortId \<times> ('q, 'h) Switch \<times> ('n, 'u, 'f) GatewayTask" where
  "Gateway_spawn queue c sw =
     (let (port, sw) = add_channel_port_with_mtu queue Service 1500 sw;
          dhcp = map_option
            (\<lambda>d. DhcpServer_new (d\<lparr>dc_gateway := gc_gw_ip c, dc_server_mac := gc_gw_mac c\<rparr>)) (gc_dhcp c);
          dns = map_option
            (\<lambda>z. if dz_upstream z = None then z\<lparr>dz_upstream := gc_upstream_dns c\<rparr> else z) (gc_dns c)
      in (port, sw, \<lparr>gt_gw_ip = gc_gw_ip c, gt_gw_mac = gc_gw_mac c, gt_dhcp = dhcp, gt_dns = dns,
            gt_uplink = None, gt_neighbours = Neighbours_default\<rparr>))"

definition dhcp_leases :: "nat \<Rightarrow> ('n, 'u, 'f) GatewayTask \<Rightarrow> (MacAddr \<times> Ipv4Addr) list" where
  "dhcp_leases now g = case_option [] (DhcpServer_leases now) (gt_dhcp g)"

definition leases_probe :: "nat \<Rightarrow> ('n, 'u, 'f) GatewayTask \<Rightarrow> (MacAddr \<times> Ipv4Addr) list option" where
  "leases_probe now g = map_option (DhcpServer_leases now) (gt_dhcp g)"

definition l3_port :: "('n, 'u, 'f) GatewayTask \<Rightarrow> L3Port" where
  "l3_port g = \<lparr>lp_gw_ip = gt_gw_ip g, lp_gw_mac = gt_gw_mac g, lp_neighbours = gt_neighbours g\<rparr>"

definition reconfigure_dhcp ::
  "('n DhcpConfig \<Rightarrow> 'n DhcpConfig) \<Rightarrow> ('n, 'u, 'f) GatewayTask \<Rightarrow> ('n, 'u, 'f) GatewayTask" where
  "reconfigure_dhcp f g = g\<lparr>gt_dhcp := map_option (reconfigure f) (gt_dhcp g)\<rparr>"

definition set_uplink :: "'f \<Rightarrow> ('n, 'u, 'f) GatewayTask \<Rightarrow> ('n, 'u, 'f) GatewayTask" where
  "set_uplink handler g = g\<lparr>gt_uplink := Some handler\<rparr>"

section \<open>The gateway task\<close>

datatype ('u, 'f) GwOut =
    PortSend bytes
  | ToUplink 'f bytes
  | QueryUpstream 'u bytes DnsRespondCtx

definition handle_arp ::
  "bytes \<Rightarrow> ('n, 'u, 'f) GatewayTask \<Rightarrow> ('u, 'f) GwOut list \<times> ('n, 'u, 'f) GatewayTask" where
  "handle_arp payload g =
     (case ArpView_parse payload of
        None \<Rightarrow> ([], g)
      | Some arp \<Rightarrow>
          let (out, g) =
                (if ArpView_spa arp \<noteq> UNSPECIFIED then
                   let (released, n) = Neighbours_learn (ArpView_spa arp) (ArpView_sha arp) (gt_neighbours g)
                   in (map (\<lambda>packet. PortSend (eth_build (ArpView_sha arp) (gt_gw_mac g) ETHERTYPE_IPV4 packet))
                         released, g\<lparr>gt_neighbours := n\<rparr>)
                 else ([], g))
          in (out @ (if ArpView_op arp = Request \<and> ArpView_tpa arp = gt_gw_ip g
                     then [PortSend (arp_reply_build (gt_gw_mac g) (gt_gw_ip g) (ArpView_sha arp)
                             (ArpView_spa arp))]
                     else []), g))"

fun handle_dns :: "'u DnsAction \<Rightarrow> ('u, 'f) GwOut list" where
  "handle_dns (SendReply f) = [PortSend f]"
| "handle_dns (ForwardUpstream upstream query_id raw_query respond) =
     [QueryUpstream upstream raw_query respond]"
| "handle_dns Ignore = []"

text \<open>What the task spawned for an upstream query sends when the query ends.\<close>

definition upstream_answered :: "DnsRespondCtx \<Rightarrow> bytes option \<Rightarrow> bytes list" where
  "upstream_answered respond resp =
     (case resp of
        Some r \<Rightarrow> (case build_frame respond r of Some frame \<Rightarrow> [frame] | None \<Rightarrow> [])
      | None \<Rightarrow> [])"

definition handle_ipv4 ::
  "'n ipnet_ops \<Rightarrow> nat \<times> nat \<times> nat \<times> nat \<Rightarrow> EthView \<Rightarrow> bytes \<Rightarrow> ('n, 'u, 'f) GatewayTask \<Rightarrow>
   ('u, 'f) GwOut list \<times> ('n, 'u, 'f) GatewayTask" where
  "handle_ipv4 I clock eth frame g =
     (case Ipv4View_parse (EthView_payload eth) of None \<Rightarrow> ([], g) | Some ip \<Rightarrow>
        let udp = (if Ipv4View_proto ip = IPPROTO_UDP then UdpView_parse (Ipv4View_payload ip) else None);
            is_dhcp = case_option False (\<lambda>u. UdpView_dst_port u = DHCP_SERVER_PORT) udp;
            is_dns = case_option False (\<lambda>u. UdpView_dst_port u = DNS_PORT \<and> Ipv4View_dst ip = gt_gw_ip g) udp
        in if is_dhcp then
             (case gt_dhcp g of
                None \<Rightarrow> ([], g)
              | Some dhcp \<Rightarrow>
                  let (t_purge, t_lease, t_avail, t_grant) = clock;
                      (dhcp, reply) = DhcpServer_handle I t_purge t_lease t_avail t_grant dhcp frame
                  in (case_option [] (\<lambda>r. [PortSend r]) reply, g\<lparr>gt_dhcp := Some dhcp\<rparr>))
           else if is_dns then
             (case gt_dns g of
                None \<Rightarrow> ([], g)
              | Some dns \<Rightarrow> (handle_dns (DnsServer_handle dns frame), g))
           else if Ipv4View_dst ip = gt_gw_ip g \<and> Ipv4View_proto ip = IPPROTO_ICMP then
             (case icmp_echo_reply_for (EthView_payload eth) of
                None \<Rightarrow> ([], g)
              | Some reply \<Rightarrow>
                  ([PortSend (eth_build (EthView_src_mac eth) (gt_gw_mac g) ETHERTYPE_IPV4 reply)], g))
           else if EthView_dst_mac eth = gt_gw_mac g then
             (case gt_uplink g of Some f \<Rightarrow> ([ToUplink f frame], g) | None \<Rightarrow> ([], g))
           else ([], g))"

definition GatewayTask_handle_frame ::
  "'n ipnet_ops \<Rightarrow> nat \<times> nat \<times> nat \<times> nat \<Rightarrow> bytes \<Rightarrow> ('n, 'u, 'f) GatewayTask \<Rightarrow>
   ('u, 'f) GwOut list \<times> ('n, 'u, 'f) GatewayTask" where
  "GatewayTask_handle_frame I clock frame g =
     (case EthView_parse frame of
        None \<Rightarrow> ([], g)
      | Some eth \<Rightarrow>
          if EthView_ethertype eth = ETHERTYPE_ARP then handle_arp (EthView_payload eth) g
          else if EthView_ethertype eth = ETHERTYPE_IPV4 then handle_ipv4 I clock eth frame g
          else ([], g))"

end
