(* ===== verification/Router.thy ===== *)
theory Router
  imports Rules Gateway "HOL-Library.List_Lexorder" "HOL-Library.Char_ord"
    "HOL-Library.Product_Lexorder"
begin

text \<open>
  Inter-segment routing (\<open>src/net/router.rs\<close>): the lab's legs, the connected pairs, the decision on a
  frame a gateway received, and the classless routes each side of a pair offers by DHCP.

  A \<open>BTreeSet\<close> is the list of its elements in increasing order. A shared leg is named by its key in
  the table; its port, rules and DHCP server are the cells the segment's other services share.
\<close>

section \<open>The routing table\<close>

definition ICMP_TIME_EXCEEDED :: u8 where "ICMP_TIME_EXCEEDED = 11"
definition ICMP_FRAG_NEEDED :: u8 where "ICMP_FRAG_NEEDED = 4"

record 'n Leg =
  lg_name :: string
  lg_subnet :: 'n
  lg_gw_ip :: Ipv4Addr
  lg_mtu :: u16
  lg_port :: L3Port
  lg_rules :: "'n RuleSet"
  lg_dhcp :: "'n DhcpServer option"
  lg_declared_routes :: "('n \<times> Ipv4Addr) list"

record 'n Router =
  rt_legs :: "(string, 'n Leg) hashmap"
  rt_pairs :: "(string \<times> string) list"

definition Router_new :: "'n Router" where
  "Router_new = \<lparr>rt_legs = [], rt_pairs = []\<rparr>"

definition other_end :: "string \<Rightarrow> string \<times> string \<Rightarrow> string option" where
  "other_end name = (\<lambda>(a, b). if a = name then Some b else if b = name then Some a else None)"

definition peers_of :: "'n Router \<Rightarrow> string \<Rightarrow> 'n Leg list" where
  "peers_of r name =
     List.map_filter (\<lambda>pair. Option.bind (other_end name pair) (hm_get (rt_legs r))) (rt_pairs r)"

datatype Decision =
    NotRouted
  | Forward (fw_to: string) (fw_packet: bytes)
  | Answer (an_on: string) (an_packet: bytes)
  | DropPacket

section \<open>Routes offered by DHCP\<close>

fun insert_net :: "'n ipnet_ops \<Rightarrow> 'n \<Rightarrow> 'n list \<Rightarrow> 'n list" where
  "insert_net I n [] = [n]"
| "insert_net I n (m # ms) = (if net_le I n m then n # m # ms else m # insert_net I n ms)"

definition sort_nets :: "'n ipnet_ops \<Rightarrow> 'n list \<Rightarrow> 'n list" where
  "sort_nets I ns = foldr (insert_net I) ns []"

definition dhcp_routes_of :: "'n ipnet_ops \<Rightarrow> 'n Router \<Rightarrow> string \<Rightarrow> ('n \<times> Ipv4Addr) list" where
  "dhcp_routes_of I r segment =
     (case hm_get (rt_legs r) segment of
        None \<Rightarrow> []
      | Some leg \<Rightarrow>
          fold (\<lambda>subnet routes. if list_ex (\<lambda>(dest, _). dest = subnet) routes then routes
                                else routes @ [(subnet, lg_gw_ip leg)])
            (sort_nets I (map lg_subnet (peers_of r segment))) (lg_declared_routes leg))"

definition refresh_dhcp :: "'n ipnet_ops \<Rightarrow> string \<Rightarrow> 'n Router \<Rightarrow> 'n Router" where
  "refresh_dhcp I segment r =
     (case hm_get (rt_legs r) segment of
        None \<Rightarrow> r
      | Some leg \<Rightarrow>
          r\<lparr>rt_legs := hm_insert segment
              (leg\<lparr>lg_dhcp := map_option (set_routes (dhcp_routes_of I r segment)) (lg_dhcp leg)\<rparr>)
              (rt_legs r)\<rparr>)"

section \<open>Connecting segments\<close>

definition register :: "'n ipnet_ops \<Rightarrow> 'n Leg \<Rightarrow> 'n Router \<Rightarrow> 'n Router" where
  "register I leg r =
     refresh_dhcp I (lg_name leg) (r\<lparr>rt_legs := hm_insert (lg_name leg) leg (rt_legs r)\<rparr>)"

datatype route_error = RoutesToItself string | NoSuchSegment string

definition pair_key :: "string \<Rightarrow> string \<Rightarrow> string \<times> string" where
  "pair_key a b = (if a < b then (a, b) else (b, a))"

definition Router_set ::
  "'n ipnet_ops \<Rightarrow> string \<Rightarrow> string \<Rightarrow> bool \<Rightarrow> 'n Router \<Rightarrow> route_error + 'n Router" where
  "Router_set I a b connected r =
     (if a = b then Inl (RoutesToItself a)
      else if \<not> hm_contains (rt_legs r) a then Inl (NoSuchSegment a)
      else if \<not> hm_contains (rt_legs r) b then Inl (NoSuchSegment b)
      else
        let key = pair_key a b;
            (changed, pairs) =
              (if connected then (key \<notin> set (rt_pairs r), List.insort_insert key (rt_pairs r))
               else (key \<in> set (rt_pairs r), remove1 key (rt_pairs r)));
            r = r\<lparr>rt_pairs := pairs\<rparr>
        in Inr (if changed then refresh_dhcp I b (refresh_dhcp I a r) else r))"

definition Router_connect :: "'n ipnet_ops \<Rightarrow> string \<Rightarrow> string \<Rightarrow> 'n Router \<Rightarrow> route_error + 'n Router" where
  "Router_connect I a b r = Router_set I a b True r"

definition Router_disconnect :: "'n ipnet_ops \<Rightarrow> string \<Rightarrow> string \<Rightarrow> 'n Router \<Rightarrow> route_error + 'n Router" where
  "Router_disconnect I a b r = Router_set I a b False r"

definition Router_connected :: "string \<Rightarrow> string \<Rightarrow> 'n Router \<Rightarrow> bool" where
  "Router_connected a b r = list_ex (\<lambda>p. lg_name p = b) (peers_of r a)"

definition Router_dhcp_routes :: "'n ipnet_ops \<Rightarrow> string \<Rightarrow> 'n Router \<Rightarrow> ('n \<times> Ipv4Addr) list" where
  "Router_dhcp_routes I segment r = dhcp_routes_of I r segment"

section \<open>Routing a frame\<close>

definition decrement_ttl :: "bytes \<Rightarrow> bytes" where
  "decrement_ttl packet =
     (case Ipv4View_parse packet of
        None \<Rightarrow> packet
      | Some ip \<Rightarrow>
          let packet = packet[8 := (if packet ! 8 = 0 then 0 else packet ! 8 - 1)];
              packet = splice 10 [0, 0] packet
          in splice 10 (to_be16 (internet_checksum (take (Ipv4View_header_len ip) packet))) packet)"

definition icmp_error :: "'n Leg \<Rightarrow> bytes \<Rightarrow> u8 \<Rightarrow> u8 \<Rightarrow> bytes \<Rightarrow> Decision" where
  "icmp_error origin packet icmp_type code rest =
     (case Ipv4View_parse packet of
        None \<Rightarrow> DropPacket
      | Some ip \<Rightarrow>
          if Ipv4View_proto ip = IPPROTO_ICMP \<and>
             case_option True (\<lambda>i. IcmpView_icmp_type i \<noteq> ICMP_ECHO_REQUEST)
               (IcmpView_parse (Ipv4View_payload ip))
          then DropPacket
          else
            let quote = take (min (Ipv4View_header_len ip + 8) (length packet)) packet;
                icmp = icmp_build icmp_type code rest quote
            in (case ipv4_build (lg_gw_ip origin) (Ipv4View_src ip) IPPROTO_ICMP 64 icmp
                       (Ipv4View_id ip) of
                  Some packet \<Rightarrow> Answer (lg_name origin) packet
                | None \<Rightarrow> DropPacket))"

text \<open>\<open>decide_for_peer\<close> is the part of \<open>decide\<close> after the peer is found.\<close>

definition decide_for_peer ::
  "'n ipnet_ops \<Rightarrow> nat \<times> nat \<Rightarrow> 'n Leg \<Rightarrow> 'n Leg \<Rightarrow> Ipv4View \<Rightarrow> bytes \<Rightarrow> 'n Router \<Rightarrow> Decision \<times> 'n Router" where
  "decide_for_peer I clock origin peer ip packet r =
     (let dst = Ipv4View_dst ip in
      if dst = lg_gw_ip peer then
        (case icmp_echo_reply_for packet of
           Some echo \<Rightarrow> (Answer (lg_name origin) echo, r)
         | None \<Rightarrow> (DropPacket, r))
      else if dst = net_network I (lg_subnet peer) \<or> dst = net_broadcast I (lg_subnet peer) then
        (DropPacket, r)
      else if Ipv4View_ttl ip \<le> 1 then
        (icmp_error origin packet ICMP_TIME_EXCEEDED 0 [0, 0, 0, 0], r)
      else if length packet > unat (lg_mtu peer) then
        if Ipv4View_dont_fragment ip then
          (icmp_error origin packet ICMP_DEST_UNREACHABLE ICMP_FRAG_NEEDED
             ([0, 0] @ to_be16 (lg_mtu peer)), r)
        else (DropPacket, r)
      else
        let packet = decrement_ttl packet;
            (rules, verdict) = RuleSet_eval_return (fst clock) (snd clock) (lg_rules peer) packet;
            r = r\<lparr>rt_legs := hm_insert (lg_name peer) (peer\<lparr>lg_rules := rules\<rparr>) (rt_legs r)\<rparr>;
            packet = (case verdict of Rewrite out \<Rightarrow> out | _ \<Rightarrow> packet)
        in (Forward (lg_name peer) packet, r))"

definition decide ::
  "'n ipnet_ops \<Rightarrow> nat \<times> nat \<Rightarrow> string \<Rightarrow> bytes \<Rightarrow> 'n Router \<Rightarrow> Decision \<times> 'n Router" where
  "decide I clock from frame r =
     (case EthView_parse frame of None \<Rightarrow> (NotRouted, r) | Some eth \<Rightarrow>
      if EthView_ethertype eth \<noteq> ETHERTYPE_IPV4 then (NotRouted, r) else
      (case Ipv4View_parse (EthView_payload eth) of None \<Rightarrow> (NotRouted, r) | Some ip \<Rightarrow>
      (case hm_get (rt_legs r) from of None \<Rightarrow> (NotRouted, r) | Some origin \<Rightarrow>
      (case find (\<lambda>p. net_contains I (lg_subnet p) (Ipv4View_dst ip)) (peers_of r from) of
         None \<Rightarrow> (NotRouted, r)
       | Some peer \<Rightarrow>
           decide_for_peer I clock origin peer ip
             (take (min (unat (Ipv4View_total_len ip)) (length (EthView_payload eth)))
                (EthView_payload eth)) r))))"

text \<open>What a routed frame does: the frame handed back, or the frames each segment's gateway port sends.\<close>

definition route ::
  "'n ipnet_ops \<Rightarrow> nat \<times> nat \<Rightarrow> nat \<Rightarrow> string \<Rightarrow> bytes \<Rightarrow> 'n Router \<Rightarrow>
   bytes option \<times> (string \<times> bytes) list \<times> 'n Router" where
  "route I clock now from frame r =
     (let reply_to = map_option EthView_src_mac (EthView_parse frame);
          (decision, r) = decide I clock from frame r
      in case decision of
           NotRouted \<Rightarrow> (Some frame, [], r)
         | Forward to packet \<Rightarrow>
             (case (Ipv4View_parse packet, hm_get (rt_legs r) to) of
                (Some ip, Some leg) \<Rightarrow>
                  let (sent, port) = send_ip now (Ipv4View_dst ip) packet (lg_port leg)
                  in (None, map (Pair to) sent,
                      r\<lparr>rt_legs := hm_insert to (leg\<lparr>lg_port := port\<rparr>) (rt_legs r)\<rparr>)
              | _ \<Rightarrow> (None, [], r))
         | Answer on packet \<Rightarrow>
             (case (reply_to, hm_get (rt_legs r) on) of
                (Some mac, Some leg) \<Rightarrow> (None, map (Pair on) (send_to mac packet (lg_port leg)), r)
              | _ \<Rightarrow> (None, [], r))
         | DropPacket \<Rightarrow> (None, [], r))"

end
