(* ===== verification/Gateway_Lemmas.thy ===== *)
theory Gateway_Lemmas
  imports Gateway Frame_Lemmas
begin

text \<open>
  Properties of the gateway: what waits for ARP is bounded whatever the guests send, a packet that
  is held reaches the host that answers, and the gateway's own address is one the switch can learn.
\<close>

section \<open>Runs of a gateway\<close>

text \<open>A gateway runs on the frames of its port and on the packets the router puts on its segment.\<close>

datatype gw_event =
    GwFrame (gw_clock: "nat \<times> nat \<times> nat \<times> nat") (gw_frame: bytes)
  | GwRoute (gw_now: nat) (gw_hop: Ipv4Addr) (gw_packet: bytes)

fun gw_step ::
  "'n ipnet_ops \<Rightarrow> ('n, 'u, 'f) GatewayTask \<Rightarrow> gw_event \<Rightarrow> ('n, 'u, 'f) GatewayTask" where
  "gw_step I g (GwFrame clock frame) = snd (GatewayTask_handle_frame I clock frame g)"
| "gw_step I g (GwRoute now hop packet) =
     g\<lparr>gt_neighbours := lp_neighbours (snd (send_ip now hop packet (l3_port g)))\<rparr>"

text \<open>The ARP message in a frame, when it has one.\<close>

definition arp_of :: "bytes \<Rightarrow> ArpView option" where
  "arp_of frame =
     (case EthView_parse frame of
        None \<Rightarrow> None
      | Some eth \<Rightarrow> if EthView_ethertype eth = ETHERTYPE_ARP then ArpView_parse (EthView_payload eth) else None)"

definition arp_from :: "Ipv4Addr \<Rightarrow> bytes \<Rightarrow> bool" where
  "arp_from ip frame \<longleftrightarrow> case_option False (\<lambda>arp. ArpView_spa arp = ip) (arp_of frame)"

lemma ethertypes_differ [simp]: "ETHERTYPE_ARP \<noteq> ETHERTYPE_IPV4" "ETHERTYPE_IPV4 \<noteq> ETHERTYPE_ARP"
  by (simp_all add: frame_const_defs)

lemma handle_ipv4_same [simp]:
  "gt_neighbours (snd (handle_ipv4 I clock eth frame g)) = gt_neighbours g"
  "gt_gw_mac (snd (handle_ipv4 I clock eth frame g)) = gt_gw_mac g"
  "gt_gw_ip (snd (handle_ipv4 I clock eth frame g)) = gt_gw_ip g"
  by (simp_all add: handle_ipv4_def Let_def split_def split: option.split)

lemma handle_arp_eq:
  "handle_arp payload g =
     (case ArpView_parse payload of
        None \<Rightarrow> ([], g)
      | Some arp \<Rightarrow>
          let learned = Neighbours_learn (ArpView_spa arp) (ArpView_sha arp) (gt_neighbours g) in
          ((if ArpView_spa arp = UNSPECIFIED then []
            else map (\<lambda>packet. PortSend (eth_build (ArpView_sha arp) (gt_gw_mac g) ETHERTYPE_IPV4 packet))
                   (fst learned)) @
           (if ArpView_op arp = Request \<and> ArpView_tpa arp = gt_gw_ip g
            then [PortSend (arp_reply_build (gt_gw_mac g) (gt_gw_ip g) (ArpView_sha arp) (ArpView_spa arp))]
            else []),
           if ArpView_spa arp = UNSPECIFIED then g else g\<lparr>gt_neighbours := snd learned\<rparr>))"
  by (cases "ArpView_parse payload")
    (simp_all add: handle_arp_def Let_def split_def)

lemma handle_frame_eq:
  "GatewayTask_handle_frame I clock frame g =
     (case arp_of frame of
        Some arp \<Rightarrow> handle_arp (EthView_payload (EthView frame)) g
      | None \<Rightarrow> if length frame \<ge> ETH_HEADER_LEN \<and> EthView_ethertype (EthView frame) = ETHERTYPE_IPV4
                then handle_ipv4 I clock (EthView frame) frame g else ([], g))"
  by (simp add: GatewayTask_handle_frame_def arp_of_def EthView_parse_def handle_arp_def split: option.split)

lemma arp_of_payload: "arp_of frame = Some arp \<Longrightarrow> ArpView_parse (EthView_payload (EthView frame)) = Some arp"
  by (simp add: arp_of_def EthView_parse_def split: if_splits)

lemma handle_frame_neighbours:
  "gt_neighbours (snd (GatewayTask_handle_frame I clock frame g)) =
     (case arp_of frame of
        None \<Rightarrow> gt_neighbours g
      | Some arp \<Rightarrow> if ArpView_spa arp = UNSPECIFIED then gt_neighbours g
                  else snd (Neighbours_learn (ArpView_spa arp) (ArpView_sha arp) (gt_neighbours g)))"
  by (cases "arp_of frame") (simp_all add: handle_frame_eq handle_arp_eq arp_of_payload Let_def)

lemma handle_frame_identity [simp]:
  "gt_gw_mac (snd (GatewayTask_handle_frame I clock frame g)) = gt_gw_mac g"
  "gt_gw_ip (snd (GatewayTask_handle_frame I clock frame g)) = gt_gw_ip g"
  by (cases "arp_of frame"; simp add: handle_frame_eq handle_arp_eq arp_of_payload Let_def)+

lemma handle_frame_arp:
  "arp_of frame = Some arp \<Longrightarrow> ArpView_spa arp \<noteq> UNSPECIFIED \<Longrightarrow>
   fst (GatewayTask_handle_frame I clock frame g) =
     map (\<lambda>packet. PortSend (eth_build (ArpView_sha arp) (gt_gw_mac g) ETHERTYPE_IPV4 packet))
       (fst (Neighbours_learn (ArpView_spa arp) (ArpView_sha arp) (gt_neighbours g))) @
     (if ArpView_op arp = Request \<and> ArpView_tpa arp = gt_gw_ip g
      then [PortSend (arp_reply_build (gt_gw_mac g) (gt_gw_ip g) (ArpView_sha arp) (ArpView_spa arp))]
      else [])"
  by (simp add: handle_frame_eq handle_arp_eq arp_of_payload Let_def)

lemma gw_step_identity [simp]:
  "gt_gw_mac (gw_step I g e) = gt_gw_mac g" "gt_gw_ip (gw_step I g e) = gt_gw_ip g"
  by (cases e; simp)+

lemma run_identity [simp]: "gt_gw_mac (foldl (gw_step I) g es) = gt_gw_mac g"
  by (induction es arbitrary: g) simp_all

section \<open>What waits for ARP is bounded\<close>

definition neighbours_inv :: "Neighbours \<Rightarrow> bool" where
  "neighbours_inv n \<longleftrightarrow>
     hm_wf (nb_pending n) \<and> length (nb_pending n) \<le> ARP_PENDING_HOSTS \<and>
     (\<forall>ip p. hm_get (nb_pending n) ip = Some p \<longrightarrow>
        hm_get (nb_table n) ip = None \<and> 1 \<le> length (pd_packets p) \<and>
        length (pd_packets p) \<le> ARP_PENDING_PACKETS)"

lemma length_hm_retain: "length (hm_retain P m) \<le> length m"
  by (simp add: hm_retain_def)

lemma length_hm_remove: "length (hm_remove k m) \<le> length m"
  by (simp add: hm_remove_def length_delete_le)

lemma length_hm_insert:
  "length (hm_insert k v m) = (if hm_contains m k then length m else Suc (length m))"
proof (induction m)
  case (Cons a m)
  then show ?case by (cases a) (auto simp: hm_insert_def hm_contains_def hm_get_def)
qed (simp add: hm_insert_def hm_contains_def hm_get_def)

lemma neighbours_learn_inv: "neighbours_inv n \<Longrightarrow> neighbours_inv (snd (Neighbours_learn ip mac n))"
  using length_hm_remove [of ip "nb_pending n"]
  by (auto simp: neighbours_inv_def Neighbours_learn_def)

text \<open>The entry a packet for an unresolved hop ends up in.\<close>

definition live_pending :: "nat \<Rightarrow> Neighbours \<Rightarrow> (Ipv4Addr, Pending) hashmap" where
  "live_pending now n = hm_retain (\<lambda>_ p. now - pd_since p < ARP_PENDING) (nb_pending n)"

definition accepts :: "nat \<Rightarrow> Ipv4Addr \<Rightarrow> Neighbours \<Rightarrow> bool" where
  "accepts now ip n \<longleftrightarrow>
     (case hm_get (live_pending now n) ip of
        None \<Rightarrow> length (live_pending now n) < ARP_PENDING_HOSTS
      | Some p \<Rightarrow> length (pd_packets p) < ARP_PENDING_PACKETS)"

lemma hold_table [simp]: "nb_table (snd (Neighbours_hold ip packet now n)) = nb_table n"
  by (simp add: Neighbours_hold_def Let_def)

lemma hold_full:
  "hm_get (live_pending now n) ip = None \<Longrightarrow> ARP_PENDING_HOSTS \<le> length (live_pending now n) \<Longrightarrow>
   nb_pending (snd (Neighbours_hold ip packet now n)) = live_pending now n"
  by (simp add: Neighbours_hold_def live_pending_def hm_contains_def)

definition held :: "nat \<Rightarrow> bytes \<Rightarrow> Pending \<Rightarrow> Pending" where
  "held now packet p =
     (let p = (if length (pd_packets p) < ARP_PENDING_PACKETS
               then p\<lparr>pd_packets := pd_packets p @ [packet]\<rparr> else p)
      in if length (pd_packets p) \<noteq> 1 \<and> now - pd_asked p \<ge> ARP_RETRY then p\<lparr>pd_asked := now\<rparr> else p)"

definition entry_for :: "nat \<Rightarrow> Ipv4Addr \<Rightarrow> Neighbours \<Rightarrow> Pending" where
  "entry_for now ip n =
     case_option \<lparr>pd_since = now, pd_asked = now, pd_packets = []\<rparr> (\<lambda>p. p) (hm_get (live_pending now n) ip)"

lemma held_since [simp]: "pd_since (held now packet p) = pd_since p"
  by (simp add: held_def Let_def)

lemma held_packets:
  "pd_packets (held now packet p) =
     (if length (pd_packets p) < ARP_PENDING_PACKETS then pd_packets p @ [packet] else pd_packets p)"
  by (simp add: held_def Let_def)

lemma hold_pending:
  assumes "hm_get (live_pending now n) ip \<noteq> None \<or> length (live_pending now n) < ARP_PENDING_HOSTS"
  shows "nb_pending (snd (Neighbours_hold ip packet now n)) =
    hm_insert ip (held now packet (entry_for now ip n)) (live_pending now n)"
proof -
  have no: "(\<not> hm_contains (live_pending now n) ip \<and> ARP_PENDING_HOSTS \<le> length (live_pending now n)) = False"
    using assms by (auto simp: hm_contains_def)
  show ?thesis
    unfolding Neighbours_hold_def Let_def live_pending_def [symmetric] no if_False entry_for_def [symmetric]
      held_def
    by (simp only: split_def fst_conv snd_conv Neighbours.simps if_distrib [of snd] split: if_split) simp
qed

lemma live_pending_inv:
  "neighbours_inv n \<Longrightarrow> hm_wf (live_pending now n) \<and> length (live_pending now n) \<le> ARP_PENDING_HOSTS"
  using length_hm_retain [of "\<lambda>_ p. now - pd_since p < ARP_PENDING" "nb_pending n"]
  by (auto simp: neighbours_inv_def live_pending_def)

lemma live_pending_get:
  "neighbours_inv n \<Longrightarrow> hm_get (live_pending now n) ip = Some p \<longleftrightarrow>
     hm_get (nb_pending n) ip = Some p \<and> now - pd_since p < ARP_PENDING"
  by (auto simp: live_pending_def hm_get_retain neighbours_inv_def split: option.split)

lemma hold_inv:
  assumes inv: "neighbours_inv n" and new: "hm_get (nb_table n) ip = None"
  shows "neighbours_inv (snd (Neighbours_hold ip packet now n))"
proof (cases "hm_get (live_pending now n) ip \<noteq> None \<or> length (live_pending now n) < ARP_PENDING_HOSTS")
  case True
  define q where "q = held now packet (entry_for now ip n)"
  have pend: "nb_pending (snd (Neighbours_hold ip packet now n)) = hm_insert ip q (live_pending now n)"
    unfolding q_def using True by (rule hold_pending)
  have "length (pd_packets (entry_for now ip n)) \<le> ARP_PENDING_PACKETS"
    using inv live_pending_get [OF inv, of now ip] unfolding entry_for_def neighbours_inv_def
    by (auto split: option.split)
  then have len: "1 \<le> length (pd_packets q)" "length (pd_packets q) \<le> ARP_PENDING_PACKETS"
    by (auto simp: q_def held_packets ARP_PENDING_PACKETS_def)
  have "length (hm_insert ip q (live_pending now n)) \<le> ARP_PENDING_HOSTS"
    using True live_pending_inv [OF inv, of now] by (auto simp: length_hm_insert hm_contains_def)
  then show ?thesis
    using live_pending_inv [OF inv, of now] live_pending_get [OF inv, of now] inv new len
    unfolding neighbours_inv_def pend hold_table by (simp; blast)
next
  case False
  then have "nb_pending (snd (Neighbours_hold ip packet now n)) = live_pending now n"
    by (intro hold_full) auto
  then show ?thesis
    using live_pending_inv [OF inv, of now] live_pending_get [OF inv, of now] inv
    unfolding neighbours_inv_def hold_table by (simp; blast)
qed

lemma send_ip_inv:
  "neighbours_inv (lp_neighbours p) \<Longrightarrow> neighbours_inv (lp_neighbours (snd (send_ip now hop packet p)))"
  using hold_inv [of "lp_neighbours p" hop packet now]
  by (auto simp: send_ip_def Let_def split: option.split prod.split)

interpretation gateway_run: event_machine "gw_step I" "\<lambda>_ _. True" "\<lambda>g. neighbours_inv (gt_neighbours g)"
  for I :: "'n ipnet_ops"
proof unfold_locales
  fix g :: "('n, 'u, 'f) GatewayTask" and e
  assume inv: "neighbours_inv (gt_neighbours g)"
  show "neighbours_inv (gt_neighbours (gw_step I g e))"
    using inv send_ip_inv [of "l3_port g"]
    by (cases e) (auto simp: handle_frame_neighbours neighbours_learn_inv l3_port_def split: option.split)
qed

lemma gateway_run_ok: "gateway_run.run_ok I g es"
  by (induction es arbitrary: g) simp_all

lemma gateway_run_inv:
  "neighbours_inv (gt_neighbours g) \<Longrightarrow> neighbours_inv (gt_neighbours (foldl (gw_step I) g es))"
  by (rule gateway_run.run_inv [OF _ gateway_run_ok])

lemma spawn_inv:
  "Gateway_spawn queue c sw = (port, sw', g) \<Longrightarrow> neighbours_inv (gt_neighbours g)"
  by (auto simp: Gateway_spawn_def Let_def Neighbours_default_def neighbours_inv_def split: prod.splits)

lemma sum_list_bound: "(\<And>x. x \<in> set xs \<Longrightarrow> f x \<le> (b::nat)) \<Longrightarrow> sum_list (map f xs) \<le> length xs * b"
  by (induction xs) (auto intro: add_mono)

text \<open>C34: whatever frames a segment's guests send and whatever packets are routed onto it, what the
  gateway holds while it waits for ARP answers stays bounded: at most 256 next hops, at most 16
  packets for one hop, so at most 4096 packets in all; and no packet is held for a resolved hop.\<close>

theorem arp_wait_bounded:
  assumes "Gateway_spawn queue c sw = (port, sw', g)"
    and "n = gt_neighbours (foldl (gw_step I) g es)"
  shows "length (nb_pending n) \<le> 256 \<and>
    (\<forall>ip p. hm_get (nb_pending n) ip = Some p \<longrightarrow>
       hm_get (nb_table n) ip = None \<and> length (pd_packets p) \<in> {1..16}) \<and>
    sum_list (map (\<lambda>(_, p). length (pd_packets p)) (nb_pending n)) \<le> 4096"
proof -
  have inv: "neighbours_inv n" using gateway_run_inv [OF spawn_inv [OF assms(1)]] assms(2) by simp
  have "sum_list (map (\<lambda>(_, p). length (pd_packets p)) (nb_pending n)) \<le> length (nb_pending n) * 16"
    using inv by (intro sum_list_bound) (auto simp: neighbours_inv_def hm_get_iff_mem ARP_PENDING_PACKETS_def)
  with inv show ?thesis
    by (auto simp: neighbours_inv_def ARP_PENDING_HOSTS_def ARP_PENDING_PACKETS_def)
qed

text \<open>A gateway on an empty switch, with neither DHCP nor DNS.\<close>

definition demo_config :: "(Cidr, nat) GatewayConfig" where
  "demo_config = \<lparr>gc_segment_name = ''lan'', gc_lab_name = ''lab'', gc_gw_ip = Ipv4Addr 10 0 0 1,
     gc_gw_mac = MacAddr 0x52 0x56 0 0 0 1, gc_dhcp = None, gc_dns = None, gc_upstream_dns = None\<rparr>"

definition demo_gateway :: "(Cidr, nat, unit) GatewayTask" where
  "demo_gateway = \<lparr>gt_gw_ip = Ipv4Addr 10 0 0 1, gt_gw_mac = MacAddr 0x52 0x56 0 0 0 1, gt_dhcp = None,
     gt_dns = None, gt_uplink = None, gt_neighbours = Neighbours_default\<rparr>"

definition demo_switch :: "(unit, unit) Switch" where
  "demo_switch = snd (add_channel_port_with_mtu () Service 1500 (Switch_new None))"

lemma demo_spawn:
  "Gateway_spawn () demo_config (Switch_new None :: (unit, unit) Switch) = (0, demo_switch, demo_gateway)"
  by (simp add: Gateway_spawn_def demo_config_def demo_gateway_def demo_switch_def
      add_channel_port_with_mtu_def alloc_port_def Switch_new_def)

definition demo_hop :: Ipv4Addr where "demo_hop = Ipv4Addr 10 0 0 9"
definition demo_hop_mac :: MacAddr where "demo_hop_mac = MacAddr 2 0 0 0 0 9"

definition demo_arp :: bytes where
  "demo_arp = arp_reply_build demo_hop_mac demo_hop (MacAddr 0x52 0x56 0 0 0 1) (Ipv4Addr 10 0 0 1)"

lemma demo_arp_of:
  "arp_of demo_arp = Some (ArpView (drop 14 demo_arp))" "ArpView_spa (ArpView (drop 14 demo_arp)) = demo_hop"
  "ArpView_sha (ArpView (drop 14 demo_arp)) = demo_hop_mac"
  by code_simp+

theorem arp_wait_bounded_witness:
  "Gateway_spawn () demo_config (Switch_new None :: (unit, unit) Switch) = (0, demo_switch, demo_gateway) \<and>
   length (nb_pending (gt_neighbours (gw_step cidr_net demo_gateway (GwRoute 0 demo_hop [1])))) \<le> 256"
  using arp_wait_bounded [OF demo_spawn refl, of cidr_net "[GwRoute 0 demo_hop [1]]"] demo_spawn by simp

section \<open>A held packet is released\<close>

text \<open>\<open>waiting\<close> lists the packets held for a hop, in the order they came.\<close>

definition waiting :: "Ipv4Addr \<Rightarrow> Neighbours \<Rightarrow> bytes list" where
  "waiting ip n = case_option [] pd_packets (hm_get (nb_pending n) ip)"

definition waits_since :: "Ipv4Addr \<Rightarrow> Neighbours \<Rightarrow> nat" where
  "waits_since ip n = case_option 0 pd_since (hm_get (nb_pending n) ip)"

text \<open>An event leaves the packets for \<open>hop\<close> waiting when it is not an ARP from \<open>hop\<close> and its clock is
  within the three seconds a packet waits.\<close>

fun undisturbed :: "Ipv4Addr \<Rightarrow> nat \<Rightarrow> gw_event \<Rightarrow> bool" where
  "undisturbed hop since (GwFrame clock frame) = (\<not> arp_from hop frame)"
| "undisturbed hop since (GwRoute now ip packet) = (now - since < ARP_PENDING)"

lemma hold_other:
  assumes inv: "neighbours_inv n" and get: "hm_get (nb_pending n) hop = Some p"
    and fresh: "now - pd_since p < ARP_PENDING"
  shows "\<exists>q. hm_get (nb_pending (snd (Neighbours_hold ip packet now n))) hop = Some q \<and>
    pd_since q = pd_since p \<and> (\<exists>later. pd_packets q = pd_packets p @ later)"
proof (cases "hm_get (live_pending now n) ip \<noteq> None \<or> length (live_pending now n) < ARP_PENDING_HOSTS")
  case True
  have live: "hm_get (live_pending now n) hop = Some p"
    using live_pending_get [OF inv] get fresh by simp
  then show ?thesis
    by (cases "hop = ip") (simp_all add: hold_pending [OF True] held_packets entry_for_def)
next
  case False
  then have "nb_pending (snd (Neighbours_hold ip packet now n)) = live_pending now n"
    by (intro hold_full) auto
  then show ?thesis using live_pending_get [OF inv] get fresh by simp
qed

lemma step_keeps_waiting:
  assumes inv: "neighbours_inv (gt_neighbours g)" and get: "hm_get (nb_pending (gt_neighbours g)) hop = Some p"
    and quiet: "undisturbed hop (pd_since p) e"
  shows "\<exists>q. hm_get (nb_pending (gt_neighbours (gw_step I g e))) hop = Some q \<and> pd_since q = pd_since p \<and>
    (\<exists>later. pd_packets q = pd_packets p @ later)"
proof (cases e)
  case (GwFrame clock frame)
  then show ?thesis
    using get quiet by (auto simp: handle_frame_neighbours arp_from_def Neighbours_learn_def split: option.splits)
next
  case (GwRoute now ip packet)
  then show ?thesis
    using get quiet hold_other [OF inv get, of now ip packet]
    by (auto simp: send_ip_def l3_port_def split_def Let_def split: option.split)
qed

lemma run_keeps_waiting:
  assumes "neighbours_inv (gt_neighbours g)" "hm_get (nb_pending (gt_neighbours g)) hop = Some p"
    "list_all (undisturbed hop (pd_since p)) es"
  shows "\<exists>q. hm_get (nb_pending (gt_neighbours (foldl (gw_step I) g es))) hop = Some q \<and>
    pd_since q = pd_since p \<and> (\<exists>later. pd_packets q = pd_packets p @ later)"
  using assms
proof (induction es arbitrary: g p)
  case (Cons e es)
  obtain q where q: "hm_get (nb_pending (gt_neighbours (gw_step I g e))) hop = Some q"
    "pd_since q = pd_since p" and qp: "\<exists>later. pd_packets q = pd_packets p @ later"
    using step_keeps_waiting [of g hop p e I] Cons.prems by auto
  have "neighbours_inv (gt_neighbours (gw_step I g e))"
    using gateway_run.step_inv [of g I e] Cons.prems by simp
  from Cons.IH [OF this q(1)] show ?case using q qp Cons.prems(3) by fastforce
qed simp

lemma send_ip_waits:
  assumes inv: "neighbours_inv (lp_neighbours port)"
    and unknown: "hm_get (nb_table (lp_neighbours port)) hop = None"
    and room: "accepts now hop (lp_neighbours port)"
  shows "\<exists>q before. hm_get (nb_pending (lp_neighbours (snd (send_ip now hop packet port)))) hop = Some q \<and>
    pd_packets q = before @ [packet] \<and> now - pd_since q < ARP_PENDING"
proof -
  let ?n = "lp_neighbours port"
  have ok: "hm_get (live_pending now ?n) hop \<noteq> None \<or> length (live_pending now ?n) < ARP_PENDING_HOSTS"
    using room by (auto simp: accepts_def split: option.splits)
  have less: "length (pd_packets (entry_for now hop ?n)) < ARP_PENDING_PACKETS"
    using room by (auto simp: accepts_def entry_for_def ARP_PENDING_PACKETS_def split: option.splits)
  have since: "now - pd_since (entry_for now hop ?n) < ARP_PENDING"
    using live_pending_get [OF inv, of now hop]
    by (auto simp: entry_for_def ARP_PENDING_def split: option.split)
  have "nb_pending (lp_neighbours (snd (send_ip now hop packet port))) =
    hm_insert hop (held now packet (entry_for now hop ?n)) (live_pending now ?n)"
    using unknown hold_pending [OF ok, of packet] by (simp add: send_ip_def split_def Let_def)
  then show ?thesis using less since by (simp add: held_packets)
qed

text \<open>C12: a packet routed onto a segment for a host whose MAC is not yet known is not lost. When there
  is room for it and the host answers ARP before the wait of its hop runs out, whatever else the
  gateway handles in between, the answer makes the gateway send the packet to the host's MAC.\<close>

theorem held_packet_released:
  assumes "Gateway_spawn queue c sw = (port, sw', g0)" and "g = foldl (gw_step I) g0 earlier"
    and "hm_get (nb_table (gt_neighbours g)) hop = None" and "accepts now hop (gt_neighbours g)"
    and "g1 = gw_step I g (GwRoute now hop packet)"
    and "list_all (undisturbed hop (waits_since hop (gt_neighbours g1))) es"
    and "arp_of frame = Some arp" and "ArpView_spa arp = hop" and "hop \<noteq> UNSPECIFIED"
  shows "PortSend (eth_build (ArpView_sha arp) (gt_gw_mac g0) ETHERTYPE_IPV4 packet)
    \<in> set (fst (GatewayTask_handle_frame I clock frame (foldl (gw_step I) g1 es)))"
proof -
  have inv: "neighbours_inv (gt_neighbours g)"
    using gateway_run_inv [OF spawn_inv [OF assms(1)]] assms(2) by simp
  then have inv1: "neighbours_inv (gt_neighbours g1)"
    using gateway_run.step_inv [of g I "GwRoute now hop packet"] assms(5) by simp
  obtain q before where q: "hm_get (nb_pending (gt_neighbours g1)) hop = Some q" "pd_packets q = before @ [packet]"
    using send_ip_waits [of "l3_port g" hop now packet] inv assms(3-5) by (auto simp: l3_port_def)
  have "list_all (undisturbed hop (pd_since q)) es" using assms(6) q(1) by (simp add: waits_since_def)
  from run_keeps_waiting [OF inv1 q(1) this, of I]
  obtain q' later where q': "hm_get (nb_pending (gt_neighbours (foldl (gw_step I) g1 es))) hop = Some q'"
    "pd_packets q' = pd_packets q @ later" by blast
  have mac: "gt_gw_mac g1 = gt_gw_mac g0" using assms(2,5) by simp
  show ?thesis
    using q' q(2) assms(8,9)
    by (simp add: handle_frame_arp [OF assms(7)] Neighbours_learn_def mac)
qed

theorem held_packet_released_witness:
  "PortSend (eth_build demo_hop_mac (gt_gw_mac demo_gateway) ETHERTYPE_IPV4 [1, 2, 3])
    \<in> set (fst (GatewayTask_handle_frame cidr_net (0, 0, 0, 0) demo_arp
        (foldl (gw_step cidr_net) (gw_step cidr_net demo_gateway (GwRoute 5 demo_hop [1, 2, 3]))
           [GwRoute 7 (Ipv4Addr 10 0 0 8) [4], GwFrame (0, 0, 0, 0) [1], GwRoute 9 demo_hop [5]])))"
proof -
  let ?es = "[GwRoute 7 (Ipv4Addr 10 0 0 8) [4], GwFrame (0, 0, 0, 0) [1], GwRoute 9 demo_hop [5]]"
  have room: "hm_get (nb_table (gt_neighbours demo_gateway)) demo_hop = None"
    "accepts 5 demo_hop (gt_neighbours demo_gateway)"
    by (simp_all add: demo_gateway_def Neighbours_default_def accepts_def live_pending_def hm_retain_def
        ARP_PENDING_HOSTS_def)
  have quiet: "list_all (undisturbed demo_hop 5) ?es"
    by (simp add: arp_from_def arp_of_def EthView_parse_def ETH_HEADER_LEN_def ARP_PENDING_def)
  have since: "waits_since demo_hop (gt_neighbours (gw_step cidr_net demo_gateway (GwRoute 5 demo_hop [1, 2, 3]))) = 5"
    using room hold_pending [of 5 "gt_neighbours demo_gateway" demo_hop "[1, 2, 3]"]
    by (simp add: waits_since_def send_ip_def l3_port_def split_def Let_def accepts_def entry_for_def
        live_pending_def demo_gateway_def Neighbours_default_def hm_retain_def)
  have ne: "demo_hop \<noteq> UNSPECIFIED" by (simp add: demo_hop_def UNSPECIFIED_def)
  have base: "demo_gateway = foldl (gw_step cidr_net) demo_gateway []" by simp
  have "list_all (undisturbed demo_hop
      (waits_since demo_hop (gt_neighbours (gw_step cidr_net demo_gateway (GwRoute 5 demo_hop [1, 2, 3]))))) ?es"
    unfolding since by (rule quiet)
  from held_packet_released [OF demo_spawn base room refl this demo_arp_of(1,2) ne, of "(0, 0, 0, 0)"]
  show ?thesis unfolding demo_arp_of(3) .
qed

section \<open>The gateway's address\<close>

lemma gateway_mac_unicast: "\<not> is_multicast (gateway_mac lab segment)"
  by (simp add: gateway_mac_def is_multicast_def Let_def)

end
