(* ===== verification/Rules_Lemmas.thy ===== *)
theory Rules_Lemmas
  imports Rules
begin

text \<open>
  Properties of the rule engine: which rule is chosen, that a rewritten packet is well formed
  with valid checksums and only the asked fields changed, that a reply to a redirected packet is
  mapped back to the destination the guest addressed, and how a blocked packet is answered.
\<close>

section \<open>The four stages of a rewrite\<close>

lemma length_rewrite_addrs [simp]: "20 \<le> length out \<Longrightarrow> length (rewrite_addrs s d out) = length out"
  by (simp add: rewrite_addrs_def Let_def split: option.split)

lemma nth_rewrite_addrs:
  "20 \<le> length out \<Longrightarrow> i < length out \<Longrightarrow> i < 12 \<or> 20 \<le> i \<Longrightarrow> rewrite_addrs s d out ! i = out ! i"
  by (auto simp: rewrite_addrs_def Let_def nth_splice split: option.split)

lemma rewrite_addrs_src:
  "20 \<le> length out \<Longrightarrow>
   ipv4_at (rewrite_addrs s d out) 12 = case_option (ipv4_at out 12) (\<lambda>a. a) s"
  by (cases s; cases d) (auto simp: rewrite_addrs_def intro!: ipv4_at_cong nth_splice_other
      trans [OF ipv4_at_cong ipv4_at_splice_same])

lemma rewrite_addrs_dst:
  "20 \<le> length out \<Longrightarrow>
   ipv4_at (rewrite_addrs s d out) 16 = case_option (ipv4_at out 16) (\<lambda>a. a) d"
  by (cases s; cases d) (auto simp: rewrite_addrs_def intro!: ipv4_at_cong nth_splice_other)

lemma length_rewrite_ports [simp]: "length (rewrite_ports proto hl sp dp out) = length out"
  by (simp add: rewrite_ports_def Let_def split: option.split)

lemma nth_rewrite_ports:
  "i < length out \<Longrightarrow> i < hl \<or> hl + 4 \<le> i \<Longrightarrow> rewrite_ports proto hl sp dp out ! i = out ! i"
  by (auto simp: rewrite_ports_def Let_def nth_splice split: option.split)

lemma nth_rewrite_ports_icmp:
  "proto \<noteq> IPPROTO_TCP \<Longrightarrow> proto \<noteq> IPPROTO_UDP \<Longrightarrow> rewrite_ports proto hl sp dp out = out"
  by (simp add: rewrite_ports_def)

lemma rewrite_ports_read:
  assumes "proto = IPPROTO_TCP \<or> proto = IPPROTO_UDP" and "hl + 4 \<le> length out"
  shows "u16_at (rewrite_ports proto hl sp dp out) hl = case_option (u16_at out hl) (\<lambda>p. p) sp"
    and "u16_at (rewrite_ports proto hl sp dp out) (hl + 2) =
      case_option (u16_at out (hl + 2)) (\<lambda>p. p) dp"
  using assms by (cases sp; cases dp; auto simp: rewrite_ports_def u16_at_def nth_splice to_be16_def)+

lemma rewrite_l4_checksum_spec:
  assumes hl: "20 \<le> hl" "hl \<le> length out" and fits: "length out < 65536"
    and res: "rewrite_l4_checksum proto hl out = res"
  obtains out' where "res = Some out'" and "length out' = length out"
    and "\<And>i. i < hl + 6 \<Longrightarrow> i < length out \<Longrightarrow> out' ! i = out ! i"
    and "\<And>i. proto \<noteq> IPPROTO_UDP \<Longrightarrow> i < hl + 16 \<or> hl + 18 \<le> i \<Longrightarrow> i < length out \<Longrightarrow>
      out' ! i = out ! i"
    and "\<And>i. proto \<noteq> IPPROTO_TCP \<Longrightarrow> hl + 8 \<le> i \<Longrightarrow> i < length out \<Longrightarrow> out' ! i = out ! i"
    and "proto \<noteq> IPPROTO_TCP \<Longrightarrow> proto \<noteq> IPPROTO_UDP \<Longrightarrow> out' = out"
    and "proto = IPPROTO_TCP \<Longrightarrow> hl + 18 \<le> length out \<Longrightarrow>
      l4_checksum (ipv4_at out 12) (ipv4_at out 16) IPPROTO_TCP (drop hl out') = Some 0"
    and "proto = IPPROTO_UDP \<Longrightarrow> hl + 8 \<le> length out \<Longrightarrow> u16_at out (hl + 6) = 0 \<Longrightarrow> out' = out"
    and "proto = IPPROTO_UDP \<Longrightarrow> hl + 8 \<le> length out \<Longrightarrow> u16_at out (hl + 6) \<noteq> 0 \<Longrightarrow>
      l4_checksum (ipv4_at out 12) (ipv4_at out 16) IPPROTO_UDP (drop hl out') = Some 0"
proof -
  let ?src = "ipv4_at out 12" and ?dst = "ipv4_at out 16"
  have ne: "IPPROTO_TCP \<noteq> IPPROTO_UDP" by (simp add: frame_const_defs)
  have some: "\<exists>c. l4_checksum a b p (drop hl (splice k bs out)) = Some c"
    if "k + length bs \<le> length out" for a b p k bs
    using that fits by (simp add: l4_checksum_def u16_try_from_def)
  consider (tcp) "proto = IPPROTO_TCP" "hl + 18 \<le> length out"
    | (udp) "proto = IPPROTO_UDP" "hl + 8 \<le> length out" "u16_at out (hl + 6) \<noteq> 0"
    | (keep) "\<not> (proto = IPPROTO_TCP \<and> hl + 18 \<le> length out)"
        "\<not> (proto = IPPROTO_UDP \<and> hl + 8 \<le> length out \<and> u16_at out (hl + 6) \<noteq> 0)"
    by blast
  then show ?thesis
  proof cases
    case tcp
    let ?z = "splice (hl + 16) [0, 0] out"
    obtain c where c: "l4_checksum ?src ?dst IPPROTO_TCP (drop hl ?z) = Some c"
      using some [of "hl + 16" "[0, 0]" ?src ?dst IPPROTO_TCP] tcp by auto
    let ?o = "splice (hl + 16) (to_be16 c) ?z"
    have zero: "take 2 (drop 16 (drop hl ?z)) = [0, 0]"
      using tcp by (simp add: splice_def add.commute)
    have seg: "drop hl ?o = splice 16 (to_be16 c) (drop hl ?z)"
      using tcp by (simp add: splice_def)
    have "l4_checksum ?src ?dst IPPROTO_TCP (drop hl ?o) = Some 0"
      unfolding seg by (rule l4_checksum_insert [OF _ _ zero c]) (use tcp in auto)
    then show ?thesis
      using res c tcp ne by (intro that [of ?o])
        (auto simp: rewrite_l4_checksum_def ipv4_at_def Let_def nth_splice)
  next
    case udp
    let ?z = "splice (hl + 6) [0, 0] out"
    obtain c0 where c0: "l4_checksum ?src ?dst IPPROTO_UDP (drop hl ?z) = Some c0"
      using some [of "hl + 6" "[0, 0]" ?src ?dst IPPROTO_UDP] udp by auto
    let ?c = "if c0 = 0 then 0xFFFF else c0"
    let ?o = "splice (hl + 6) (to_be16 ?c) ?z"
    have zero: "take 2 (drop 6 (drop hl ?z)) = [0, 0]"
      using udp by (simp add: splice_def add.commute)
    have seg: "drop hl ?o = splice 6 (to_be16 ?c) (drop hl ?z)"
      using udp by (simp add: splice_def)
    have ok: "l4_checksum ?src ?dst IPPROTO_UDP (drop hl ?o) = Some 0"
      unfolding seg by (rule l4_checksum_insert [OF _ _ zero c0]) (use udp in auto)
    have "out ! (hl + 6) \<noteq> 0 \<or> out ! (hl + 7) \<noteq> 0"
      using udp(3) by (auto simp: u16_at_def eval_nat_numeral)
    then have "res = Some ?o"
      using res c0 udp ne by (simp add: rewrite_l4_checksum_def ipv4_at_def Let_def)
    then show ?thesis
      using ok udp ne by (intro that [of ?o]) (auto simp: nth_splice)
  next
    case keep
    have z: "u16_at out (hl + 6) = 0 \<Longrightarrow> out ! (hl + 6) = 0 \<and> out ! (hl + 7) = 0"
      using from_be16_inject [of "out ! (hl + 6)" "out ! (hl + 7)" 0 0]
      by (simp add: u16_at_def eval_nat_numeral)
    have "res = Some out"
      using keep res z by (auto simp: rewrite_l4_checksum_def Let_def)
    then show ?thesis using keep by (intro that [of out]) auto
  qed
qed

lemma rewrite_header_checksum_spec:
  assumes "20 \<le> hl" "hl \<le> length out" "hl \<le> 60"
  shows "length (rewrite_header_checksum hl out) = length out"
    and "\<And>i. i < 10 \<or> 12 \<le> i \<Longrightarrow> i < length out \<Longrightarrow> rewrite_header_checksum hl out ! i = out ! i"
    and "internet_checksum (take hl (rewrite_header_checksum hl out)) = 0"
    and "drop hl (rewrite_header_checksum hl out) = drop hl out"
proof -
  let ?z = "splice 10 [0, 0] out"
  let ?c = "internet_checksum (take hl ?z)"
  have eq: "rewrite_header_checksum hl out = splice 10 (to_be16 ?c) ?z"
    by (simp add: rewrite_header_checksum_def Let_def)
  have hdr: "take hl (splice 10 (to_be16 ?c) ?z) = splice 10 (to_be16 ?c) (take hl ?z)"
    using assms by (simp add: take_splice_after)
  have zero: "take 2 (drop 10 (take hl ?z)) = [0, 0]"
    using assms by (simp add: splice_def take_Cons' min_def)
  show "internet_checksum (take hl (rewrite_header_checksum hl out)) = 0"
    unfolding eq hdr by (rule checksum_insert [OF _ _ zero]) (use assms in auto)
  show "length (rewrite_header_checksum hl out) = length out"
    using assms by (simp add: eq)
  show "drop hl (rewrite_header_checksum hl out) = drop hl out"
    using assms by (simp add: eq)
  show "\<And>i. i < 10 \<or> 12 \<le> i \<Longrightarrow> i < length out \<Longrightarrow> rewrite_header_checksum hl out ! i = out ! i"
    using assms by (auto simp: eq nth_splice)
qed

section \<open>The rewritten packet\<close>

lemma nth_Ipv4View_payload:
  assumes "Ipv4View_parse b = Some v" and "Ipv4View_header_len v + i < unat (Ipv4View_total_len v)"
  shows "Ipv4View_payload v ! i = b ! (Ipv4View_header_len v + i)"
  using assms by (auto simp: Ipv4View_parse_Some Ipv4View_payload_def)

lemma rewrite_packet_spec:
  assumes parse: "Ipv4View_parse pkt = Some ip"
  obtains out where "rewrite_packet pkt ip ns nd = Some out"
    and "Ipv4View_parse out = Some (Ipv4View out)"
    and "Ipv4View_header_len (Ipv4View out) = Ipv4View_header_len ip"
    and "Ipv4View_total_len (Ipv4View out) = Ipv4View_total_len ip"
    and "length out = unat (Ipv4View_total_len ip)"
    and "Ipv4View_proto (Ipv4View out) = Ipv4View_proto ip"
    and "Ipv4View_ttl (Ipv4View out) = Ipv4View_ttl ip"
    and "Ipv4View_src (Ipv4View out) = case_option (Ipv4View_src ip) fst ns"
    and "Ipv4View_dst (Ipv4View out) = case_option (Ipv4View_dst ip) fst nd"
    and "Ipv4View_checksum_valid (Ipv4View out)"
    and "rewrite_l4_checksum (Ipv4View_proto ip) (Ipv4View_header_len ip)
      (rewrite_ports (Ipv4View_proto ip) (Ipv4View_header_len ip) (Option.bind ns snd)
        (Option.bind nd snd)
        (rewrite_addrs (map_option fst ns) (map_option fst nd)
          (take (unat (Ipv4View_total_len ip)) pkt))) \<noteq> None"
    and "Ipv4View_payload (Ipv4View out) = drop (Ipv4View_header_len ip)
      (the (rewrite_l4_checksum (Ipv4View_proto ip) (Ipv4View_header_len ip)
        (rewrite_ports (Ipv4View_proto ip) (Ipv4View_header_len ip) (Option.bind ns snd)
          (Option.bind nd snd)
          (rewrite_addrs (map_option fst ns) (map_option fst nd)
            (take (unat (Ipv4View_total_len ip)) pkt)))))"
proof -
  note b = ipv4_parse_bounds [OF parse]
  let ?hl = "Ipv4View_header_len ip" and ?n = "unat (Ipv4View_total_len ip)"
  let ?raw = "take ?n pkt"
  let ?adr = "rewrite_addrs (map_option fst ns) (map_option fst nd) ?raw"
  let ?prt = "rewrite_ports (Ipv4View_proto ip) ?hl (Option.bind ns snd) (Option.bind nd snd) ?adr"
  have n: "20 \<le> ?hl" "?hl \<le> ?n" "20 \<le> ?n" "?n < 65536" "?hl \<le> 60"
    using b unat_u16_bound Ipv4View_header_len_le by auto
  have len: "length ?raw = ?n" "length ?adr = ?n" "length ?prt = ?n" using b n by simp_all
  obtain o3 where o3: "rewrite_l4_checksum (Ipv4View_proto ip) ?hl ?prt = Some o3"
      "length o3 = length ?prt" "\<And>i. i < ?hl + 6 \<Longrightarrow> i < length ?prt \<Longrightarrow> o3 ! i = ?prt ! i"
    by (rule rewrite_l4_checksum_spec [of ?hl ?prt "Ipv4View_proto ip"]) (use n len in auto)
  define fin where "fin = rewrite_header_checksum ?hl o3"
  have l3: "?hl \<le> length o3" "length o3 = ?n" using o3 len n by auto
  note h = rewrite_header_checksum_spec [OF n(1) l3(1) n(5), folded fin_def]
  have addr: "fin ! i = ?adr ! i" if "i < 20" "i < 10 \<or> 12 \<le> i" for i
    using that h(2) [of i] o3(3) [of i] nth_rewrite_ports [of i ?adr ?hl] n l3 len by simp
  have same: "fin ! i = pkt ! i" if "i < 10" for i
  proof -
    have "?adr ! i = ?raw ! i" by (rule nth_rewrite_addrs) (use that n len in simp_all)
    then show ?thesis using that addr [of i] n by simp
  qed
  have view: "Ipv4View_header_len (Ipv4View fin) = ?hl"
    "Ipv4View_total_len (Ipv4View fin) = Ipv4View_total_len ip"
    "Ipv4View_proto (Ipv4View fin) = Ipv4View_proto ip" "Ipv4View_ttl (Ipv4View fin) = Ipv4View_ttl ip"
    using b(1) by (simp_all add: Ipv4View_header_len_def Ipv4View_ihl_def Ipv4View_total_len_def
        Ipv4View_proto_def Ipv4View_ttl_def u16_at_def same)
  have at: "ipv4_at fin i = ipv4_at ?adr i" if "12 \<le> i" "i \<le> 16" for i
    using that by (intro ipv4_at_cong addr) auto
  have orig: "ipv4_at ?raw 12 = Ipv4View_src ip" "ipv4_at ?raw 16 = Ipv4View_dst ip"
    using b(1) n by (simp_all add: Ipv4View_src_def Ipv4View_dst_def ipv4_at_def)
  have "drop_bit 4 (fin ! 0) = 4"
    using parse same [of 0] b(1) by (simp add: Ipv4View_parse_Some)
  then have p: "Ipv4View_parse fin = Some (Ipv4View fin)"
    using view n h(1) l3 by (simp add: Ipv4View_parse_Some)
  have rw: "rewrite_packet pkt ip ns nd = Some fin"
    using o3(1) by (simp add: rewrite_packet_def Let_def fin_def)
  have body: "Ipv4View_payload (Ipv4View fin) = drop ?hl o3"
    using view h l3 by (simp add: Ipv4View_payload_def)
  have src: "Ipv4View_src (Ipv4View fin) = case_option (Ipv4View_src ip) fst ns"
    using at [of 12] rewrite_addrs_src [of ?raw "map_option fst ns"] len n orig
    by (simp add: Ipv4View_src_def split: option.split)
  have dst: "Ipv4View_dst (Ipv4View fin) = case_option (Ipv4View_dst ip) fst nd"
    using at [of 16] rewrite_addrs_dst [of ?raw _ "map_option fst nd"] len n orig
    by (simp add: Ipv4View_dst_def split: option.split)
  have "Ipv4View_checksum_valid (Ipv4View fin)"
    using view h(3) by (simp add: Ipv4View_checksum_valid_def)
  then show ?thesis
    using rw p view src dst h(1) l3 o3(1) body by (intro that [of fin]) simp_all
qed

lemma rewrite_packet_total: "Ipv4View_parse pkt = Some ip \<Longrightarrow> \<exists>out. rewrite_packet pkt ip ns nd = Some out"
  by (erule rewrite_packet_spec) blast

lemma rewrite_packet_view:
  assumes "Ipv4View_parse pkt = Some ip" and "rewrite_packet pkt ip ns nd = Some out"
  shows "Ipv4View_parse out = Some (Ipv4View out)"
    and "Ipv4View_proto (Ipv4View out) = Ipv4View_proto ip"
    and "Ipv4View_ttl (Ipv4View out) = Ipv4View_ttl ip"
    and "Ipv4View_src (Ipv4View out) = case_option (Ipv4View_src ip) fst ns"
    and "Ipv4View_dst (Ipv4View out) = case_option (Ipv4View_dst ip) fst nd"
    and "Ipv4View_checksum_valid (Ipv4View out)"
    and "length (Ipv4View_payload (Ipv4View out)) = length (Ipv4View_payload ip)"
proof -
  obtain out' where o: "rewrite_packet pkt ip ns nd = Some out'"
    "Ipv4View_parse out' = Some (Ipv4View out')"
    "Ipv4View_header_len (Ipv4View out') = Ipv4View_header_len ip"
    "Ipv4View_total_len (Ipv4View out') = Ipv4View_total_len ip"
    "Ipv4View_proto (Ipv4View out') = Ipv4View_proto ip"
    "Ipv4View_ttl (Ipv4View out') = Ipv4View_ttl ip"
    "Ipv4View_src (Ipv4View out') = case_option (Ipv4View_src ip) fst ns"
    "Ipv4View_dst (Ipv4View out') = case_option (Ipv4View_dst ip) fst nd"
    "Ipv4View_checksum_valid (Ipv4View out')"
    by (rule rewrite_packet_spec [OF assms(1), of ns nd])
  with assms(2) have eq: "out' = out" by simp
  note o = o [unfolded eq]
  show "Ipv4View_parse out = Some (Ipv4View out)" "Ipv4View_proto (Ipv4View out) = Ipv4View_proto ip"
    "Ipv4View_ttl (Ipv4View out) = Ipv4View_ttl ip"
    "Ipv4View_src (Ipv4View out) = case_option (Ipv4View_src ip) fst ns"
    "Ipv4View_dst (Ipv4View out) = case_option (Ipv4View_dst ip) fst nd"
    "Ipv4View_checksum_valid (Ipv4View out)"
    using o by simp_all
  show "length (Ipv4View_payload (Ipv4View out)) = length (Ipv4View_payload ip)"
    using length_Ipv4View_payload [OF o(2)] length_Ipv4View_payload [OF assms(1)] o by simp
qed

text \<open>
  The packet before its checksums are recomputed: its length, its payload from the fifth byte on,
  its ports and its addresses, and the payload of the result in terms of it.
\<close>

definition rewrite_plain ::
  "bytes \<Rightarrow> Ipv4View \<Rightarrow> (Ipv4Addr \<times> u16 option) option \<Rightarrow> (Ipv4Addr \<times> u16 option) option \<Rightarrow> bytes" where
  "rewrite_plain pkt ip ns nd =
     rewrite_ports (Ipv4View_proto ip) (Ipv4View_header_len ip) (Option.bind ns snd)
       (Option.bind nd snd)
       (rewrite_addrs (map_option fst ns) (map_option fst nd)
         (take (unat (Ipv4View_total_len ip)) pkt))"

lemma rewrite_plain_spec:
  assumes parse: "Ipv4View_parse pkt = Some ip"
    and hl: "hl = Ipv4View_header_len ip" and B: "B = Ipv4View_payload ip"
    and q: "q = rewrite_plain pkt ip ns nd"
  shows "20 \<le> hl" and "length q = hl + length B" and "length q < 65536"
    and "\<And>i. 4 \<le> i \<Longrightarrow> i < length B \<Longrightarrow> q ! (hl + i) = B ! i"
    and "\<And>i. Ipv4View_proto ip \<noteq> IPPROTO_TCP \<Longrightarrow> Ipv4View_proto ip \<noteq> IPPROTO_UDP \<Longrightarrow>
      i < length B \<Longrightarrow> q ! (hl + i) = B ! i"
    and "Ipv4View_proto ip = IPPROTO_TCP \<or> Ipv4View_proto ip = IPPROTO_UDP \<Longrightarrow> 4 \<le> length B \<Longrightarrow>
      u16_at q hl = case_option (u16_at B 0) (\<lambda>p. p) (Option.bind ns snd)"
    and "Ipv4View_proto ip = IPPROTO_TCP \<or> Ipv4View_proto ip = IPPROTO_UDP \<Longrightarrow> 4 \<le> length B \<Longrightarrow>
      u16_at q (hl + 2) = case_option (u16_at B 2) (\<lambda>p. p) (Option.bind nd snd)"
    and "ipv4_at q 12 = case_option (Ipv4View_src ip) fst ns"
    and "ipv4_at q 16 = case_option (Ipv4View_dst ip) fst nd"
proof -
  note b = ipv4_parse_bounds [OF parse]
  let ?n = "unat (Ipv4View_total_len ip)" and ?proto = "Ipv4View_proto ip"
  define raw where "raw = take ?n pkt"
  define adr where "adr = rewrite_addrs (map_option fst ns) (map_option fst nd) raw"
  have qa: "q = rewrite_ports ?proto hl (Option.bind ns snd) (Option.bind nd snd) adr"
    by (simp add: q rewrite_plain_def adr_def raw_def hl)
  show h20: "20 \<le> hl" using b by (simp add: hl)
  have n: "hl \<le> ?n" "20 \<le> ?n" "?n < 65536" using b unat_u16_bound by (auto simp: hl)
  have lens: "length raw = ?n" "length adr = ?n" "length q = ?n" "length B = ?n - hl"
    using b n length_Ipv4View_payload [OF parse] by (simp_all add: raw_def adr_def qa B hl)
  then show "length q = hl + length B" "length q < 65536" using n by auto
  have adrB: "adr ! (hl + i) = B ! i" if "i < length B" for i
  proof -
    have "adr ! (hl + i) = raw ! (hl + i)"
      unfolding adr_def by (rule nth_rewrite_addrs) (use that h20 n lens in auto)
    also have "\<dots> = pkt ! (hl + i)" using that lens by (simp add: raw_def)
    finally show ?thesis
      using that lens nth_Ipv4View_payload [OF parse, of i] b(1) by (simp add: B hl)
  qed
  show "q ! (hl + i) = B ! i" if "4 \<le> i" "i < length B" for i
    using that nth_rewrite_ports [of "hl + i" adr hl] lens adrB by (simp add: qa)
  show "?proto \<noteq> IPPROTO_TCP \<Longrightarrow> ?proto \<noteq> IPPROTO_UDP \<Longrightarrow> i < length B \<Longrightarrow> q ! (hl + i) = B ! i" for i
    using adrB by (simp add: qa nth_rewrite_ports_icmp)
  have at: "ipv4_at q i = ipv4_at adr i" if "i \<le> 16" for i
    using that h20 n lens unfolding qa by (intro ipv4_at_cong nth_rewrite_ports) auto
  show "ipv4_at q 12 = case_option (Ipv4View_src ip) fst ns"
    using rewrite_addrs_src [of raw "map_option fst ns"] lens n at [of 12] b(1)
    by (simp add: adr_def raw_def Ipv4View_src_def ipv4_at_def split: option.splits)
  show "ipv4_at q 16 = case_option (Ipv4View_dst ip) fst nd"
    using rewrite_addrs_dst [of raw _ "map_option fst nd"] lens n at [of 16] b(1)
    by (simp add: adr_def raw_def Ipv4View_dst_def ipv4_at_def split: option.splits)
  assume p: "?proto = IPPROTO_TCP \<or> ?proto = IPPROTO_UDP" and l: "4 \<le> length B"
  then have ne: "B \<noteq> []" by auto
  have "u16_at adr hl = u16_at B 0" "u16_at adr (hl + 2) = u16_at B 2"
    using adrB [of 0] adrB [of 1] adrB [of 2] adrB [of 3] ne l
    by (simp_all add: u16_at_def eval_nat_numeral)
  then show "u16_at q hl = case_option (u16_at B 0) (\<lambda>p. p) (Option.bind ns snd)"
    "u16_at q (hl + 2) = case_option (u16_at B 2) (\<lambda>p. p) (Option.bind nd snd)"
    using rewrite_ports_read [OF p, of hl adr] l lens n by (simp_all add: qa split: option.split)
qed

lemma rewrite_packet_payload:
  assumes "Ipv4View_parse pkt = Some ip" and "rewrite_packet pkt ip ns nd = Some out"
  shows "map_option (drop (Ipv4View_header_len ip))
      (rewrite_l4_checksum (Ipv4View_proto ip) (Ipv4View_header_len ip) (rewrite_plain pkt ip ns nd)) =
    Some (Ipv4View_payload (Ipv4View out))"
  by (rule rewrite_packet_spec [OF assms(1), of ns nd])
    (use assms(2) in \<open>auto simp: rewrite_plain_def\<close>)

lemma rewrite_packet_body:
  assumes parse: "Ipv4View_parse pkt = Some ip" and rw: "rewrite_packet pkt ip ns nd = Some out"
    and B: "B = Ipv4View_payload ip" and B': "B' = Ipv4View_payload (Ipv4View out)"
    and proto: "proto = Ipv4View_proto ip" and v: "v = Ipv4View out"
  shows "proto \<noteq> IPPROTO_TCP \<Longrightarrow> proto \<noteq> IPPROTO_UDP \<Longrightarrow> B' = B"
    and "\<And>i. proto = IPPROTO_TCP \<Longrightarrow> 4 \<le> i \<Longrightarrow> i < 16 \<or> 18 \<le> i \<Longrightarrow> i < length B \<Longrightarrow> B' ! i = B ! i"
    and "\<And>i. proto = IPPROTO_UDP \<Longrightarrow> 4 \<le> i \<Longrightarrow> i < 6 \<or> 8 \<le> i \<Longrightarrow> i < length B \<Longrightarrow> B' ! i = B ! i"
    and "proto = IPPROTO_TCP \<or> proto = IPPROTO_UDP \<Longrightarrow> 4 \<le> length B \<Longrightarrow>
      u16_at B' 0 = case_option (u16_at B 0) (\<lambda>p. p) (Option.bind ns snd)"
    and "proto = IPPROTO_TCP \<or> proto = IPPROTO_UDP \<Longrightarrow> 4 \<le> length B \<Longrightarrow>
      u16_at B' 2 = case_option (u16_at B 2) (\<lambda>p. p) (Option.bind nd snd)"
    and "proto = IPPROTO_TCP \<Longrightarrow> 18 \<le> length B \<Longrightarrow>
      l4_checksum (Ipv4View_src v) (Ipv4View_dst v) IPPROTO_TCP B' = Some 0"
    and "proto = IPPROTO_UDP \<Longrightarrow> 8 \<le> length B \<Longrightarrow> u16_at B 6 = 0 \<Longrightarrow> u16_at B' 6 = 0"
    and "proto = IPPROTO_UDP \<Longrightarrow> 8 \<le> length B \<Longrightarrow> u16_at B 6 \<noteq> 0 \<Longrightarrow>
      l4_checksum (Ipv4View_src v) (Ipv4View_dst v) IPPROTO_UDP B' = Some 0"
proof -
  define hl where "hl = Ipv4View_header_len ip"
  define q where "q = rewrite_plain pkt ip ns nd"
  note q = rewrite_plain_spec [OF parse hl_def B q_def, folded proto]
  have addr: "Ipv4View_src v = ipv4_at q 12" "Ipv4View_dst v = ipv4_at q 16"
    using rewrite_packet_view(4,5) [OF parse rw] q(8,9) by (simp_all add: v)
  have ne: "IPPROTO_TCP \<noteq> IPPROTO_UDP" by (simp add: frame_const_defs)
  have hlq: "hl \<le> length q" using q(2) by simp
  obtain fin where f: "rewrite_l4_checksum proto hl q = Some fin" "length fin = length q"
    "\<And>i. i < hl + 6 \<Longrightarrow> i < length q \<Longrightarrow> fin ! i = q ! i"
    "\<And>i. proto \<noteq> IPPROTO_UDP \<Longrightarrow> i < hl + 16 \<or> hl + 18 \<le> i \<Longrightarrow> i < length q \<Longrightarrow> fin ! i = q ! i"
    "\<And>i. proto \<noteq> IPPROTO_TCP \<Longrightarrow> hl + 8 \<le> i \<Longrightarrow> i < length q \<Longrightarrow> fin ! i = q ! i"
    "proto \<noteq> IPPROTO_TCP \<Longrightarrow> proto \<noteq> IPPROTO_UDP \<Longrightarrow> fin = q"
    "proto = IPPROTO_TCP \<Longrightarrow> hl + 18 \<le> length q \<Longrightarrow>
      l4_checksum (ipv4_at q 12) (ipv4_at q 16) IPPROTO_TCP (drop hl fin) = Some 0"
    "proto = IPPROTO_UDP \<Longrightarrow> hl + 8 \<le> length q \<Longrightarrow> u16_at q (hl + 6) = 0 \<Longrightarrow> fin = q"
    "proto = IPPROTO_UDP \<Longrightarrow> hl + 8 \<le> length q \<Longrightarrow> u16_at q (hl + 6) \<noteq> 0 \<Longrightarrow>
      l4_checksum (ipv4_at q 12) (ipv4_at q 16) IPPROTO_UDP (drop hl fin) = Some 0"
    by (rule rewrite_l4_checksum_spec [OF q(1) hlq q(3) refl, of proto]) blast
  have B'f: "B' = drop hl fin"
    using rewrite_packet_payload [OF parse rw] f(1) by (simp add: B' proto hl_def q_def)
  have B'i: "B' ! i = fin ! (hl + i)" if "i < length B" for i
    using that q(2) f(2) by (simp add: B'f)
  show "proto \<noteq> IPPROTO_TCP \<Longrightarrow> proto \<noteq> IPPROTO_UDP \<Longrightarrow> B' = B"
    by (rule nth_equalityI) (use f(2,6) q(2,5) B'f in simp_all)
  show "B' ! i = B ! i" if "proto = IPPROTO_TCP" "4 \<le> i" "i < 16 \<or> 18 \<le> i" "i < length B" for i
    using that f(4) [of "hl + i"] B'i q(2,4) ne by auto
  show "B' ! i = B ! i" if "proto = IPPROTO_UDP" "4 \<le> i" "i < 6 \<or> 8 \<le> i" "i < length B" for i
    using that f(3,5) [of "hl + i"] B'i q(2,4) ne by auto
  have port: "u16_at B' i = u16_at q (hl + i)" if "i \<le> 2" "4 \<le> length B" for i
    using that B'i [of i] B'i [of "Suc i"] f(3) [of "hl + i"] f(3) [of "hl + Suc i"] q(2)
    by (simp add: u16_at_def)
  show "u16_at B' 0 = case_option (u16_at B 0) (\<lambda>p. p) (Option.bind ns snd)"
    if "proto = IPPROTO_TCP \<or> proto = IPPROTO_UDP" "4 \<le> length B"
    using q(6) [OF that] port [of 0] that by simp
  show "u16_at B' 2 = case_option (u16_at B 2) (\<lambda>p. p) (Option.bind nd snd)"
    if "proto = IPPROTO_TCP \<or> proto = IPPROTO_UDP" "4 \<le> length B"
    using q(7) [OF that] port [of 2] that by simp
  have csum: "u16_at q (hl + 6) = u16_at B 6" if "8 \<le> length B"
    using q(4) [of 6] q(4) [of 7] that by (simp add: u16_at_def add.commute)
  show "proto = IPPROTO_TCP \<Longrightarrow> 18 \<le> length B \<Longrightarrow>
      l4_checksum (Ipv4View_src v) (Ipv4View_dst v) IPPROTO_TCP B' = Some 0"
    using f(7) q(2) by (simp add: addr B'f)
  show "u16_at B' 6 = 0" if "proto = IPPROTO_UDP" "8 \<le> length B" "u16_at B 6 = 0"
    using f(8) csum that q(2) B'i [of 6] B'i [of 7] by (simp add: u16_at_def add.commute)
  show "proto = IPPROTO_UDP \<Longrightarrow> 8 \<le> length B \<Longrightarrow> u16_at B 6 \<noteq> 0 \<Longrightarrow>
      l4_checksum (Ipv4View_src v) (Ipv4View_dst v) IPPROTO_UDP B' = Some 0"
    using f(9) csum q(2) by (simp add: addr B'f)
qed

section \<open>Ports and checksums of the rewritten packet\<close>

lemma proto_neq [simp]:
  "IPPROTO_TCP \<noteq> IPPROTO_UDP" "IPPROTO_UDP \<noteq> IPPROTO_TCP" "IPPROTO_TCP \<noteq> IPPROTO_ICMP"
  "IPPROTO_ICMP \<noteq> IPPROTO_TCP" "IPPROTO_UDP \<noteq> IPPROTO_ICMP" "IPPROTO_ICMP \<noteq> IPPROTO_UDP"
  by (simp_all add: frame_const_defs)

definition port_or :: "u16 option \<Rightarrow> u16 \<Rightarrow> u16" where
  "port_or p q = case_option q (\<lambda>p. p) p"

lemma port_or_simps [simp]: "port_or None q = q" "port_or (Some p) q = p"
  by (simp_all add: port_or_def)

lemma rewrite_TcpView:
  assumes parse: "Ipv4View_parse pkt = Some ip" and rw: "rewrite_packet pkt ip ns nd = Some out"
    and tcp: "Ipv4View_proto ip = IPPROTO_TCP" and t: "TcpView_parse (Ipv4View_payload ip) = Some t"
    and v: "v = Ipv4View out" and t': "t' = TcpView (Ipv4View_payload v)"
  shows "TcpView_parse (Ipv4View_payload v) = Some t'"
    and "TcpView_src_port t' = port_or (Option.bind ns snd) (TcpView_src_port t)"
    and "TcpView_dst_port t' = port_or (Option.bind nd snd) (TcpView_dst_port t)"
    and "TcpView_checksum_valid t' (Ipv4View_src v) (Ipv4View_dst v)"
    and "TcpView_seq t' = TcpView_seq t" and "TcpView_flags t' = TcpView_flags t"
    and "TcpView_payload t' = TcpView_payload t"
proof -
  note body = rewrite_packet_body [OF parse rw refl refl refl v]
  note len = rewrite_packet_view(7) [OF parse rw, folded v]
  have t20: "20 \<le> length (Ipv4View_payload ip)" "TcpView_data_offset t \<le> length (Ipv4View_payload ip)"
    "20 \<le> TcpView_data_offset t" "t = TcpView (Ipv4View_payload ip)"
    using t by (auto simp: TcpView_parse_Some)
  have same: "Ipv4View_payload v ! i = Ipv4View_payload ip ! i"
    if "4 \<le> i" "i < 16 \<or> 18 \<le> i" "i < length (Ipv4View_payload ip)" for i
    using body(2) [OF tcp that] by (simp add: v)
  have off: "TcpView_data_offset t' = TcpView_data_offset t"
    using same [of 12] t20 by (simp add: TcpView_data_offset_def t')
  show "TcpView_parse (Ipv4View_payload v) = Some t'"
    using off t20 len by (simp add: TcpView_parse_Some t')
  show "TcpView_src_port t' = port_or (Option.bind ns snd) (TcpView_src_port t)"
    "TcpView_dst_port t' = port_or (Option.bind nd snd) (TcpView_dst_port t)"
    using body(4,5) tcp t20 by (simp_all add: TcpView_src_port_def TcpView_dst_port_def t' v port_or_def)
  show "TcpView_checksum_valid t' (Ipv4View_src v) (Ipv4View_dst v)"
    using body(6) tcp t20 by (simp add: TcpView_checksum_valid_def t' v)
  show "TcpView_seq t' = TcpView_seq t" "TcpView_flags t' = TcpView_flags t"
    using same t20 by (simp_all add: TcpView_seq_def TcpView_flags_def u32_at_def t')
  show "TcpView_payload t' = TcpView_payload t"
    by (rule nth_equalityI) (use off t20 len same in \<open>auto simp: TcpView_payload_def t'\<close>)
qed

lemma rewrite_UdpView:
  assumes parse: "Ipv4View_parse pkt = Some ip" and rw: "rewrite_packet pkt ip ns nd = Some out"
    and udp: "Ipv4View_proto ip = IPPROTO_UDP" and u: "UdpView_parse (Ipv4View_payload ip) = Some u"
    and v: "v = Ipv4View out" and u': "u' = UdpView (Ipv4View_payload v)"
  shows "UdpView_parse (Ipv4View_payload v) = Some u'"
    and "UdpView_src_port u' = port_or (Option.bind ns snd) (UdpView_src_port u)"
    and "UdpView_dst_port u' = port_or (Option.bind nd snd) (UdpView_dst_port u)"
    and "UdpView_payload u' = UdpView_payload u"
    and "unat (UdpView_len u) = length (Ipv4View_payload ip) \<Longrightarrow>
      UdpView_checksum_valid u' (Ipv4View_src v) (Ipv4View_dst v)"
proof -
  note body = rewrite_packet_body [OF parse rw refl refl refl v]
  note len = rewrite_packet_view(7) [OF parse rw, folded v]
  have u8: "8 \<le> unat (UdpView_len u)" "unat (UdpView_len u) \<le> length (Ipv4View_payload ip)"
    "u = UdpView (Ipv4View_payload ip)"
    using u by (auto simp: UdpView_parse_Some)
  have same: "Ipv4View_payload v ! i = Ipv4View_payload ip ! i"
    if "4 \<le> i" "i < 6 \<or> 8 \<le> i" "i < length (Ipv4View_payload ip)" for i
    using body(3) [OF udp that] by (simp add: v)
  have ulen: "UdpView_len u' = UdpView_len u"
    using same [of 4] same [of 5] u8 by (simp add: UdpView_len_def u16_at_def u')
  show "UdpView_parse (Ipv4View_payload v) = Some u'"
    using ulen u8 len by (simp add: UdpView_parse_Some u')
  show "UdpView_src_port u' = port_or (Option.bind ns snd) (UdpView_src_port u)"
    "UdpView_dst_port u' = port_or (Option.bind nd snd) (UdpView_dst_port u)"
    using body(4,5) udp u8 by (simp_all add: UdpView_src_port_def UdpView_dst_port_def u' v port_or_def)
  show "UdpView_payload u' = UdpView_payload u"
    by (rule nth_equalityI) (use ulen u8 len same in
      \<open>auto simp: UdpView_payload_def UDP_HEADER_LEN_def u'\<close>)
  show "UdpView_checksum_valid u' (Ipv4View_src v) (Ipv4View_dst v)"
    if "unat (UdpView_len u) = length (Ipv4View_payload ip)"
    using body(7,8) udp u8 that len ulen
    by (cases "u16_at (Ipv4View_payload ip) 6 = 0")
      (auto simp: UdpView_checksum_valid_def UdpView_checksum_def u' v)
qed

lemma Meta_of_rewrite:
  assumes parse: "Ipv4View_parse pkt = Some ip" and rw: "rewrite_packet pkt ip ns nd = Some out"
    and ports: "Ipv4View_proto ip = IPPROTO_ICMP \<Longrightarrow> Option.bind ns snd = None \<and> Option.bind nd snd = None"
  shows "m_conn_ports (Meta_of (Ipv4View out)) =
    map_option (\<lambda>(s, d). (port_or (Option.bind ns snd) s, port_or (Option.bind nd snd) d))
      (m_conn_ports (Meta_of ip))"
proof -
  note view = rewrite_packet_view [OF parse rw]
  note body = rewrite_packet_body [OF parse rw refl refl refl refl]
  consider "Ipv4View_proto ip = IPPROTO_TCP" | "Ipv4View_proto ip = IPPROTO_UDP"
    | "Ipv4View_proto ip \<noteq> IPPROTO_TCP" "Ipv4View_proto ip \<noteq> IPPROTO_UDP" by blast
  then show ?thesis
  proof cases
    case 1
    show ?thesis
    proof (cases "TcpView_parse (Ipv4View_payload ip)")
      case None
      then have "TcpView_parse (Ipv4View_payload (Ipv4View out)) = None"
        using body(2) [OF 1, of 12] view(7)
        by (auto simp: TcpView_parse_def Let_def TCP_MIN_HEADER_LEN_def split: if_splits)
      with None show ?thesis using 1 view by (simp add: Meta_of_def)
    next
      case (Some t)
      show ?thesis using rewrite_TcpView [OF parse rw 1 Some refl refl] Some 1 view
        by (simp add: Meta_of_def)
    qed
  next
    case 2
    show ?thesis
    proof (cases "UdpView_parse (Ipv4View_payload ip)")
      case None
      then have "UdpView_parse (Ipv4View_payload (Ipv4View out)) = None"
        using body(3) [OF 2, of 4] body(3) [OF 2, of 5] view(7)
        by (auto simp: UdpView_parse_def Let_def UDP_HEADER_LEN_def u16_at_def split: if_splits)
      with None show ?thesis using 2 view by (simp add: Meta_of_def)
    next
      case (Some t)
      show ?thesis using rewrite_UdpView [OF parse rw 2 Some refl refl] Some 2 view
        by (simp add: Meta_of_def)
    qed
  next
    case 3
    with body(1) view ports show ?thesis
      by (cases "m_conn_ports (Meta_of ip)") (auto simp: Meta_of_def Let_def split: if_splits)
  qed
qed

section \<open>Which rule is chosen\<close>

definition redirect_matches :: "Ipv4View \<Rightarrow> Meta \<Rightarrow> RedirectRule \<Rightarrow> bool" where
  "redirect_matches ip meta r \<longleftrightarrow> hp_ip (rr_from r) = Ipv4View_dst ip \<and>
     filter_ok (rr_proto r) (m_l4 meta) \<and> filter_ok (hp_port (rr_from r)) (m_dst_port meta)"

definition redirect_spec :: "RedirectRule \<Rightarrow> bool" where
  "redirect_spec r \<longleftrightarrow> hp_port (rr_from r) \<noteq> None"

definition block_matches :: "'n ipnet_ops \<Rightarrow> Ipv4View \<Rightarrow> Meta \<Rightarrow> 'n BlockRule \<Rightarrow> bool" where
  "block_matches I ip meta b \<longleftrightarrow> net_contains I (br_cidr b) (Ipv4View_dst ip) \<and>
     filter_ok (br_proto b) (m_l4 meta) \<and> filter_ok (br_port b) (m_dst_port meta)"

definition block_spec :: "'n ipnet_ops \<Rightarrow> 'n BlockRule \<Rightarrow> u8 \<times> bool \<times> bool" where
  "block_spec I b = (net_prefix_len I (br_cidr b), br_port b \<noteq> None, br_proto b \<noteq> None)"

interpretation redirect_scan: best_match "redirect_matches ip meta" redirect_spec
  "\<lambda>best rs. map_option fst
     (best_redirect_loop ip meta (map_option (\<lambda>r. (r, redirect_spec r)) best) rs)" for ip meta
proof unfold_locales
  fix best r rs
  show "map_option fst (best_redirect_loop ip meta (map_option (\<lambda>r. (r, redirect_spec r)) best) []) = best"
    by (cases best) simp_all
  show "map_option fst
      (best_redirect_loop ip meta (map_option (\<lambda>r. (r, redirect_spec r)) best) (r # rs)) =
    map_option fst (best_redirect_loop ip meta (map_option (\<lambda>r. (r, redirect_spec r))
      (if redirect_matches ip meta r \<and>
          (case best of None \<Rightarrow> True | Some b \<Rightarrow> redirect_spec b < redirect_spec r)
       then Some r else best)) rs)"
    by (cases best) (auto simp: redirect_matches_def redirect_spec_def Let_def)
qed

interpretation block_scan: best_match "block_matches I ip meta" "block_spec I"
  "\<lambda>best rs. map_option fst
     (best_block_loop I ip meta (map_option (\<lambda>r. (r, block_spec I r)) best) rs)" for I ip meta
proof unfold_locales
  fix best r rs
  show "map_option fst (best_block_loop I ip meta (map_option (\<lambda>r. (r, block_spec I r)) best) []) = best"
    by (cases best) simp_all
  show "map_option fst (best_block_loop I ip meta (map_option (\<lambda>r. (r, block_spec I r)) best) (r # rs)) =
    map_option fst (best_block_loop I ip meta (map_option (\<lambda>r. (r, block_spec I r))
      (if block_matches I ip meta r \<and>
          (case best of None \<Rightarrow> True | Some b \<Rightarrow> block_spec I b < block_spec I r)
       then Some r else best)) rs)"
    by (cases best) (auto simp: block_matches_def block_spec_def Let_def simp del: less_prod_simp)
qed

lemma best_redirect_None_iff:
  "best_redirect rs ip meta = None \<longleftrightarrow> (\<forall>(i, r) \<in> set (rs_redirects rs). \<not> redirect_matches ip meta r)"
  using redirect_scan.scan_None_iff [of ip meta "map snd (rs_redirects rs)"]
  by (auto simp: best_redirect_def)

lemma best_block_None_iff:
  "best_block I rs ip meta = None \<longleftrightarrow> (\<forall>(i, b) \<in> set (rs_blocks rs). \<not> block_matches I ip meta b)"
  using block_scan.scan_None_iff [of I ip meta "map snd (rs_blocks rs)"]
  by (auto simp: best_block_def)

lemma expire_conns_rules [simp]:
  "rs_redirects (expire_conns t rs) = rs_redirects rs" "rs_blocks (expire_conns t rs) = rs_blocks rs"
  "rs_next_id (expire_conns t rs) = rs_next_id rs"
  by (simp_all add: expire_conns_def expire_conns_older_than_def)

lemma record_conn_rules [simp]:
  "rs_redirects (record_conn t ip meta a p rs) = rs_redirects rs"
  "rs_blocks (record_conn t ip meta a p rs) = rs_blocks rs"
  "rs_next_id (record_conn t ip meta a p rs) = rs_next_id rs"
  by (simp_all add: record_conn_def split: option.split prod.split)

lemma best_redirect_expire [simp]: "best_redirect (expire_conns t rs) = best_redirect rs"
  by (simp add: best_redirect_def fun_eq_iff)

lemma best_block_expire [simp]: "best_block I (expire_conns t rs) = best_block I rs"
  by (simp add: best_block_def fun_eq_iff)

lemma eval_redirected:
  assumes "Ipv4View_parse pkt = Some ip" and "best_redirect rs ip (Meta_of ip) = Some r"
    and nd: "nd = (hp_ip (rr_to r), map_option (port_or (hp_port (rr_to r))) (m_dst_port (Meta_of ip)))"
  obtains out where "rewrite_packet pkt ip None (Some nd) = Some out"
    and "RuleSet_eval I t0 t1 rs pkt =
      (record_conn t1 ip (Meta_of ip) (fst nd) (snd nd) (expire_conns t0 rs), Rewrite out)"
proof -
  obtain out where "rewrite_packet pkt ip None (Some nd) = Some out"
    using rewrite_packet_total assms(1) by blast
  with assms that show ?thesis
    by (auto simp: RuleSet_eval_def Let_def port_or_def [abs_def])
qed

section \<open>Properties of the rule engine\<close>

text \<open>A datagram from 10.0.0.2:40000 to 1.2.3.4:53 and a redirect of that endpoint.\<close>

definition sample_udp :: bytes where
  "sample_udp = [0x45, 0, 0, 29, 0, 9, 0, 0, 64, 17, 0, 0, 10, 0, 0, 2, 1, 2, 3, 4,
     0x9C, 0x40, 0, 53, 0, 9, 0, 0, 0xAA]"

definition sample_redirect :: RedirectRule where
  "sample_redirect = \<lparr>rr_from = \<lparr>hp_ip = Ipv4Addr 1 2 3 4, hp_port = Some 53\<rparr>,
     rr_to = \<lparr>hp_ip = Ipv4Addr 10 0 0 99, hp_port = Some 5353\<rparr>, rr_proto = None, rr_span = (0, 0)\<rparr>"

definition sample_rules :: "Cidr RuleSet" where
  "sample_rules = \<lparr>rs_next_id = 2,
     rs_redirects = [(RuleId 1, sample_redirect\<lparr>rr_from := \<lparr>hp_ip = Ipv4Addr 1 2 3 4, hp_port = None\<rparr>\<rparr>),
       (RuleId 2, sample_redirect)], rs_blocks = [], rs_conns = []\<rparr>"

lemma sample_udp_view:
  "Ipv4View_parse sample_udp = Some (Ipv4View sample_udp)"
  "Ipv4View_src (Ipv4View sample_udp) = Ipv4Addr 10 0 0 2"
  "Ipv4View_dst (Ipv4View sample_udp) = Ipv4Addr 1 2 3 4"
  "Ipv4View_proto (Ipv4View sample_udp) = IPPROTO_UDP"
  "Meta_of (Ipv4View sample_udp) =
     \<lparr>m_l4 = Some Udp, m_dst_port = Some 53, m_conn_ports = Some (40000, 53)\<rparr>"
  by (simp_all add: sample_udp_def Meta_of_def frame_eval view_eval from_be16_def)

lemma sample_best_redirect:
  "best_redirect sample_rules (Ipv4View sample_udp) (Meta_of (Ipv4View sample_udp)) =
     Some sample_redirect"
  by (simp add: sample_udp_view best_redirect_def sample_rules_def sample_redirect_def
      filter_ok_def Let_def)

text \<open>
  The redirect chosen for a packet matches it; every matching rule declared before it lacks a
  port while it has one, and a matching rule with a port declared after it finds it with a port:
  \<open>ip:port\<close> beats \<open>ip\<close>, and ties go to the earliest rule.
\<close>

theorem best_redirect_most_specific:
  assumes "best_redirect rs ip meta = Some r"
  shows "\<exists>xs ys. map snd (rs_redirects rs) = xs @ r # ys \<and> redirect_matches ip meta r \<and>
    (\<forall>x \<in> set xs. redirect_matches ip meta x \<longrightarrow>
       hp_port (rr_from x) = None \<and> hp_port (rr_from r) \<noteq> None) \<and>
    (\<forall>x \<in> set ys. redirect_matches ip meta x \<longrightarrow> hp_port (rr_from x) \<noteq> None \<longrightarrow>
       hp_port (rr_from r) \<noteq> None)"
  using redirect_scan.scan_selects [of ip meta "map snd (rs_redirects rs)" r] assms
  by (simp add: best_redirect_def redirect_spec_def)

theorem best_redirect_most_specific_witness:
  "\<exists>xs ys. map snd (rs_redirects sample_rules) = xs @ sample_redirect # ys \<and>
     redirect_matches (Ipv4View sample_udp) (Meta_of (Ipv4View sample_udp)) sample_redirect"
  using best_redirect_most_specific [OF sample_best_redirect] by blast

text \<open>
  C21: the verdict on a well-formed packet is decided by the two layers in order. It is rewritten
  exactly when some redirect matches it, dropped exactly when no redirect and some block matches,
  and passed otherwise, whatever the state of the translation table.
\<close>

theorem eval_layers:
  assumes "Ipv4View_parse pkt = Some ip"
  shows "case snd (RuleSet_eval I ta tb rs pkt) of
      Rewrite out \<Rightarrow> \<exists>(i, r) \<in> set (rs_redirects rs). redirect_matches ip (Meta_of ip) r
    | Drop answer \<Rightarrow> (\<forall>(i, r) \<in> set (rs_redirects rs). \<not> redirect_matches ip (Meta_of ip) r) \<and>
        (\<exists>(i, b) \<in> set (rs_blocks rs). block_matches I ip (Meta_of ip) b)
    | Pass \<Rightarrow> (\<forall>(i, r) \<in> set (rs_redirects rs). \<not> redirect_matches ip (Meta_of ip) r) \<and>
        (\<forall>(i, b) \<in> set (rs_blocks rs). \<not> block_matches I ip (Meta_of ip) b)"
proof (cases "best_redirect rs ip (Meta_of ip)")
  case None
  then show ?thesis
    using assms best_redirect_None_iff [of rs ip "Meta_of ip"]
      best_block_None_iff [of I rs ip "Meta_of ip"]
    by (auto simp: RuleSet_eval_def Let_def)
next
  case (Some r)
  obtain out where "snd (RuleSet_eval I ta tb rs pkt) = Rewrite out"
    by (rule eval_redirected [OF assms Some refl, of I ta tb]) simp
  moreover have "\<not> (\<forall>(i, r) \<in> set (rs_redirects rs). \<not> redirect_matches ip (Meta_of ip) r)"
    using Some best_redirect_None_iff [of rs ip "Meta_of ip"] by simp
  ultimately show ?thesis by auto
qed

theorem eval_layers_witness:
  "case snd (RuleSet_eval cidr_net 5 6 sample_rules sample_udp) of
      Rewrite out \<Rightarrow> \<exists>(i, r) \<in> set (rs_redirects sample_rules).
        redirect_matches (Ipv4View sample_udp) (Meta_of (Ipv4View sample_udp)) r
    | _ \<Rightarrow> False"
proof -
  obtain out where "snd (RuleSet_eval cidr_net 5 6 sample_rules sample_udp) = Rewrite out"
    by (rule eval_redirected [OF sample_udp_view(1) sample_best_redirect refl, of cidr_net 5 6]) simp
  then show ?thesis
    using eval_layers [OF sample_udp_view(1), where I = cidr_net and ta = 5 and tb = 6 and
        rs = sample_rules] by simp
qed



subsection \<open>A redirected exchange\<close>

lemma conn_ports_dst:
  "Ipv4View_proto ip = IPPROTO_TCP \<or> Ipv4View_proto ip = IPPROTO_UDP \<Longrightarrow>
   m_dst_port (Meta_of ip) = map_option snd (m_conn_ports (Meta_of ip))"
  by (cases "TcpView_parse (Ipv4View_payload ip)"; cases "UdpView_parse (Ipv4View_payload ip)")
    (auto simp: Meta_of_def Let_def)

lemma conn_ports_proto:
  "m_conn_ports (Meta_of ip) = Some p \<Longrightarrow> Ipv4View_proto ip \<in> {IPPROTO_TCP, IPPROTO_UDP, IPPROTO_ICMP}"
  by (auto simp: Meta_of_def split: if_splits)

lemma icmp_no_dst_port: "Ipv4View_proto ip = IPPROTO_ICMP \<Longrightarrow> m_dst_port (Meta_of ip) = None"
  by (simp add: Meta_of_def)

lemma redirect_reply:
  assumes ip: "Ipv4View_parse pkt = Some ip"
    and eval: "RuleSet_eval I t0 t1 rs pkt = (rs', Rewrite out)"
    and ports: "m_conn_ports (Meta_of ip) = Some (sport, dport)"
    and echo: "Ipv4View_proto ip = IPPROTO_ICMP \<Longrightarrow> dport = 0"
    and rip: "Ipv4View_parse answer = Some rip"
    and from_target: "Ipv4View_src rip = Ipv4View_dst (Ipv4View out)"
    and to_guest: "Ipv4View_dst rip = Ipv4View_src ip"
    and same_proto: "Ipv4View_proto rip = Ipv4View_proto ip"
    and swapped: "m_conn_ports (Meta_of rip) =
      map_option prod.swap (m_conn_ports (Meta_of (Ipv4View out)))"
    and fresh: "t2 - t1 < CONN_IDLE"
  shows "\<exists>rs'' restored. RuleSet_eval_return t2 t3 rs' answer = (rs'', Rewrite restored) \<and>
    rewrite_packet answer rip (Some (Ipv4View_dst ip, m_dst_port (Meta_of ip))) None = Some restored \<and>
    m_conn_ports (Meta_of (Ipv4View restored)) = Some (dport, sport)"
proof -
  obtain r where r: "best_redirect rs ip (Meta_of ip) = Some r"
    using eval ip by (auto simp: RuleSet_eval_def Let_def split: option.splits if_splits)
  define new_port where "new_port = map_option (port_or (hp_port (rr_to r))) (m_dst_port (Meta_of ip))"
  obtain out' where o: "rewrite_packet pkt ip None (Some (hp_ip (rr_to r), new_port)) = Some out'"
      "RuleSet_eval I t0 t1 rs pkt = (record_conn t1 ip (Meta_of ip) (hp_ip (rr_to r)) new_port
        (expire_conns t0 rs), Rewrite out')"
    by (rule eval_redirected [OF ip r refl, of I t0 t1]) (auto simp: new_port_def)
  have out: "out' = out" and rs': "rs' = record_conn t1 ip (Meta_of ip) (hp_ip (rr_to r)) new_port
      (expire_conns t0 rs)"
    using eval o(2) by simp_all
  have np: "Ipv4View_proto ip = IPPROTO_ICMP \<Longrightarrow> new_port = None"
    by (simp add: new_port_def icmp_no_dst_port)
  have mo: "m_conn_ports (Meta_of (Ipv4View out)) = Some (sport, port_or new_port dport)"
    using Meta_of_rewrite [OF ip o(1)] np ports out by auto
  then have rports: "m_conn_ports (Meta_of rip) = Some (port_or new_port dport, sport)"
    using swapped by simp
  have tgt: "Ipv4View_dst (Ipv4View out) = hp_ip (rr_to r)"
    using rewrite_packet_view(5) [OF ip o(1)] out by simp
  define key where "key = \<lparr>ck_src = Ipv4View_src rip, ck_sport = port_or new_port dport,
    ck_dst = Ipv4View_dst rip, ck_dport = sport, ck_proto = Ipv4View_proto rip\<rparr>"
  have conn: "hm_get (rs_conns rs') key = Some \<lparr>rv_orig_ip = Ipv4View_dst ip,
      rv_orig_port = m_dst_port (Meta_of ip), rv_last = t1\<rparr>"
    using conn_ports_proto [OF ports] ports echo np from_target to_guest same_proto tgt
    by (auto simp: rs' record_conn_def key_def port_or_def)
  define ns where "ns = (Ipv4View_dst ip, m_dst_port (Meta_of ip))"
  obtain restored where restored: "rewrite_packet answer rip (Some ns) None = Some restored"
    using rewrite_packet_total [OF rip] by blast
  have ret: "\<exists>rs''. RuleSet_eval_return t2 t3 rs' answer = (rs'', Rewrite restored)"
    using rip rports conn fresh restored
    by (simp add: RuleSet_eval_return_def Let_def key_def ns_def)
  have "port_or (m_dst_port (Meta_of ip)) (port_or new_port dport) = dport"
    using conn_ports_proto [OF ports] ports echo np icmp_no_dst_port conn_ports_dst [of ip] by auto
  then have "m_conn_ports (Meta_of (Ipv4View restored)) = Some (dport, sport)"
    using Meta_of_rewrite [OF rip restored] rports same_proto icmp_no_dst_port [of ip]
    by (auto simp: ns_def)
  then show ?thesis
    using ret restored by (auto simp: ns_def)
qed


definition sample_answer :: bytes where
  "sample_answer = [0x45, 0, 0, 29, 0, 7, 0, 0, 64, 17, 0, 0, 10, 0, 0, 99, 10, 0, 0, 2,
     0x14, 0xE9, 0x9C, 0x40, 0, 9, 0, 0, 0xBB]"

lemma sample_answer_view:
  "Ipv4View_parse sample_answer = Some (Ipv4View sample_answer)"
  "Ipv4View_src (Ipv4View sample_answer) = Ipv4Addr 10 0 0 99"
  "Ipv4View_dst (Ipv4View sample_answer) = Ipv4Addr 10 0 0 2"
  "Ipv4View_proto (Ipv4View sample_answer) = IPPROTO_UDP"
  "Meta_of (Ipv4View sample_answer) =
     \<lparr>m_l4 = Some Udp, m_dst_port = Some 40000, m_conn_ports = Some (5353, 40000)\<rparr>"
  by (simp_all add: sample_answer_def Meta_of_def frame_eval view_eval from_be16_def)


subsection \<open>Answers to blocked packets\<close>

lemma eval_Drop:
  assumes "Ipv4View_parse pkt = Some ip" and "snd (RuleSet_eval I ta tb rs pkt) = Drop answer"
  shows "answer = block_reply (take (unat (Ipv4View_total_len ip)) pkt) ip"
  using assms by (auto simp: RuleSet_eval_def Let_def split: option.splits if_splits)

text \<open>
  C26: a blocked TCP segment is answered with a reset unless it is one itself. The answer is a
  valid packet from the blocked address and port to the guest's. Following RFC 793, it takes its
  sequence number from the segment's acknowledgement if there is one; otherwise it has sequence
  number zero and acknowledges the segment's data, SYN and FIN.
\<close>

theorem blocked_tcp_reset:
  assumes ip: "Ipv4View_parse pkt = Some ip"
    and drop: "snd (RuleSet_eval I ta tb rs pkt) = Drop answer"
    and tcp: "Ipv4View_proto ip = IPPROTO_TCP" and t: "TcpView_parse (Ipv4View_payload ip) = Some t"
  shows "case answer of None \<Rightarrow> TcpView_is_rst t
    | Some r \<Rightarrow> \<not> TcpView_is_rst t \<and> (\<exists>v w. Ipv4View_parse r = Some v \<and>
        Ipv4View_src v = Ipv4View_dst ip \<and> Ipv4View_dst v = Ipv4View_src ip \<and>
        Ipv4View_proto v = IPPROTO_TCP \<and> Ipv4View_checksum_valid v \<and>
        TcpView_parse (Ipv4View_payload v) = Some w \<and> TcpView_payload w = [] \<and>
        TcpView_src_port w = TcpView_dst_port t \<and> TcpView_dst_port w = TcpView_src_port t \<and>
        TcpView_is_rst w \<and> TcpView_checksum_valid w (Ipv4View_src v) (Ipv4View_dst v) \<and>
        (if TcpView_is_ack t then TcpView_seq w = TcpView_ack t \<and> \<not> TcpView_is_ack w
         else TcpView_seq w = 0 \<and> TcpView_is_ack w \<and>
           TcpView_ack w = TcpView_seq t + of_nat (length (TcpView_payload t)) +
             of_bool (TcpView_is_syn t) + of_bool (TcpView_is_fin t)))"
proof (cases "TcpView_is_rst t")
  case True
  then show ?thesis using eval_Drop [OF ip drop] tcp t by (simp add: block_reply_def)
next
  case False
  define f where "f = \<lparr>tf_src_port = TcpView_dst_port t, tf_dst_port = TcpView_src_port t,
     tf_seq = (if TcpView_is_ack t then TcpView_ack t else 0),
     tf_ack = (if TcpView_is_ack t then 0 else TcpView_seq t +
       (of_nat (length (TcpView_payload t)) + of_bool (TcpView_is_syn t) + of_bool (TcpView_is_fin t))),
     tf_flags = (if TcpView_is_ack t then TCP_RST else TCP_RST OR TCP_ACK),
     tf_window = 0, tf_options = []\<rparr>"
  have "20 + length (tcp_opts f) + length ([] :: bytes) < 65536"
    using length_tcp_opts_le [of f] by simp
  then obtain seg where seg: "tcp_build (Ipv4View_dst ip) (Ipv4View_src ip) f [] = Some seg"
    using tcp_build_Some_iff [of _ _ f "[]"] by auto
  note w = tcp_build_view [OF seg refl]
  have "length seg < 65516" using length_tcp_build [OF seg] length_tcp_opts_le [of f] by simp
  then obtain r where r: "ipv4_build (Ipv4View_dst ip) (Ipv4View_src ip) IPPROTO_TCP 64 seg 0 = Some r"
    using ipv4_build_Some_iff by blast
  have "answer = Some r"
    using eval_Drop [OF ip drop] tcp t False seg r
    by (cases "TcpView_is_ack t") (simp_all add: block_reply_def Let_def f_def)
  then show ?thesis
    using False w ipv4_build_view [OF r refl, where pad = "[]"]
    by (auto simp: f_def TcpView_is_rst_def TcpView_is_ack_def frame_const_defs add.assoc
        intro!: exI [of _ "Ipv4View r"])
qed

definition sample_syn :: bytes where
  "sample_syn = [0x45, 0, 0, 40, 0, 1, 0, 0, 64, 6, 0, 0, 10, 0, 0, 2, 1, 2, 3, 4,
     0x9C, 0x40, 0, 80, 0, 0, 0, 7, 0, 0, 0, 0, 0x50, 2, 0, 0, 0, 0, 0, 0]"

definition sample_block :: "Cidr RuleSet" where
  "sample_block = \<lparr>rs_next_id = 1, rs_redirects = [],
     rs_blocks = [(RuleId 1, \<lparr>br_cidr = Cidr (Ipv4Addr 1 2 3 0) 24, br_proto = None, br_port = None,
       br_span = (0, 0)\<rparr>)], rs_conns = []\<rparr>"

lemma sample_contains: "net_contains cidr_net (Cidr (Ipv4Addr 1 2 3 0) 24) (Ipv4Addr 1 2 3 4)"
  by (simp add: cidr_net_def cidr_lo_def cidr_hi_def host_bits_def from_be32_def)

lemma sample_block_drops:
  assumes "Ipv4View_parse pkt = Some ip" and "Ipv4View_dst ip = Ipv4Addr 1 2 3 4"
  shows "\<exists>answer. snd (RuleSet_eval cidr_net ta tb sample_block pkt) = Drop answer"
proof -
  have "block_matches cidr_net ip (Meta_of ip) (snd (rs_blocks sample_block ! 0))"
    using assms sample_contains by (simp add: block_matches_def sample_block_def filter_ok_def)
  moreover have "rs_blocks sample_block ! 0 \<in> set (rs_blocks sample_block)"
    by (simp add: sample_block_def)
  ultimately have "best_block cidr_net sample_block ip (Meta_of ip) \<noteq> None"
    using best_block_None_iff [of cidr_net sample_block ip "Meta_of ip"] by force
  moreover have "best_redirect sample_block ip (Meta_of ip) = None"
    by (simp add: best_redirect_def sample_block_def)
  ultimately show ?thesis using assms by (auto simp: RuleSet_eval_def Let_def)
qed

lemma sample_syn_view:
  "Ipv4View_parse sample_syn = Some (Ipv4View sample_syn)"
  "Ipv4View_dst (Ipv4View sample_syn) = Ipv4Addr 1 2 3 4"
  "Ipv4View_proto (Ipv4View sample_syn) = IPPROTO_TCP"
  "TcpView_parse (Ipv4View_payload (Ipv4View sample_syn)) = Some (TcpView (drop 20 sample_syn))"
  "\<not> TcpView_is_rst (TcpView (drop 20 sample_syn))"
  by (simp_all add: sample_syn_def TcpView_is_rst_def frame_eval view_eval from_be16_def)

theorem blocked_tcp_reset_witness:
  "\<exists>r v. snd (RuleSet_eval cidr_net 5 6 sample_block sample_syn) = Drop (Some r) \<and>
     Ipv4View_parse r = Some v \<and> Ipv4View_src v = Ipv4Addr 1 2 3 4"
proof -
  obtain answer where "snd (RuleSet_eval cidr_net 5 6 sample_block sample_syn) = Drop answer"
    using sample_block_drops [OF sample_syn_view(1,2)] by blast
  with blocked_tcp_reset [OF sample_syn_view(1) this sample_syn_view(3,4)] show ?thesis
    by (auto simp: sample_syn_view split: option.splits)
qed

text \<open>
  A blocked packet that is not TCP is always answered with an ICMP destination-unreachable
  message from the blocked address to the guest: port unreachable for UDP, host unreachable for
  the rest. It quotes the offending packet's IP header and the first eight bytes behind it.
\<close>

theorem blocked_other_unreachable:
  assumes ip: "Ipv4View_parse pkt = Some ip"
    and drop: "snd (RuleSet_eval I ta tb rs pkt) = Drop answer"
    and proto: "Ipv4View_proto ip \<noteq> IPPROTO_TCP"
  shows "\<exists>r v w. answer = Some r \<and> Ipv4View_parse r = Some v \<and>
     Ipv4View_src v = Ipv4View_dst ip \<and> Ipv4View_dst v = Ipv4View_src ip \<and>
     Ipv4View_proto v = IPPROTO_ICMP \<and> Ipv4View_checksum_valid v \<and>
     IcmpView_parse (Ipv4View_payload v) = Some w \<and> IcmpView_checksum_valid w \<and>
     IcmpView_icmp_type w = ICMP_DEST_UNREACHABLE \<and>
     IcmpView_code w = (if Ipv4View_proto ip = IPPROTO_UDP then 3 else 1) \<and>
     IcmpView_payload w = take (Ipv4View_header_len ip + 8) (take (unat (Ipv4View_total_len ip)) pkt)"
proof -
  note b = ipv4_parse_bounds [OF ip]
  let ?raw = "take (unat (Ipv4View_total_len ip)) pkt"
  let ?code = "if Ipv4View_proto ip = IPPROTO_UDP then 3 else 1"
  let ?q = "take (Ipv4View_header_len ip + 8) ?raw"
  let ?m = "icmp_build ICMP_DEST_UNREACHABLE ?code [0, 0, 0, 0] ?q"
  have raw: "?raw ! i = pkt ! i" if "i < 20" for i using that b by simp
  have hl: "Ipv4View_header_len (Ipv4View ?raw) = Ipv4View_header_len ip"
    "Ipv4View_total_len (Ipv4View ?raw) = Ipv4View_total_len ip"
    using b(1) raw by (simp_all add: Ipv4View_header_len_def Ipv4View_ihl_def Ipv4View_total_len_def
        u16_at_def)
  have "Ipv4View_parse ?raw = Some (Ipv4View ?raw)"
    using ip raw [of 0] hl b by (simp add: Ipv4View_parse_Some)
  then have m: "icmp_unreachable_for ?raw ?code = ?m"
    by (simp add: icmp_unreachable_for_def hl min_absorb2 [OF b(5)] min.commute)
  note w = icmp_build_view [where rest = "[0, 0, 0, 0]", OF _ refl, where ty = ICMP_DEST_UNREACHABLE
      and code = ?code and payload = ?q]
  have q: "length ?q \<le> 68" using Ipv4View_header_len_le [of ip] by simp
  then have "length ?m < 65516" using w(6) by simp
  then obtain r where r: "ipv4_build (Ipv4View_dst ip) (Ipv4View_src ip) IPPROTO_ICMP 64 ?m 0 = Some r"
    using ipv4_build_Some_iff by blast
  have "answer = Some r"
    using eval_Drop [OF ip drop] proto r m by (simp add: block_reply_def Let_def split: if_splits)
  then show ?thesis
    using ipv4_build_view [OF r refl, where pad = "[]"] w q
    by (intro exI [of _ r] exI [of _ "Ipv4View r"] exI [of _ "IcmpView ?m"]) simp
qed

theorem blocked_other_unreachable_witness:
  "\<exists>r v. snd (RuleSet_eval cidr_net 5 6 sample_block sample_udp) = Drop (Some r) \<and>
     Ipv4View_parse r = Some v \<and> Ipv4View_src v = Ipv4Addr 1 2 3 4 \<and>
     Ipv4View_dst v = Ipv4Addr 10 0 0 2"
proof -
  obtain answer where "snd (RuleSet_eval cidr_net 5 6 sample_block sample_udp) = Drop answer"
    using sample_block_drops [OF sample_udp_view(1,3)] by blast
  with blocked_other_unreachable [OF sample_udp_view(1) this] show ?thesis
    by (auto simp: sample_udp_view)
qed

section \<open>Installing and removing rules\<close>

datatype 'n RuleEvent = AddBlock "'n BlockRule" | AddRedirect RedirectRule | RemoveRule RuleId
  | EvalPacket nat nat bytes | EvalReturn nat nat bytes

fun rules_step :: "'n ipnet_ops \<Rightarrow> 'n RuleSet \<Rightarrow> 'n RuleEvent \<Rightarrow> 'n RuleSet" where
  "rules_step I rs (AddBlock b) = fst (add_block b rs)"
| "rules_step I rs (AddRedirect r) = fst (add_redirect r rs)"
| "rules_step I rs (RemoveRule i) = fst (RuleSet_remove i rs)"
| "rules_step I rs (EvalPacket t0 t1 pkt) = fst (RuleSet_eval I t0 t1 rs pkt)"
| "rules_step I rs (EvalReturn t0 t1 pkt) = fst (RuleSet_eval_return t0 t1 rs pkt)"

definition rule_ids :: "'n RuleSet \<Rightarrow> RuleId list" where
  "rule_ids rs = map fst (rs_redirects rs) @ map fst (rs_blocks rs)"

fun rule_id_nat :: "RuleId \<Rightarrow> nat" where
  "rule_id_nat (RuleId i) = unat i"

definition rules_inv :: "'n RuleSet \<Rightarrow> bool" where
  "rules_inv rs \<longleftrightarrow> distinct (rule_ids rs) \<and>
     (\<forall>i \<in> set (rule_ids rs). 0 < rule_id_nat i \<and> rule_id_nat i \<le> unat (rs_next_id rs)) \<and>
     hm_wf (rs_conns rs)"

definition ids_left :: "'n RuleSet \<Rightarrow> 'e \<Rightarrow> bool" where
  "ids_left rs e \<longleftrightarrow> rs_next_id rs \<noteq> - 1"

lemma next_id_Suc: "rs_next_id rs \<noteq> - 1 \<Longrightarrow> unat (rs_next_id rs + 1) = Suc (unat (rs_next_id rs))"
  using unatSuc [of "rs_next_id rs"] by (metis add.commute add_eq_0_iff)

lemma expire_wf: "hm_wf (rs_conns rs) \<Longrightarrow> hm_wf (rs_conns (expire_conns t rs))"
  by (simp add: expire_conns_def expire_conns_older_than_def)

lemma record_wf: "hm_wf (rs_conns rs) \<Longrightarrow> hm_wf (rs_conns (record_conn t ip meta a p rs))"
  by (simp add: record_conn_def Let_def split: option.split prod.split)

lemma eval_state:
  assumes "hm_wf (rs_conns rs)"
  shows "rule_ids (fst (RuleSet_eval I t0 t1 rs pkt)) = rule_ids rs"
    and "rs_next_id (fst (RuleSet_eval I t0 t1 rs pkt)) = rs_next_id rs"
    and "hm_wf (rs_conns (fst (RuleSet_eval I t0 t1 rs pkt)))"
  using assms
  by (simp_all add: RuleSet_eval_def rule_ids_def expire_wf record_wf Let_def split: option.split)

lemma eval_return_state:
  assumes "hm_wf (rs_conns rs)"
  shows "rule_ids (fst (RuleSet_eval_return t0 t1 rs pkt)) = rule_ids rs"
    and "rs_next_id (fst (RuleSet_eval_return t0 t1 rs pkt)) = rs_next_id rs"
    and "hm_wf (rs_conns (fst (RuleSet_eval_return t0 t1 rs pkt)))"
  using assms
  by (simp_all add: RuleSet_eval_return_def rule_ids_def Let_def split: option.split prod.split)

interpretation rules_run: event_machine "rules_step I" ids_left rules_inv for I :: "'n ipnet_ops"
proof unfold_locales
  fix rs :: "'n RuleSet" and e :: "'n RuleEvent"
  assume inv: "rules_inv rs" and left: "ids_left rs e"
  from left have S: "unat (rs_next_id rs + 1) = Suc (unat (rs_next_id rs))"
    by (intro next_id_Suc) (simp add: ids_left_def)
  have new: "RuleId (rs_next_id rs + 1) \<notin> set (rule_ids rs)"
  proof
    assume "RuleId (rs_next_id rs + 1) \<in> set (rule_ids rs)"
    with inv have "rule_id_nat (RuleId (rs_next_id rs + 1)) \<le> unat (rs_next_id rs)"
      unfolding rules_inv_def by blast
    with S show False by simp
  qed
  show "rules_inv (rules_step I rs e)"
  proof (cases e)
    case (RemoveRule i)
    with inv show ?thesis
      by (auto simp: rules_inv_def rule_ids_def RuleSet_remove_def Let_def distinct_map_filter)
  qed (use inv new S eval_state [of rs I] eval_return_state [of rs] in
      \<open>auto simp: rules_inv_def rule_ids_def add_block_def add_redirect_def alloc_id_def Let_def
        intro: le_SucI\<close>)
qed

lemma next_id_step:
  "unat (rs_next_id (rules_step I rs e)) \<le> Suc (unat (rs_next_id rs))"
proof (cases e)
  case (EvalPacket t0 t1 pkt)
  have "rs_next_id (fst (RuleSet_eval I t0 t1 rs pkt)) = rs_next_id rs"
    by (simp add: RuleSet_eval_def Let_def split: option.split)
  with EvalPacket show ?thesis by simp
next
  case (EvalReturn t0 t1 pkt)
  have "rs_next_id (fst (RuleSet_eval_return t0 t1 rs pkt)) = rs_next_id rs"
    by (simp add: RuleSet_eval_return_def Let_def split: option.split prod.split)
  with EvalReturn show ?thesis by simp
qed (auto simp: add_block_def add_redirect_def alloc_id_def RuleSet_remove_def Let_def unat_word_ariths)

lemma rules_run_ok:
  "unat (rs_next_id rs) + length es \<le> 18446744073709551615 \<Longrightarrow> rules_run.run_ok I rs es"
proof (induction es arbitrary: rs)
  case (Cons e es)
  have "unat (- 1 :: u64) = 18446744073709551615"
    by (simp add: unsigned_minus_1_eq_mask mask_eq_exp_minus_1)
  then have "ids_left rs e" using Cons.prems by (auto simp: ids_left_def)
  with Cons next_id_step [of I rs e] show ?case by simp
qed simp

lemma reachable_rules:
  assumes "length es < 18446744073709551615"
  shows "rules_inv (foldl (rules_step I) RuleSet_new es)"
    and "rs_next_id (foldl (rules_step I) RuleSet_new es) \<noteq> - 1"
proof -
  let ?rs = "foldl (rules_step I) RuleSet_new es"
  have ok: "rules_run.run_ok I RuleSet_new (es @ [RemoveRule (RuleId 0)])"
    using assms by (intro rules_run_ok) (simp add: RuleSet_new_def)
  have init: "rules_inv (RuleSet_new :: 'a RuleSet)"
    by (simp add: rules_inv_def rule_ids_def RuleSet_new_def)
  from rules_run.run_append_inv [OF init ok]
  show "rules_inv ?rs" "rs_next_id ?rs \<noteq> - 1"
    by (simp_all add: ids_left_def)
qed

lemma filter_fst_neq: "i \<notin> fst ` set xs \<Longrightarrow> filter (\<lambda>(j, _). j \<noteq> i) xs = xs"
  by (induction xs) auto



end
