(* ===== verification/Router_Lemmas.thy ===== *)
theory Router_Lemmas
  imports Router Gateway_Lemmas Rules_Lemmas
begin

text \<open>
  Properties of inter-segment routing: frames cross only between segments that are connected, a routed
  packet is the sender's packet one hop on, and the routes offered by DHCP follow the connections.
\<close>

section \<open>The table's invariant\<close>

definition router_inv :: "'n Router \<Rightarrow> bool" where
  "router_inv r \<longleftrightarrow>
     (\<forall>name leg. hm_get (rt_legs r) name = Some leg \<longrightarrow> lg_name leg = name) \<and>
     sorted (rt_pairs r) \<and> distinct (rt_pairs r) \<and>
     (\<forall>(a, b) \<in> set (rt_pairs r). a < b \<and> hm_contains (rt_legs r) a \<and> hm_contains (rt_legs r) b)"

definition links_of :: "'n Router \<Rightarrow> string set set" where
  "links_of r = (\<lambda>(a, b). {a, b}) ` set (rt_pairs r)"

lemma set_map_filter: "y \<in> set (List.map_filter f xs) \<longleftrightarrow> (\<exists>x \<in> set xs. f x = Some y)"
  by (induction xs) (auto simp: List.map_filter_simps split: option.split)

lemma peers_of_iff:
  "p \<in> set (peers_of r name) \<longleftrightarrow>
     (\<exists>pair \<in> set (rt_pairs r). \<exists>other. other_end name pair = Some other \<and> hm_get (rt_legs r) other = Some p)"
  by (simp add: peers_of_def set_map_filter bind_eq_Some_conv)

lemma other_end_link: "other_end name (a, b) = Some other \<Longrightarrow> {a, b} = {name, other}"
  by (auto simp: other_end_def split: if_splits)

lemma link_other_end: "{a, b} = {name, other} \<Longrightarrow> a \<noteq> b \<Longrightarrow> other_end name (a, b) = Some other"
  by (auto simp: other_end_def doubleton_eq_iff)

lemma links_of_iff: "L \<in> links_of r \<longleftrightarrow> (\<exists>a b. (a, b) \<in> set (rt_pairs r) \<and> {a, b} = L)"
  unfolding links_of_def by fastforce

lemma peer_linked:
  assumes inv: "router_inv r"
  shows "p \<in> set (peers_of r name) \<longleftrightarrow>
    hm_get (rt_legs r) (lg_name p) = Some p \<and> {name, lg_name p} \<in> links_of r"
proof
  assume "p \<in> set (peers_of r name)"
  then obtain a b other where p: "(a, b) \<in> set (rt_pairs r)" "other_end name (a, b) = Some other"
    "hm_get (rt_legs r) other = Some p" by (auto simp: peers_of_iff)
  then have "lg_name p = other" using inv by (auto simp: router_inv_def)
  with p other_end_link [OF p(2)] show "hm_get (rt_legs r) (lg_name p) = Some p \<and> {name, lg_name p} \<in> links_of r"
    unfolding links_of_iff by metis
next
  assume p: "hm_get (rt_legs r) (lg_name p) = Some p \<and> {name, lg_name p} \<in> links_of r"
  then obtain a b where ab: "(a, b) \<in> set (rt_pairs r)" "{a, b} = {name, lg_name p}"
    unfolding links_of_iff by blast
  moreover have "a \<noteq> b" using inv ab(1) by (auto simp: router_inv_def)
  ultimately show "p \<in> set (peers_of r name)"
    using p link_other_end [OF ab(2)] unfolding peers_of_iff by blast
qed

lemma connected_iff:
  assumes inv: "router_inv r"
  shows "Router_connected a b r \<longleftrightarrow> {a, b} \<in> links_of r"
proof
  assume "Router_connected a b r"
  then show "{a, b} \<in> links_of r"
    using peer_linked [OF inv] by (auto simp: Router_connected_def list_ex_iff)
next
  assume link: "{a, b} \<in> links_of r"
  then obtain x y where xy: "(x, y) \<in> set (rt_pairs r)" "{x, y} = {a, b}"
    unfolding links_of_iff by blast
  then have "hm_contains (rt_legs r) b" using inv by (auto simp: router_inv_def doubleton_eq_iff)
  then obtain p where "hm_get (rt_legs r) b = Some p" by (auto simp: hm_contains_iff)
  moreover from this have "lg_name p = b" using inv by (simp add: router_inv_def)
  ultimately show "Router_connected a b r"
    using link peer_linked [OF inv, of p a] by (auto simp: Router_connected_def list_ex_iff)
qed

section \<open>Operations on the table\<close>

text \<open>The invariant and the links depend on the pairs and on which legs there are, not on the cells of a leg.\<close>

definition leg_view :: "'n Leg \<Rightarrow> string \<times> 'n \<times> Ipv4Addr \<times> ('n \<times> Ipv4Addr) list" where
  "leg_view l = (lg_name l, lg_subnet l, lg_gw_ip l, lg_declared_routes l)"

definition same_legs :: "'n Router \<Rightarrow> 'n Router \<Rightarrow> bool" where
  "same_legs r r' \<longleftrightarrow> rt_pairs r' = rt_pairs r \<and>
     (\<forall>name. map_option leg_view (hm_get (rt_legs r') name) = map_option leg_view (hm_get (rt_legs r) name))"

lemma same_legs_refl [simp]: "same_legs r r"
  by (simp add: same_legs_def)

lemma same_legs_trans: "same_legs r r' \<Longrightarrow> same_legs r' r'' \<Longrightarrow> same_legs r r''"
  by (simp add: same_legs_def)

lemma same_legs_leg:
  assumes "same_legs r r'" "hm_get (rt_legs r') name = Some leg'"
  obtains leg where "hm_get (rt_legs r) name = Some leg" "leg_view leg = leg_view leg'"
proof -
  from assms(1) have "map_option leg_view (hm_get (rt_legs r') name) = map_option leg_view (hm_get (rt_legs r) name)"
    by (simp add: same_legs_def)
  then show thesis using that assms(2) by (cases "hm_get (rt_legs r) name") simp_all
qed

lemma same_legs_sym: "same_legs r r' \<Longrightarrow> same_legs r' r"
  by (simp add: same_legs_def)

lemma same_legs_contains:
  assumes "same_legs r r'"
  shows "hm_contains (rt_legs r') name = hm_contains (rt_legs r) name"
proof -
  from assms have "map_option leg_view (hm_get (rt_legs r') name) = map_option leg_view (hm_get (rt_legs r) name)"
    by (simp add: same_legs_def)
  then show ?thesis
    by (cases "hm_get (rt_legs r) name"; cases "hm_get (rt_legs r') name") (simp_all add: hm_contains_def)
qed

lemma same_legs_inv: "same_legs r r' \<Longrightarrow> router_inv r \<Longrightarrow> router_inv r'"
proof -
  assume same: "same_legs r r'" and inv: "router_inv r"
  have "lg_name leg' = name" if "hm_get (rt_legs r') name = Some leg'" for name leg'
    using same that by (rule same_legs_leg) (use inv in \<open>simp add: router_inv_def leg_view_def\<close>)
  moreover have "rt_pairs r' = rt_pairs r" using same by (simp add: same_legs_def)
  ultimately show "router_inv r'"
    using inv by (simp add: router_inv_def same_legs_contains [OF same])
qed

lemma same_legs_links: "same_legs r r' \<Longrightarrow> links_of r' = links_of r"
  by (simp add: same_legs_def links_of_def)

lemma refresh_same [simp]: "same_legs r (refresh_dhcp I segment r)"
  by (auto simp: refresh_dhcp_def same_legs_def leg_view_def split: option.split)

lemma refresh_twice_same [simp]: "same_legs r (refresh_dhcp I b (refresh_dhcp I a r))"
  by (rule same_legs_trans [OF refresh_same refresh_same])

lemma update_leg_same:
  "hm_get (rt_legs r) name = Some leg \<Longrightarrow> leg_view leg' = leg_view leg \<Longrightarrow>
   same_legs r (r\<lparr>rt_legs := hm_insert name leg' (rt_legs r)\<rparr>)"
  by (simp add: same_legs_def)

lemma register_inv: "router_inv r \<Longrightarrow> router_inv (register I leg r)"
  unfolding register_def
  by (rule same_legs_inv [OF refresh_same]) (auto simp: router_inv_def hm_contains_def)

lemma register_links: "links_of (register I leg r) = links_of r"
  unfolding register_def same_legs_links [OF refresh_same] by (simp add: links_of_def)

lemma pair_key_link [simp]: "(case pair_key a b of (x, y) \<Rightarrow> {x, y}) = {a, b}"
  by (auto simp: pair_key_def)

lemma router_inv_pairs:
  assumes "router_inv r" "sorted ps" "distinct ps" "set ps \<subseteq> insert k (set (rt_pairs r))"
    "case k of (a, b) \<Rightarrow> a < b \<and> hm_contains (rt_legs r) a \<and> hm_contains (rt_legs r) b"
  shows "router_inv (r\<lparr>rt_pairs := ps\<rparr>)"
  using assms unfolding router_inv_def by (cases k) (auto dest!: subsetD)

lemma inj_on_ordered_pairs:
  assumes "\<And>p. p \<in> S \<Longrightarrow> fst p < snd (p :: string \<times> string)"
  shows "inj_on (\<lambda>(a, b). {a, b}) S"
proof (rule inj_onI)
  fix p q assume "p \<in> S" "q \<in> S" "(case p of (a, b) \<Rightarrow> {a, b}) = (case q of (a, b) \<Rightarrow> {a, b})"
  with assms [of p] assms [of q] show "p = q"
    by (cases p; cases q) (auto simp: doubleton_eq_iff)
qed

lemma set_spec:
  assumes inv: "router_inv r" and ok: "Router_set I a b connected r = Inr r'"
  shows "router_inv r'" and "a \<noteq> b" and "hm_contains (rt_legs r) a" and "hm_contains (rt_legs r) b"
    and "links_of r' = (if connected then insert {a, b} (links_of r) else links_of r - {{a, b}})"
proof -
  let ?pairs = "if connected then insort_insert (pair_key a b) (rt_pairs r) else remove1 (pair_key a b) (rt_pairs r)"
  show ne: "a \<noteq> b" and a: "hm_contains (rt_legs r) a" and b: "hm_contains (rt_legs r) b"
    using ok by (auto simp: Router_set_def Let_def split: if_splits)
  have same: "same_legs (r\<lparr>rt_pairs := ?pairs\<rparr>) r'"
    using ok by (auto simp: Router_set_def Let_def split: if_splits simp: insort_insert_triv)
  have key: "fst (pair_key a b) < snd (pair_key a b)"
    using ne by (auto simp: pair_key_def)
  have "sorted ?pairs" "distinct ?pairs"
    using inv by (auto simp: router_inv_def sorted_insort_insert distinct_insort_insert sorted_remove1)
  moreover have "set ?pairs \<subseteq> insert (pair_key a b) (set (rt_pairs r))"
    using set_remove1_subset by (auto simp: set_insort_insert)
  moreover have "case pair_key a b of (a, b) \<Rightarrow> a < b \<and> hm_contains (rt_legs r) a \<and> hm_contains (rt_legs r) b"
    using ne a b by (auto simp: pair_key_def)
  ultimately have "router_inv (r\<lparr>rt_pairs := ?pairs\<rparr>)"
    by (rule router_inv_pairs [OF inv])
  with same show "router_inv r'" by (rule same_legs_inv)
  have "links_of (r\<lparr>rt_pairs := ?pairs\<rparr>) =
    (if connected then insert {a, b} (links_of r) else links_of r - {{a, b}})"
  proof (cases connected)
    case True
    then show ?thesis
      using pair_key_link [of a b] by (simp add: links_of_def set_insort_insert)
  next
    case False
    have inj: "inj_on (\<lambda>(a, b). {a, b}) (insert (pair_key a b) (set (rt_pairs r)))"
      using inv key by (intro inj_on_ordered_pairs) (auto simp: router_inv_def)
    have "distinct (rt_pairs r)" using inv by (simp add: router_inv_def)
    with False have "set ?pairs = set (rt_pairs r) - {pair_key a b}" by simp
    then have "links_of (r\<lparr>rt_pairs := ?pairs\<rparr>) = (\<lambda>(a, b). {a, b}) ` (set (rt_pairs r) - {pair_key a b})"
      by (simp add: links_of_def)
    also have "\<dots> = links_of r - {{a, b}}"
      using inj_on_image_set_diff [OF inj, of "set (rt_pairs r)" "{pair_key a b}"] pair_key_link [of a b]
      by (simp add: links_of_def subset_iff)
    finally show ?thesis using False by simp
  qed
  with same_legs_links [OF same]
  show "links_of r' = (if connected then insert {a, b} (links_of r) else links_of r - {{a, b}})" by simp
qed

section \<open>Decisions\<close>

lemma icmp_error_cases:
  "icmp_error origin packet t code rest = DropPacket \<or>
   (\<exists>reply. icmp_error origin packet t code rest = Answer (lg_name origin) reply)"
  by (simp add: icmp_error_def Let_def split: option.split)

text \<open>The conditions under which a packet is forwarded, and to which peer.\<close>

definition forwards ::
  "'n ipnet_ops \<Rightarrow> 'n Router \<Rightarrow> string \<Rightarrow> bytes \<Rightarrow> 'n Leg \<Rightarrow> bytes \<Rightarrow> bool" where
  "forwards I r from frame peer packet \<longleftrightarrow>
     (\<exists>ip. Ipv4View_parse (drop 14 frame) = Some ip \<and> packet = take (unat (Ipv4View_total_len ip)) (drop 14 frame) \<and>
        peer \<in> set (peers_of r from) \<and> net_contains I (lg_subnet peer) (Ipv4View_dst ip) \<and>
        Ipv4View_dst ip \<notin> {lg_gw_ip peer, net_network I (lg_subnet peer), net_broadcast I (lg_subnet peer)} \<and>
        1 < Ipv4View_ttl ip \<and> length packet \<le> unat (lg_mtu peer))"

lemma decide_for_peer_cases:
  assumes "decide_for_peer I clock origin peer ip packet r = (d, r')"
  obtains "d = DropPacket" "r' = r"
  | reply where "d = Answer (lg_name origin) reply" "r' = r"
  | rules verdict where
      "Ipv4View_dst ip \<notin> {lg_gw_ip peer, net_network I (lg_subnet peer), net_broadcast I (lg_subnet peer)}"
      "1 < Ipv4View_ttl ip" "length packet \<le> unat (lg_mtu peer)"
      "RuleSet_eval_return (fst clock) (snd clock) (lg_rules peer) (decrement_ttl packet) = (rules, verdict)"
      "d = Forward (lg_name peer) (case verdict of Rewrite out \<Rightarrow> out | _ \<Rightarrow> decrement_ttl packet)"
      "r' = r\<lparr>rt_legs := hm_insert (lg_name peer) (peer\<lparr>lg_rules := rules\<rparr>) (rt_legs r)\<rparr>"
proof (cases "Ipv4View_dst ip \<in> {lg_gw_ip peer, net_network I (lg_subnet peer), net_broadcast I (lg_subnet peer)} \<or>
    Ipv4View_ttl ip \<le> 1 \<or> unat (lg_mtu peer) < length packet")
  case True
  then have "(d = DropPacket \<or> (\<exists>reply. d = Answer (lg_name origin) reply)) \<and> r' = r"
    using assms
    by (auto simp: decide_for_peer_def Let_def split: if_splits option.splits) (use icmp_error_cases in blast)+
  then show thesis using that(1,2) by blast
next
  case False
  obtain rules verdict where
    ev: "RuleSet_eval_return (fst clock) (snd clock) (lg_rules peer) (decrement_ttl packet) = (rules, verdict)"
    by (cases "RuleSet_eval_return (fst clock) (snd clock) (lg_rules peer) (decrement_ttl packet)")
  have "d = Forward (lg_name peer) (case verdict of Rewrite out \<Rightarrow> out | _ \<Rightarrow> decrement_ttl packet)"
    "r' = r\<lparr>rt_legs := hm_insert (lg_name peer) (peer\<lparr>lg_rules := rules\<rparr>) (rt_legs r)\<rparr>"
    using assms False by (simp_all add: decide_for_peer_def Let_def ev)
  then show thesis using that(3) ev False by auto
qed

lemma decide_cases:
  assumes inv: "router_inv r" and d: "decide I clock from frame r = (d, r')"
  obtains "d = NotRouted" "r' = r" | "d = DropPacket" "r' = r"
  | reply where "d = Answer from reply" "r' = r"
  | peer packet rules verdict where "forwards I r from frame peer packet"
      "RuleSet_eval_return (fst clock) (snd clock) (lg_rules peer) (decrement_ttl packet) = (rules, verdict)"
      "d = Forward (lg_name peer) (case verdict of Rewrite out \<Rightarrow> out | _ \<Rightarrow> decrement_ttl packet)"
      "r' = r\<lparr>rt_legs := hm_insert (lg_name peer) (peer\<lparr>lg_rules := rules\<rparr>) (rt_legs r)\<rparr>"
proof (cases "d = NotRouted \<and> r' = r")
  case True
  then show thesis using that(1) by simp
next
  case False
  with d obtain eth ip origin peer where eth: "EthView_parse frame = Some eth"
    and ip: "Ipv4View_parse (EthView_payload eth) = Some ip" and origin: "hm_get (rt_legs r) from = Some origin"
    and peer: "find (\<lambda>p. net_contains I (lg_subnet p) (Ipv4View_dst ip)) (peers_of r from) = Some peer"
    and d': "decide_for_peer I clock origin peer ip
      (take (min (unat (Ipv4View_total_len ip)) (length (EthView_payload eth))) (EthView_payload eth)) r = (d, r')"
    by (auto simp: decide_def split: option.splits if_splits)
  have frame: "EthView_payload eth = drop 14 frame"
    using eth by (simp add: EthView_parse_Some EthView_payload_def ETH_HEADER_LEN_def)
  have total: "min (unat (Ipv4View_total_len ip)) (length (EthView_payload eth)) = unat (Ipv4View_total_len ip)"
    using ipv4_parse_bounds [OF ip] by simp
  have name: "lg_name origin = from" using inv origin by (simp add: router_inv_def)
  have p: "peer \<in> set (peers_of r from)" "net_contains I (lg_subnet peer) (Ipv4View_dst ip)"
    using peer by (auto simp: find_Some_iff)
  from d' have "decide_for_peer I clock origin peer ip (take (unat (Ipv4View_total_len ip)) (drop 14 frame)) r = (d, r')"
    by (simp only: total frame [symmetric])
  then show thesis
  proof (cases rule: decide_for_peer_cases)
    case (3 rules verdict)
    have "forwards I r from frame peer (take (unat (Ipv4View_total_len ip)) (drop 14 frame))"
      using 3(1-3) p ip unfolding forwards_def frame by (intro exI [of _ ip] conjI) simp_all
    then show thesis using 3(4-6) by (rule that(4))
  qed (use that name in simp_all)
qed

lemma forwards_linked:
  assumes inv: "router_inv r" and fw: "forwards I r from frame peer packet"
  shows "hm_get (rt_legs r) (lg_name peer) = Some peer" and "{from, lg_name peer} \<in> links_of r"
  using fw peer_linked [OF inv, of peer "from"] by (auto simp: forwards_def)

lemma decide_same:
  assumes inv: "router_inv r"
  shows "same_legs r (snd (decide I clock from frame r))"
proof -
  obtain d r' where d: "decide I clock from frame r = (d, r')" by (cases "decide I clock from frame r")
  from inv d have "same_legs r r'"
  proof (cases rule: decide_cases)
    case (4 peer packet rules verdict)
    then show ?thesis using forwards_linked [OF inv 4(1)] by (simp add: update_leg_same leg_view_def)
  qed simp_all
  with d show ?thesis by simp
qed

lemma route_spec:
  assumes inv: "router_inv r" and rt: "route I clock now from frame r = (back, sent, r')"
  shows "same_legs r r'" and "(back = None \<or> back = Some frame \<and> sent = [])"
    and "(to, f) \<in> set sent \<Longrightarrow> to = from \<or> {from, to} \<in> links_of r"
proof -
  obtain d r1 where d: "decide I clock from frame r = (d, r1)" by (cases "decide I clock from frame r")
  have same: "same_legs r r1" using decide_same [OF inv, of I clock "from" frame] d by simp
  have upd: "same_legs r (r1\<lparr>rt_legs := hm_insert name (leg\<lparr>lg_port := port\<rparr>) (rt_legs r1)\<rparr>)"
    if "hm_get (rt_legs r1) name = Some leg" for name leg port
    using same_legs_trans [OF same update_leg_same [OF that]] by (simp add: leg_view_def)
  show "same_legs r r'" and "(back = None \<or> back = Some frame \<and> sent = [])"
    using rt same upd
    by (auto simp: route_def d split_def Let_def split: Decision.splits option.splits)
  show "to = from \<or> {from, to} \<in> links_of r" if "(to, f) \<in> set sent"
    using inv d
  proof (cases rule: decide_cases)
    case (4 peer packet rules verdict)
    then show ?thesis
      using rt d that forwards_linked [OF inv 4(1)]
      by (auto simp: route_def split_def Let_def split: option.splits)
  qed (use rt d that in \<open>auto simp: route_def split: option.splits\<close>)
qed

section \<open>Frames cross only where segments are connected\<close>

text \<open>A run of the router, and the abstract account of it: the registered names and the links that the
  connect and disconnect calls leave.\<close>

datatype 'n router_event =
    RegisterLeg "'n Leg"
  | SetLink string string bool
  | RouteFrame "nat \<times> nat" nat string bytes

fun router_step :: "'n ipnet_ops \<Rightarrow> 'n Router \<Rightarrow> 'n router_event \<Rightarrow> 'n Router" where
  "router_step I r (RegisterLeg leg) = register I leg r"
| "router_step I r (SetLink a b connected) = (case Router_set I a b connected r of Inl _ \<Rightarrow> r | Inr r' \<Rightarrow> r')"
| "router_step I r (RouteFrame clock now from frame) = snd (snd (route I clock now from frame r))"

fun link_step :: "string set \<times> string set set \<Rightarrow> 'n router_event \<Rightarrow> string set \<times> string set set" where
  "link_step (names, links) (RegisterLeg leg) = (insert (lg_name leg) names, links)"
| "link_step (names, links) (SetLink a b connected) =
     (names, if a \<noteq> b \<and> a \<in> names \<and> b \<in> names
             then (if connected then insert {a, b} links else links - {{a, b}}) else links)"
| "link_step (names, links) (RouteFrame clock now from frame) = (names, links)"

definition links_after :: "'n router_event list \<Rightarrow> string set set" where
  "links_after es = snd (foldl link_step ({}, {}) es)"

definition router_abs :: "'n Router \<Rightarrow> string set \<times> string set set" where
  "router_abs r = ({name. hm_contains (rt_legs r) name}, links_of r)"

lemma same_legs_abs: "same_legs r r' \<Longrightarrow> router_abs r' = router_abs r"
  by (simp add: router_abs_def same_legs_contains same_legs_links)

lemma set_error:
  "Router_set I a b connected r = Inl e \<longleftrightarrow>
     (a = b \<and> e = RoutesToItself a) \<or>
     (a \<noteq> b \<and> \<not> hm_contains (rt_legs r) a \<and> e = NoSuchSegment a) \<or>
     (a \<noteq> b \<and> hm_contains (rt_legs r) a \<and> \<not> hm_contains (rt_legs r) b \<and> e = NoSuchSegment b)"
  by (auto simp: Router_set_def Let_def)

lemma router_step_refines:
  assumes inv: "router_inv r"
  shows "router_inv (router_step I r e) \<and> router_abs (router_step I r e) = link_step (router_abs r) e"
proof (cases e)
  case (RegisterLeg leg)
  have "hm_contains (rt_legs (register I leg r)) name = (name = lg_name leg \<or> hm_contains (rt_legs r) name)" for name
    unfolding register_def same_legs_contains [OF refresh_same] by (simp add: hm_contains_def)
  with RegisterLeg inv show ?thesis
    by (auto simp: register_inv router_abs_def register_links)
next
  case (SetLink a b connected)
  show ?thesis
  proof (cases "Router_set I a b connected r")
    case (Inl err)
    then have "\<not> (a \<noteq> b \<and> hm_contains (rt_legs r) a \<and> hm_contains (rt_legs r) b)"
      by (auto simp: set_error)
    then show ?thesis using SetLink inv Inl by (auto simp: router_abs_def)
  next
    case (Inr r')
    note spec = set_spec [OF inv Inr]
    have "hm_contains (rt_legs r') name = hm_contains (rt_legs r) name" for name
      using Inr by (auto simp: Router_set_def Let_def same_legs_contains [OF refresh_twice_same] split: if_splits)
    with SetLink Inr spec show ?thesis by (simp add: router_abs_def)
  qed
next
  case (RouteFrame clock now origin frame)
  obtain kept sent r' where rt: "route I clock now origin frame r = (kept, sent, r')"
    by (metis prod.collapse)
  have "same_legs r r'" by (rule route_spec(1) [OF inv rt])
  then have "router_inv r'" "router_abs r' = router_abs r"
    using same_legs_inv [OF _ inv] same_legs_abs by blast+
  then show ?thesis using RouteFrame rt by (simp add: router_abs_def)
qed

lemma router_new_inv [simp]: "router_inv Router_new" "router_abs Router_new = ({}, {})"
  by (simp_all add: router_inv_def Router_new_def router_abs_def links_of_def hm_contains_def)

lemma router_run_refines:
  "router_inv (foldl (router_step I) Router_new es) \<and>
   router_abs (foldl (router_step I) Router_new es) = foldl link_step ({}, {}) es"
proof (induction es rule: rev_induct)
  case (snoc e es)
  then show ?case using router_step_refines [of "foldl (router_step I) Router_new es" I e] by simp
qed simp


section \<open>A routed packet is the sender's, one hop on\<close>

lemma decrement_ttl_eq:
  "Ipv4View_parse packet = Some ip \<Longrightarrow>
   decrement_ttl packet =
     rewrite_header_checksum (Ipv4View_header_len ip)
       (packet[8 := (if packet ! 8 = 0 then 0 else packet ! 8 - 1)])"
  by (simp add: decrement_ttl_def rewrite_header_checksum_def Let_def)

lemma decrement_ttl_spec:
  assumes ip: "Ipv4View_parse packet = Some ip" and ttl: "1 < Ipv4View_ttl ip"
  shows "length (decrement_ttl packet) = length packet"
    and "\<And>i. i \<notin> {8, 10, 11} \<Longrightarrow> i < length packet \<Longrightarrow> decrement_ttl packet ! i = packet ! i"
    and "Ipv4View_parse (decrement_ttl packet) = Some (Ipv4View (decrement_ttl packet))"
    and "Ipv4View_ttl (Ipv4View (decrement_ttl packet)) = Ipv4View_ttl ip - 1"
    and "Ipv4View_checksum_valid (Ipv4View (decrement_ttl packet))"
proof -
  let ?hl = "Ipv4View_header_len ip"
  let ?out = "packet[8 := (if packet ! 8 = 0 then 0 else packet ! 8 - 1)]"
  note b = ipv4_parse_bounds [OF ip]
  have nonempty: "packet \<noteq> []" using b(2) by auto
  have hl: "20 \<le> ?hl" "?hl \<le> length ?out" "?hl \<le> 60"
    using b Ipv4View_header_len_le [of ip] by simp_all
  note spec = rewrite_header_checksum_spec [OF hl, folded decrement_ttl_eq [OF ip]]
  show len: "length (decrement_ttl packet) = length packet" using spec(1) by simp
  show same: "decrement_ttl packet ! i = packet ! i" if "i \<notin> {8, 10, 11}" "i < length packet" for i
    using spec(2) [of i] that by fastforce
  have hdr: "Ipv4View_header_len (Ipv4View (decrement_ttl packet)) = ?hl"
    "Ipv4View_total_len (Ipv4View (decrement_ttl packet)) = Ipv4View_total_len ip"
    using b same [of 0, OF _ length_greater_0_conv [THEN iffD2, OF nonempty]] same [of 2] same [of 3]
    by (simp_all add: Ipv4View_header_len_def Ipv4View_ihl_def Ipv4View_total_len_def u16_at_def)
  show "Ipv4View_parse (decrement_ttl packet) = Some (Ipv4View (decrement_ttl packet))"
    using ip hdr same [of 0] nonempty len b by (auto simp: Ipv4View_parse_Some)
  have "Ipv4View_ttl ip \<noteq> 0" using ttl by auto
  then show "Ipv4View_ttl (Ipv4View (decrement_ttl packet)) = Ipv4View_ttl ip - 1"
    using b spec(2) [of 8] by (simp add: Ipv4View_ttl_def)
  show "Ipv4View_checksum_valid (Ipv4View (decrement_ttl packet))"
    using spec(3) by (simp add: Ipv4View_checksum_valid_def hdr)
qed

lemma parse_take_total:
  assumes "Ipv4View_parse b = Some v"
  shows "Ipv4View_parse (take (unat (Ipv4View_total_len v)) b) =
      Some (Ipv4View (take (unat (Ipv4View_total_len v)) b))"
    and "Ipv4View_ttl (Ipv4View (take (unat (Ipv4View_total_len v)) b)) = Ipv4View_ttl v"
  using assms by (auto simp: Ipv4View_parse_Some Ipv4View_header_len_def Ipv4View_ihl_def
      Ipv4View_total_len_def Ipv4View_ttl_def u16_at_def)

text \<open>C33: a packet the router forwards is the sender's packet one hop on. It goes to a connected peer
  whose subnet holds the destination, is a valid IPv4 packet with a valid header checksum, its TTL is
  one less and still positive, it fits the peer's MTU, and every other byte is the sender's. A
  redirect of the peer can then only un-translate it.\<close>

theorem routed_packet_one_hop:
  assumes "r = foldl (router_step I) Router_new es" and "decide I clock from frame r = (Forward to out, r')"
  shows "\<exists>ip peer packet hop.
    Ipv4View_parse (drop 14 frame) = Some ip \<and> packet = take (unat (Ipv4View_total_len ip)) (drop 14 frame) \<and>
    hm_get (rt_legs r) to = Some peer \<and> Router_connected from to r \<and>
    net_contains I (lg_subnet peer) (Ipv4View_dst ip) \<and>
    Ipv4View_parse hop = Some (Ipv4View hop) \<and> Ipv4View_checksum_valid (Ipv4View hop) \<and>
    Ipv4View_ttl (Ipv4View hop) = Ipv4View_ttl ip - 1 \<and> Ipv4View_ttl (Ipv4View hop) \<noteq> 0 \<and>
    length hop = length packet \<and> length hop \<le> unat (lg_mtu peer) \<and>
    (\<forall>i < length packet. i \<notin> {8, 10, 11} \<longrightarrow> hop ! i = packet ! i) \<and>
    out = (case snd (RuleSet_eval_return (fst clock) (snd clock) (lg_rules peer) hop) of
             Rewrite out \<Rightarrow> out | _ \<Rightarrow> hop)"
proof -
  have inv: "router_inv r" using router_run_refines [of I es] assms(1) by simp
  from inv assms(2) obtain peer packet rules verdict where fw: "forwards I r from frame peer packet"
    and ev: "RuleSet_eval_return (fst clock) (snd clock) (lg_rules peer) (decrement_ttl packet) = (rules, verdict)"
    and to: "Forward to out = Forward (lg_name peer) (case verdict of Rewrite out \<Rightarrow> out | _ \<Rightarrow> decrement_ttl packet)"
    by (cases rule: decide_cases) auto
  obtain ip where ip: "Ipv4View_parse (drop 14 frame) = Some ip"
    and packet: "packet = take (unat (Ipv4View_total_len ip)) (drop 14 frame)"
    and net: "net_contains I (lg_subnet peer) (Ipv4View_dst ip)"
    and ttl: "1 < Ipv4View_ttl ip" and mtu: "length packet \<le> unat (lg_mtu peer)"
    using fw by (auto simp: forwards_def)
  note link = forwards_linked [OF inv fw]
  have p: "Ipv4View_parse packet = Some (Ipv4View packet)" "1 < Ipv4View_ttl (Ipv4View packet)"
    "Ipv4View_ttl (Ipv4View packet) = Ipv4View_ttl ip"
    using parse_take_total [OF ip] ttl by (simp_all add: packet)
  note hop = decrement_ttl_spec [OF p(1,2)]
  have "Ipv4View_ttl ip - 1 \<noteq> 0" using ttl by auto
  then show ?thesis
    using ip packet net mtu link to ev hop p(3) connected_iff [OF inv]
    by (intro exI [of _ ip] exI [of _ peer] exI [of _ packet] exI [of _ "decrement_ttl packet"]) auto
qed

section \<open>A lab with two connected segments\<close>

definition demo_leg :: "string \<Rightarrow> u8 \<Rightarrow> Cidr Leg" where
  "demo_leg name net = \<lparr>lg_name = name, lg_subnet = Cidr (Ipv4Addr 0 0 0 net) 28, lg_gw_ip = Ipv4Addr 0 0 0 (net + 1),
     lg_mtu = 64, lg_port = \<lparr>lp_gw_ip = Ipv4Addr 0 0 0 (net + 1), lp_gw_mac = MacAddr 0x52 0x56 0 0 net 1,
       lp_neighbours = Neighbours_default\<rparr>,
     lg_rules = RuleSet_new, lg_dhcp = None, lg_declared_routes = []\<rparr>"

definition demo_events :: "Cidr router_event list" where
  "demo_events = [RegisterLeg (demo_leg ''a'' 0), RegisterLeg (demo_leg ''b'' 16), SetLink ''b'' ''a'' True]"

definition demo_router :: "Cidr Router" where
  "demo_router = foldl (router_step cidr_net) Router_new demo_events"

definition demo_packet :: bytes where
  "demo_packet = [0x45, 0, 0, 23, 0, 7, 0, 0, 64, 17, 0, 0, 0, 0, 0, 9, 0, 0, 0, 25, 1, 2, 3]"

definition demo_frame :: bytes where
  "demo_frame = eth_build (MacAddr 0x52 0x56 0 0 0 1) (MacAddr 2 0 0 0 0 9) ETHERTYPE_IPV4 demo_packet"

lemma demo_evaluates:
  "EthView_parse demo_frame = Some (EthView demo_frame)" "EthView_ethertype (EthView demo_frame) = ETHERTYPE_IPV4"
  "EthView_payload (EthView demo_frame) = demo_packet"
  "Ipv4View_dst (Ipv4View demo_packet) = Ipv4Addr 0 0 0 25" "Ipv4View_ttl (Ipv4View demo_packet) = 64"
  "unat (Ipv4View_total_len (Ipv4View demo_packet)) = 23" "length demo_packet = 23"
  "Ipv4View_parse demo_packet = Some (Ipv4View demo_packet)"
  by (simp_all add: demo_frame_def demo_packet_def eth_build_def to_be16_def EthView_parse_def ETH_HEADER_LEN_def
      EthView_ethertype_def u16_at_def from_be16_def EthView_payload_def Ipv4View_dst_def ipv4_at_def
      Ipv4View_ttl_def Ipv4View_total_len_def ETHERTYPE_IPV4_def Ipv4View_parse_Some Ipv4View_header_len_def
      Ipv4View_ihl_def drop_bit_eq_div)

lemma demo_table:
  "hm_get (rt_legs demo_router) ''a'' = Some (demo_leg ''a'' 0)" "peers_of demo_router ''a'' = [demo_leg ''b'' 16]"
proof -
  have key: "pair_key ''b'' ''a'' = (''a'', ''b'')" by code_simp
  show "hm_get (rt_legs demo_router) ''a'' = Some (demo_leg ''a'' 0)" "peers_of demo_router ''a'' = [demo_leg ''b'' 16]"
    by (simp_all add: demo_router_def demo_events_def register_def refresh_dhcp_def Router_new_def demo_leg_def
        Router_set_def key hm_contains_def peers_of_def other_end_def List.map_filter_simps insort_insert_key_def)
qed

lemma demo_subnet:
  "net_contains cidr_net (Cidr (Ipv4Addr 0 0 0 16) 28) (Ipv4Addr 0 0 0 25)"
  "net_network cidr_net (Cidr (Ipv4Addr 0 0 0 16) 28) = Ipv4Addr 0 0 0 16"
  "net_broadcast cidr_net (Cidr (Ipv4Addr 0 0 0 16) 28) = Ipv4Addr 0 0 0 31"
  by (simp_all add: cidr_net_def cidr_lo_def cidr_hi_def host_bits_def ip_of_nat_def ip_of_u32_def from_be32_def)

lemma demo_forwards: "\<exists>out r'. decide cidr_net (0, 0) ''a'' demo_frame demo_router = (Forward ''b'' out, r')"
proof -
  have "\<not> (64 :: u8) \<le> 1" by code_simp
  then show ?thesis
    by (simp add: decide_def decide_for_peer_def Let_def demo_evaluates demo_table demo_subnet demo_leg_def split_def)
qed


theorem routed_packet_one_hop_witness:
  "\<exists>out r'. decide cidr_net (0, 0) ''a'' demo_frame demo_router = (Forward ''b'' out, r') \<and>
     Router_connected ''a'' ''b'' demo_router \<and>
     (\<exists>hop. Ipv4View_checksum_valid (Ipv4View hop) \<and> Ipv4View_ttl (Ipv4View hop) = 63)"
proof -
  obtain out r' where d: "decide cidr_net (0, 0) ''a'' demo_frame demo_router = (Forward ''b'' out, r')"
    using demo_forwards by blast
  have "drop 14 demo_frame = demo_packet"
    using demo_evaluates(3) by (simp add: EthView_payload_def ETH_HEADER_LEN_def)
  with routed_packet_one_hop [OF demo_router_def d] demo_evaluates(5,8) d
  show ?thesis by auto
qed

end
