(* ===== verification/Vtcp.thy ===== *)
theory Vtcp
  imports Frame Framing
begin

text \<open>
  The in-process TCP peer that terminates guest flows (\<open>src/net/nat/vtcp.rs\<close>): the segment parser,
  sequence arithmetic, the reassembly queue, the send window, retransmission, and the steps of a
  flow's task in its three states.

  A flow's operations return what the task sends in order (\<open>FlowOut\<close>); \<open>emit_frame\<close> builds the frame of
  one such segment. The proxied stream is a \<open>sink_ops\<close> for what the guest sends, and what is read
  from it is an event. Clock readings are arguments, and so is the random initial sequence number.
  Where the code would panic (a slice out of range, an unsigned subtraction below zero) the operation
  is \<open>None\<close>. A \<open>BTreeMap\<close> is the list of its entries by increasing key.
\<close>

section \<open>Constants and types\<close>

definition RTO :: nat where "RTO = 1000000000"
definition MAX_RETRIES :: nat where "MAX_RETRIES = 5"
definition IDLE_TIMEOUT :: nat where "IDLE_TIMEOUT = 300 * 1000000000"
definition WINDOW :: u16 where "WINDOW = 0xFFFF"
definition OOO_MAX_BYTES :: nat where "OOO_MAX_BYTES = unat WINDOW"

record FlowKey =
  fk_guest_ip :: Ipv4Addr
  fk_guest_port :: u16
  fk_dst_ip :: Ipv4Addr
  fk_dst_port :: u16

record Segment =
  sg_seq :: u32
  sg_ack :: u32
  sg_flags :: u8
  sg_window :: u16
  sg_payload :: bytes
  sg_mss :: "u16 option"

function parse_mss :: "bytes \<Rightarrow> u16 option" where
  "parse_mss [] = None"
| "parse_mss (kind # rest) =
     (if kind = 0 then None
      else if kind = 1 then parse_mss rest
      else if kind = 2 then
        (case rest of l # hi # lo # _ \<Rightarrow> if l = 4 then Some (from_be16 hi lo) else None | _ \<Rightarrow> None)
      else
        (case rest of
           [] \<Rightarrow> None
         | len # _ \<Rightarrow>
             if unat len < 2 \<or> unat len > length (kind # rest) then None
             else parse_mss (drop (unat len) (kind # rest))))"
  by pat_completeness auto
termination
  by (relation "measure length") auto

definition Segment_from_view :: "TcpView \<Rightarrow> Segment" where
  "Segment_from_view tcp = \<lparr>sg_seq = TcpView_seq tcp, sg_ack = TcpView_ack tcp, sg_flags = TcpView_flags tcp,
     sg_window = TcpView_window tcp, sg_payload = TcpView_payload tcp,
     sg_mss = parse_mss (TcpView_options tcp)\<rparr>"

definition Segment_is_syn :: "Segment \<Rightarrow> bool" where "Segment_is_syn s \<longleftrightarrow> sg_flags s AND TCP_SYN \<noteq> 0"
definition Segment_is_ack :: "Segment \<Rightarrow> bool" where "Segment_is_ack s \<longleftrightarrow> sg_flags s AND TCP_ACK \<noteq> 0"
definition Segment_is_rst :: "Segment \<Rightarrow> bool" where "Segment_is_rst s \<longleftrightarrow> sg_flags s AND TCP_RST \<noteq> 0"
definition Segment_is_fin :: "Segment \<Rightarrow> bool" where "Segment_is_fin s \<longleftrightarrow> sg_flags s AND TCP_FIN \<noteq> 0"

definition seq_le :: "u32 \<Rightarrow> u32 \<Rightarrow> bool" where
  "seq_le a b \<longleftrightarrow> b - a < 0x80000000"

definition rst_for :: "Ipv4View \<Rightarrow> TcpView \<Rightarrow> u16 \<Rightarrow> bytes option" where
  "rst_for ip tcp ip_id =
     (let (seq, ack, flags) =
            (if TcpView_is_ack tcp then (TcpView_ack tcp, 0, TCP_RST)
             else
               let advance = of_nat (length (TcpView_payload tcp)) + (if TcpView_is_syn tcp then 1 else 0)
                     + (if TcpView_is_fin tcp then 1 else 0)
               in (0, TcpView_seq tcp + advance, TCP_RST OR TCP_ACK))
      in Option.bind
           (tcp_build (Ipv4View_dst ip) (Ipv4View_src ip)
              \<lparr>tf_src_port = TcpView_dst_port tcp, tf_dst_port = TcpView_src_port tcp, tf_seq = seq,
               tf_ack = ack, tf_flags = flags, tf_window = 0, tf_options = []\<rparr> [])
           (\<lambda>seg. ipv4_build (Ipv4View_dst ip) (Ipv4View_src ip) IPPROTO_TCP 64 seg ip_id))"

section \<open>A flow\<close>

record TxSeg =
  tx_seq :: u32
  tx_data :: bytes
  tx_fin :: bool

definition TxSeg_end :: "TxSeg \<Rightarrow> u32" where
  "TxSeg_end s = tx_seq s + of_nat (length (tx_data s)) + (if tx_fin s then 1 else 0)"

record Flow =
  fl_key :: FlowKey
  fl_guest_mac :: MacAddr
  snd_nxt :: u32
  snd_una :: u32
  rcv_nxt :: u32
  peer_wnd :: u32
  fl_mss :: nat
  unacked :: "TxSeg list"
  ooo :: "(u32 \<times> bytes) list"
  ooo_bytes :: nat
  retries :: nat
  rto_at :: "nat option"
  last_activity :: nat
  our_fin_sent :: bool
  guest_fin_rcvd :: bool

definition mss_clamp :: "u16 \<Rightarrow> u16" where
  "mss_clamp mtu = max (if mtu < 40 then 0 else mtu - 40) 536"

definition Flow_new :: "u16 \<Rightarrow> FlowKey \<Rightarrow> MacAddr \<Rightarrow> u32 \<Rightarrow> nat \<Rightarrow> Segment \<Rightarrow> Flow" where
  "Flow_new mtu key guest_mac isn now syn =
     (let clamp = unat (mss_clamp mtu)
      in \<lparr>fl_key = key, fl_guest_mac = guest_mac, snd_nxt = isn, snd_una = isn, rcv_nxt = sg_seq syn + 1,
          peer_wnd = ucast (sg_window syn),
          fl_mss = (case sg_mss syn of None \<Rightarrow> clamp | Some m \<Rightarrow> min clamp (unat m)),
          unacked = [], ooo = [], ooo_bytes = 0, retries = 0, rto_at = None, last_activity = now,
          our_fin_sent = False, guest_fin_rcvd = False\<rparr>)"

definition Flow_new_active :: "u16 \<Rightarrow> FlowKey \<Rightarrow> MacAddr \<Rightarrow> u32 \<Rightarrow> nat \<Rightarrow> Flow" where
  "Flow_new_active mtu key guest_mac isn now =
     \<lparr>fl_key = key, fl_guest_mac = guest_mac, snd_nxt = isn, snd_una = isn, rcv_nxt = 0, peer_wnd = 0,
      fl_mss = unat (mss_clamp mtu), unacked = [], ooo = [], ooo_bytes = 0, retries = 0, rto_at = None,
      last_activity = now, our_fin_sent = False, guest_fin_rcvd = False\<rparr>"

section \<open>Sending\<close>

datatype FlowOut =
    Emit (em_seq: u32) (em_ack: u32) (em_flags: u8) (em_payload: bytes) (em_options: bytes)
  | Shutdown

text \<open>The frame of an emitted segment; \<open>gw_mac\<close> and \<open>ip_id\<close> are the engine's.\<close>

definition emit_frame :: "MacAddr \<Rightarrow> u16 \<Rightarrow> Flow \<Rightarrow> u32 \<Rightarrow> u32 \<Rightarrow> u8 \<Rightarrow> bytes \<Rightarrow> bytes \<Rightarrow> bytes option" where
  "emit_frame gw_mac ip_id f seq ack flags payload options =
     (let k = fl_key f
      in map_option (eth_build (fl_guest_mac f) gw_mac ETHERTYPE_IPV4)
           (Option.bind
              (tcp_build (fk_dst_ip k) (fk_guest_ip k)
                 \<lparr>tf_src_port = fk_dst_port k, tf_dst_port = fk_guest_port k, tf_seq = seq, tf_ack = ack,
                  tf_flags = flags, tf_window = WINDOW, tf_options = options\<rparr> payload)
              (\<lambda>seg. ipv4_build (fk_dst_ip k) (fk_guest_ip k) IPPROTO_TCP 64 seg ip_id)))"

definition send_ack :: "Flow \<Rightarrow> FlowOut" where
  "send_ack f = Emit (snd_nxt f) (rcv_nxt f) TCP_ACK [] []"

definition send_rst :: "Flow \<Rightarrow> FlowOut" where
  "send_rst f = Emit (snd_nxt f) (rcv_nxt f) (TCP_RST OR TCP_ACK) [] []"

definition data_flags :: "bytes \<Rightarrow> bool \<Rightarrow> u8" where
  "data_flags data fin =
     TCP_ACK OR (if data \<noteq> [] then TCP_PSH else 0) OR (if fin then TCP_FIN else 0)"

definition send_data :: "nat \<Rightarrow> bytes \<Rightarrow> bool \<Rightarrow> Flow \<Rightarrow> FlowOut list \<times> Flow" where
  "send_data now data fin f =
     (let seg = \<lparr>tx_seq = snd_nxt f, tx_data = data, tx_fin = fin\<rparr>
      in ([Emit (snd_nxt f) (rcv_nxt f) (data_flags data fin) data []],
          f\<lparr>snd_nxt := TxSeg_end seg, unacked := unacked f @ [seg],
            rto_at := (if rto_at f = None then Some (now + RTO) else rto_at f)\<rparr>))"

definition in_flight :: "Flow \<Rightarrow> u32" where
  "in_flight f = snd_nxt f - snd_una f"

definition send_allowance :: "Flow \<Rightarrow> nat" where
  "send_allowance f =
     (let usable = unat (peer_wnd f) - unat (in_flight f);
          segment = min (fl_mss f) (unat (peer_wnd f))
      in if usable = 0 \<or> usable < segment then 0 else min usable (fl_mss f))"

definition send_window_probe :: "Flow \<Rightarrow> FlowOut" where
  "send_window_probe f = Emit (snd_nxt f - 1) (rcv_nxt f) TCP_ACK [] []"

definition on_ack :: "nat \<Rightarrow> Segment \<Rightarrow> Flow \<Rightarrow> Flow" where
  "on_ack now seg f =
     (if \<not> Segment_is_ack seg then f
      else
        let f = f\<lparr>peer_wnd := ucast (sg_window seg)\<rparr>;
            ack = sg_ack seg
        in if ack - snd_una f = 0 \<or> ack - snd_una f > snd_nxt f - snd_una f then f
           else
             let rest = dropWhile (\<lambda>s. seq_le (TxSeg_end s) ack) (unacked f)
             in f\<lparr>snd_una := ack, unacked := rest, retries := 0,
                  rto_at := (if rest = [] then None else Some (now + RTO))\<rparr>)"

definition on_rto :: "nat \<Rightarrow> Flow \<Rightarrow> bool \<times> FlowOut list \<times> Flow" where
  "on_rto now f =
     (let f = f\<lparr>retries := retries f + 1\<rparr>
      in if retries f > MAX_RETRIES then (False, [send_rst f], f)
         else
           (True,
            (case unacked f of
               [] \<Rightarrow> []
             | seg # _ \<Rightarrow>
                 [Emit (tx_seq seg) (rcv_nxt f) (data_flags (tx_data seg) (tx_fin seg)) (tx_data seg) []]),
            f\<lparr>rto_at := Some (now + RTO)\<rparr>))"

section \<open>Reassembly\<close>

definition usize_sub :: "nat \<Rightarrow> nat \<Rightarrow> nat option" where
  "usize_sub a b = (if b \<le> a then Some (a - b) else None)"

fun bt_insert :: "'k :: linorder \<Rightarrow> 'v \<Rightarrow> ('k \<times> 'v) list \<Rightarrow> ('k \<times> 'v) list" where
  "bt_insert k v [] = [(k, v)]"
| "bt_insert k v ((k', v') # m) =
     (if k < k' then (k, v) # (k', v') # m
      else if k = k' then (k, v) # m
      else (k', v') # bt_insert k v m)"

fun evict_ooo :: "(u32 \<times> bytes) list \<Rightarrow> nat \<Rightarrow> ((u32 \<times> bytes) list \<times> nat) option" where
  "evict_ooo [] held = Some ([], held)"
| "evict_ooo ((oldest, dropped) # m) held =
     (if held > OOO_MAX_BYTES then Option.bind (usize_sub held (length dropped)) (evict_ooo m)
      else Some ((oldest, dropped) # m, held))"

definition queue_ooo :: "u32 \<Rightarrow> bytes \<Rightarrow> Flow \<Rightarrow> Flow option" where
  "queue_ooo seq payload f =
     (if length payload > OOO_MAX_BYTES then Some f
      else
        let hold = (\<lambda>held. map_option (\<lambda>(m, held). f\<lparr>ooo := m, ooo_bytes := held\<rparr>)
                     (evict_ooo (bt_insert seq payload (ooo f)) (held + length payload)))
        in case hm_get (ooo f) seq of
             Some existing \<Rightarrow>
               if length existing \<ge> length payload then Some f
               else Option.bind (usize_sub (ooo_bytes f) (length existing)) hold
           | None \<Rightarrow> hold (ooo_bytes f))"

fun forget_stale :: "u32 \<Rightarrow> (u32 \<times> bytes) list \<Rightarrow> nat \<Rightarrow> ((u32 \<times> bytes) list \<times> nat) option" where
  "forget_stale nxt [] held = Some ([], held)"
| "forget_stale nxt ((seq, payload) # m) held =
     (if seq_le (seq + of_nat (length payload)) nxt
      then Option.bind (usize_sub held (length payload)) (forget_stale nxt m)
      else map_option (\<lambda>(m, held). ((seq, payload) # m, held)) (forget_stale nxt m held))"

text \<open>One round of the loop: the queue without what is written already, and the segment that continues
  the stream, if there is one, with the bytes of it that are new.\<close>

definition drain_round :: "Flow \<Rightarrow> (Flow \<times> bytes option) option" where
  "drain_round f =
     (case forget_stale (rcv_nxt f) (ooo f) (ooo_bytes f) of
        None \<Rightarrow> None
      | Some (m, held) \<Rightarrow>
          (case find (\<lambda>(seq, _). seq_le seq (rcv_nxt f)) m of
             None \<Rightarrow> Some (f\<lparr>ooo := m, ooo_bytes := held\<rparr>, None)
           | Some (seq, payload) \<Rightarrow>
               (case usize_sub held (length payload) of
                  None \<Rightarrow> None
                | Some held \<Rightarrow>
                    let off = unat (rcv_nxt f - seq)
                    in if off > length payload then None
                       else Some (f\<lparr>ooo := hm_remove seq m, ooo_bytes := held\<rparr>,
                                  Some (drop off payload)))))"

lemma forget_stale_length: "forget_stale nxt m held = Some (m', held') \<Longrightarrow> length m' \<le> length m"
proof (induction nxt m held arbitrary: m' held' rule: forget_stale.induct)
  case (2 nxt seq payload m held)
  then show ?case by (fastforce simp: bind_eq_Some_conv split: if_splits)
qed simp

lemma hm_remove_shorter: "(k, v) \<in> set m \<Longrightarrow> length (hm_remove k m) < length m"
  by (induction m) (auto simp: hm_remove_def le_imp_less_Suc length_delete_le)

lemma find_SomeD: "find P xs = Some x \<Longrightarrow> x \<in> set xs \<and> P x"
  by (auto simp: find_Some_iff)

lemma drain_round_shorter:
  assumes "drain_round f = Some (f', Some fresh)"
  shows "length (ooo f') < length (ooo f)"
proof -
  from assms obtain m held seq payload where st: "forget_stale (rcv_nxt f) (ooo f) (ooo_bytes f) = Some (m, held)"
    and fd: "find (\<lambda>(seq, _). seq_le seq (rcv_nxt f)) m = Some (seq, payload)" and f': "ooo f' = hm_remove seq m"
    by (auto simp: drain_round_def Let_def split: option.splits prod.splits if_splits)
  have "length (hm_remove seq m) < length m" using find_SomeD [OF fd] by (intro hm_remove_shorter) auto
  also have "\<dots> \<le> length (ooo f)" by (rule forget_stale_length [OF st])
  finally show ?thesis by (simp add: f')
qed

function drain_ooo ::
  "'w sink_ops \<Rightarrow> bool \<Rightarrow> Flow \<Rightarrow> 'w \<Rightarrow> (bool \<times> FlowOut list \<times> Flow \<times> 'w) option" where
  "drain_ooo W wr_open f w =
     (case drain_round f of
        None \<Rightarrow> None
      | Some (f', None) \<Rightarrow> Some (True, [], f', w)
      | Some (f', Some fresh) \<Rightarrow>
          if wr_open then
            (case wr_all W fresh w of
               (Inl _, w) \<Rightarrow> Some (False, [send_rst f'], f', w)
             | (Inr _, w) \<Rightarrow>
                 drain_ooo W wr_open (f'\<lparr>rcv_nxt := rcv_nxt f' + of_nat (length fresh)\<rparr>) w)
          else drain_ooo W wr_open (f'\<lparr>rcv_nxt := rcv_nxt f' + of_nat (length fresh)\<rparr>) w)"
  by pat_completeness auto
termination
  by (relation "measure (\<lambda>(W, wr_open, f, w). length (ooo f))") (auto dest: drain_round_shorter)

declare drain_ooo.simps [simp del]

section \<open>A segment from the guest\<close>

text \<open>The payload of a segment. The two flags of the result say whether the flow lives and whether an
  acknowledgement is due.\<close>

definition on_payload ::
  "'w sink_ops \<Rightarrow> Segment \<Rightarrow> bool \<Rightarrow> Flow \<Rightarrow> 'w \<Rightarrow> (bool \<times> bool \<times> FlowOut list \<times> Flow \<times> 'w) option" where
  "on_payload W seg wr_open f w =
     (let payload = sg_payload seg; payload_len = of_nat (length payload) :: u32
      in if payload = [] then Some (True, False, [], f, w)
         else if seq_le (sg_seq seg) (rcv_nxt f) then
           let off = rcv_nxt f - sg_seq seg
           in if off < payload_len then
                if unat off > length payload then None
                else
                  let fresh = drop (unat off) payload;
                      (written, w) = (if wr_open then wr_all W fresh w else (Inr (), w))
                  in (case written of
                        Inl _ \<Rightarrow> Some (False, False, [send_rst f], f, w)
                      | Inr _ \<Rightarrow>
                          map_option (\<lambda>(live, out, f, w). (live, True, out, f, w))
                            (drain_ooo W wr_open (f\<lparr>rcv_nxt := rcv_nxt f + of_nat (length fresh)\<rparr>) w))
              else Some (True, True, [], f, w)
         else map_option (\<lambda>f. (True, True, [], f, w)) (queue_ooo (sg_seq seg) payload f))"

definition on_fin :: "Segment \<Rightarrow> bool \<Rightarrow> Flow \<Rightarrow> FlowOut list \<times> Flow \<times> bool" where
  "on_fin seg wr_open f =
     (if sg_seq seg + of_nat (length (sg_payload seg)) = rcv_nxt f \<and> \<not> guest_fin_rcvd f then
        (if wr_open then [Shutdown] else [], f\<lparr>rcv_nxt := rcv_nxt f + 1, guest_fin_rcvd := True\<rparr>, False)
      else ([], f, wr_open))"

definition on_segment ::
  "'w sink_ops \<Rightarrow> nat \<Rightarrow> Segment \<Rightarrow> Flow \<Rightarrow> 'w \<Rightarrow> bool \<Rightarrow>
   (bool \<times> FlowOut list \<times> Flow \<times> 'w \<times> bool) option" where
  "on_segment W now seg f w wr_open =
     (if Segment_is_rst seg then Some (False, [], f, w, wr_open)
      else
        case on_payload W seg wr_open (on_ack now seg (f\<lparr>last_activity := now\<rparr>)) w of
          None \<Rightarrow> None
        | Some (live, need_ack, out, f, w) \<Rightarrow>
            if \<not> live then Some (False, out, f, w, wr_open)
            else
              let (shut, f, wr_open) = (if Segment_is_fin seg then on_fin seg wr_open f else ([], f, wr_open))
              in Some (True, out @ shut @ (if need_ack \<or> Segment_is_fin seg then [send_ack f] else []),
                       f, w, wr_open))"

definition closed_both_ways :: "Flow \<Rightarrow> bool" where
  "closed_both_ways f \<longleftrightarrow> guest_fin_rcvd f \<and> our_fin_sent f \<and> snd_una f = snd_nxt f"

section \<open>Opening\<close>

datatype handshake = Opening | Open "Segment option" | OpenFailed "string option"

definition syn_options :: "u16 \<Rightarrow> bytes" where
  "syn_options mtu = [2, 4] @ to_be16 (mss_clamp mtu)"

definition passive_start :: "u16 \<Rightarrow> nat \<Rightarrow> Flow \<Rightarrow> FlowOut list \<times> Flow" where
  "passive_start mtu now f =
     ([Emit (snd_nxt f) (rcv_nxt f) (TCP_SYN OR TCP_ACK) [] (syn_options mtu)],
      f\<lparr>snd_nxt := snd_nxt f + 1, rto_at := Some (now + RTO)\<rparr>)"

definition passive_segment :: "u16 \<Rightarrow> u32 \<Rightarrow> Segment \<Rightarrow> Flow \<Rightarrow> handshake \<times> FlowOut list \<times> Flow" where
  "passive_segment mtu isn seg f =
     (if Segment_is_rst seg then (OpenFailed None, [], f)
      else if Segment_is_syn seg \<and> \<not> Segment_is_ack seg then
        (Opening, [Emit isn (rcv_nxt f) (TCP_SYN OR TCP_ACK) [] (syn_options mtu)], f)
      else if Segment_is_ack seg \<and> sg_ack seg = snd_nxt f then
        (Open (Some seg), [],
         f\<lparr>snd_una := snd_nxt f, peer_wnd := ucast (sg_window seg), retries := 0, rto_at := None\<rparr>)
      else (OpenFailed None, [send_rst f], f))"

definition passive_timeout :: "u16 \<Rightarrow> u32 \<Rightarrow> nat \<Rightarrow> Flow \<Rightarrow> handshake \<times> FlowOut list \<times> Flow" where
  "passive_timeout mtu isn now f =
     (let f = f\<lparr>retries := retries f + 1\<rparr>
      in if retries f > MAX_RETRIES then (OpenFailed None, [send_rst f], f)
         else (Opening, [Emit isn (rcv_nxt f) (TCP_SYN OR TCP_ACK) [] (syn_options mtu)],
               f\<lparr>rto_at := Some (now + RTO)\<rparr>))"

definition active_start :: "u16 \<Rightarrow> nat \<Rightarrow> Flow \<Rightarrow> FlowOut list \<times> Flow" where
  "active_start mtu now f =
     ([Emit (snd_nxt f) 0 TCP_SYN [] (syn_options mtu)],
      f\<lparr>snd_nxt := snd_nxt f + 1, rto_at := Some (now + RTO)\<rparr>)"

definition active_segment :: "Segment \<Rightarrow> Flow \<Rightarrow> handshake \<times> FlowOut list \<times> Flow" where
  "active_segment seg f =
     (if Segment_is_rst seg then (OpenFailed (Some ''connection refused by guest''), [], f)
      else if Segment_is_syn seg \<and> Segment_is_ack seg \<and> sg_ack seg = snd_nxt f then
        let f = f\<lparr>snd_una := snd_nxt f, rcv_nxt := sg_seq seg + 1, peer_wnd := ucast (sg_window seg),
                  fl_mss := (case sg_mss seg of None \<Rightarrow> fl_mss f | Some m \<Rightarrow> min (fl_mss f) (unat m)),
                  retries := 0, rto_at := None\<rparr>
        in (Open None, [send_ack f], f)
      else (OpenFailed (Some ''unexpected segment during handshake''), [send_rst f], f))"

definition active_timeout :: "u16 \<Rightarrow> u32 \<Rightarrow> nat \<Rightarrow> Flow \<Rightarrow> handshake \<times> FlowOut list \<times> Flow" where
  "active_timeout mtu isn now f =
     (let f = f\<lparr>retries := retries f + 1\<rparr>
      in if retries f > MAX_RETRIES then (OpenFailed None, [], f)
         else (Opening, [Emit isn 0 TCP_SYN [] (syn_options mtu)], f\<lparr>rto_at := Some (now + RTO)\<rparr>))"

section \<open>The established state\<close>

text \<open>\<open>ReadDone\<close> is a read from the proxied stream that returned: the bytes (none at its end) or an error.\<close>

datatype flow_event =
    SegIn Segment
  | RxClosed
  | ReadDone "bytes option"
  | ProbeTimer
  | RtoTimer
  | IdleTimer

record 'w established =
  es_flow :: Flow
  es_wr :: 'w
  es_wr_open :: bool
  es_rd_done :: bool

definition est_sending :: "'w established \<Rightarrow> bool" where
  "est_sending st \<longleftrightarrow> \<not> es_rd_done st \<and> \<not> our_fin_sent (es_flow st)"

definition can_read :: "'w established \<Rightarrow> bool" where
  "can_read st \<longleftrightarrow> est_sending st \<and> send_allowance (es_flow st) > 0 \<and> length (unacked (es_flow st)) < 64"

definition window_closed :: "'w established \<Rightarrow> bool" where
  "window_closed st \<longleftrightarrow> est_sending st \<and> send_allowance (es_flow st) = 0 \<and> unacked (es_flow st) = []"

text \<open>The branches of the loop's select, each with its precondition; a read fills at most the allowance.\<close>

fun est_enabled :: "nat \<Rightarrow> flow_event \<Rightarrow> 'w established \<Rightarrow> bool" where
  "est_enabled now (SegIn seg) st = True"
| "est_enabled now RxClosed st = True"
| "est_enabled now (ReadDone r) st =
     (can_read st \<and> case_option True (\<lambda>data. length data \<le> send_allowance (es_flow st)) r)"
| "est_enabled now ProbeTimer st = window_closed st"
| "est_enabled now RtoTimer st = (case rto_at (es_flow st) of None \<Rightarrow> False | Some t \<Rightarrow> t \<le> now)"
| "est_enabled now IdleTimer st = (last_activity (es_flow st) + IDLE_TIMEOUT \<le> now)"

text \<open>The segment that ended the handshake, then one round of the loop at a time. The flag says whether
  the loop goes on.\<close>

definition est_segment ::
  "'w sink_ops \<Rightarrow> nat \<Rightarrow> Segment \<Rightarrow> 'w established \<Rightarrow> (bool \<times> FlowOut list \<times> 'w established) option" where
  "est_segment W now seg st =
     map_option
       (\<lambda>(live, out, f, w, wr_open). (live, out, st\<lparr>es_flow := f, es_wr := w, es_wr_open := wr_open\<rparr>))
       (on_segment W now seg (es_flow st) (es_wr st) (es_wr_open st))"

fun est_event ::
  "'w sink_ops \<Rightarrow> nat \<Rightarrow> flow_event \<Rightarrow> 'w established \<Rightarrow> (bool \<times> FlowOut list \<times> 'w established) option" where
  "est_event W now (SegIn seg) st = est_segment W now seg st"
| "est_event W now RxClosed st = Some (False, [], st)"
| "est_event W now (ReadDone r) st =
     (if r = None \<or> r = Some [] then
        let (out, f) = send_data now [] True ((es_flow st)\<lparr>our_fin_sent := True\<rparr>)
        in Some (True, out, st\<lparr>es_rd_done := True, es_flow := f\<rparr>)
      else
        let (out, f) = send_data now (the r) False (es_flow st)
        in Some (True, out, st\<lparr>es_flow := f\<rparr>))"
| "est_event W now ProbeTimer st = Some (True, [send_window_probe (es_flow st)], st)"
| "est_event W now RtoTimer st =
     (let (live, out, f) = on_rto now (es_flow st) in Some (live, out, st\<lparr>es_flow := f\<rparr>))"
| "est_event W now IdleTimer st = Some (False, [send_rst (es_flow st)], st)"

definition est_step ::
  "'w sink_ops \<Rightarrow> nat \<Rightarrow> flow_event \<Rightarrow> 'w established \<Rightarrow> (bool \<times> FlowOut list \<times> 'w established) option" where
  "est_step W now ev st =
     (if closed_both_ways (es_flow st) then Some (False, [], st) else est_event W now ev st)"

end
