(* ===== verification/Nat_Engine.thy ===== *)
theory Nat_Engine
  imports Vtcp
begin

text \<open>
  The userspace NAT engine of a segment (\<open>src/net/nat\<close>): its tables and the entry point for a guest's
  frame (\<open>mod.rs\<close>), the host guard of worktree isolation (\<open>guard.rs\<close>), UDP flows (\<open>udp.rs\<close>) and echo
  requests (\<open>icmp.rs\<close>), and the active opens that port forwards use.

  An operation returns what the engine does to the outside in order (\<open>NatOut\<close>), with the new state.
  The sender half of a channel is the list of what was sent into it. The host's interface addresses,
  the results of socket calls and of the \<open>ping\<close> program are arguments, and so is the clock.
\<close>

section \<open>The host guard\<close>

definition REFRESH :: nat where "REFRESH = 1000000000"

datatype FlowKind = FlowTcp u16 | FlowUdp u16 | FlowIcmp

fun first_octet :: "Ipv4Addr \<Rightarrow> u8" where
  "first_octet (Ipv4Addr a b c d) = a"

definition is_host_address :: "Ipv4Addr \<Rightarrow> Ipv4Addr list \<Rightarrow> bool" where
  "is_host_address dst host_addrs \<longleftrightarrow> is_loopback dst \<or> first_octet dst = 0 \<or> dst \<in> set host_addrs"

definition refuses :: "Ipv4Addr \<Rightarrow> FlowKind \<Rightarrow> Ipv4Addr list \<Rightarrow> u16 list \<Rightarrow> bool" where
  "refuses dst kind host_addrs exposed \<longleftrightarrow>
     (case kind of
        FlowTcp port \<Rightarrow> \<not> (dst = LOCALHOST \<and> port \<in> set exposed) \<and> is_host_address dst host_addrs
      | _ \<Rightarrow> is_host_address dst host_addrs)"

text \<open>\<open>hg_cache\<close> holds the last reading of the host's addresses and its time.\<close>

record HostGuard =
  hg_cache :: "(nat \<times> Ipv4Addr list) option"
  hg_exposed :: "u16 list"

definition HostGuard_with_source :: "u16 list \<Rightarrow> HostGuard" where
  "HostGuard_with_source exposed = \<lparr>hg_cache = None, hg_exposed = exposed\<rparr>"

definition HostGuard_addresses :: "nat \<Rightarrow> Ipv4Addr list \<Rightarrow> HostGuard \<Rightarrow> Ipv4Addr list \<times> HostGuard" where
  "HostGuard_addresses now host g =
     (let reread = (host, g\<lparr>hg_cache := Some (now, host)\<rparr>)
      in case hg_cache g of
           Some (at, addrs) \<Rightarrow> if now - at < REFRESH then (addrs, g) else reread
         | None \<Rightarrow> reread)"

definition HostGuard_refuses ::
  "nat \<Rightarrow> Ipv4Addr list \<Rightarrow> Ipv4Addr \<Rightarrow> FlowKind \<Rightarrow> HostGuard \<Rightarrow> bool \<times> HostGuard" where
  "HostGuard_refuses now host dst kind g =
     (let (addrs, g') = HostGuard_addresses now host g in (refuses dst kind addrs (hg_exposed g'), g'))"

section \<open>The engine\<close>

record NatConfig =
  nc_gw_ip :: Ipv4Addr
  nc_gw_mac :: MacAddr
  nc_mtu :: u16

definition NatConfig_new :: "Ipv4Addr \<Rightarrow> MacAddr \<Rightarrow> NatConfig" where
  "NatConfig_new gw_ip gw_mac = \<lparr>nc_gw_ip = gw_ip, nc_gw_mac = gw_mac, nc_mtu = 1500\<rparr>"

type_synonym GuestUdpKey = "Ipv4Addr \<times> u16 \<times> u16"

record IcmpState =
  ic_cache :: "(Ipv4Addr, bool \<times> nat) hashmap"
  ic_pending :: "Ipv4Addr list"

definition IcmpState_new :: IcmpState where
  "IcmpState_new = \<lparr>ic_cache = [], ic_pending = []\<rparr>"

record NatEngine =
  ne_cfg :: NatConfig
  tcp_flows :: "(FlowKey, Segment list) hashmap"
  udp_flows :: "(FlowKey, nat) hashmap"
  guest_udp :: "(GuestUdpKey, bytes list) hashmap"
  ne_macs :: "(Ipv4Addr, MacAddr) hashmap"
  ne_icmp :: IcmpState
  ne_guard :: "HostGuard option"
  ne_ip_id :: u16
  eph_counter :: u32
  eph_span :: u32

text \<open>A frame for the guest, a datagram sent on a flow's host socket, and the tasks the engine starts.\<close>

datatype NatOut =
    Output bytes
  | SockSend FlowKey bytes
  | SpawnPassive FlowKey MacAddr Segment
  | SpawnReader FlowKey MacAddr
  | SpawnEcho MacAddr bytes

definition EPHEMERAL_BASE :: u16 where "EPHEMERAL_BASE = 49152"
definition EPHEMERAL_PORTS :: u32 where "EPHEMERAL_PORTS = 16384"

definition with_pinger :: "NatConfig \<Rightarrow> NatEngine" where
  "with_pinger cfg =
     \<lparr>ne_cfg = cfg, tcp_flows = [], udp_flows = [], guest_udp = [], ne_macs = [], ne_icmp = IcmpState_new,
      ne_guard = None, ne_ip_id = 1, eph_counter = 0, eph_span = EPHEMERAL_PORTS\<rparr>"

definition set_guard :: "HostGuard \<Rightarrow> NatEngine \<Rightarrow> NatEngine" where
  "set_guard g e = (if ne_guard e = None then e\<lparr>ne_guard := Some g\<rparr> else e)"

definition refused :: "nat \<Rightarrow> Ipv4Addr list \<Rightarrow> Ipv4Addr \<Rightarrow> FlowKind \<Rightarrow> NatEngine \<Rightarrow> bool \<times> NatEngine" where
  "refused now host dst kind e =
     (case ne_guard e of
        None \<Rightarrow> (False, e)
      | Some g \<Rightarrow> let (r, g') = HostGuard_refuses now host dst kind g in (r, e\<lparr>ne_guard := Some g'\<rparr>))"

definition learn_mac :: "Ipv4Addr \<Rightarrow> MacAddr \<Rightarrow> NatEngine \<Rightarrow> NatEngine" where
  "learn_mac ip mac e = e\<lparr>ne_macs := hm_insert ip mac (ne_macs e)\<rparr>"

definition guest_mac :: "NatEngine \<Rightarrow> Ipv4Addr \<Rightarrow> MacAddr" where
  "guest_mac e ip = (case hm_get (ne_macs e) ip of Some mac \<Rightarrow> mac | None \<Rightarrow> MAC_BROADCAST)"

definition next_ip_id :: "NatEngine \<Rightarrow> u16 \<times> NatEngine" where
  "next_ip_id e = (ne_ip_id e, e\<lparr>ne_ip_id := ne_ip_id e + 1\<rparr>)"

definition nat_send_frame :: "NatEngine \<Rightarrow> MacAddr \<Rightarrow> bytes \<Rightarrow> NatOut" where
  "nat_send_frame e dst_mac ipv4_packet =
     Output (eth_build dst_mac (nc_gw_mac (ne_cfg e)) ETHERTYPE_IPV4 ipv4_packet)"

text \<open>The identification counter advances only when the datagram itself can be built.\<close>

definition send_udp_to_guest ::
  "MacAddr \<Rightarrow> Ipv4Addr \<times> u16 \<Rightarrow> Ipv4Addr \<times> u16 \<Rightarrow> bytes \<Rightarrow> NatEngine \<Rightarrow> NatOut list \<times> NatEngine" where
  "send_udp_to_guest dst_mac src dst payload e =
     (case udp_build (fst src) (fst dst) (snd src) (snd dst) payload of
        None \<Rightarrow> ([], e)
      | Some seg \<Rightarrow>
          let (ip_id, e) = next_ip_id e
          in case ipv4_build (fst src) (fst dst) IPPROTO_UDP 64 seg ip_id of
               None \<Rightarrow> ([], e)
             | Some pkt \<Rightarrow> ([nat_send_frame e dst_mac pkt], e))"

section \<open>Ephemeral ports\<close>

definition next_ephemeral :: "u32 \<Rightarrow> u32 \<Rightarrow> u16" where
  "next_ephemeral span n = EPHEMERAL_BASE + ucast (n mod span)"

text \<open>The pass over the range that both allocations make: at most \<open>tries\<close> ports, the first free one taken.
  The counter is left after the last port looked at.\<close>

fun first_free :: "(u16 \<Rightarrow> bool) \<Rightarrow> u32 \<Rightarrow> nat \<Rightarrow> u32 \<Rightarrow> u16 option \<times> u32" where
  "first_free taken span 0 n = (None, n)"
| "first_free taken span (Suc tries) n =
     (let p = next_ephemeral span n
      in if taken p then first_free taken span tries (n + 1) else (Some p, n + 1))"

definition alloc_active_tcp_flow :: "Ipv4Addr \<Rightarrow> u16 \<Rightarrow> NatEngine \<Rightarrow> FlowKey option \<times> NatEngine" where
  "alloc_active_tcp_flow guest_ip guest_port e =
     (let key = (\<lambda>p. \<lparr>fk_guest_ip = guest_ip, fk_guest_port = guest_port, fk_dst_ip = nc_gw_ip (ne_cfg e),
                     fk_dst_port = p\<rparr>);
          (free, n) = first_free (\<lambda>p. hm_contains (tcp_flows e) (key p)) (eph_span e) (unat (eph_span e))
                        (eph_counter e);
          e = e\<lparr>eph_counter := n\<rparr>
      in case free of
           None \<Rightarrow> (None, e)
         | Some p \<Rightarrow> (Some (key p), e\<lparr>tcp_flows := hm_insert (key p) [] (tcp_flows e)\<rparr>))"

definition remove_tcp_flow :: "FlowKey \<Rightarrow> NatEngine \<Rightarrow> NatEngine" where
  "remove_tcp_flow key e = e\<lparr>tcp_flows := hm_remove key (tcp_flows e)\<rparr>"

definition udp_bind_guest_flow :: "Ipv4Addr \<Rightarrow> u16 \<Rightarrow> NatEngine \<Rightarrow> u16 option \<times> NatEngine" where
  "udp_bind_guest_flow guest_ip guest_port e =
     (let (free, n) = first_free (\<lambda>p. hm_contains (guest_udp e) (guest_ip, guest_port, p)) (eph_span e)
                        (unat (eph_span e)) (eph_counter e);
          e = e\<lparr>eph_counter := n\<rparr>
      in case free of
           None \<Rightarrow> (None, e)
         | Some p \<Rightarrow> (Some p, e\<lparr>guest_udp := hm_insert (guest_ip, guest_port, p) [] (guest_udp e)\<rparr>))"

text \<open>The task of a bound flow: one payload toward the guest, and the end of the flow.\<close>

definition guest_flow_payload :: "GuestUdpKey \<Rightarrow> bytes \<Rightarrow> NatEngine \<Rightarrow> NatOut list \<times> NatEngine" where
  "guest_flow_payload key payload e =
     (let (guest_ip, guest_port, gw_port) = key
      in send_udp_to_guest (guest_mac e guest_ip) (nc_gw_ip (ne_cfg e), gw_port) (guest_ip, guest_port) payload e)"

definition guest_flow_closed :: "GuestUdpKey \<Rightarrow> NatEngine \<Rightarrow> NatEngine" where
  "guest_flow_closed key e = e\<lparr>guest_udp := hm_remove key (guest_udp e)\<rparr>"

definition udp_to_guest :: "Ipv4Addr \<Rightarrow> u16 \<Rightarrow> bytes \<Rightarrow> NatEngine \<Rightarrow> NatOut list \<times> NatEngine" where
  "udp_to_guest guest_ip guest_port payload e =
     (let src_port = next_ephemeral (eph_span e) (eph_counter e);
          e = e\<lparr>eph_counter := eph_counter e + 1\<rparr>
      in send_udp_to_guest (guest_mac e guest_ip) (nc_gw_ip (ne_cfg e), src_port) (guest_ip, guest_port) payload e)"

section \<open>UDP flows\<close>

definition UDP_IDLE :: nat where "UDP_IDLE = 60 * 1000000000"

text \<open>\<open>opened\<close> says whether a fresh socket could be bound and connected; the value of a flow is the time of
  its last use.\<close>

definition handle_outbound ::
  "nat \<Rightarrow> bool \<Rightarrow> FlowKey \<Rightarrow> MacAddr \<Rightarrow> bytes \<Rightarrow> NatEngine \<Rightarrow> NatOut list \<times> NatEngine" where
  "handle_outbound now opened key mac payload e =
     (let existing = hm_contains (udp_flows e) key
      in if \<not> existing \<and> \<not> opened then ([], e)
         else ((if existing then [] else [SpawnReader key mac]) @ [SockSend key payload],
               e\<lparr>udp_flows := hm_insert key now (udp_flows e)\<rparr>))"

definition udp_received ::
  "nat \<Rightarrow> FlowKey \<Rightarrow> MacAddr \<Rightarrow> bytes \<Rightarrow> NatEngine \<Rightarrow> NatOut list \<times> NatEngine" where
  "udp_received now key mac payload e =
     (let e = e\<lparr>udp_flows := map (\<lambda>(k, t). (k, if k = key then now else t)) (udp_flows e)\<rparr>
      in send_udp_to_guest mac (fk_dst_ip key, fk_dst_port key) (fk_guest_ip key, fk_guest_port key) payload e)"

definition udp_recv_error :: "FlowKey \<Rightarrow> NatEngine \<Rightarrow> NatEngine" where
  "udp_recv_error key e = e\<lparr>udp_flows := hm_remove key (udp_flows e)\<rparr>"

definition udp_quiet :: "nat \<Rightarrow> FlowKey \<Rightarrow> NatEngine \<Rightarrow> NatEngine" where
  "udp_quiet now key e =
     (case hm_get (udp_flows e) key of
        None \<Rightarrow> e
      | Some last_used \<Rightarrow>
          if now - last_used \<ge> UDP_IDLE then e\<lparr>udp_flows := hm_remove key (udp_flows e)\<rparr> else e)"

section \<open>Echo requests\<close>

definition CACHE_TTL :: nat where "CACHE_TTL = 10 * 1000000000"

definition IcmpState_cached :: "nat \<Rightarrow> Ipv4Addr \<Rightarrow> IcmpState \<Rightarrow> bool option" where
  "IcmpState_cached now dst s =
     (case hm_get (ic_cache s) dst of
        Some (ok, at) \<Rightarrow> if now - at < CACHE_TTL then Some ok else None
      | None \<Rightarrow> None)"

definition IcmpState_claim :: "Ipv4Addr \<Rightarrow> IcmpState \<Rightarrow> bool \<times> IcmpState" where
  "IcmpState_claim dst s =
     (if dst \<in> set (ic_pending s) then (False, s) else (True, s\<lparr>ic_pending := dst # ic_pending s\<rparr>))"

definition IcmpState_complete :: "nat \<Rightarrow> Ipv4Addr \<Rightarrow> bool \<Rightarrow> IcmpState \<Rightarrow> IcmpState" where
  "IcmpState_complete now dst ok s =
     s\<lparr>ic_cache := hm_insert dst (ok, now) (ic_cache s), ic_pending := removeAll dst (ic_pending s)\<rparr>"

definition respond :: "MacAddr \<Rightarrow> bytes \<Rightarrow> bool \<Rightarrow> NatEngine \<Rightarrow> NatOut list \<times> NatEngine" where
  "respond mac pkt reachable e =
     (if reachable then
        ((case icmp_echo_reply_for pkt of None \<Rightarrow> [] | Some r \<Rightarrow> [nat_send_frame e mac r]), e)
      else
        case Ipv4View_parse pkt of
          None \<Rightarrow> ([], e)
        | Some ip \<Rightarrow>
            let (ip_id, e) = next_ip_id e
            in case ipv4_build (nc_gw_ip (ne_cfg e)) (Ipv4View_src ip) IPPROTO_ICMP 64
                      (icmp_unreachable_for pkt 1) ip_id of
                 None \<Rightarrow> ([], e)
               | Some out \<Rightarrow> ([nat_send_frame e mac out], e))"

text \<open>An echo's task up to the probe, and from its result on. The address is what the task pings.\<close>

definition handle_echo ::
  "nat \<Rightarrow> MacAddr \<Rightarrow> bytes \<Rightarrow> NatEngine \<Rightarrow> Ipv4Addr option \<times> NatOut list \<times> NatEngine" where
  "handle_echo now mac pkt e =
     (case Ipv4View_parse pkt of
        None \<Rightarrow> (None, [], e)
      | Some ip \<Rightarrow>
          let dst = Ipv4View_dst ip
          in case IcmpState_cached now dst (ne_icmp e) of
               Some ok \<Rightarrow> (None, respond mac pkt ok e)
             | None \<Rightarrow>
                 let (claimed, s) = IcmpState_claim dst (ne_icmp e)
                 in (if claimed then Some dst else None, [], e\<lparr>ne_icmp := s\<rparr>))"

definition echo_probed ::
  "nat \<Rightarrow> MacAddr \<Rightarrow> bytes \<Rightarrow> Ipv4Addr \<Rightarrow> bool \<Rightarrow> NatEngine \<Rightarrow> NatOut list \<times> NatEngine" where
  "echo_probed now mac pkt dst ok e =
     respond mac pkt ok (e\<lparr>ne_icmp := IcmpState_complete now dst ok (ne_icmp e)\<rparr>)"

section \<open>A frame from a guest\<close>

definition handle_tcp ::
  "nat \<Rightarrow> Ipv4Addr list \<Rightarrow> Ipv4View \<Rightarrow> MacAddr \<Rightarrow> NatEngine \<Rightarrow> NatOut list \<times> NatEngine" where
  "handle_tcp now host ip src_mac e =
     (case TcpView_parse (Ipv4View_payload ip) of
        None \<Rightarrow> ([], e)
      | Some tcp \<Rightarrow>
          let key = \<lparr>fk_guest_ip = Ipv4View_src ip, fk_guest_port = TcpView_src_port tcp,
                     fk_dst_ip = Ipv4View_dst ip, fk_dst_port = TcpView_dst_port tcp\<rparr>;
              seg = Segment_from_view tcp
          in case hm_get (tcp_flows e) key of
               Some q \<Rightarrow> ([], e\<lparr>tcp_flows := hm_insert key (q @ [seg]) (tcp_flows e)\<rparr>)
             | None \<Rightarrow>
                 let opens = Segment_is_syn seg \<and> \<not> Segment_is_ack seg;
                     (r, e) = (if opens then refused now host (fk_dst_ip key) (FlowTcp (fk_dst_port key)) e
                               else (False, e))
                 in if opens \<and> \<not> r then
                      ([SpawnPassive key src_mac seg], e\<lparr>tcp_flows := hm_insert key [] (tcp_flows e)\<rparr>)
                    else if \<not> Segment_is_rst seg then
                      let (ip_id, e) = next_ip_id e
                      in ((case rst_for ip tcp ip_id of
                             None \<Rightarrow> []
                           | Some rst \<Rightarrow> [nat_send_frame e src_mac rst]), e)
                    else ([], e))"

definition handle_udp ::
  "nat \<Rightarrow> Ipv4Addr list \<Rightarrow> bool \<Rightarrow> Ipv4View \<Rightarrow> MacAddr \<Rightarrow> NatEngine \<Rightarrow> NatOut list \<times> NatEngine" where
  "handle_udp now host opened ip src_mac e =
     (case UdpView_parse (Ipv4View_payload ip) of
        None \<Rightarrow> ([], e)
      | Some udp \<Rightarrow>
          if Ipv4View_dst ip = nc_gw_ip (ne_cfg e) then
            let key = (Ipv4View_src ip, UdpView_src_port udp, UdpView_dst_port udp)
            in ([], (case hm_get (guest_udp e) key of
                       None \<Rightarrow> e
                     | Some q \<Rightarrow> e\<lparr>guest_udp := hm_insert key (q @ [UdpView_payload udp]) (guest_udp e)\<rparr>))
          else
            let (r, e) = refused now host (Ipv4View_dst ip) (FlowUdp (UdpView_dst_port udp)) e
            in if r then ([], e)
               else handle_outbound now opened
                      \<lparr>fk_guest_ip = Ipv4View_src ip, fk_guest_port = UdpView_src_port udp,
                       fk_dst_ip = Ipv4View_dst ip, fk_dst_port = UdpView_dst_port udp\<rparr>
                      src_mac (UdpView_payload udp) e)"

definition handle_icmp ::
  "nat \<Rightarrow> Ipv4Addr list \<Rightarrow> bytes \<Rightarrow> Ipv4View \<Rightarrow> MacAddr \<Rightarrow> NatEngine \<Rightarrow> NatOut list \<times> NatEngine" where
  "handle_icmp now host raw ip src_mac e =
     (case IcmpView_parse (Ipv4View_payload ip) of
        None \<Rightarrow> ([], e)
      | Some icmp_msg \<Rightarrow>
          if IcmpView_icmp_type icmp_msg \<noteq> ICMP_ECHO_REQUEST \<or> Ipv4View_dst ip = nc_gw_ip (ne_cfg e) then ([], e)
          else
            let (r, e) = refused now host (Ipv4View_dst ip) FlowIcmp e
            in if r then ([], e) else ([SpawnEcho src_mac (take (unat (Ipv4View_total_len ip)) raw)], e))"

definition nat_handle_frame ::
  "nat \<Rightarrow> Ipv4Addr list \<Rightarrow> bool \<Rightarrow> bytes \<Rightarrow> NatEngine \<Rightarrow> NatOut list \<times> NatEngine" where
  "nat_handle_frame now host opened eth_frame e =
     (case EthView_parse eth_frame of
        None \<Rightarrow> ([], e)
      | Some eth \<Rightarrow>
          if EthView_ethertype eth \<noteq> ETHERTYPE_IPV4 then ([], e)
          else
            case Ipv4View_parse (EthView_payload eth) of
              None \<Rightarrow> ([], e)
            | Some ip \<Rightarrow>
                let src_mac = EthView_src_mac eth; e = learn_mac (Ipv4View_src ip) src_mac e
                in if Ipv4View_proto ip = IPPROTO_TCP then handle_tcp now host ip src_mac e
                   else if Ipv4View_proto ip = IPPROTO_UDP then handle_udp now host opened ip src_mac e
                   else if Ipv4View_proto ip = IPPROTO_ICMP then
                     handle_icmp now host (EthView_payload eth) ip src_mac e
                   else ([], e))"

section \<open>Opening TCP flows\<close>

definition CONNECT_TIMEOUT :: nat where "CONNECT_TIMEOUT = 10 * 1000000000"
definition ACTIVE_OPEN_TIMEOUT :: nat where "ACTIVE_OPEN_TIMEOUT = 10 * 1000000000"

text \<open>A guest's SYN when the host could not connect: the guest is reset and the flow forgotten.\<close>

definition connect_failed :: "FlowKey \<Rightarrow> MacAddr \<Rightarrow> Segment \<Rightarrow> nat \<Rightarrow> u32 \<Rightarrow> NatEngine \<Rightarrow> NatOut list \<times> NatEngine" where
  "connect_failed key mac syn now isn e =
     (let flow = Flow_new (nc_mtu (ne_cfg e)) key mac isn now syn;
          (ip_id, e) = next_ip_id e
      in ((case emit_frame (nc_gw_mac (ne_cfg e)) ip_id flow 0 (sg_seq syn + 1) (TCP_RST OR TCP_ACK) [] [] of
             None \<Rightarrow> []
           | Some f \<Rightarrow> [Output f]), remove_tcp_flow key e))"

text \<open>An active open: a port and a slot are taken and the SYN is sent. The caller then waits for the task's
  word (\<open>outcome\<close>, with its time): the guest answered, the guest refused, or the task ended without one. When the
  time runs out first, the caller forgets the flow; the task forgets it when it ends, in every case.\<close>

datatype open_result = Opened | OpenRefused string | TaskDied | OpenTimedOut

definition open_active_begin ::
  "Ipv4Addr \<Rightarrow> u16 \<Rightarrow> nat \<Rightarrow> u32 \<Rightarrow> NatEngine \<Rightarrow> (FlowKey \<times> FlowOut list \<times> Flow) option \<times> NatEngine" where
  "open_active_begin guest_ip guest_port now isn e =
     (case alloc_active_tcp_flow guest_ip guest_port e of
        (None, e) \<Rightarrow> (None, e)
      | (Some key, e) \<Rightarrow>
          let mtu = nc_mtu (ne_cfg e);
              (out, f) = active_start mtu now (Flow_new_active mtu key (guest_mac e guest_ip) isn now)
          in (Some (key, out, f), e))"

definition open_active_end ::
  "FlowKey \<Rightarrow> nat \<Rightarrow> (nat \<times> handshake) option \<Rightarrow> NatEngine \<Rightarrow> open_result \<times> NatEngine" where
  "open_active_end key began outcome e =
     (case outcome of
        None \<Rightarrow> (OpenTimedOut, remove_tcp_flow key e)
      | Some (t, h) \<Rightarrow>
          if t < began + ACTIVE_OPEN_TIMEOUT then
            ((case h of Open _ \<Rightarrow> Opened | OpenFailed (Some why) \<Rightarrow> OpenRefused why | _ \<Rightarrow> TaskDied), e)
          else (OpenTimedOut, remove_tcp_flow key e))"

end
