(* ===== verification/Netservices.thy ===== *)
theory Netservices
  imports Nat_Engine Router Rules
begin

text \<open>
  What the lab daemon installs on a segment (\<open>src/labd/netservices.rs\<close>): the ingress hook that applies the
  L3 rules to guest frames, the uplink chain of the gateway (router, then admission, then NAT), the
  return path of NAT output, the services exposed to guests, and port forwards.

  The hook, the return path and the rule commands share one rule set. The list of exposed ports is
  one shared cell in the code; here its holders, the services and the engine's guard, are updated
  together. The engine exists on every segment; \<open>ss_nat\<close> says whether it gives egress.
\<close>

record ('n, 'h) SegmentServices =
  ss_rules :: "'n RuleSet"
  ss_engine :: NatEngine
  ss_nat :: bool
  host_services :: "u16 list"
  ss_forwards :: "(u64 \<times> 'h) list"
  next_forward_id :: u64

definition wrap_eth :: "MacAddr \<Rightarrow> MacAddr \<Rightarrow> bytes \<Rightarrow> bytes" where
  "wrap_eth src dst ipv4 = eth_build dst src ETHERTYPE_IPV4 ipv4"

section \<open>The ingress hook\<close>

definition rules_hook ::
  "'n ipnet_ops \<Rightarrow> nat \<times> nat \<Rightarrow> MacAddr \<Rightarrow> PortClass \<Rightarrow> bytes \<Rightarrow> 'n RuleSet \<Rightarrow> HookAction \<times> 'n RuleSet" where
  "rules_hook I clock gw_mac cls frame rs =
     (case cls of
        Guest _ \<Rightarrow>
          (case EthView_parse frame of
             None \<Rightarrow> (HookPass, rs)
           | Some eth \<Rightarrow>
               if EthView_dst_mac eth \<noteq> gw_mac \<or> EthView_ethertype eth \<noteq> ETHERTYPE_IPV4 then (HookPass, rs)
               else
                 let guest_mac = EthView_src_mac eth;
                     (rs, verdict) = RuleSet_eval I (fst clock) (snd clock) rs (EthView_payload eth)
                 in ((case verdict of
                        Pass \<Rightarrow> HookPass
                      | Drop answer \<Rightarrow>
                          Inject None (case_option [] (\<lambda>ip. [wrap_eth gw_mac guest_mac ip]) answer)
                      | Rewrite ip \<Rightarrow> Replace (eth_build gw_mac guest_mac ETHERTYPE_IPV4 ip)), rs))
      | _ \<Rightarrow> (HookPass, rs))"

section \<open>The uplink and the return path\<close>

definition is_host_service :: "bytes \<Rightarrow> u16 list \<Rightarrow> bool" where
  "is_host_service frame ports \<longleftrightarrow>
     (case EthView_parse frame of
        None \<Rightarrow> False
      | Some eth \<Rightarrow>
          EthView_ethertype eth = ETHERTYPE_IPV4 \<and>
          (case Ipv4View_parse (EthView_payload eth) of
             None \<Rightarrow> False
           | Some ip \<Rightarrow>
               is_loopback (Ipv4View_dst ip) \<and> Ipv4View_proto ip = IPPROTO_TCP \<and>
               (case TcpView_parse (Ipv4View_payload ip) of
                  None \<Rightarrow> False
                | Some tcp \<Rightarrow> TcpView_dst_port tcp \<in> set ports)))"

definition uplink ::
  "'n ipnet_ops \<Rightarrow> nat \<times> nat \<Rightarrow> nat \<Rightarrow> Ipv4Addr list \<Rightarrow> bool \<Rightarrow> string \<Rightarrow> bytes \<Rightarrow>
   'n Router \<times> ('n, 'h) SegmentServices \<Rightarrow>
   (string \<times> bytes) list \<times> NatOut list \<times> 'n Router \<times> ('n, 'h) SegmentServices" where
  "uplink I clock now host opened segment frame = (\<lambda>(router, s).
     (case route I clock now segment frame router of
        (None, sent, router) \<Rightarrow> (sent, [], router, s)
      | (Some frame, sent, router) \<Rightarrow>
          if ss_nat s \<or> is_host_service frame (host_services s) then
            let (out, e) = nat_handle_frame now host opened frame (ss_engine s)
            in (sent, out, router, s\<lparr>ss_engine := e\<rparr>)
          else (sent, [], router, s)))"

definition nat_output :: "nat \<times> nat \<Rightarrow> bytes \<Rightarrow> 'n RuleSet \<Rightarrow> bytes \<times> 'n RuleSet" where
  "nat_output clock frame rs =
     (case EthView_parse frame of
        None \<Rightarrow> (frame, rs)
      | Some eth \<Rightarrow>
          if EthView_ethertype eth \<noteq> ETHERTYPE_IPV4 then (frame, rs)
          else
            let (rs, verdict) = RuleSet_eval_return (fst clock) (snd clock) rs (EthView_payload eth)
            in (case verdict of
                  Rewrite ip \<Rightarrow> (wrap_eth (EthView_src_mac eth) (EthView_dst_mac eth) ip, rs)
                | _ \<Rightarrow> (frame, rs)))"

section \<open>Installing and changing the services\<close>

definition spawn_nat :: "Ipv4Addr \<Rightarrow> MacAddr \<Rightarrow> u16 \<Rightarrow> NatEngine" where
  "spawn_nat gw_ip gw_mac mtu = with_pinger ((NatConfig_new gw_ip gw_mac)\<lparr>nc_mtu := mtu\<rparr>)"

definition install :: "Ipv4Addr \<Rightarrow> MacAddr \<Rightarrow> bool \<Rightarrow> bool \<Rightarrow> u16 \<Rightarrow> ('n, 'h) SegmentServices" where
  "install gw_ip gw_mac nat_enabled isolated mtu =
     (let engine = spawn_nat gw_ip gw_mac mtu;
          engine = (if isolated then set_guard (HostGuard_with_source []) engine else engine)
      in \<lparr>ss_rules = RuleSet_new, ss_engine = engine, ss_nat = nat_enabled, host_services = [], ss_forwards = [],
          next_forward_id = 1\<rparr>)"

definition preinstall_rules ::
  "'n BlockRule list \<Rightarrow> RedirectRule list \<Rightarrow> ('n, 'h) SegmentServices \<Rightarrow> ('n, 'h) SegmentServices" where
  "preinstall_rules block_rules redirect_rules s =
     (let rs = fold (\<lambda>b rs. fst (add_block b rs)) block_rules (ss_rules s);
          rs = fold (\<lambda>r rs. fst (add_redirect r rs)) redirect_rules rs
      in s\<lparr>ss_rules := rs\<rparr>)"

definition expose_host_service :: "u16 \<Rightarrow> ('n, 'h) SegmentServices \<Rightarrow> ('n, 'h) SegmentServices" where
  "expose_host_service port s =
     (if port \<in> set (host_services s) then s
      else
        let ports = host_services s @ [port]
        in s\<lparr>host_services := ports,
             ss_engine := (ss_engine s)
               \<lparr>ne_guard := map_option (\<lambda>g. g\<lparr>hg_exposed := ports\<rparr>) (ne_guard (ss_engine s))\<rparr>\<rparr>)"

definition SegmentServices_learn_mac :: "Ipv4Addr \<Rightarrow> MacAddr \<Rightarrow> ('n, 'h) SegmentServices \<Rightarrow> ('n, 'h) SegmentServices" where
  "SegmentServices_learn_mac ip mac s = (if ss_nat s then s\<lparr>ss_engine := learn_mac ip mac (ss_engine s)\<rparr> else s)"

text \<open>\<open>listen\<close> is the outcome of binding the host socket and starting the forward's task: its handle and the
  bound port, or the error's text.\<close>

definition add_forward ::
  "string + 'h \<times> u16 \<Rightarrow> ('n, 'h) SegmentServices \<Rightarrow> (string + u64 \<times> u16) \<times> ('n, 'h) SegmentServices" where
  "add_forward listen s =
     (if \<not> ss_nat s then (Inl ''port forwarding requires NAT/egress on the segment'', s)
      else
        case listen of
          Inl e \<Rightarrow> (Inl e, s)
        | Inr (handle, bound) \<Rightarrow>
            let i = next_forward_id s
            in (Inr (i, bound), s\<lparr>next_forward_id := i + 1, ss_forwards := ss_forwards s @ [(i, handle)]\<rparr>))"

text \<open>The first forward with the identifier is taken out; its handle is what the code aborts.\<close>

definition remove_forward :: "u64 \<Rightarrow> ('n, 'h) SegmentServices \<Rightarrow> 'h option \<times> ('n, 'h) SegmentServices" where
  "remove_forward i s =
     (case List.extract (\<lambda>(fid, _). fid = i) (ss_forwards s) of
        None \<Rightarrow> (None, s)
      | Some (before, (_, handle), after) \<Rightarrow> (Some handle, s\<lparr>ss_forwards := before @ after\<rparr>))"

definition listen_error :: "string \<Rightarrow> string \<Rightarrow> bool \<Rightarrow> string \<Rightarrow> string" where
  "listen_error addr ip addr_not_available e =
     (if addr_not_available then
        ''cannot listen on host '' @ addr @ '': the host has no address '' @ ip @ '' (forward `bind`)''
      else ''cannot listen on host '' @ addr @ '': '' @ e)"

end
