(* ===== verification/Vtcp_Lemmas.thy ===== *)
theory Vtcp_Lemmas
  imports Vtcp Frame_Lemmas Framing_Lemmas
begin

text \<open>
  Properties of the TCP peer: the reassembly queue never makes the task panic and stays within one
  window, what is proxied is the guest's stream in order, every segment sent carries bytes of the
  host's stream at their place, the guest's window is respected, and the sender never waits for
  nothing.
\<close>

section \<open>Sequence numbers\<close>

lemma unat_diff_of_nat:
  assumes "i \<le> j" "j < i + 2 ^ 32"
  shows "unat ((r + of_nat j) - (r + of_nat i) :: u32) = j - i"
proof -
  have "(r + of_nat j) - (r + of_nat i) = (of_nat (j - i) :: u32)"
    using assms by (simp add: of_nat_diff)
  moreover have "j - i < 2 ^ 32" using assms by simp
  ultimately show ?thesis by (simp add: unat_of_nat)
qed

lemma seq_le_offsets:
  assumes "i < j + 2 ^ 31" "j < i + 2 ^ 31"
  shows "seq_le (r + of_nat i) (r + of_nat j) \<longleftrightarrow> i \<le> j"
proof (cases "i \<le> j")
  case True
  then show ?thesis using assms unat_diff_of_nat [of i j r] by (simp add: seq_le_def word_less_nat_alt)
next
  case False
  have "(r + of_nat j) - (r + of_nat i) = 0 - (of_nat (i - j) :: u32)"
    using False by (simp add: of_nat_diff)
  moreover have "unat (of_nat (i - j) :: u32) = i - j" by (subst unat_of_nat) (use assms in simp)
  ultimately have "unat ((r + of_nat j) - (r + of_nat i)) = 2 ^ 32 - (i - j)"
    using False by (simp only: unat_sub_if') (simp add: word_size)
  then show ?thesis using False assms by (simp add: seq_le_def word_less_nat_alt)
qed

text \<open>A held segment that starts at or before the next byte and does not end there reaches past it.\<close>

lemma overlap_in_range:
  assumes start: "seq_le s nxt" and stop: "\<not> seq_le (s + of_nat n) nxt" and "n < 2 ^ 31"
  shows "unat (nxt - s) < n"
proof (rule ccontr)
  assume "\<not> unat (nxt - s) < n"
  then have le: "n \<le> unat (nxt - s)" by simp
  have n: "unat (of_nat n :: u32) = n" using assms(3) by (simp add: unat_of_nat)
  have "nxt - (s + of_nat n) = (nxt - s) - of_nat n" by simp
  also have "unat \<dots> = unat (nxt - s) - n"
    using le n by (simp add: unat_sub word_le_nat_alt)
  finally have "unat (nxt - (s + of_nat n)) < 2 ^ 31"
    using start le by (simp add: seq_le_def word_less_nat_alt)
  then show False using stop by (simp add: seq_le_def word_less_nat_alt)
qed

section \<open>The reassembly queue\<close>

definition held :: "(u32 \<times> bytes) list \<Rightarrow> nat" where
  "held m = sum_list (map (\<lambda>(_, p). length p) m)"

lemma held_simps [simp]: "held [] = 0" "held ((s, p) # m) = length p + held m"
  by (simp_all add: held_def)

definition queue_wf :: "(u32 \<times> bytes) list \<Rightarrow> bool" where
  "queue_wf m \<longleftrightarrow> sorted_wrt (<) (map fst m) \<and> (\<forall>(s, p) \<in> set m. p \<noteq> [] \<and> length p \<le> OOO_MAX_BYTES)"

definition ooo_inv :: "Flow \<Rightarrow> bool" where
  "ooo_inv f \<longleftrightarrow> queue_wf (ooo f) \<and> ooo_bytes f = held (ooo f) \<and> held (ooo f) \<le> OOO_MAX_BYTES"

lemma set_bt_insert: "set (bt_insert k v m) \<subseteq> insert (k, v) (set m)"
  by (induction m) (auto split: if_splits)

lemma fst_bt_insert: "fst ` set (bt_insert k v m) = insert k (fst ` set m)"
proof (induction m)
  case (Cons e m)
  then show ?case by (cases e) (simp add: insert_commute)
qed simp

lemma sorted_bt_insert: "sorted_wrt (<) (map fst m) \<Longrightarrow> sorted_wrt (<) (map fst (bt_insert k v m))"
proof (induction m)
  case (Cons e m)
  then show ?case
    using fst_bt_insert [of k v m] by (cases e) (auto simp: image_iff)
qed simp

lemma held_bt_insert:
  "sorted_wrt (<) (map fst m) \<Longrightarrow>
   held (bt_insert k v m) + case_option 0 length (hm_get m k) = held m + length v"
proof (induction m)
  case (Cons e m)
  have "hm_get m k = None" if "k < fst e"
    using Cons.prems that by (force simp: hm_get_def map_of_eq_None_iff)
  with Cons show ?case by (cases e) (auto simp: hm_get_def split: option.splits)
qed (simp add: hm_get_def)

lemma queue_wf_bt_insert:
  "queue_wf m \<Longrightarrow> v \<noteq> [] \<Longrightarrow> length v \<le> OOO_MAX_BYTES \<Longrightarrow> queue_wf (bt_insert k v m)"
  using set_bt_insert [of k v m] by (auto simp: queue_wf_def sorted_bt_insert)

lemma held_get: "hm_get m k = Some p \<Longrightarrow> length p \<le> held m"
  by (induction m) (auto simp: hm_get_def split: if_splits)

lemma evict_ooo_spec:
  "\<exists>m'. evict_ooo m (held m) = Some (m', held m') \<and> held m' \<le> OOO_MAX_BYTES \<and> (\<exists>gone. m = gone @ m')"
proof (induction m)
  case (Cons e m)
  obtain s p where e: "e = (s, p)" by (cases e)
  show ?case
  proof (cases "held (e # m) > OOO_MAX_BYTES")
    case True
    then show ?thesis using Cons.IH by (auto simp: e usize_sub_def)
  next
    case False
    then show ?thesis by (auto simp: e intro: exI [of _ "[]"])
  qed
qed (simp add: OOO_MAX_BYTES_def)

lemma queue_wf_append: "queue_wf (a @ b) \<Longrightarrow> queue_wf b"
  by (auto simp: queue_wf_def sorted_wrt_append)

lemma queue_ooo_spec:
  assumes inv: "ooo_inv f" and ne: "payload \<noteq> []"
  obtains m where "queue_ooo seq payload f = Some (f\<lparr>ooo := m, ooo_bytes := held m\<rparr>)"
    and "ooo_inv (f\<lparr>ooo := m, ooo_bytes := held m\<rparr>)" and "set m \<subseteq> insert (seq, payload) (set (ooo f))"
proof (cases "length payload > OOO_MAX_BYTES \<or> (\<exists>e. hm_get (ooo f) seq = Some e \<and> length payload \<le> length e)")
  case True
  then have "queue_ooo seq payload f = Some f" by (auto simp: queue_ooo_def Let_def)
  moreover have "f\<lparr>ooo := ooo f, ooo_bytes := held (ooo f)\<rparr> = f" using inv by (simp add: ooo_inv_def)
  ultimately show thesis by (intro that [of "ooo f"]) (use inv in auto)
next
  case False
  let ?m = "bt_insert seq payload (ooo f)"
  obtain m where m: "evict_ooo ?m (held ?m) = Some (m, held m)" "held m \<le> OOO_MAX_BYTES"
    and split: "\<exists>gone. ?m = gone @ m"
    using evict_ooo_spec [of ?m] by blast
  have wf: "queue_wf ?m" using inv False ne by (intro queue_wf_bt_insert) (auto simp: ooo_inv_def)
  have "held ?m + case_option 0 length (hm_get (ooo f) seq) = held (ooo f) + length payload"
    using inv by (intro held_bt_insert) (simp add: ooo_inv_def queue_wf_def)
  then have total: "ooo_bytes f - case_option 0 length (hm_get (ooo f) seq) + length payload = held ?m"
    "case_option 0 length (hm_get (ooo f) seq) \<le> ooo_bytes f"
    using inv held_get [of "ooo f" seq] by (auto simp: ooo_inv_def split: option.splits)
  have "queue_ooo seq payload f = Some (f\<lparr>ooo := m, ooo_bytes := held m\<rparr>)"
  proof (cases "hm_get (ooo f) seq")
    case None
    with False total m(1) show ?thesis by (simp add: queue_ooo_def)
  next
    case (Some e)
    with False total m(1) show ?thesis by (simp add: queue_ooo_def usize_sub_def)
  qed
  moreover have "queue_wf m" using wf split queue_wf_append by auto
  moreover have "set m \<subseteq> insert (seq, payload) (set (ooo f))"
    using split set_bt_insert [of seq payload "ooo f"] by auto
  ultimately show thesis using that m(2) by (simp add: ooo_inv_def)
qed

lemma forget_stale_spec:
  "forget_stale nxt m (held m + k) =
     (let m' = filter (\<lambda>(s, p). \<not> seq_le (s + of_nat (length p)) nxt) m in Some (m', held m' + k))"
proof (induction m arbitrary: k)
  case (Cons e m)
  obtain s p where e: "e = (s, p)" by (cases e)
  have "usize_sub (length p + held m + k) (length p) = Some (held m + k)" by (simp add: usize_sub_def)
  moreover have "length p + held m + k = held m + (length p + k)" by simp
  ultimately show ?case
    using Cons.IH [of k] Cons.IH [of "length p + k"] by (simp add: e Let_def ac_simps)
qed simp

lemma queue_wf_filter: "queue_wf m \<Longrightarrow> queue_wf (filter P m)"
  by (auto simp: queue_wf_def sorted_wrt_map intro: sorted_wrt_filter)

lemma held_filter: "held (filter P m) \<le> held m"
proof (induction m)
  case (Cons e m)
  then show ?case by (cases e) auto
qed simp

lemma queue_wf_distinct: "queue_wf m \<Longrightarrow> distinct (map fst m)"
  by (auto simp: queue_wf_def strict_sorted_iff)

lemma hm_remove_filter: "hm_remove k m = filter (\<lambda>(k', _). k' \<noteq> k) m"
  by (induction m) (auto simp: hm_remove_def)

lemma held_remove:
  "distinct (map fst m) \<Longrightarrow> (k, p) \<in> set m \<Longrightarrow> held (hm_remove k m) + length p = held m"
proof (induction m)
  case (Cons e m)
  have "filter (\<lambda>(k', _). k' \<noteq> k) m = m" if "k \<notin> fst ` set m"
    using that by (intro filter_True) force
  with Cons show ?case by (cases e) (force simp: hm_remove_filter)
qed simp

text \<open>One round of the drain loop never panics, and it hands out the rest of the segment that continues
  the stream.\<close>

lemma drain_round_spec:
  assumes inv: "ooo_inv f"
  defines "m \<equiv> filter (\<lambda>(s, p). \<not> seq_le (s + of_nat (length p)) (rcv_nxt f)) (ooo f)"
  shows "drain_round f =
    (case find (\<lambda>(s, _). seq_le s (rcv_nxt f)) m of
       None \<Rightarrow> Some (f\<lparr>ooo := m, ooo_bytes := held m\<rparr>, None)
     | Some (s, p) \<Rightarrow> Some (f\<lparr>ooo := hm_remove s m, ooo_bytes := held (hm_remove s m)\<rparr>,
         Some (drop (unat (rcv_nxt f - s)) p)))"
proof -
  have st: "forget_stale (rcv_nxt f) (ooo f) (ooo_bytes f) = Some (m, held m)"
    using forget_stale_spec [of "rcv_nxt f" "ooo f" 0] inv by (simp add: m_def ooo_inv_def Let_def)
  have wf: "queue_wf m" using inv by (simp add: m_def ooo_inv_def queue_wf_filter)
  show ?thesis
  proof (cases "find (\<lambda>(s, _). seq_le s (rcv_nxt f)) m")
    case None
    then show ?thesis by (simp add: drain_round_def st)
  next
    case (Some e)
    obtain s p where e: "e = (s, p)" by (cases e)
    have mem: "(s, p) \<in> set m" and le: "seq_le s (rcv_nxt f)" using find_SomeD [OF Some] e by auto
    have "\<not> seq_le (s + of_nat (length p)) (rcv_nxt f)" using mem by (auto simp: m_def)
    moreover have "length p < 2 ^ 31"
      using wf mem by (auto simp: queue_wf_def OOO_MAX_BYTES_def WINDOW_def)
    ultimately have "unat (rcv_nxt f - s) < length p" using le by (intro overlap_in_range)
    moreover have "usize_sub (held m) (length p) = Some (held (hm_remove s m))"
      using held_remove [OF queue_wf_distinct [OF wf] mem] by (auto simp: usize_sub_def)
    ultimately show ?thesis using Some e by (simp add: drain_round_def st)
  qed
qed

lemma ooo_inv_sub:
  "ooo_inv f \<Longrightarrow> queue_wf m \<Longrightarrow> held m \<le> held (ooo f) \<Longrightarrow> ooo_inv (f\<lparr>ooo := m, ooo_bytes := held m\<rparr>)"
  by (simp add: ooo_inv_def)

lemma ooo_inv_round:
  assumes inv: "ooo_inv f" and "drain_round f = Some (f', r)"
  shows "ooo_inv f'"
proof -
  let ?m = "filter (\<lambda>(s, p). \<not> seq_le (s + of_nat (length p)) (rcv_nxt f)) (ooo f)"
  have "queue_wf ?m" "queue_wf (hm_remove s ?m)" "held ?m \<le> held (ooo f)" "held (hm_remove s ?m) \<le> held (ooo f)" for s
    using inv queue_wf_filter held_filter le_trans [OF held_filter held_filter]
    by (auto simp: ooo_inv_def hm_remove_filter simp del: filter_filter)
  with assms show ?thesis
    by (auto simp: drain_round_spec intro!: ooo_inv_sub split: option.splits)
qed

lemma ooo_inv_cong: "ooo f' = ooo f \<Longrightarrow> ooo_bytes f' = ooo_bytes f \<Longrightarrow> ooo_inv f' = ooo_inv f"
  by (simp add: ooo_inv_def)

lemma ooo_inv_upd [simp]: "ooo_inv (f\<lparr>rcv_nxt := n\<rparr>) = ooo_inv f" "ooo_inv (f\<lparr>last_activity := t\<rparr>) = ooo_inv f"
  by (simp_all add: ooo_inv_def)

lemma on_ack_sel [simp]:
  "ooo (on_ack now seg f) = ooo f" "ooo_bytes (on_ack now seg f) = ooo_bytes f"
  "rcv_nxt (on_ack now seg f) = rcv_nxt f" "guest_fin_rcvd (on_ack now seg f) = guest_fin_rcvd f"
  "snd_nxt (on_ack now seg f) = snd_nxt f" "our_fin_sent (on_ack now seg f) = our_fin_sent f"
  "fl_mss (on_ack now seg f) = fl_mss f"
  by (simp_all add: on_ack_def Let_def)

lemma drain_round_total: "ooo_inv f \<Longrightarrow> drain_round f \<noteq> None"
  by (simp add: drain_round_spec split: option.split prod.split)

lemma drain_ooo_total:
  "ooo_inv f \<Longrightarrow> \<exists>live out f' w'. drain_ooo W wr_open f w = Some (live, out, f', w') \<and> ooo_inv f'"
proof (induction W wr_open f w rule: drain_ooo.induct)
  case (1 W wr_open f w)
  obtain f' r where round: "drain_round f = Some (f', r)"
    using drain_round_total [OF 1(3)] by (cases "drain_round f") auto
  have inv: "ooo_inv f'" by (rule ooo_inv_round [OF 1(3) round])
  show ?case
  proof (cases r)
    case None
    with round inv show ?thesis by (subst drain_ooo.simps) auto
  next
    case (Some fresh)
    obtain res w1 where wr: "wr_all W fresh w = (res, w1)" by (cases "wr_all W fresh w")
    show ?thesis
    proof (cases "wr_open \<and> (\<exists>e. res = Inl e)")
      case True
      with round Some wr inv show ?thesis by (subst drain_ooo.simps) auto
    next
      case False
      let ?f = "f'\<lparr>rcv_nxt := rcv_nxt f' + of_nat (length fresh)\<rparr>"
      have "\<exists>live out f2 w2. drain_ooo W wr_open ?f (if wr_open then w1 else w) = Some (live, out, f2, w2) \<and> ooo_inv f2"
        using "1.IH" [OF round] inv False wr Some by (cases wr_open; cases res) auto
      with False round Some wr show ?thesis
        by (subst drain_ooo.simps) (cases res; auto)
    qed
  qed
qed

lemma on_payload_total:
  assumes inv: "ooo_inv f"
  shows "\<exists>live need_ack out f' w'. on_payload W seg wr_open f w = Some (live, need_ack, out, f', w') \<and> ooo_inv f'"
proof (cases "sg_payload seg = [] \<or> \<not> seq_le (sg_seq seg) (rcv_nxt f)")
  case True
  show ?thesis
  proof (cases "sg_payload seg = []")
    case True
    with inv show ?thesis by (auto simp: on_payload_def)
  next
    case ne: False
    with queue_ooo_spec [OF inv, of "sg_payload seg" "sg_seq seg"] obtain f' where
      "queue_ooo (sg_seq seg) (sg_payload seg) f = Some f'" "ooo_inv f'" by metis
    with True ne show ?thesis by (auto simp: on_payload_def Let_def)
  qed
next
  case False
  let ?off = "rcv_nxt f - sg_seq seg"
  let ?fresh = "drop (unat ?off) (sg_payload seg)"
  have bound: "unat ?off \<le> length (sg_payload seg)" if "?off < of_nat (length (sg_payload seg))"
  proof -
    have "unat ?off < unat (of_nat (length (sg_payload seg)) :: u32)" using that by (simp add: word_less_nat_alt)
    also have "\<dots> \<le> length (sg_payload seg)" by (simp add: unat_of_nat)
    finally show ?thesis by simp
  qed
  obtain res w1 where wr: "(if wr_open then wr_all W ?fresh w else (Inr (), w)) = (res, w1)"
    by (metis prod.collapse)
  obtain live out f' w' where "drain_ooo W wr_open (f\<lparr>rcv_nxt := rcv_nxt f + of_nat (length ?fresh)\<rparr>) w1 =
      Some (live, out, f', w')" "ooo_inv f'"
    using drain_ooo_total [of "f\<lparr>rcv_nxt := rcv_nxt f + of_nat (length ?fresh)\<rparr>"] inv by (metis ooo_inv_upd(1))
  note drained = this
  show ?thesis
  proof (cases "?off < of_nat (length (sg_payload seg))")
    case True
    then show ?thesis
      using False inv bound wr drained by (cases res) (auto simp: on_payload_def Let_def)
  next
    case old: False
    with False inv show ?thesis by (auto simp: on_payload_def Let_def)
  qed
qed

lemma on_segment_total:
  assumes inv: "ooo_inv f"
  shows "\<exists>live out f' w' wr_open'. on_segment W now seg f w wr_open = Some (live, out, f', w', wr_open') \<and> ooo_inv f'"
proof -
  let ?f = "on_ack now seg (f\<lparr>last_activity := now\<rparr>)"
  have "ooo_inv ?f" using inv by (simp add: ooo_inv_def)
  then obtain live need_ack out f' w' where
    p: "on_payload W seg wr_open ?f w = Some (live, need_ack, out, f', w')" "ooo_inv f'"
    using on_payload_total [of ?f W seg wr_open w] by blast
  then have "ooo_inv (fst (snd (on_fin seg wr_open f')))" by (simp add: on_fin_def ooo_inv_def)
  with p inv show ?thesis
    by (auto simp: on_segment_def Let_def split_def)
qed

section \<open>Runs of an established flow\<close>

fun read_bytes :: "flow_event \<Rightarrow> bytes" where
  "read_bytes (ReadDone (Some data)) = data"
| "read_bytes ev = []"

text \<open>\<open>est_reach W ok st0 H st outs\<close>: from \<open>st0\<close> the loop reaches \<open>st\<close> on enabled branches, segments allowed by
  \<open>ok\<close>, having read \<open>H\<close> from the proxied stream and sent \<open>outs\<close>.\<close>

inductive est_reach ::
  "'w sink_ops \<Rightarrow> ('w established \<Rightarrow> Segment \<Rightarrow> bool) \<Rightarrow> 'w established \<Rightarrow> bytes \<Rightarrow> 'w established \<Rightarrow>
   FlowOut list \<Rightarrow> bool" for W ok st0 where
  reach_start: "est_reach W ok st0 [] st0 []"
| reach_step: "est_reach W ok st0 H st outs \<Longrightarrow> est_enabled now ev st \<Longrightarrow>
    (\<And>seg. ev = SegIn seg \<Longrightarrow> ok st seg) \<Longrightarrow> est_step W now ev st = Some (True, out, st') \<Longrightarrow>
    est_reach W ok st0 (H @ read_bytes ev) st' (outs @ out)"

lemma unat_ucast_window [simp]: "unat (ucast (w :: u16) :: u32) = unat w"
  by transfer simp

lemma unat_window_le [simp]: "unat (w :: u16) \<le> 65535"
  using unat_u16_bound [of w] by simp

definition fresh_flow :: "Flow \<Rightarrow> bool" where
  "fresh_flow f \<longleftrightarrow> unacked f = [] \<and> ooo f = [] \<and> ooo_bytes f = 0 \<and> snd_una f = snd_nxt f \<and>
     rto_at f = None \<and> \<not> our_fin_sent f \<and> \<not> guest_fin_rcvd f \<and> unat (peer_wnd f) \<le> 65535"

definition fresh_established :: "'w established \<Rightarrow> bool" where
  "fresh_established st \<longleftrightarrow> fresh_flow (es_flow st) \<and> es_wr_open st \<and> \<not> es_rd_done st"

text \<open>Both handshakes, with any number of repeated segments and timeouts, end in a fresh flow.\<close>

inductive passive_reach :: "u16 \<Rightarrow> Flow \<Rightarrow> Flow \<Rightarrow> bool" for mtu f0 where
  passive_begin: "passive_reach mtu f0 (snd (passive_start mtu now f0))"
| passive_more: "passive_reach mtu f0 f \<Longrightarrow> passive_segment mtu (snd_nxt f0) seg f = (Opening, out, f') \<Longrightarrow>
    passive_reach mtu f0 f'"
| passive_again: "passive_reach mtu f0 f \<Longrightarrow> passive_timeout mtu (snd_nxt f0) now f = (Opening, out, f') \<Longrightarrow>
    passive_reach mtu f0 f'"

inductive active_reach :: "u16 \<Rightarrow> Flow \<Rightarrow> Flow \<Rightarrow> bool" for mtu f0 where
  active_begin: "active_reach mtu f0 (snd (active_start mtu now f0))"
| active_again: "active_reach mtu f0 f \<Longrightarrow> active_timeout mtu (snd_nxt f0) now f = (Opening, out, f') \<Longrightarrow>
    active_reach mtu f0 f'"

lemma passive_fresh:
  assumes "passive_reach mtu (Flow_new mtu key mac isn now syn) f"
    "passive_segment mtu isn seg f = (Open p, out, f')"
  shows "fresh_flow f' \<and> rcv_nxt f' = sg_seq syn + 1 \<and> snd_nxt f' = isn + 1"
proof -
  have "unacked f = [] \<and> ooo f = [] \<and> ooo_bytes f = 0 \<and> \<not> our_fin_sent f \<and> \<not> guest_fin_rcvd f \<and>
    rcv_nxt f = sg_seq syn + 1 \<and> snd_nxt f = isn + 1"
    using assms(1)
    by induction (auto simp: passive_start_def passive_segment_def passive_timeout_def Flow_new_def Let_def
        split: if_splits)
  with assms(2) show ?thesis
    by (auto simp: passive_segment_def fresh_flow_def split: if_splits)
qed

lemma active_fresh:
  assumes "active_reach mtu (Flow_new_active mtu key mac isn now) f"
    "active_segment seg f = (Open p, out, f')"
  shows "fresh_flow f' \<and> rcv_nxt f' = sg_seq seg + 1 \<and> snd_nxt f' = isn + 1"
proof -
  have "unacked f = [] \<and> ooo f = [] \<and> ooo_bytes f = 0 \<and> \<not> our_fin_sent f \<and> \<not> guest_fin_rcvd f \<and>
    snd_nxt f = isn + 1"
    using assms(1)
    by induction (auto simp: active_start_def active_timeout_def Flow_new_active_def Let_def split: if_splits)
  with assms(2) show ?thesis
    by (auto simp: active_segment_def fresh_flow_def Let_def split: if_splits)
qed

section \<open>The task never panics and the queue is bounded\<close>

lemma est_step_total:
  assumes inv: "ooo_inv (es_flow st)"
  shows "\<exists>live out st'. est_step W now ev st = Some (live, out, st') \<and> ooo_inv (es_flow st')"
proof (cases ev)
  case (SegIn seg)
  with on_segment_total [OF inv, of W now seg "es_wr st" "es_wr_open st"] inv show ?thesis
    by (auto simp: est_step_def est_segment_def)
next
  case (ReadDone r)
  with inv show ?thesis by (auto simp: est_step_def send_data_def ooo_inv_def Let_def)
qed (use inv in \<open>auto simp: est_step_def on_rto_def ooo_inv_def Let_def\<close>)

lemma est_reach_ooo_inv:
  assumes "est_reach W ok st0 H st outs" and "fresh_established st0"
  shows "ooo_inv (es_flow st)"
  using assms
proof induction
  case reach_start
  then show ?case by (simp add: fresh_established_def fresh_flow_def ooo_inv_def queue_wf_def)
next
  case (reach_step H st outs now ev out st')
  then show ?case using est_step_total [of st W now ev] by auto
qed


section \<open>The proxied stream is the guest's\<close>

text \<open>\<open>slice S i p\<close>: \<open>p\<close> is the part of \<open>S\<close> that starts at \<open>i\<close>.\<close>

definition slice :: "bytes \<Rightarrow> nat \<Rightarrow> bytes \<Rightarrow> bool" where
  "slice S i p \<longleftrightarrow> i + length p \<le> length S \<and> p = take (length p) (drop i S)"

lemma slice_le: "slice S i p \<Longrightarrow> i + length p \<le> length S"
  by (simp add: slice_def)

lemma slice_drop: "slice S i p \<Longrightarrow> j \<le> length p \<Longrightarrow> slice S (i + j) (drop j p)"
  unfolding slice_def by (metis (no_types, opaque_lifting) add.assoc add.commute drop_drop drop_take
      le_add_diff_inverse length_drop)

lemma take_slice: "slice S k p \<Longrightarrow> take k S @ p = take (k + length p) S"
  unfolding slice_def by (metis take_add)

text \<open>Every held segment is a part of the stream that ends within the bound \<open>B\<close> and is not far behind it.\<close>

definition parts_of :: "bytes \<Rightarrow> u32 \<Rightarrow> nat \<Rightarrow> nat \<Rightarrow> (u32 \<times> bytes) list \<Rightarrow> bool" where
  "parts_of S r0 l B m \<longleftrightarrow>
     (\<forall>(s, p) \<in> set m. \<exists>i. s = r0 + of_nat i \<and> slice S i p \<and> l < i \<and> i + length p \<le> B)"

lemma parts_of_filter: "parts_of S r0 l B m \<Longrightarrow> parts_of S r0 l B (filter P m)"
  by (auto simp: parts_of_def)

text \<open>\<open>at_offset S r0 k seg i\<close>: the segment carries the bytes of the guest's stream \<open>S\<close> from \<open>i\<close> on, inside the
  window advertised when \<open>k\<close> bytes are received and not older than half the sequence space; a FIN
  ends the stream.\<close>

definition at_offset :: "bytes \<Rightarrow> u32 \<Rightarrow> nat \<Rightarrow> Segment \<Rightarrow> nat \<Rightarrow> bool" where
  "at_offset S r0 k seg i \<longleftrightarrow>
     sg_seq seg = r0 + of_nat i \<and> slice S i (sg_payload seg) \<and> i + length (sg_payload seg) \<le> k + 65535 \<and>
     k + 1 < i + 2 ^ 31 \<and> (Segment_is_fin seg \<longrightarrow> i + length (sg_payload seg) = length S)"

definition from_guest :: "('w \<Rightarrow> bytes) \<Rightarrow> bytes \<Rightarrow> u32 \<Rightarrow> 'w established \<Rightarrow> Segment \<Rightarrow> bool" where
  "from_guest sunk S r0 st seg \<longleftrightarrow>
     sg_payload seg \<noteq> [] \<or> Segment_is_fin seg \<longrightarrow> (\<exists>i. at_offset S r0 (length (sunk (es_wr st))) seg i)"

text \<open>\<open>rx_at S r0 k f\<close>: the flow has received the first \<open>k\<close> bytes of the stream.\<close>

definition rx_at :: "bytes \<Rightarrow> u32 \<Rightarrow> nat \<Rightarrow> Flow \<Rightarrow> bool" where
  "rx_at S r0 k f \<longleftrightarrow>
     ooo_inv f \<and> k \<le> length S \<and> rcv_nxt f = r0 + of_nat (k + (if guest_fin_rcvd f then 1 else 0)) \<and>
     parts_of S r0 k (k + 65535) (ooo f) \<and> (guest_fin_rcvd f \<longrightarrow> k = length S)"

lemma rx_at_cong:
  "ooo f' = ooo f \<Longrightarrow> ooo_bytes f' = ooo_bytes f \<Longrightarrow> rcv_nxt f' = rcv_nxt f \<Longrightarrow>
   guest_fin_rcvd f' = guest_fin_rcvd f \<Longrightarrow> rx_at S r0 k f' = rx_at S r0 k f"
  by (simp add: rx_at_def ooo_inv_def)

lemma rx_at_not_continuing:
  assumes "rx_at S r0 k f" "(s, p) \<in> set (ooo f)"
  shows "\<not> seq_le s (rcv_nxt f)"
proof -
  obtain i where i: "s = r0 + of_nat i" "slice S i p" "k < i" "i + length p \<le> k + 65535"
    using assms by (auto simp: rx_at_def parts_of_def)
  have "p \<noteq> []" using assms by (auto simp: rx_at_def ooo_inv_def queue_wf_def)
  then have "\<not> guest_fin_rcvd f" using assms(1) i by (auto simp: rx_at_def slice_def)
  then show ?thesis
    using assms(1) i seq_le_offsets [of i k r0] by (auto simp: rx_at_def)
qed

context byte_sink
begin

lemma drain_ooo_stream:
  assumes "ooo_inv f" "rcv_nxt f = r0 + of_nat k" "l \<le> k" "k \<le> B" "B < l + 65536" "k \<le> length S"
    "sunk w = take k S" "parts_of S r0 l B (ooo f)" "drain_ooo I True f w = Some (True, out, f', w')"
  shows "\<exists>k' \<ge> k. k' \<le> B \<and> k' \<le> length S \<and> rcv_nxt f' = r0 + of_nat k' \<and> sunk w' = take k' S \<and>
    parts_of S r0 k' B (ooo f') \<and> ooo_inv f' \<and> guest_fin_rcvd f' = guest_fin_rcvd f"
  using assms
proof (induction "length (ooo f)" arbitrary: f w k out rule: less_induct)
  case less
  note inv = less.prems(1) and nxt = less.prems(2)
  define m where "m = filter (\<lambda>(s, p). \<not> seq_le (s + of_nat (length p)) (rcv_nxt f)) (ooo f)"
  have parts: "parts_of S r0 l B m" using less.prems(8) by (simp add: m_def parts_of_filter)
  have le: "seq_le (r0 + of_nat i) (rcv_nxt f) \<longleftrightarrow> i \<le> k" if "l < i" "i \<le> B" for i
    unfolding nxt by (rule seq_le_offsets) (use that less.prems(3-5) in auto)
  show ?case
  proof (cases "find (\<lambda>(s, _). seq_le s (rcv_nxt f)) m")
    case None
    have round: "drain_round f = Some (f\<lparr>ooo := m, ooo_bytes := held m\<rparr>, None)"
      using drain_round_spec [OF inv] None by (simp add: m_def)
    then have f': "f' = f\<lparr>ooo := m, ooo_bytes := held m\<rparr>" "w' = w"
      using less.prems(9) by (subst (asm) drain_ooo.simps, simp)+
    have "parts_of S r0 k B m"
      unfolding parts_of_def
    proof (clarsimp)
      fix s p assume mem: "(s, p) \<in> set m"
      then obtain i where i: "s = r0 + of_nat i" "slice S i p" "l < i" "i + length p \<le> B"
        using parts by (auto simp: parts_of_def)
      moreover have "\<not> seq_le s (rcv_nxt f)" using None mem by (auto simp: find_None_iff)
      ultimately show "\<exists>i. s = r0 + of_nat i \<and> slice S i p \<and> k < i \<and> i + length p \<le> B"
        using le [of i] by auto
    qed
    then show ?thesis
      using less.prems f' ooo_inv_round [OF inv round] by (intro exI [of _ k]) simp
  next
    case (Some e)
    obtain s p where e: "e = (s, p)" by (cases e)
    have mem: "(s, p) \<in> set m" and starts: "seq_le s (rcv_nxt f)" using find_SomeD [OF Some] e by auto
    obtain i where i: "s = r0 + of_nat i" "slice S i p" "l < i" "i + length p \<le> B"
      using parts mem by (auto simp: parts_of_def)
    have ik: "i \<le> k" using starts le [of i] i by simp
    have off: "unat (rcv_nxt f - s) = k - i"
      unfolding nxt i(1) by (rule unat_diff_of_nat) (use ik less.prems(4,5) i(3) in auto)
    have "\<not> seq_le (r0 + of_nat (i + length p)) (rcv_nxt f)" using mem i(1) by (auto simp: m_def add.assoc)
    then have past: "k < i + length p" using le [of "i + length p"] i(3,4) by simp
    let ?fresh = "drop (k - i) p"
    let ?f = "f\<lparr>ooo := hm_remove s m, ooo_bytes := held (hm_remove s m)\<rparr>"
    let ?g = "?f\<lparr>rcv_nxt := rcv_nxt f + of_nat (length ?fresh)\<rparr>"
    have round: "drain_round f = Some (?f, Some ?fresh)"
      using drain_round_spec [OF inv] Some e off by (simp add: m_def)
    have fresh: "slice S k ?fresh" using slice_drop [OF i(2), of "k - i"] ik past by simp
    obtain w1 where w1: "wr_all I ?fresh w = (Inr (), w1)" and rest: "drain_ooo I True ?g w1 = Some (True, out, f', w')"
      using less.prems(9) round by (subst (asm) drain_ooo.simps) (auto split: prod.splits sum.splits)
    have sunk: "sunk w1 = take (k + length ?fresh) S"
      using all_Inr [OF w1] less.prems(7) take_slice [OF fresh] by simp
    have "length (ooo ?g) < length (ooo f)" using drain_round_shorter [OF round] by simp
    moreover have "ooo_inv ?g" using ooo_inv_round [OF inv round] by (simp add: ooo_inv_def)
    moreover have "rcv_nxt ?g = r0 + of_nat (k + length ?fresh)" using nxt by simp
    moreover have "k + length ?fresh \<le> B" using i(4) ik past by simp
    moreover have "k + length ?fresh \<le> length S" by (rule slice_le [OF fresh])
    moreover have "parts_of S r0 l B (ooo ?g)" using parts by (simp add: hm_remove_filter parts_of_filter)
    ultimately obtain k' where "k + length ?fresh \<le> k'" "k' \<le> B \<and> k' \<le> length S \<and> rcv_nxt f' = r0 + of_nat k' \<and>
      sunk w' = take k' S \<and> parts_of S r0 k' B (ooo f') \<and> ooo_inv f' \<and> guest_fin_rcvd f' = guest_fin_rcvd ?g"
      using less.hyps [of ?g "k + length ?fresh" w1 out] less.prems(3,5) sunk rest by auto
    then show ?thesis by (intro exI [of _ k']) simp
  qed
qed

lemma on_payload_stream:
  assumes rx: "rx_at S r0 k f" and open_fin: "wr_open \<longleftrightarrow> \<not> guest_fin_rcvd f" and w: "sunk w = take k S"
    and seg: "sg_payload seg \<noteq> [] \<Longrightarrow> at_offset S r0 k seg i"
    and run: "on_payload I seg wr_open f w = Some (True, need_ack, out, f', w')"
  shows "\<exists>k' \<ge> k. rx_at S r0 k' f' \<and> sunk w' = take k' S \<and> k' \<le> k + 65535 \<and> guest_fin_rcvd f' = guest_fin_rcvd f \<and>
    (sg_payload seg \<noteq> [] \<and> i \<le> k \<longrightarrow> i + length (sg_payload seg) \<le> k')"
proof (cases "sg_payload seg = []")
  case True
  with run rx w show ?thesis by (intro exI [of _ k]) (simp add: on_payload_def)
next
  case ne: False
  note at = seg [OF ne, unfolded at_offset_def]
  let ?p = "sg_payload seg"
  have inv: "ooo_inv f" and nxt: "rcv_nxt f = r0 + of_nat (k + (if guest_fin_rcvd f then 1 else 0))"
    and parts: "parts_of S r0 k (k + 65535) (ooo f)" and k: "k \<le> length S"
    using rx by (simp_all add: rx_at_def)
  have len: "unat (of_nat (length ?p) :: u32) = length ?p"
    using at by (subst unat_of_nat) simp
  have le: "seq_le (sg_seq seg) (rcv_nxt f) \<longleftrightarrow> i \<le> k + (if guest_fin_rcvd f then 1 else 0)"
    unfolding nxt using at by (subst seq_le_offsets [symmetric, of _ _ r0]) auto
  show ?thesis
  proof (cases "guest_fin_rcvd f")
    case True
    then have "k = length S" using rx by (simp add: rx_at_def)
    then have i: "i + length ?p \<le> k" using at by (simp add: slice_def)
    have "unat (rcv_nxt f - sg_seq seg) = k + 1 - i"
      using at i True nxt unat_diff_of_nat [of i "k + 1" r0] by simp
    then have "\<not> rcv_nxt f - sg_seq seg < of_nat (length ?p)" using i len by (simp add: word_less_nat_alt)
    then have "f' = f \<and> w' = w" using run ne le i True by (simp add: on_payload_def Let_def)
    then show ?thesis using rx w i by (intro exI [of _ k]) simp
  next
    case live: False
    show ?thesis
    proof (cases "i \<le> k")
      case False
      then have "\<not> seq_le (sg_seq seg) (rcv_nxt f)" using le live by simp
      then obtain m where f': "f' = f\<lparr>ooo := m, ooo_bytes := held m\<rparr>" "w' = w" "ooo_inv f'"
        and m: "set m \<subseteq> insert (sg_seq seg, ?p) (set (ooo f))"
        using run ne queue_ooo_spec [OF inv ne, of "sg_seq seg"] by (auto simp: on_payload_def Let_def)
      have "parts_of S r0 k (k + 65535) m"
        using parts m at False by (fastforce simp: parts_of_def)
      then have "rx_at S r0 k f'" using rx f' by (simp add: rx_at_def)
      then show ?thesis using f' w False by (intro exI [of _ k]) simp
    next
      case True
      have off: "unat (rcv_nxt f - sg_seq seg) = k - i"
        using at True live nxt unat_diff_of_nat [of i k r0] by simp
      show ?thesis
      proof (cases "k < i + length ?p")
        case False
        then have "\<not> rcv_nxt f - sg_seq seg < of_nat (length ?p)" using off len by (simp add: word_less_nat_alt)
        then have "f' = f \<and> w' = w" using run ne le True live by (simp add: on_payload_def Let_def)
        then show ?thesis using rx w False by (intro exI [of _ k]) simp
      next
        case new: True
        let ?fresh = "drop (k - i) ?p"
        have "rcv_nxt f - sg_seq seg < of_nat (length ?p)"
          using new off len True by (simp add: word_less_nat_alt)
        then obtain w1 where w1: "wr_all I ?fresh w = (Inr (), w1)"
          and d: "drain_ooo I True (f\<lparr>rcv_nxt := rcv_nxt f + of_nat (length ?fresh)\<rparr>) w1 = Some (True, out, f', w')"
          using run ne le True live open_fin off
          by (auto simp: on_payload_def Let_def split: prod.splits sum.splits if_splits)
        have fresh: "slice S k ?fresh" using slice_drop [of S i ?p "k - i"] at True new by simp
        have sunk1: "sunk w1 = take (k + length ?fresh) S"
          using all_Inr [OF w1] w take_slice [OF fresh] by simp
        have end_bound: "k + length ?fresh = i + length ?p" using True new by simp
        obtain k' where k': "k' \<ge> k + length ?fresh" "k' \<le> k + 65535" "k' \<le> length S"
          "rcv_nxt f' = r0 + of_nat k'" "sunk w' = take k' S" "parts_of S r0 k' (k + 65535) (ooo f')"
          "ooo_inv f'" "guest_fin_rcvd f' = guest_fin_rcvd f"
          using drain_ooo_stream [of "f\<lparr>rcv_nxt := rcv_nxt f + of_nat (length ?fresh)\<rparr>" r0 "k + length ?fresh" k
              "k + 65535" S w1 out f' w'] inv nxt live at slice_le [OF fresh] sunk1 parts d end_bound
          by auto
        have "parts_of S r0 k' (k' + 65535) (ooo f')"
          using k'(1,6) by (fastforce simp: parts_of_def)
        then have "rx_at S r0 k' f'" using k' live by (simp add: rx_at_def)
        then show ?thesis using k' end_bound by (intro exI [of _ k']) auto
      qed
    qed
  qed
qed

lemma on_segment_stream:
  assumes rx: "rx_at S r0 k f" and open_fin: "wr_open \<longleftrightarrow> \<not> guest_fin_rcvd f" and w: "sunk w = take k S"
    and seg: "sg_payload seg \<noteq> [] \<or> Segment_is_fin seg \<Longrightarrow> at_offset S r0 k seg i"
    and run: "on_segment I now seg f w wr_open = Some (True, out, f', w', wr_open')"
  shows "\<exists>k' \<ge> k. rx_at S r0 k' f' \<and> sunk w' = take k' S \<and> (wr_open' \<longleftrightarrow> \<not> guest_fin_rcvd f') \<and>
    (sg_payload seg \<noteq> [] \<and> i \<le> k \<longrightarrow> i + length (sg_payload seg) \<le> k')"
proof -
  let ?f = "on_ack now seg (f\<lparr>last_activity := now\<rparr>)"
  have rx': "rx_at S r0 k ?f" using rx by (subst rx_at_cong) simp_all
  obtain need_ack out1 f1 where p: "on_payload I seg wr_open ?f w = Some (True, need_ack, out1, f1, w')"
    and fin: "(f', wr_open') = (if Segment_is_fin seg then snd (on_fin seg wr_open f1) else (f1, wr_open))"
    using run by (auto simp: on_segment_def Let_def split_def split: if_splits option.splits prod.splits)
  obtain k' where k': "k' \<ge> k" "rx_at S r0 k' f1" "sunk w' = take k' S" "k' \<le> k + 65535"
    "guest_fin_rcvd f1 = guest_fin_rcvd f" "sg_payload seg \<noteq> [] \<and> i \<le> k \<longrightarrow> i + length (sg_payload seg) \<le> k'"
    using on_payload_stream [OF rx' _ w _ p, of i] open_fin seg by auto
  show ?thesis
  proof (cases "Segment_is_fin seg \<and> sg_seq seg + of_nat (length (sg_payload seg)) = rcv_nxt f1 \<and> \<not> guest_fin_rcvd f1")
    case False
    with fin have "f' = f1 \<and> wr_open' = wr_open" by (auto simp: on_fin_def split: if_splits)
    with k' open_fin show ?thesis by (intro exI [of _ k']) simp
  next
    case True
    then have f': "f' = f1\<lparr>rcv_nxt := rcv_nxt f1 + 1, guest_fin_rcvd := True\<rparr>" "\<not> wr_open'"
      using fin by (auto simp: on_fin_def)
    have at: "at_offset S r0 k seg i" using seg True by blast
    have kS: "k' \<le> length S" using k'(2) by (simp add: rx_at_def)
    have "r0 + of_nat (length S) = r0 + of_nat k'"
      using True at k'(2) by (auto simp: at_offset_def rx_at_def add.assoc simp flip: of_nat_add)
    then have "unat ((r0 + of_nat (length S)) - (r0 + of_nat k')) = 0" by simp
    then have "k' = length S"
      using unat_diff_of_nat [of k' "length S" r0] kS at k'(1) True by (simp add: at_offset_def)
    then have "rx_at S r0 k' f'" using k'(2) f' True by (simp add: rx_at_def ooo_inv_def)
    then show ?thesis using k' f' by (intro exI [of _ k']) simp
  qed
qed

end

definition rx_established :: "('w \<Rightarrow> bytes) \<Rightarrow> bytes \<Rightarrow> u32 \<Rightarrow> 'w established \<Rightarrow> bool" where
  "rx_established sunk S r0 st \<longleftrightarrow>
     (\<exists>k. rx_at S r0 k (es_flow st) \<and> sunk (es_wr st) = take k S) \<and>
     (es_wr_open st \<longleftrightarrow> \<not> guest_fin_rcvd (es_flow st))"

lemma rx_established_len:
  "rx_established sunk S r0 st \<Longrightarrow>
   rx_at S r0 (length (sunk (es_wr st))) (es_flow st) \<and> sunk (es_wr st) = take (length (sunk (es_wr st))) S"
  by (auto simp: rx_established_def rx_at_def min_def)

lemma est_step_rx:
  assumes snk: "byte_sink W sunk" and rx: "rx_established sunk S r0 st"
    and seg: "\<And>seg. ev = SegIn seg \<Longrightarrow> from_guest sunk S r0 st seg"
    and step: "est_step W now ev st = Some (True, out, st')"
  shows "rx_established sunk S r0 st' \<and> length (sunk (es_wr st)) \<le> length (sunk (es_wr st')) \<and>
    (\<forall>s i. ev = SegIn s \<and> sg_payload s \<noteq> [] \<and> at_offset S r0 (length (sunk (es_wr st))) s i \<and> i \<le> length (sunk (es_wr st)) \<longrightarrow>
       i + length (sg_payload s) \<le> length (sunk (es_wr st')))"
proof (cases ev)
  case (SegIn s)
  let ?k = "length (sunk (es_wr st))"
  note rx' = rx_established_len [OF rx]
  obtain f' w' wr_open' where seg_step: "on_segment W now s (es_flow st) (es_wr st) (es_wr_open st) =
      Some (True, out, f', w', wr_open')"
    and st': "st' = st\<lparr>es_flow := f', es_wr := w', es_wr_open := wr_open'\<rparr>"
    using step SegIn by (auto simp: est_step_def est_segment_def split: if_splits)
  have spec: "\<exists>k' \<ge> ?k. rx_at S r0 k' f' \<and> sunk w' = take k' S \<and> (wr_open' \<longleftrightarrow> \<not> guest_fin_rcvd f') \<and>
    (sg_payload s \<noteq> [] \<and> i \<le> ?k \<longrightarrow> i + length (sg_payload s) \<le> k')"
    if "sg_payload s \<noteq> [] \<or> Segment_is_fin s \<Longrightarrow> at_offset S r0 ?k s i" for i
    by (rule byte_sink.on_segment_stream [OF snk]) (use rx rx' that seg_step in \<open>auto simp: rx_established_def\<close>)
  have len: "length (sunk w') = k'" if "rx_at S r0 k' f'" "sunk w' = take k' S" for k'
    using that by (simp add: rx_at_def)
  have "from_guest sunk S r0 st s" using seg SegIn by blast
  then obtain i where i: "sg_payload s \<noteq> [] \<or> Segment_is_fin s \<Longrightarrow> at_offset S r0 ?k s i"
    by (auto simp: from_guest_def)
  obtain k' where k': "k' \<ge> ?k" "rx_at S r0 k' f'" "sunk w' = take k' S" "wr_open' \<longleftrightarrow> \<not> guest_fin_rcvd f'"
    using spec [OF i] by blast
  have "j + length (sg_payload s) \<le> length (sunk w')"
    if j: "sg_payload s \<noteq> []" "at_offset S r0 ?k s j" "j \<le> ?k" for j
  proof -
    obtain k'' where "rx_at S r0 k'' f'" "sunk w' = take k'' S" "j + length (sg_payload s) \<le> k''"
      using spec [of j] j by blast
    then show ?thesis using len by simp
  qed
  with k' len [OF k'(2,3)] SegIn st' show ?thesis by (auto simp: rx_established_def)
next
  case (ReadDone r)
  then show ?thesis
    using step rx by (auto simp: est_step_def send_data_def rx_established_def rx_at_def ooo_inv_def Let_def
        split: if_splits)
qed (use step rx in \<open>auto simp: est_step_def on_rto_def rx_established_def rx_at_def ooo_inv_def Let_def split: if_splits\<close>)

lemma est_reach_rx:
  assumes snk: "byte_sink W sunk"
    and reach: "est_reach W (from_guest sunk S r0) st0 H st outs"
    and start: "fresh_established st0" "rcv_nxt (es_flow st0) = r0" "sunk (es_wr st0) = []"
  shows "rx_established sunk S r0 st"
  using reach
proof induction
  case reach_start
  have "rx_at S r0 0 (es_flow st0)"
    using start by (simp add: fresh_established_def fresh_flow_def rx_at_def ooo_inv_def queue_wf_def parts_of_def)
  then show ?case
    using start by (auto simp: rx_established_def fresh_established_def fresh_flow_def)
next
  case (reach_step H st outs now ev out st')
  from est_step_rx [OF snk reach_step.IH reach_step.hyps(3,4)] show ?case by simp
qed


section \<open>What is sent is the host's stream\<close>

definition tx_len :: "TxSeg \<Rightarrow> nat" where
  "tx_len s = length (tx_data s) + of_bool (tx_fin s)"

text \<open>\<open>tx_chain t0 H fin i segs\<close>: the segments carry, one after the other, the stream \<open>H\<close> from \<open>i\<close> to its end,
  and the FIN after it when \<open>fin\<close> says that it is sent.\<close>

fun tx_chain :: "u32 \<Rightarrow> bytes \<Rightarrow> bool \<Rightarrow> nat \<Rightarrow> TxSeg list \<Rightarrow> bool" where
  "tx_chain t0 H fin i [] = (i = length H + of_bool fin)"
| "tx_chain t0 H fin i (s # ss) =
     (tx_seq s = t0 + of_nat i \<and> slice H i (tx_data s) \<and> 0 < tx_len s \<and> tx_len s \<le> 65535 \<and>
      (tx_fin s \<longrightarrow> fin \<and> tx_data s = [] \<and> i = length H) \<and> tx_chain t0 H fin (i + tx_len s) ss)"

lemma tx_chain_le: "tx_chain t0 H fin i segs \<Longrightarrow> i \<le> length H + of_bool fin"
  by (induction segs arbitrary: i) fastforce+

lemma tx_end: "tx_seq s = t0 + of_nat i \<Longrightarrow> TxSeg_end s = t0 + of_nat (i + tx_len s)"
  by (simp add: TxSeg_end_def tx_len_def)

lemma tx_chain_data: "tx_chain t0 H fin i segs \<Longrightarrow> concat (map tx_data segs) = drop i H"
proof (induction segs arbitrary: i)
  case (Cons s ss)
  show ?case
  proof (cases "tx_fin s")
    case True
    then have "ss = []" using Cons.prems tx_chain_le [of t0 H fin "i + tx_len s" ss]
      by (cases ss) (auto simp: tx_len_def slice_def)
    with True Cons.prems show ?thesis by (simp add: tx_len_def)
  next
    case False
    then have "tx_len s = length (tx_data s)" by (simp add: tx_len_def)
    moreover have "drop i H = tx_data s @ drop (i + length (tx_data s)) H"
      using Cons.prems by (metis add.commute append_take_drop_id drop_drop slice_def tx_chain.simps(2))
    ultimately show ?thesis using Cons.IH [of "i + tx_len s"] Cons.prems by (auto simp: slice_def)
  qed
qed simp

lemma slice_append: "slice H i p \<Longrightarrow> slice (H @ d) i p"
  by (simp add: slice_def)

lemma tx_chain_send_data:
  "tx_chain t0 H False i segs \<Longrightarrow> data \<noteq> [] \<Longrightarrow> length data \<le> 65535 \<Longrightarrow>
   tx_chain t0 (H @ data) False i (segs @ [\<lparr>tx_seq = t0 + of_nat (length H), tx_data = data, tx_fin = False\<rparr>])"
  by (induction segs arbitrary: i) (auto simp: tx_len_def slice_append, simp add: slice_def)

lemma tx_chain_send_fin:
  "tx_chain t0 H False i segs \<Longrightarrow>
   tx_chain t0 H True i (segs @ [\<lparr>tx_seq = t0 + of_nat (length H), tx_data = [], tx_fin = True\<rparr>])"
  by (induction segs arbitrary: i) (auto simp: tx_len_def slice_def)

lemma tx_chain_ack:
  assumes "tx_chain t0 H fin i segs" "i \<le> u" "u \<le> length H + of_bool fin" "length H + of_bool fin \<le> u + 65535"
    "u < i + 2 ^ 31"
  shows "\<exists>j. tx_chain t0 H fin j (dropWhile (\<lambda>s. seq_le (TxSeg_end s) (t0 + of_nat u)) segs) \<and> i \<le> j \<and> j \<le> u \<and>
    (\<forall>s ss. dropWhile (\<lambda>s. seq_le (TxSeg_end s) (t0 + of_nat u)) segs = s # ss \<longrightarrow> u < j + tx_len s)"
  using assms
proof (induction segs arbitrary: i)
  case (Cons s ss)
  have e: "i + tx_len s \<le> length H + of_bool fin" using tx_chain_le Cons.prems(1) by fastforce
  have le: "seq_le (TxSeg_end s) (t0 + of_nat u) \<longleftrightarrow> i + tx_len s \<le> u"
    using Cons.prems e tx_end [of s t0 i] seq_le_offsets [of "i + tx_len s" u t0] by auto
  show ?case
  proof (cases "i + tx_len s \<le> u")
    case True
    with Cons.IH [of "i + tx_len s"] Cons.prems le show ?thesis by fastforce
  next
    case False
    with Cons.prems le show ?thesis by (intro exI [of _ i]) simp
  qed
qed auto

text \<open>\<open>u\<close> bytes are acknowledged; the unacknowledged segments start at or before them.\<close>

definition tx_at :: "u32 \<Rightarrow> bytes \<Rightarrow> nat \<Rightarrow> Flow \<Rightarrow> bool" where
  "tx_at t0 H u f \<longleftrightarrow>
     (let total = length H + of_bool (our_fin_sent f) in
      snd_una f = t0 + of_nat u \<and> snd_nxt f = t0 + of_nat total \<and> u \<le> total \<and> total \<le> u + 65535 \<and>
      (\<exists>i \<le> u. tx_chain t0 H (our_fin_sent f) i (unacked f) \<and>
         (\<forall>s ss. unacked f = s # ss \<longrightarrow> u < i + tx_len s)) \<and>
      (unacked f \<noteq> [] \<longrightarrow> rto_at f \<noteq> None) \<and> unat (peer_wnd f) \<le> 65535)"

lemma tx_at_in_flight: "tx_at t0 H u f \<Longrightarrow> unat (in_flight f) = length H + of_bool (our_fin_sent f) - u"
  using unat_diff_of_nat [of u "length H + of_bool (our_fin_sent f)" t0]
  unfolding tx_at_def Let_def in_flight_def by simp

lemma on_ack_tx:
  assumes tx: "tx_at t0 H u f"
  shows "\<exists>u' \<ge> u. tx_at t0 H u' (on_ack now seg f)"
proof (cases "Segment_is_ack seg \<and> sg_ack seg - snd_una f \<noteq> 0 \<and> \<not> sg_ack seg - snd_una f > snd_nxt f - snd_una f")
  case False
  then have "on_ack now seg f = f \<or> on_ack now seg f = f\<lparr>peer_wnd := ucast (sg_window seg)\<rparr>"
    by (auto simp: on_ack_def Let_def)
  then show ?thesis using tx by (intro exI [of _ u]) (auto simp: tx_at_def Let_def)
next
  case True
  let ?total = "length H + of_bool (our_fin_sent f)"
  define d where "d = unat (sg_ack seg - snd_una f)"
  have d: "0 < d" "d \<le> ?total - u"
    using True tx_at_in_flight [OF tx] by (auto simp: d_def in_flight_def word_less_nat_alt unat_gt_0)
  have ack: "sg_ack seg = t0 + of_nat (u + d)"
    using tx by (simp add: d_def tx_at_def Let_def)
  obtain i where i: "i \<le> u" "tx_chain t0 H (our_fin_sent f) i (unacked f)"
    "\<forall>s ss. unacked f = s # ss \<longrightarrow> u < i + tx_len s"
    using tx by (auto simp: tx_at_def Let_def)
  have total: "?total \<le> u + 65535" "u \<le> ?total" using tx by (simp_all add: tx_at_def Let_def)
  have near: "u + d < i + 2 ^ 31"
    using i d total by (cases "unacked f") auto
  have bounds: "i \<le> u + d" "u + d \<le> ?total" "?total \<le> u + d + 65535" using i(1) d total by simp_all
  let ?rest = "dropWhile (\<lambda>s. seq_le (TxSeg_end s) (sg_ack seg)) (unacked f)"
  obtain j where j: "tx_chain t0 H (our_fin_sent f) j ?rest" "j \<le> u + d"
    "\<forall>s ss. ?rest = s # ss \<longrightarrow> u + d < j + tx_len s"
    using tx_chain_ack [OF i(2) bounds near] unfolding ack by blast
  have "on_ack now seg f = f\<lparr>peer_wnd := ucast (sg_window seg), snd_una := sg_ack seg, unacked := ?rest,
      retries := 0, rto_at := (if ?rest = [] then None else Some (now + RTO))\<rparr>"
    using True by (simp add: on_ack_def Let_def)
  then have "tx_at t0 H (u + d) (on_ack now seg f)"
    using j d total tx ack by (auto simp: tx_at_def Let_def)
  then show ?thesis by (intro exI [of _ "u + d"]) simp
qed

text \<open>What the receiving half of a segment leaves alone.\<close>

definition tx_view :: "Flow \<Rightarrow> u32 \<times> u32 \<times> u32 \<times> nat \<times> TxSeg list \<times> nat option \<times> bool" where
  "tx_view f = (snd_nxt f, snd_una f, peer_wnd f, fl_mss f, unacked f, rto_at f, our_fin_sent f)"

lemma tx_view_upd [simp]:
  "tx_view (f\<lparr>rcv_nxt := n\<rparr>) = tx_view f" "tx_view (f\<lparr>guest_fin_rcvd := b\<rparr>) = tx_view f"
  "tx_view (f\<lparr>ooo := m\<rparr>) = tx_view f" "tx_view (f\<lparr>ooo_bytes := k\<rparr>) = tx_view f"
  "tx_view (f\<lparr>last_activity := k\<rparr>) = tx_view f"
  by (simp_all add: tx_view_def)

lemma tx_at_view: "tx_view f' = tx_view f \<Longrightarrow> tx_at t0 H u f' = tx_at t0 H u f"
  by (simp add: tx_view_def tx_at_def)

fun bare :: "FlowOut \<Rightarrow> bool" where
  "bare (Emit seq ack flags payload options) = (payload = [])"
| "bare Shutdown = True"

lemma bare_sent [simp]: "bare (send_ack f)" "bare (send_rst f)" "bare (send_window_probe f)"
  by (simp_all add: send_ack_def send_rst_def send_window_probe_def)

lemma drain_round_tx: "drain_round f = Some (f', x) \<Longrightarrow> tx_view f' = tx_view f"
  by (auto simp: drain_round_def Let_def split: option.splits if_splits)

lemma drain_ooo_tx:
  "drain_ooo W wr_open f w = Some (live, out, f', w') \<Longrightarrow> tx_view f' = tx_view f \<and> list_all bare out"
proof (induction W wr_open f w arbitrary: live out f' w' rule: drain_ooo.induct)
  case (1 W wr_open f w)
  obtain f1 x where r: "drain_round f = Some (f1, x)"
    using "1.prems" by (subst (asm) drain_ooo.simps) (auto split: option.splits)
  note tx = drain_round_tx [OF r]
  show ?case
  proof (cases x)
    case None
    with r "1.prems" tx show ?thesis by (subst (asm) drain_ooo.simps) auto
  next
    case (Some fresh)
    note run = "1.prems" [unfolded drain_ooo.simps [of W wr_open f], unfolded r Some option.case prod.case]
    with r Some tx "1.IH" show ?thesis by (auto split: if_splits prod.splits sum.splits)
  qed
qed

lemma queue_ooo_tx: "queue_ooo s p f = Some f' \<Longrightarrow> tx_view f' = tx_view f"
  by (auto simp: queue_ooo_def Let_def bind_eq_Some_conv split: if_splits option.splits)

lemma on_payload_tx:
  assumes "on_payload W seg wr_open f w = Some (live, need_ack, out, f', w')"
  shows "tx_view f' = tx_view f \<and> list_all bare out"
  using assms
  by (auto simp: on_payload_def Let_def split_def dest!: drain_ooo_tx queue_ooo_tx split: if_splits sum.splits)

lemma on_segment_tx:
  assumes "on_segment W now seg f w wr_open = Some (True, out, f', w', wr_open')"
  shows "tx_view f' = tx_view (on_ack now seg (f\<lparr>last_activity := now\<rparr>)) \<and> list_all bare out"
proof -
  let ?f = "on_ack now seg (f\<lparr>last_activity := now\<rparr>)"
  obtain need_ack out1 f1 w1 where p: "on_payload W seg wr_open ?f w = Some (True, need_ack, out1, f1, w1)"
    using assms by (auto simp: on_segment_def split: if_splits option.splits prod.splits)
  with assms on_payload_tx [OF p] show ?thesis
    by (auto simp: on_segment_def Let_def on_fin_def split: if_splits)
qed

lemma send_allowance_le:
  "send_allowance f \<le> unat (peer_wnd f) - unat (in_flight f)" "send_allowance f \<le> fl_mss f"
  by (auto simp: send_allowance_def Let_def)

text \<open>A read within the allowance keeps the sender's invariant, whether it returns bytes or the end.\<close>

lemma send_data_tx:
  assumes tx: "tx_at t0 H u f" and fin: "\<not> our_fin_sent f" and ne: "data \<noteq> []" and len: "length data \<le> send_allowance f"
  shows "tx_at t0 (H @ data) u (snd (send_data now data False f))"
proof -
  have nxt: "snd_nxt f = t0 + of_nat (length H)" and u: "u \<le> length H" and wnd: "unat (peer_wnd f) \<le> 65535"
    and flight: "unat (in_flight f) = length H - u"
    using tx fin tx_at_in_flight [OF tx] by (simp_all add: tx_at_def Let_def)
  have fits: "length data \<le> 65535" "length H + length data \<le> u + 65535"
    using len ne send_allowance_le(1) [of f] wnd u flight by (simp_all add: length_greater_0_conv [symmetric] del: length_greater_0_conv)
  obtain i where i: "i \<le> u" "tx_chain t0 H False i (unacked f)" "\<forall>s ss. unacked f = s # ss \<longrightarrow> u < i + tx_len s"
    using tx fin by (auto simp: tx_at_def Let_def)
  have head: "u < i + tx_len s"
    if s: "unacked f @ [\<lparr>tx_seq = t0 + of_nat (length H), tx_data = data, tx_fin = False\<rparr>] = s # ss" for s ss
  proof (cases "unacked f")
    case Nil
    then show ?thesis using s i ne u by (auto simp: tx_len_def)
  next
    case (Cons a as)
    then show ?thesis using s i(3) by simp
  qed
  show ?thesis
    using tx fin fits i(1) tx_chain_send_data [OF i(2) ne fits(1)] head nxt
    by (simp add: tx_at_def send_data_def Let_def TxSeg_end_def) blast
qed

lemma send_fin_tx:
  assumes tx: "tx_at t0 H u f" and fin: "\<not> our_fin_sent f" and room: "0 < send_allowance f"
  shows "tx_at t0 H u (snd (send_data now [] True (f\<lparr>our_fin_sent := True\<rparr>)))"
proof -
  have nxt: "snd_nxt f = t0 + of_nat (length H)" and u: "u \<le> length H" and wnd: "unat (peer_wnd f) \<le> 65535"
    and flight: "unat (in_flight f) = length H - u"
    using tx fin tx_at_in_flight [OF tx] by (simp_all add: tx_at_def Let_def)
  have fits: "length H + 1 \<le> u + 65535"
    using room send_allowance_le(1) [of f] wnd u flight by linarith
  obtain i where i: "i \<le> u" "tx_chain t0 H False i (unacked f)" "\<forall>s ss. unacked f = s # ss \<longrightarrow> u < i + tx_len s"
    using tx fin by (auto simp: tx_at_def Let_def)
  have head: "u < i + tx_len s"
    if s: "unacked f @ [\<lparr>tx_seq = t0 + of_nat (length H), tx_data = [], tx_fin = True\<rparr>] = s # ss" for s ss
  proof (cases "unacked f")
    case Nil
    then show ?thesis using s i u by (auto simp: tx_len_def)
  next
    case (Cons a as)
    then show ?thesis using s i(3) by simp
  qed
  show ?thesis
    using tx fin fits i(1) tx_chain_send_fin [OF i(2)] head nxt
    by (simp add: tx_at_def send_data_def Let_def TxSeg_end_def) blast
qed

text \<open>A segment that carries bytes carries the stream's, at the sequence number of the first.\<close>

fun sent_from :: "u32 \<Rightarrow> bytes \<Rightarrow> FlowOut \<Rightarrow> bool" where
  "sent_from t0 H (Emit seq ack flags payload options) =
     (payload = [] \<or> (\<exists>i. seq = t0 + of_nat i \<and> slice H i payload))"
| "sent_from t0 H Shutdown = True"

lemma bare_sent_from: "bare e \<Longrightarrow> sent_from t0 H e"
  by (cases e) auto

lemma sent_from_append: "sent_from t0 H e \<Longrightarrow> sent_from t0 (H @ d) e"
  by (cases e) (auto dest: slice_append)

lemma on_rto_tx:
  assumes tx: "tx_at t0 H u f" and run: "on_rto now f = (True, out, f')"
  shows "tx_at t0 H u f' \<and> list_all (sent_from t0 H) out"
proof -
  have f': "f' = f\<lparr>retries := retries f + 1, rto_at := Some (now + RTO)\<rparr>"
    and out: "out = (case unacked f of [] \<Rightarrow> []
      | seg # _ \<Rightarrow> [Emit (tx_seq seg) (rcv_nxt f) (data_flags (tx_data seg) (tx_fin seg)) (tx_data seg) []])"
    using run by (auto simp: on_rto_def Let_def split: if_splits list.splits)
  have "list_all (sent_from t0 H) out"
    using tx unfolding out by (cases "unacked f") (auto simp: tx_at_def Let_def)
  then show ?thesis using tx f' by (simp add: tx_at_def Let_def)
qed

definition tx_established :: "u32 \<Rightarrow> bytes \<Rightarrow> 'w established \<Rightarrow> bool" where
  "tx_established t0 H st \<longleftrightarrow> (\<exists>u. tx_at t0 H u (es_flow st)) \<and> (es_rd_done st \<longleftrightarrow> our_fin_sent (es_flow st))"

lemma est_step_tx:
  assumes tx: "tx_established t0 H st" and en: "est_enabled now ev st"
    and step: "est_step W now ev st = Some (True, out, st')"
  shows "tx_established t0 (H @ read_bytes ev) st' \<and> list_all (sent_from t0 (H @ read_bytes ev)) out"
proof -
  obtain u where u: "tx_at t0 H u (es_flow st)" and done_fin: "es_rd_done st \<longleftrightarrow> our_fin_sent (es_flow st)"
    using tx by (auto simp: tx_established_def)
  have run: "est_event W now ev st = Some (True, out, st')"
    using step by (auto simp: est_step_def split: if_splits)
  show ?thesis
  proof (cases ev)
    case (SegIn seg)
    then obtain f' w' wr_open' where seg: "on_segment W now seg (es_flow st) (es_wr st) (es_wr_open st) =
        Some (True, out, f', w', wr_open')" and st': "st' = st\<lparr>es_flow := f', es_wr := w', es_wr_open := wr_open'\<rparr>"
      using run by (auto simp: est_segment_def)
    let ?f = "(es_flow st)\<lparr>last_activity := now\<rparr>"
    obtain u' where "tx_at t0 H u' (on_ack now seg ?f)"
      using on_ack_tx [of t0 H u ?f now seg] u tx_at_view [of ?f "es_flow st"] by auto
    then have "tx_at t0 H u' f'" using on_segment_tx [OF seg] tx_at_view by blast
    moreover have "our_fin_sent f' = our_fin_sent (es_flow st)"
      using on_segment_tx [OF seg] by (simp add: tx_view_def)
    ultimately show ?thesis
      using on_segment_tx [OF seg] st' done_fin SegIn
      by (auto simp: tx_established_def list_all_iff intro: bare_sent_from)
  next
    case (ReadDone r)
    then have room: "\<not> our_fin_sent (es_flow st)" "0 < send_allowance (es_flow st)"
      and len: "case_option True (\<lambda>data. length data \<le> send_allowance (es_flow st)) r"
      using en by (auto simp: can_read_def est_sending_def)
    show ?thesis
    proof (cases "r = None \<or> r = Some []")
      case True
      then show ?thesis
        using send_fin_tx [OF u room, of now] run ReadDone
        by (auto simp: tx_established_def send_data_def Let_def)
    next
      case False
      then obtain data where r: "r = Some data" "data \<noteq> []" by auto
      have "slice (H @ data) (length H) data" by (simp add: slice_def)
      moreover have "snd_nxt (es_flow st) = t0 + of_nat (length H)"
        using u room by (simp add: tx_at_def Let_def)
      ultimately show ?thesis
        using send_data_tx [OF u room(1) r(2), of now] len run ReadDone r done_fin
        by (auto simp: tx_established_def send_data_def Let_def)
    qed
  next
    case RtoTimer
    then obtain f' where rto: "on_rto now (es_flow st) = (True, out, f')" and st': "st' = st\<lparr>es_flow := f'\<rparr>"
      using run by (auto simp: split_def Let_def prod_eq_iff)
    have "our_fin_sent f' = our_fin_sent (es_flow st)"
      using rto by (auto simp: on_rto_def Let_def split: if_splits)
    then show ?thesis
      using on_rto_tx [OF u rto] st' done_fin RtoTimer by (auto simp: tx_established_def)
  qed (use run u done_fin in \<open>auto simp: tx_established_def bare_sent_from\<close>)
qed

lemma est_reach_tx:
  assumes "est_reach W ok st0 H st outs" and "fresh_established st0"
  shows "tx_established (snd_nxt (es_flow st0)) H st \<and> list_all (sent_from (snd_nxt (es_flow st0)) H) outs"
  using assms(1)
proof induction
  case reach_start
  have "tx_at (snd_nxt (es_flow st0)) [] 0 (es_flow st0)"
    using assms(2) by (simp add: fresh_established_def fresh_flow_def tx_at_def)
  then show ?case
    using assms(2) by (auto simp: tx_established_def fresh_established_def fresh_flow_def)
next
  case (reach_step H st outs now ev out st')
  then show ?case
    using est_step_tx [OF _ reach_step.hyps(2,4)] by (auto simp: list_all_iff intro: sent_from_append)
qed

text \<open>C5: the other direction. Every segment sent, first or repeated, carries bytes of the host's stream at the
  sequence number of the first of them. The sequence numbers count the bytes read and the FIN, the queue
  kept for retransmission holds the end of the stream from at or before the acknowledged point, so
  nothing unacknowledged is lost, and no more than one window is ever in flight.\<close>

theorem vtcp_sends_host_stream:
  assumes "est_reach W ok st0 H st outs" and "fresh_established st0" and "t0 = snd_nxt (es_flow st0)"
  shows "list_all (sent_from t0 H) outs \<and>
    (let f = es_flow st; total = length H + of_bool (our_fin_sent f)
     in snd_nxt f = t0 + of_nat total \<and> unat (in_flight f) \<le> 65535 \<and>
        (\<exists>u \<le> total. snd_una f = t0 + of_nat u \<and> unat (in_flight f) = total - u \<and>
           (\<exists>i \<le> u. concat (map tx_data (unacked f)) = drop i H)))"
proof -
  have sent: "list_all (sent_from t0 H) outs" and est: "tx_established t0 H st"
    using est_reach_tx [OF assms(1,2)] assms(3) by auto
  obtain u where u: "tx_at t0 H u (es_flow st)" using est by (auto simp: tx_established_def)
  let ?total = "length H + of_bool (our_fin_sent (es_flow st))"
  have flight: "unat (in_flight (es_flow st)) = ?total - u" by (rule tx_at_in_flight [OF u])
  have tx: "snd_nxt (es_flow st) = t0 + of_nat ?total" "snd_una (es_flow st) = t0 + of_nat u" "u \<le> ?total"
    "?total \<le> u + 65535" and q: "\<exists>i \<le> u. concat (map tx_data (unacked (es_flow st))) = drop i H"
    using u by (auto simp: tx_at_def Let_def dest: tx_chain_data)
  have "unat (in_flight (es_flow st)) \<le> 65535" using flight tx(4) by simp
  then show ?thesis using sent flight tx(1,2,3) q unfolding Let_def by blast
qed

text \<open>C35: a read that the loop takes, of bytes or of the end of the stream, never overruns the window the guest
  advertised, and each segment sent for it is within the guest's segment size.\<close>

theorem vtcp_window_respected:
  assumes "est_reach W ok st0 H st outs" and "fresh_established st0" and "est_enabled now (ReadDone r) st"
    and "est_step W now (ReadDone r) st = Some (live, out, st')"
  shows "unat (in_flight (es_flow st')) \<le> unat (peer_wnd (es_flow st')) \<and>
    list_all (\<lambda>e. length (em_payload e) \<le> fl_mss (es_flow st')) out"
proof (cases "closed_both_ways (es_flow st)")
  case True
  then show ?thesis using assms(3) by (simp add: closed_both_ways_def can_read_def est_sending_def)
next
  case False
  let ?f = "es_flow st"
  let ?n = "case r of None \<Rightarrow> 1 | Some d \<Rightarrow> max 1 (length d)"
  have est: "tx_established (snd_nxt (es_flow st0)) H st" using est_reach_tx [OF assms(1,2)] by blast
  then obtain u where u: "tx_at (snd_nxt (es_flow st0)) H u ?f" by (auto simp: tx_established_def)
  have wnd: "unat (peer_wnd ?f) \<le> 65535" using u by (simp add: tx_at_def Let_def)
  have n: "?n \<le> send_allowance ?f" using assms(3) by (auto simp: can_read_def split: option.splits)
  have room: "unat (in_flight ?f) + ?n \<le> unat (peer_wnd ?f)"
    using n send_allowance_le(1) [of ?f] by (auto split: option.splits)
  have st': "in_flight (es_flow st') = in_flight ?f + of_nat ?n \<and> peer_wnd (es_flow st') = peer_wnd ?f \<and>
      fl_mss (es_flow st') = fl_mss ?f \<and> list_all (\<lambda>e. length (em_payload e) \<le> ?n) out"
    using assms(4) False
    by (cases r) (auto simp: est_step_def send_data_def Let_def in_flight_def TxSeg_end_def max_def Suc_le_eq split: if_splits)
  have "unat (in_flight ?f + of_nat ?n) = unat (in_flight ?f) + ?n"
    using room wnd by (simp add: unat_word_ariths unat_of_nat)
  then show ?thesis
    using st' room n send_allowance_le(2) [of ?f] by (auto simp: list_all_iff)
qed


section \<open>A flow at work\<close>

definition demo_flow :: Flow where
  "demo_flow = \<lparr>fl_key = \<lparr>fk_guest_ip = Ipv4Addr 10 0 0 2, fk_guest_port = 40000, fk_dst_ip = Ipv4Addr 1 1 1 1, fk_dst_port = 80\<rparr>,
     fl_guest_mac = MacAddr 2 0 0 0 0 1, snd_nxt = 200, snd_una = 200, rcv_nxt = 100, peer_wnd = 1000, fl_mss = 536,
     unacked = [], ooo = [], ooo_bytes = 0, retries = 0, rto_at = None, last_activity = 0,
     our_fin_sent = False, guest_fin_rcvd = False\<rparr>"

definition demo_established :: "bytes established" where
  "demo_established = \<lparr>es_flow = demo_flow, es_wr = [], es_wr_open = True, es_rd_done = False\<rparr>"

definition demo_segment :: "u32 \<Rightarrow> bytes \<Rightarrow> Segment" where
  "demo_segment seq payload =
     \<lparr>sg_seq = seq, sg_ack = 200, sg_flags = 0x10, sg_window = 1000, sg_payload = payload, sg_mss = None\<rparr>"

text \<open>The second half of the guest's four bytes comes first and is held.\<close>

definition demo_held :: "bytes established" where
  "demo_held = demo_established\<lparr>es_flow := demo_flow\<lparr>ooo := [(102, [3, 4])], ooo_bytes := 2\<rparr>\<rparr>"

definition demo_received :: "bytes established" where
  "demo_received = demo_established\<lparr>es_flow := demo_flow\<lparr>rcv_nxt := 104\<rparr>, es_wr := [1, 2, 3, 4]\<rparr>"

lemmas demo_flow_defs = demo_flow_def demo_established_def demo_segment_def demo_held_def demo_received_def

lemma demo_fresh: "fresh_established demo_established"
  by (simp add: demo_flow_defs fresh_established_def fresh_flow_def)

lemma demo_flags [simp]: "Segment_is_rst (demo_segment s p) = False" "Segment_is_fin (demo_segment s p) = False"
  "Segment_is_ack (demo_segment s p) = True"
  by (simp_all add: demo_segment_def Segment_is_rst_def Segment_is_fin_def Segment_is_ack_def TCP_RST_def TCP_FIN_def
      TCP_ACK_def)

lemma demo_ack [simp]:
  "snd_una f = 200 \<Longrightarrow> peer_wnd f = 1000 \<Longrightarrow> on_ack now (demo_segment s p) f = f"
  by (simp add: on_ack_def) (simp add: demo_segment_def)

lemma demo_segment_sel [simp]: "sg_seq (demo_segment s p) = s" "sg_payload (demo_segment s p) = p"
  by (simp_all add: demo_segment_def)

lemmas demo_step_defs = est_step_def closed_both_ways_def est_segment_def on_segment_def on_payload_def queue_ooo_def
  OOO_MAX_BYTES_def WINDOW_def seq_le_def hm_get_def Let_def list_sink_def
  demo_established_def demo_flow_def demo_held_def demo_received_def send_ack_def

lemma demo_hold: "est_step list_sink 0 (SegIn (demo_segment 102 [3, 4])) demo_established =
    Some (True, [send_ack (es_flow demo_held)], demo_held)"
  by (simp add: demo_step_defs)

lemma demo_drain:
  "drain_round (demo_flow\<lparr>ooo := [(102, [3, 4])], ooo_bytes := 2, rcv_nxt := 102\<rparr>) =
     Some (demo_flow\<lparr>rcv_nxt := 102\<rparr>, Some [3, 4])"
  "drain_round (demo_flow\<lparr>rcv_nxt := 104\<rparr>) = Some (demo_flow\<lparr>rcv_nxt := 104\<rparr>, None)"
  by (simp_all add: drain_round_def seq_le_def usize_sub_def hm_remove_def demo_flow_def)

lemma demo_drained:
  "drain_ooo list_sink True (demo_flow\<lparr>ooo := [(102, [3, 4])], ooo_bytes := 2, rcv_nxt := 102\<rparr>) [1, 2] =
     Some (True, [], demo_flow\<lparr>rcv_nxt := 104\<rparr>, [1, 2, 3, 4])"
proof -
  have "drain_ooo list_sink True (demo_flow\<lparr>rcv_nxt := 104\<rparr>) [1, 2, 3, 4] =
      Some (True, [], demo_flow\<lparr>rcv_nxt := 104\<rparr>, [1, 2, 3, 4])"
    by (subst drain_ooo.simps) (simp add: demo_drain)
  then show ?thesis by (subst drain_ooo.simps) (simp add: demo_drain list_sink_def)
qed

lemma demo_receive: "est_step list_sink 0 (SegIn (demo_segment 100 [1, 2])) demo_held =
    Some (True, [send_ack (es_flow demo_received)], demo_received)"
  using demo_drained by (simp add: demo_step_defs)

lemma demo_flow_reach:
  assumes "ok demo_established (demo_segment 102 [3, 4])"
  shows "est_reach list_sink ok demo_established [] demo_held [send_ack (es_flow demo_held)]"
proof -
  have "est_reach list_sink ok demo_established ([] @ read_bytes (SegIn (demo_segment 102 [3, 4]))) demo_held
      ([] @ [send_ack (es_flow demo_held)])"
    by (rule reach_step [OF reach_start _ _ demo_hold]) (use assms in auto)
  then show ?thesis by simp
qed



text \<open>The host's reply of three bytes is read and sent.\<close>

lemma demo_can_read: "est_enabled 5 (ReadDone (Some [7, 8, 9])) demo_held"
  by (simp add: can_read_def est_sending_def send_allowance_def in_flight_def Let_def demo_flow_defs)

definition demo_sent :: "bytes established" where
  "demo_sent = demo_held\<lparr>es_flow := snd (send_data 5 [7, 8, 9] False (es_flow demo_held))\<rparr>"

lemma demo_send: "est_step list_sink 5 (ReadDone (Some [7, 8, 9])) demo_held =
    Some (True, [Emit 200 100 0x18 [7, 8, 9] []], demo_sent)"
  by (simp add: demo_sent_def est_step_def closed_both_ways_def send_data_def data_flags_def TCP_ACK_def TCP_PSH_def
      Let_def demo_flow_defs)

lemma demo_reach_sent:
  "est_reach list_sink (\<lambda>_ _. True) demo_established [7, 8, 9] demo_sent
     [send_ack (es_flow demo_held), Emit 200 100 0x18 [7, 8, 9] []]"
proof -
  have "est_reach list_sink (\<lambda>_ _. True) demo_established ([] @ read_bytes (ReadDone (Some [7, 8, 9]))) demo_sent
      ([send_ack (es_flow demo_held)] @ [Emit 200 100 0x18 [7, 8, 9] []])"
    by (rule reach_step [OF demo_flow_reach demo_can_read _ demo_send]) simp_all
  then show ?thesis by simp
qed

theorem vtcp_sends_host_stream_witness:
  "list_all (sent_from 200 [7, 8, 9]) [send_ack (es_flow demo_held), Emit 200 100 0x18 [7, 8, 9] []] \<and>
   snd_nxt (es_flow demo_sent) = 203 \<and> unat (in_flight (es_flow demo_sent)) \<le> 65535"
proof -
  have "\<not> our_fin_sent (es_flow demo_sent)" by (simp add: demo_flow_defs demo_sent_def send_data_def Let_def)
  then show ?thesis
    using vtcp_sends_host_stream [OF demo_reach_sent demo_fresh, of 200]
    by (simp add: Let_def demo_established_def demo_flow_def)
qed

theorem vtcp_window_respected_witness:
  "unat (in_flight (es_flow demo_sent)) \<le> unat (peer_wnd (es_flow demo_sent)) \<and> in_flight (es_flow demo_sent) = 3"
  using vtcp_window_respected [OF demo_flow_reach demo_fresh demo_can_read demo_send, of "\<lambda>_ _. True"]
  by (simp add: demo_flow_defs demo_sent_def send_data_def in_flight_def TxSeg_end_def Let_def)


end
