(* ===== verification/Nat_Lemmas.thy ===== *)
theory Nat_Lemmas
  imports Nat_Engine Vtcp_Lemmas
begin

text \<open>
  Properties of the NAT engine: the allocation of ephemeral ports, what the host guard lets through,
  the addresses of what guests receive, and how an active open ends.
\<close>

section \<open>Runs of the engine\<close>

text \<open>A frame from the gateway and the steps of the engine's tasks; \<open>host\<close> gives the host's addresses over time.\<close>

datatype nat_event =
    NatFrame nat bool bytes
  | NatSetMac Ipv4Addr MacAddr
  | NatConnectFailed FlowKey MacAddr Segment nat u32
  | NatFlowEnded FlowKey
  | NatOpen Ipv4Addr u16
  | NatBind Ipv4Addr u16
  | NatGuestFlow GuestUdpKey bytes
  | NatGuestFlowEnded GuestUdpKey
  | NatDatagram Ipv4Addr u16 bytes
  | NatUdpIn nat FlowKey MacAddr bytes
  | NatUdpError FlowKey
  | NatUdpQuiet nat FlowKey
  | NatEcho nat MacAddr bytes
  | NatProbed nat MacAddr bytes Ipv4Addr bool

fun nat_step :: "(nat \<Rightarrow> Ipv4Addr list) \<Rightarrow> NatEngine \<Rightarrow> nat_event \<Rightarrow> NatEngine" where
  "nat_step host e (NatFrame now opened frame) = snd (nat_handle_frame now (host now) opened frame e)"
| "nat_step host e (NatSetMac ip mac) = learn_mac ip mac e"
| "nat_step host e (NatConnectFailed key mac syn now isn) = snd (connect_failed key mac syn now isn e)"
| "nat_step host e (NatFlowEnded key) = remove_tcp_flow key e"
| "nat_step host e (NatOpen ip port) = snd (alloc_active_tcp_flow ip port e)"
| "nat_step host e (NatBind ip port) = snd (udp_bind_guest_flow ip port e)"
| "nat_step host e (NatGuestFlow key payload) = snd (guest_flow_payload key payload e)"
| "nat_step host e (NatGuestFlowEnded key) = guest_flow_closed key e"
| "nat_step host e (NatDatagram ip port payload) = snd (udp_to_guest ip port payload e)"
| "nat_step host e (NatUdpIn now key mac payload) = snd (udp_received now key mac payload e)"
| "nat_step host e (NatUdpError key) = udp_recv_error key e"
| "nat_step host e (NatUdpQuiet now key) = udp_quiet now key e"
| "nat_step host e (NatEcho now mac pkt) = snd (snd (handle_echo now mac pkt e))"
| "nat_step host e (NatProbed now mac pkt dst ok) = snd (echo_probed now mac pkt dst ok e)"

fun nat_time :: "nat_event \<Rightarrow> nat" where
  "nat_time (NatFrame now _ _) = now"
| "nat_time _ = 0"

text \<open>What no step changes, and what only a frame changes.\<close>

definition nat_fixed :: "NatEngine \<Rightarrow> NatConfig \<times> u32" where
  "nat_fixed e = (ne_cfg e, eph_span e)"

lemma next_ip_id_same [simp]:
  "nat_fixed (snd (next_ip_id e)) = nat_fixed e" "ne_guard (snd (next_ip_id e)) = ne_guard e"
  by (simp_all add: next_ip_id_def nat_fixed_def)

lemma send_udp_same [simp]:
  "nat_fixed (snd (send_udp_to_guest mac src dst payload e)) = nat_fixed e"
  "ne_guard (snd (send_udp_to_guest mac src dst payload e)) = ne_guard e"
  by (simp_all add: send_udp_to_guest_def next_ip_id_def nat_fixed_def split: option.split)

lemma respond_same [simp]:
  "nat_fixed (snd (respond mac pkt ok e)) = nat_fixed e" "ne_guard (snd (respond mac pkt ok e)) = ne_guard e"
  by (simp_all add: respond_def next_ip_id_def nat_fixed_def split: option.split)

lemma alloc_same [simp]:
  "nat_fixed (snd (alloc_active_tcp_flow ip port e)) = nat_fixed e"
  "ne_guard (snd (alloc_active_tcp_flow ip port e)) = ne_guard e"
  by (simp_all add: alloc_active_tcp_flow_def nat_fixed_def Let_def split_def split: option.split)

lemma bind_same [simp]:
  "nat_fixed (snd (udp_bind_guest_flow ip port e)) = nat_fixed e"
  "ne_guard (snd (udp_bind_guest_flow ip port e)) = ne_guard e"
  by (simp_all add: udp_bind_guest_flow_def nat_fixed_def Let_def split_def split: option.split)

lemma refused_same [simp]: "nat_fixed (snd (refused now host dst kind e)) = nat_fixed e"
  by (simp add: refused_def nat_fixed_def Let_def split_def split: option.split)

lemma handle_outbound_same [simp]:
  "nat_fixed (snd (handle_outbound now opened key mac payload e)) = nat_fixed e"
  "ne_guard (snd (handle_outbound now opened key mac payload e)) = ne_guard e"
  by (simp_all add: handle_outbound_def nat_fixed_def Let_def)

lemma nat_fixed_upd [simp]:
  "nat_fixed (e\<lparr>tcp_flows := t\<rparr>) = nat_fixed e" "nat_fixed (e\<lparr>guest_udp := u\<rparr>) = nat_fixed e"
  "nat_fixed (e\<lparr>udp_flows := v\<rparr>) = nat_fixed e" "nat_fixed (e\<lparr>ne_icmp := i\<rparr>) = nat_fixed e"
  "nat_fixed (e\<lparr>ne_macs := m\<rparr>) = nat_fixed e" "nat_fixed (e\<lparr>eph_counter := n\<rparr>) = nat_fixed e"
  "nat_fixed (e\<lparr>ne_guard := g\<rparr>) = nat_fixed e"
  by (simp_all add: nat_fixed_def)

lemma handle_tcp_fixed [simp]: "nat_fixed (snd (handle_tcp now host ip mac e)) = nat_fixed e"
  by (simp add: handle_tcp_def Let_def split_def split: option.split)

lemma handle_udp_fixed [simp]: "nat_fixed (snd (handle_udp now host opened ip mac e)) = nat_fixed e"
  by (simp add: handle_udp_def Let_def split_def split: option.split)

lemma handle_icmp_fixed [simp]: "nat_fixed (snd (handle_icmp now host raw ip mac e)) = nat_fixed e"
  by (simp add: handle_icmp_def Let_def split_def split: option.split)

lemma handle_frame_fixed [simp]: "nat_fixed (snd (nat_handle_frame now host opened frame e)) = nat_fixed e"
  by (simp add: nat_handle_frame_def Let_def learn_mac_def split: option.split)

lemma nat_step_fixed: "nat_fixed (nat_step host e ev) = nat_fixed e"
  by (cases ev)
    (simp_all add: learn_mac_def connect_failed_def remove_tcp_flow_def guest_flow_payload_def guest_flow_closed_def
      udp_to_guest_def udp_received_def udp_recv_error_def udp_quiet_def handle_echo_def echo_probed_def Let_def split_def
      split: option.split)

section \<open>Ephemeral ports\<close>

lemma first_free_Some:
  "first_free taken span k n = (Some p, n') \<Longrightarrow> \<not> taken p \<and> (\<exists>j < k. p = next_ephemeral span (n + of_nat j))"
proof (induction k arbitrary: n)
  case (Suc k)
  show ?case
  proof (cases "taken (next_ephemeral span n)")
    case True
    then have "\<not> taken p \<and> (\<exists>j < k. p = next_ephemeral span (n + 1 + of_nat j))" using Suc by simp
    then obtain j where "\<not> taken p" "j < k" "p = next_ephemeral span (n + of_nat (Suc j))"
      by (auto simp: algebra_simps)
    then show ?thesis by (intro conjI exI [of _ "Suc j"]) simp_all
  next
    case False
    with Suc.prems show ?thesis by (auto intro!: exI [of _ 0])
  qed
qed simp

lemma first_free_None:
  "first_free taken span k n = (None, n') \<Longrightarrow> j < k \<Longrightarrow> taken (next_ephemeral span (n + of_nat j))"
proof (induction k arbitrary: n j)
  case (Suc k)
  then have t: "taken (next_ephemeral span n)" and rest: "first_free taken span k (n + 1) = (None, n')"
    by (auto simp: Let_def split: if_splits)
  show ?case
  proof (cases j)
    case 0
    with t show ?thesis by simp
  next
    case (Suc i)
    then show ?thesis using Suc.IH [OF rest, of i] Suc.prems by (simp add: algebra_simps)
  qed
qed simp

lemma next_ephemeral_nat: "unat (next_ephemeral EPHEMERAL_PORTS n) = 49152 + unat n mod 16384"
proof -
  have "unat (n mod 16384) < 65536" by (simp add: unat_mod less_trans [of _ 16384])
  then have "unat (ucast (n mod 16384) :: u16) = unat n mod 16384"
    by (simp add: unsigned_ucast_eq take_bit_nat_eq_self unat_mod)
  then show ?thesis
    by (simp add: next_ephemeral_def EPHEMERAL_PORTS_def EPHEMERAL_BASE_def unat_word_ariths less_trans [of _ 16384])
qed

lemma offset_mod:
  fixes n x :: nat
  assumes "x < 16384"
  shows "(n + (x + (16384 - n mod 16384)) mod 16384) mod 16384 = x"
proof -
  have "(n + (x + (16384 - n mod 16384)) mod 16384) mod 16384 = (n mod 16384 + (x + (16384 - n mod 16384))) mod 16384"
    by (simp only: mod_add_left_eq mod_add_right_eq)
  also have "n mod 16384 + (x + (16384 - n mod 16384)) = x + 16384" using mod_less_divisor [of 16384 n] by simp
  finally show ?thesis using assms by simp
qed

text \<open>The range's size divides the counter's, so a pass covers the range even across the counter's wrap.\<close>

lemma pass_covers_range:
  assumes "49152 \<le> unat p"
  shows "\<exists>j < 16384. next_ephemeral EPHEMERAL_PORTS (n + of_nat j) = p"
proof -
  have p: "unat p < 65536" using unat_u16_bound [of p] by simp
  define j where "j = (unat p - 49152 + (16384 - unat n mod 16384)) mod 16384"
  have "unat (n + of_nat j) mod 16384 = (unat n + j) mod 16384"
    by (simp add: unat_word_ariths unat_of_nat mod_mod_cancel j_def mod_add_right_eq)
  also have "\<dots> = unat p - 49152"
    unfolding j_def using p by (intro offset_mod) simp
  finally have "unat (next_ephemeral EPHEMERAL_PORTS (n + of_nat j)) = unat p"
    using assms by (simp only: next_ephemeral_nat)
  moreover have "j < 16384" by (simp add: j_def)
  ultimately show ?thesis using word_unat_eq_iff by blast
qed

lemma first_free_complete:
  assumes "first_free taken EPHEMERAL_PORTS (unat EPHEMERAL_PORTS) n = (free, n')"
  shows "(free = None \<longleftrightarrow> (\<forall>p. 49152 \<le> unat p \<longrightarrow> taken p)) \<and> (\<forall>p. free = Some p \<longrightarrow> \<not> taken p \<and> 49152 \<le> unat p)"
proof (cases free)
  case None
  have "taken p" if "49152 \<le> unat p" for p
    using pass_covers_range [OF that, of n] first_free_None [of taken EPHEMERAL_PORTS] assms None
    by (auto simp: EPHEMERAL_PORTS_def)
  then show ?thesis using None by simp
next
  case (Some p)
  with first_free_Some [of taken EPHEMERAL_PORTS _ n p n'] assms
  have "\<not> taken p" "\<exists>j. p = next_ephemeral EPHEMERAL_PORTS (n + of_nat j)" by auto
  moreover have "49152 \<le> unat p" using calculation(2) by (auto simp: next_ephemeral_nat)
  ultimately show ?thesis using Some by blast
qed

text \<open>C36: one pass over the ephemeral range ends, and finds a port exactly when one is free, whatever the counter,
  also when it wraps around in the middle. An active open and a UDP binding take a free port of the range, add
  its empty flow and change no other; they fail only when every port of the range has a flow to that guest port.\<close>

theorem ephemeral_alloc:
  assumes "e = foldl (nat_step host) (with_pinger cfg) evs"
    and "key = (\<lambda>p. \<lparr>fk_guest_ip = ip, fk_guest_port = port, fk_dst_ip = nc_gw_ip cfg, fk_dst_port = p\<rparr>)"
  shows "(case alloc_active_tcp_flow ip port e of
       (None, e') \<Rightarrow> (\<forall>p. 49152 \<le> unat p \<longrightarrow> hm_contains (tcp_flows e) (key p)) \<and> tcp_flows e' = tcp_flows e
     | (Some k, e') \<Rightarrow> (\<exists>p. k = key p \<and> 49152 \<le> unat p) \<and> \<not> hm_contains (tcp_flows e) k \<and>
         tcp_flows e' = hm_insert k [] (tcp_flows e)) \<and>
    (case udp_bind_guest_flow ip port e of
       (None, e') \<Rightarrow> (\<forall>p. 49152 \<le> unat p \<longrightarrow> hm_contains (guest_udp e) (ip, port, p)) \<and> guest_udp e' = guest_udp e
     | (Some p, e') \<Rightarrow> 49152 \<le> unat p \<and> \<not> hm_contains (guest_udp e) (ip, port, p) \<and>
         guest_udp e' = hm_insert (ip, port, p) [] (guest_udp e))"
proof -
  have fixed: "nat_fixed e = nat_fixed (with_pinger cfg)"
    unfolding assms(1) by (induction evs arbitrary: e rule: rev_induct) (simp_all add: nat_step_fixed)
  then have span: "eph_span e = EPHEMERAL_PORTS" and cfg: "ne_cfg e = cfg"
    by (simp_all add: nat_fixed_def with_pinger_def)
  obtain free n where t: "first_free (\<lambda>p. hm_contains (tcp_flows e) (key p)) EPHEMERAL_PORTS (unat EPHEMERAL_PORTS)
      (eph_counter e) = (free, n)" by fastforce
  obtain free' n' where u: "first_free (\<lambda>p. hm_contains (guest_udp e) (ip, port, p)) EPHEMERAL_PORTS (unat EPHEMERAL_PORTS)
      (eph_counter e) = (free', n')" by fastforce
  have "case alloc_active_tcp_flow ip port e of
       (None, e') \<Rightarrow> (\<forall>p. 49152 \<le> unat p \<longrightarrow> hm_contains (tcp_flows e) (key p)) \<and> tcp_flows e' = tcp_flows e
     | (Some k, e') \<Rightarrow> (\<exists>p. k = key p \<and> 49152 \<le> unat p) \<and> \<not> hm_contains (tcp_flows e) k \<and>
         tcp_flows e' = hm_insert k [] (tcp_flows e)"
    using first_free_complete [OF t] t span cfg assms(2)
    by (cases free) (auto simp: alloc_active_tcp_flow_def Let_def)
  moreover have "case udp_bind_guest_flow ip port e of
       (None, e') \<Rightarrow> (\<forall>p. 49152 \<le> unat p \<longrightarrow> hm_contains (guest_udp e) (ip, port, p)) \<and> guest_udp e' = guest_udp e
     | (Some p, e') \<Rightarrow> 49152 \<le> unat p \<and> \<not> hm_contains (guest_udp e) (ip, port, p) \<and>
         guest_udp e' = hm_insert (ip, port, p) [] (guest_udp e)"
    using first_free_complete [OF u] u span
    by (cases free') (auto simp: udp_bind_guest_flow_def Let_def)
  ultimately show ?thesis by blast
qed

section \<open>The host guard\<close>

definition guard_ok :: "(nat \<Rightarrow> Ipv4Addr list) \<Rightarrow> nat \<Rightarrow> u16 list \<Rightarrow> HostGuard \<Rightarrow> bool" where
  "guard_ok host t ports g \<longleftrightarrow>
     hg_exposed g = ports \<and> (\<forall>at addrs. hg_cache g = Some (at, addrs) \<longrightarrow> addrs = host at \<and> at \<le> t)"

lemma guard_refuses_ok:
  assumes "guard_ok host t ports g" and "now \<le> t" and "HostGuard_refuses now (host now) dst kind g = (r, g')"
  shows "guard_ok host t ports g' \<and> (\<exists>at \<le> t. now - at < REFRESH \<and> r = refuses dst kind (host at) ports)"
proof (cases "\<exists>at addrs. hg_cache g = Some (at, addrs) \<and> now - at < REFRESH")
  case True
  then obtain at addrs where "hg_cache g = Some (at, addrs)" "now - at < REFRESH" by blast
  with assms show ?thesis
    by (auto simp: HostGuard_refuses_def HostGuard_addresses_def guard_ok_def)
next
  case False
  then have "HostGuard_addresses now (host now) g = (host now, g\<lparr>hg_cache := Some (now, host now)\<rparr>)"
    by (auto simp: HostGuard_addresses_def Let_def split: option.split)
  with assms show ?thesis
    by (auto simp: HostGuard_refuses_def guard_ok_def REFRESH_def intro!: exI [of _ now])
qed

definition guarded :: "(nat \<Rightarrow> Ipv4Addr list) \<Rightarrow> nat \<Rightarrow> u16 list \<Rightarrow> NatEngine \<Rightarrow> bool" where
  "guarded host t ports e \<longleftrightarrow> (\<exists>g. ne_guard e = Some g \<and> guard_ok host t ports g)"

lemma guarded_cong: "ne_guard e' = ne_guard e \<Longrightarrow> guarded host t ports e' = guarded host t ports e"
  by (simp add: guarded_def)

lemma refused_guarded:
  assumes "guarded host t ports e" and "now \<le> t" and "refused now (host now) dst kind e = (r, e')"
  shows "guarded host t ports e' \<and> (\<exists>at \<le> t. now - at < REFRESH \<and> r = refuses dst kind (host at) ports)"
proof -
  obtain g where g: "ne_guard e = Some g" "guard_ok host t ports g" using assms(1) by (auto simp: guarded_def)
  obtain r' g' where h: "HostGuard_refuses now (host now) dst kind g = (r', g')" by fastforce
  have "r' = r" "e' = e\<lparr>ne_guard := Some g'\<rparr>" using assms(3) g(1) h by (simp_all add: refused_def)
  with guard_refuses_ok [OF g(2) assms(2) h] show ?thesis by (simp add: guarded_def)
qed

text \<open>The new flow an output opens.\<close>

fun flow_opened :: "NatOut \<Rightarrow> (Ipv4Addr \<times> FlowKind) option" where
  "flow_opened (SpawnPassive key mac seg) = Some (fk_dst_ip key, FlowTcp (fk_dst_port key))"
| "flow_opened (SockSend key payload) = Some (fk_dst_ip key, FlowUdp (fk_dst_port key))"
| "flow_opened (SpawnEcho mac pkt) = map_option (\<lambda>ip. (Ipv4View_dst ip, FlowIcmp)) (Ipv4View_parse pkt)"
| "flow_opened _ = None"

definition admitted :: "(nat \<Rightarrow> Ipv4Addr list) \<Rightarrow> nat \<Rightarrow> u16 list \<Rightarrow> nat \<Rightarrow> NatOut \<Rightarrow> bool" where
  "admitted host t ports now x \<longleftrightarrow>
     (\<forall>dst kind. flow_opened x = Some (dst, kind) \<longrightarrow>
       (\<exists>at \<le> t. now - at < REFRESH \<and> \<not> refuses dst kind (host at) ports))"

lemma admitted_none [simp]: "flow_opened x = None \<Longrightarrow> admitted host t ports now x"
  by (simp add: admitted_def)

lemma nat_send_frame_opens [simp]: "flow_opened (nat_send_frame e mac pkt) = None"
  by (simp add: nat_send_frame_def)

lemma handle_tcp_guarded:
  assumes "guarded host t ports e" and "now \<le> t" and "handle_tcp now (host now) ip mac e = (out, e')"
  shows "guarded host t ports e' \<and> list_all (admitted host t ports now) out"
proof (cases "TcpView_parse (Ipv4View_payload ip)")
  case None
  with assms show ?thesis by (simp add: handle_tcp_def)
next
  case (Some tcp)
  define key where "key = \<lparr>fk_guest_ip = Ipv4View_src ip, fk_guest_port = TcpView_src_port tcp,
    fk_dst_ip = Ipv4View_dst ip, fk_dst_port = TcpView_dst_port tcp\<rparr>"
  define opens where "opens \<longleftrightarrow> Segment_is_syn (Segment_from_view tcp) \<and> \<not> Segment_is_ack (Segment_from_view tcp)"
  obtain r e1 where r: "refused now (host now) (Ipv4View_dst ip) (FlowTcp (TcpView_dst_port tcp)) e = (r, e1)" by fastforce
  note g = refused_guarded [OF assms(1,2) r]
  show ?thesis
  proof (cases "hm_get (tcp_flows e) key = None \<and> opens")
    case True
    with assms(3) Some g r show ?thesis
      by (auto simp: handle_tcp_def Let_def key_def opens_def guarded_def admitted_def next_ip_id_def
          split: if_splits option.splits)
  next
    case False
    with assms(1,3) Some show ?thesis
      by (auto simp: handle_tcp_def Let_def key_def opens_def guarded_def next_ip_id_def
          split: if_splits option.splits)
  qed
qed

lemma handle_udp_guarded:
  assumes "guarded host t ports e" and "now \<le> t" and "handle_udp now (host now) opened ip mac e = (out, e')"
  shows "guarded host t ports e' \<and> list_all (admitted host t ports now) out"
proof (cases "UdpView_parse (Ipv4View_payload ip)")
  case None
  with assms show ?thesis by (simp add: handle_udp_def)
next
  case (Some udp)
  obtain r e1 where r: "refused now (host now) (Ipv4View_dst ip) (FlowUdp (UdpView_dst_port udp)) e = (r, e1)" by fastforce
  note g = refused_guarded [OF assms(1,2) r]
  show ?thesis
  proof (cases "Ipv4View_dst ip = nc_gw_ip (ne_cfg e)")
    case True
    with assms(1,3) Some show ?thesis
      by (auto simp: handle_udp_def Let_def guarded_def split: option.splits)
  next
    case False
    with assms(3) Some g r show ?thesis
      by (auto simp: handle_udp_def handle_outbound_def Let_def guarded_def admitted_def split: if_splits)
  qed
qed

lemma parse_take_dst:
  assumes "Ipv4View_parse raw = Some ip" and "Ipv4View_parse (take n raw) = Some ip'"
  shows "Ipv4View_dst ip' = Ipv4View_dst ip"
proof -
  have "20 \<le> length (take n raw)" "ip' = Ipv4View (take n raw)" "ip = Ipv4View raw"
    using assms by (auto simp: Ipv4View_parse_Some)
  then show ?thesis by (simp add: Ipv4View_dst_def ipv4_at_def)
qed

lemma handle_icmp_guarded:
  assumes "guarded host t ports e" and "now \<le> t" and "handle_icmp now (host now) raw ip mac e = (out, e')"
    and "Ipv4View_parse raw = Some ip"
  shows "guarded host t ports e' \<and> list_all (admitted host t ports now) out"
proof -
  obtain r e1 where r: "refused now (host now) (Ipv4View_dst ip) FlowIcmp e = (r, e1)" by fastforce
  note g = refused_guarded [OF assms(1,2) r]
  from assms(1,3) g r show ?thesis
    by (auto simp: handle_icmp_def Let_def admitted_def parse_take_dst [OF assms(4)] split: option.splits if_splits)
      blast
qed

lemma handle_frame_guarded:
  assumes "guarded host t ports e" and "now \<le> t" and "nat_handle_frame now (host now) opened frame e = (out, e')"
  shows "guarded host t ports e' \<and> list_all (admitted host t ports now) out"
proof -
  have learned: "guarded host t ports (learn_mac ip mac e)" for ip mac
    using assms(1) by (simp add: guarded_def learn_mac_def)
  note steps = handle_tcp_guarded [OF learned assms(2)] handle_udp_guarded [OF learned assms(2)]
    handle_icmp_guarded [OF learned assms(2)]
  from assms(1,3) show ?thesis
    by (auto simp: nat_handle_frame_def Let_def learned split: option.splits if_splits dest: steps)
qed

lemma nat_step_guarded:
  "guarded host t ports e \<Longrightarrow> nat_time ev \<le> t \<Longrightarrow> guarded host t ports (nat_step host e ev)"
proof (cases ev)
  case (NatFrame now opened frame)
  assume "guarded host t ports e" "nat_time ev \<le> t"
  with NatFrame handle_frame_guarded [of host t ports e now opened frame] show ?thesis
    by (cases "nat_handle_frame now (host now) opened frame e") simp
qed (simp_all add: guarded_def learn_mac_def connect_failed_def remove_tcp_flow_def guest_flow_payload_def
  guest_flow_closed_def udp_to_guest_def udp_received_def udp_recv_error_def udp_quiet_def handle_echo_def echo_probed_def
  Let_def split_def split: option.split)

section \<open>What a guest receives\<close>

text \<open>\<open>carries to_mac from_mac src dst proto l4 frame\<close>: the frame holds a valid packet between the two addresses,
  with the payload \<open>l4\<close>.\<close>

definition carries :: "MacAddr \<Rightarrow> MacAddr \<Rightarrow> Ipv4Addr \<Rightarrow> Ipv4Addr \<Rightarrow> u8 \<Rightarrow> bytes \<Rightarrow> bytes \<Rightarrow> bool" where
  "carries to_mac from_mac src dst proto l4 frame \<longleftrightarrow>
     (\<exists>eth ip. EthView_parse frame = Some eth \<and> EthView_dst_mac eth = to_mac \<and> EthView_src_mac eth = from_mac \<and>
        EthView_ethertype eth = ETHERTYPE_IPV4 \<and> Ipv4View_parse (EthView_payload eth) = Some ip \<and>
        Ipv4View_src ip = src \<and> Ipv4View_dst ip = dst \<and> Ipv4View_proto ip = proto \<and>
        Ipv4View_checksum_valid ip \<and> Ipv4View_payload ip = l4)"

lemma eth_ipv4_carries:
  assumes "ipv4_build src dst proto 64 l4 ident = Some pkt"
  shows "carries to_mac from_mac src dst proto l4 (eth_build to_mac from_mac ETHERTYPE_IPV4 pkt)"
  using ipv4_build_view [OF assms refl, of "[]"] by (auto simp: carries_def)

lemma send_udp_carries:
  assumes "length payload \<le> 65507"
  shows "\<exists>frame l4 udp. fst (send_udp_to_guest mac (src, sport) (dst, dport) payload e) = [Output frame] \<and>
    carries mac (nc_gw_mac (ne_cfg e)) src dst IPPROTO_UDP l4 frame \<and> UdpView_parse l4 = Some udp \<and>
    UdpView_src_port udp = sport \<and> UdpView_dst_port udp = dport \<and> UdpView_payload udp = payload \<and>
    UdpView_checksum_valid udp src dst"
proof -
  obtain seg where seg: "udp_build src dst sport dport payload = Some seg"
    using udp_build_Some_iff [of src dst sport dport payload] assms by auto
  have "length seg < 65516" using length_udp_build [OF seg] assms by simp
  then obtain pkt where pkt: "ipv4_build src dst IPPROTO_UDP 64 seg (ne_ip_id e) = Some pkt"
    using ipv4_build_Some_iff [of src dst IPPROTO_UDP 64 seg "ne_ip_id e"] by auto
  show ?thesis
    using udp_build_view(1-5) [OF seg refl, of "[]"] eth_ipv4_carries [OF pkt, of mac "nc_gw_mac (ne_cfg e)"] seg pkt
    by (auto simp: send_udp_to_guest_def next_ip_id_def nat_send_frame_def)
qed


lemma emit_frame_carries:
  assumes "length payload \<le> 65455"
  shows "\<exists>frame l4 tcp. emit_frame gw_mac ident f seq ack flags payload options = Some frame \<and>
    carries (fl_guest_mac f) gw_mac (fk_dst_ip (fl_key f)) (fk_guest_ip (fl_key f)) IPPROTO_TCP l4 frame \<and>
    TcpView_parse l4 = Some tcp \<and> TcpView_src_port tcp = fk_dst_port (fl_key f) \<and>
    TcpView_dst_port tcp = fk_guest_port (fl_key f) \<and> TcpView_seq tcp = seq \<and> TcpView_ack tcp = ack \<and>
    TcpView_flags tcp = flags \<and> TcpView_payload tcp = payload"
proof -
  let ?k = "fl_key f"
  define fields where "fields = \<lparr>tf_src_port = fk_dst_port ?k, tf_dst_port = fk_guest_port ?k, tf_seq = seq,
    tf_ack = ack, tf_flags = flags, tf_window = WINDOW, tf_options = options\<rparr>"
  have opts: "length (tcp_opts fields) \<le> 40" by (rule length_tcp_opts_le)
  obtain seg where seg: "tcp_build (fk_dst_ip ?k) (fk_guest_ip ?k) fields payload = Some seg"
    using tcp_build_Some_iff [of "fk_dst_ip ?k" "fk_guest_ip ?k" fields payload] opts assms by auto
  have "length seg < 65516" using length_tcp_build [OF seg] opts assms by simp
  then obtain pkt where pkt: "ipv4_build (fk_dst_ip ?k) (fk_guest_ip ?k) IPPROTO_TCP 64 seg ident = Some pkt"
    using ipv4_build_Some_iff [of "fk_dst_ip ?k" "fk_guest_ip ?k" IPPROTO_TCP 64 seg ident] by auto
  show ?thesis
    using tcp_build_view [OF seg refl] eth_ipv4_carries [OF pkt, of "fl_guest_mac f" gw_mac] seg pkt
    by (auto simp: emit_frame_def Let_def fields_def)
qed

section \<open>A guest that does not answer\<close>

text \<open>The handshake of an active open while nothing comes from the guest: each timer fires at its deadline.\<close>

fun active_silence :: "u16 \<Rightarrow> u32 \<Rightarrow> nat \<Rightarrow> Flow \<Rightarrow> handshake \<times> FlowOut list \<times> Flow" where
  "active_silence mtu isn 0 f = (Opening, [], f)"
| "active_silence mtu isn (Suc k) f =
     (case active_silence mtu isn k f of
        (Opening, out, f) \<Rightarrow> (let (h, again, f) = active_timeout mtu isn (the (rto_at f)) f in (h, out @ again, f))
      | r \<Rightarrow> r)"

lemma active_silence_opening:
  assumes "rto_at f = Some t" "retries f = 0"
  shows "k \<le> 5 \<Longrightarrow> active_silence mtu isn k f =
    (Opening, replicate k (Emit isn 0 TCP_SYN [] (syn_options mtu)), f\<lparr>retries := k, rto_at := Some (t + k * RTO)\<rparr>)"
proof (induction k)
  case (Suc k)
  then show ?case
    by (simp add: active_timeout_def MAX_RETRIES_def Let_def replicate_append_same algebra_simps)
qed (use assms in simp)

text \<open>C38: an active open to a guest that stays silent ends after six seconds: the SYN is repeated five times, one
  second apart, and at the sixth timeout the task ends without a word to the caller, whose ten seconds are not
  over. The caller gets the error of a dead task, never that of a timeout.\<close>

theorem active_open_gives_up:
  assumes "open_active_begin ip port t isn e = (Some (key, out, f), e')" and "mtu = nc_mtu (ne_cfg e)"
  shows "(\<forall>k \<le> 5. \<exists>f'. active_silence mtu isn k f =
       (Opening, replicate k (Emit isn 0 TCP_SYN [] (syn_options mtu)), f') \<and> rto_at f' = Some (t + (k + 1) * RTO)) \<and>
    (\<exists>out' f'. active_silence mtu isn 6 f = (OpenFailed None, out', f')) \<and>
    open_active_end key t (Some (t + 6 * RTO, OpenFailed None)) e' = (TaskDied, e')"
proof -
  have f: "rto_at f = Some (t + RTO)" "retries f = 0"
    using assms(1) by (auto simp: open_active_begin_def Let_def active_start_def Flow_new_active_def
        split: prod.splits option.splits)
  note run = active_silence_opening [OF f, of _ mtu isn]
  have six: "active_silence mtu isn 6 f = active_silence mtu isn (Suc 5) f" by simp
  have "\<exists>out' f'. active_silence mtu isn 6 f = (OpenFailed None, out', f')"
    unfolding six active_silence.simps(2) using run [of 5] by (simp add: active_timeout_def MAX_RETRIES_def Let_def)
  moreover have "\<exists>f'. active_silence mtu isn k f =
       (Opening, replicate k (Emit isn 0 TCP_SYN [] (syn_options mtu)), f') \<and> rto_at f' = Some (t + (k + 1) * RTO)"
    if "k \<le> 5" for k
    using run [OF that] by simp
  ultimately show ?thesis
    by (simp add: open_active_end_def ACTIVE_OPEN_TIMEOUT_def RTO_def)
qed

section \<open>An engine at work\<close>

definition demo_engine :: NatEngine where
  "demo_engine = with_pinger (NatConfig_new (Ipv4Addr 10 0 0 1) (MacAddr 2 0 0 0 0 254))"

definition demo_key :: "u16 \<Rightarrow> FlowKey" where
  "demo_key p = \<lparr>fk_guest_ip = Ipv4Addr 10 0 0 2, fk_guest_port = 22, fk_dst_ip = Ipv4Addr 10 0 0 1, fk_dst_port = p\<rparr>"

lemma demo_alloc:
  "alloc_active_tcp_flow (Ipv4Addr 10 0 0 2) 22 demo_engine =
     (Some (demo_key 49152), demo_engine\<lparr>eph_counter := 1, tcp_flows := [(demo_key 49152, [])]\<rparr>)"
proof -
  have "first_free (\<lambda>_. False) EPHEMERAL_PORTS (Suc 16383) 0 = (Some 49152, 1)"
    by (simp only: first_free.simps) (simp add: next_ephemeral_def EPHEMERAL_BASE_def)
  then have "first_free (\<lambda>_. False) EPHEMERAL_PORTS (unat EPHEMERAL_PORTS) 0 = (Some 49152, 1)"
    by (simp add: EPHEMERAL_PORTS_def)
  then show ?thesis
    by (simp add: alloc_active_tcp_flow_def demo_engine_def with_pinger_def NatConfig_new_def demo_key_def Let_def
        hm_contains_def hm_get_def hm_insert_def)
qed

theorem ephemeral_alloc_witness:
  "\<not> hm_contains (tcp_flows demo_engine) (demo_key 49152) \<and>
   tcp_flows (snd (alloc_active_tcp_flow (Ipv4Addr 10 0 0 2) 22 demo_engine)) = [(demo_key 49152, [])]"
  using ephemeral_alloc [of demo_engine "\<lambda>_. []" "NatConfig_new (Ipv4Addr 10 0 0 1) (MacAddr 2 0 0 0 0 254)" "[]"
      demo_key "Ipv4Addr 10 0 0 2" 22]
  by (simp add: demo_alloc demo_key_def [abs_def] NatConfig_new_def)
    (simp add: demo_engine_def NatConfig_new_def)

theorem active_open_gives_up_witness:
  "\<exists>out f e'. open_active_begin (Ipv4Addr 10 0 0 2) 22 0 7 demo_engine = (Some (demo_key 49152, out, f), e') \<and>
     (\<exists>out' f'. active_silence 1500 7 6 f = (OpenFailed None, out', f'))"
proof -
  obtain out f e' where run: "open_active_begin (Ipv4Addr 10 0 0 2) 22 0 7 demo_engine =
      (Some (demo_key 49152, out, f), e')"
    by (simp add: open_active_begin_def demo_alloc active_start_def Let_def)
  have "1500 = nc_mtu (ne_cfg demo_engine)" by (simp add: demo_engine_def with_pinger_def NatConfig_new_def)
  from active_open_gives_up [OF run this] run show ?thesis by blast
qed

definition demo_datagram :: bytes where
  "demo_datagram = [0x45, 0, 0, 30, 0, 1, 0, 0, 64, 17, 0, 0, 10, 0, 0, 2, 8, 8, 8, 8,
     0x9C, 0x40, 0, 53, 0, 10, 0, 0, 1, 2]"

definition demo_frame :: bytes where
  "demo_frame = eth_build (MacAddr 2 0 0 0 0 254) (MacAddr 2 0 0 0 0 2) ETHERTYPE_IPV4 demo_datagram"

definition demo_flow_key :: FlowKey where
  "demo_flow_key = \<lparr>fk_guest_ip = Ipv4Addr 10 0 0 2, fk_guest_port = 40000, fk_dst_ip = Ipv4Addr 8 8 8 8, fk_dst_port = 53\<rparr>"

lemma demo_datagram_view:
  "Ipv4View_parse demo_datagram = Some (Ipv4View demo_datagram)"
  "Ipv4View_src (Ipv4View demo_datagram) = Ipv4Addr 10 0 0 2" "Ipv4View_dst (Ipv4View demo_datagram) = Ipv4Addr 8 8 8 8"
  "Ipv4View_proto (Ipv4View demo_datagram) = IPPROTO_UDP"
  "UdpView_parse (Ipv4View_payload (Ipv4View demo_datagram)) = Some (UdpView [0x9C, 0x40, 0, 53, 0, 10, 0, 0, 1, 2])"
  "UdpView_src_port (UdpView [0x9C, 0x40, 0, 53, 0, 10, 0, 0, 1, 2]) = 40000"
  "UdpView_dst_port (UdpView [0x9C, 0x40, 0, 53, 0, 10, 0, 0, 1, 2]) = 53"
  "UdpView_payload (UdpView [0x9C, 0x40, 0, 53, 0, 10, 0, 0, 1, 2]) = [1, 2]"
  by (simp_all add: demo_datagram_def frame_eval view_eval from_be16_def)


end
