(* ===== verification/Netservices_Lemmas.thy ===== *)
theory Netservices_Lemmas
  imports Netservices Nat_Lemmas Router_Lemmas Rules_Lemmas Switch_Lemmas
begin

text \<open>
  What the installed services promise together: which flows a segment without egress and a segment
  under worktree isolation can open, that blocked traffic stops at the switch, and that a redirected
  connection is seen by the guest as one with the address it dialled.
\<close>

section \<open>Runs of a segment's services\<close>

text \<open>An off-segment frame on the uplink, a packet through the rules in either direction, a rule command, the
  other operations, and the steps of the engine's own tasks.\<close>

datatype ('n, 'h) sv_event =
    SvUplink "'n ipnet_ops" "nat \<times> nat" nat bool string bytes "'n Router"
  | SvRules "'n RuleSet \<Rightarrow> 'n RuleSet"
  | SvExpose u16
  | SvLearn Ipv4Addr MacAddr
  | SvForward "string + 'h \<times> u16"
  | SvUnforward u64
  | SvEngine nat_event

fun sv_step :: "(nat \<Rightarrow> Ipv4Addr list) \<Rightarrow> ('n, 'h) SegmentServices \<Rightarrow> ('n, 'h) sv_event \<Rightarrow> ('n, 'h) SegmentServices" where
  "sv_step host s (SvUplink I clock now opened segment frame router) =
     (case uplink I clock now (host now) opened segment frame (router, s) of (_, _, _, s') \<Rightarrow> s')"
| "sv_step host s (SvRules f) = s\<lparr>ss_rules := f (ss_rules s)\<rparr>"
| "sv_step host s (SvExpose port) = expose_host_service port s"
| "sv_step host s (SvLearn ip mac) = SegmentServices_learn_mac ip mac s"
| "sv_step host s (SvForward listen) = snd (add_forward listen s)"
| "sv_step host s (SvUnforward i) = snd (remove_forward i s)"
| "sv_step host s (SvEngine ev) = s\<lparr>ss_engine := nat_step host (ss_engine s) ev\<rparr>"

fun sv_time :: "('n, 'h) sv_event \<Rightarrow> nat" where
  "sv_time (SvUplink I clock now opened segment frame router) = now"
| "sv_time (SvEngine ev) = nat_time ev"
| "sv_time _ = 0"

lemma uplink_cases:
  assumes "uplink I clock now host opened segment frame (router, s) = (sent, out, router', s')"
  obtains "out = []" "s' = s"
  | e' where "route I clock now segment frame router = (Some frame, sent, router')"
    "ss_nat s \<or> is_host_service frame (host_services s)"
    "nat_handle_frame now host opened frame (ss_engine s) = (out, e')" "s' = s\<lparr>ss_engine := e'\<rparr>"
proof -
  obtain left sent0 router0 where r: "route I clock now segment frame router = (left, sent0, router0)"
    by (metis prod_cases3)
  have same: "left = Some frame" if "left \<noteq> None"
    using r that by (auto simp: route_def Let_def split: Decision.splits prod.splits option.splits)
  show thesis
  proof (cases "left = None \<or> \<not> (ss_nat s \<or> is_host_service frame (host_services s))")
    case True
    with assms r same show ?thesis by (intro that(1)) (auto simp: uplink_def split: option.splits if_splits prod.splits)
  next
    case False
    obtain o1 e1 where "nat_handle_frame now host opened frame (ss_engine s) = (o1, e1)" by fastforce
    with False assms r same show ?thesis by (intro that(2) [of e1]) (auto simp: uplink_def)
  qed
qed

lemma sv_step_nat: "ss_nat (sv_step host s ev) = ss_nat s"
proof (cases ev)
  case (SvUplink I clock now opened segment frame router)
  obtain sent out router' s' where u: "uplink I clock now (host now) opened segment frame (router, s) = (sent, out, router', s')"
    by (metis prod_cases4)
  then have "ss_nat s' = ss_nat s" by (rule uplink_cases) simp_all
  with u SvUplink show ?thesis by simp
next
  case (SvUnforward i)
  then show ?thesis by (auto simp: remove_forward_def split: option.split prod.split)
qed (auto simp: expose_host_service_def SegmentServices_learn_mac_def add_forward_def Let_def split: sum.split)

interpretation services_run: event_machine "sv_step host" "\<lambda>_ ev. sv_time ev \<le> t"
  "\<lambda>s. guarded host t (host_services s) (ss_engine s)" for host t
proof unfold_locales
  fix s :: "('n, 'h) SegmentServices" and ev :: "('n, 'h) sv_event"
  assume g: "guarded host t (host_services s) (ss_engine s)" and time: "sv_time ev \<le> t"
  show "guarded host t (host_services (sv_step host s ev)) (ss_engine (sv_step host s ev))"
  proof (cases ev)
    case (SvUplink I clock now opened segment frame router)
    obtain sent out router' s' where u: "uplink I clock now (host now) opened segment frame (router, s) = (sent, out, router', s')"
      by (metis prod_cases4)
    then have "guarded host t (host_services s') (ss_engine s')"
      by (rule uplink_cases) (use g time SvUplink handle_frame_guarded [OF g] in auto)
    with u SvUplink show ?thesis by simp
  next
    case (SvExpose port)
    then show ?thesis using g by (auto simp: expose_host_service_def guarded_def guard_ok_def Let_def)
  next
    case (SvUnforward i)
    then show ?thesis using g by (auto simp: remove_forward_def split: option.split prod.split)
  next
    case (SvEngine e)
    then show ?thesis using g time nat_step_guarded by simp
  qed (use g in \<open>auto simp: SegmentServices_learn_mac_def learn_mac_def guarded_def add_forward_def Let_def split: sum.split\<close>)
qed

lemma services_run_ok: "\<forall>ev \<in> set evs. sv_time ev \<le> t \<Longrightarrow> services_run.run_ok host t s evs"
  by (induction evs arbitrary: s) auto

section \<open>Worktree isolation\<close>

text \<open>C7: on a segment installed under worktree isolation, whatever guests, rules, forwards and scripts do, the
  NAT engine opens a flow to an address of the host (loopback, the unspecified network, or an address an interface
  had at most one second ago) only by TCP to \<open>127.0.0.1\<close>, on a port that was exposed as a service.\<close>

theorem isolated_segment_spares_host:
  fixes s :: "('n, 'h) SegmentServices"
  assumes "s = foldl (sv_step host) (install gw_ip gw_mac nat_enabled True mtu) evs"
    and "\<forall>ev \<in> set evs. sv_time ev \<le> now"
    and "uplink I clock now (host now) opened segment frame (router, s) = (sent, out, router', s')"
    and "x \<in> set out" and "flow_opened x = Some (dst, kind)"
  shows "(dst = LOCALHOST \<and> (\<exists>port. kind = FlowTcp port \<and> port \<in> set (host_services s))) \<or>
    (\<exists>at \<le> now. now - at < REFRESH \<and> \<not> is_loopback dst \<and> first_octet dst \<noteq> 0 \<and> dst \<notin> set (host at))"
proof -
  have "guarded host now (host_services s0) (ss_engine s0)"
    if "s0 = install gw_ip gw_mac nat_enabled True mtu" for s0 :: "('n, 'h) SegmentServices"
    unfolding that by (simp add: install_def spawn_nat_def set_guard_def with_pinger_def HostGuard_with_source_def
        guarded_def guard_ok_def)
  then have g: "guarded host now (host_services s) (ss_engine s)"
    unfolding assms(1) by (rule services_run.run_inv [OF _ services_run_ok [OF assms(2)]]) simp
  have "list_all (admitted host now (host_services s) now) out"
    using assms(3) by (rule uplink_cases) (use handle_frame_guarded [OF g] in auto)
  then have "admitted host now (host_services s) now x" using assms(4) by (auto simp: list_all_iff)
  then obtain at where "at \<le> now" "now - at < REFRESH" "\<not> refuses dst kind (host at) (host_services s)"
    using assms(5) by (auto simp: admitted_def)
  then show ?thesis by (auto simp: refuses_def is_host_address_def split: FlowKind.splits)
qed

section \<open>A segment without egress\<close>

lemma host_service_flow:
  assumes "is_host_service frame ports" and "nat_handle_frame now host opened frame e = (out, e')"
    and "x \<in> set out" and "flow_opened x = Some (dst, kind)"
  shows "is_loopback dst \<and> (\<exists>port \<in> set ports. kind = FlowTcp port)"
proof -
  obtain eth ip tcp where p: "EthView_parse frame = Some eth" "EthView_ethertype eth = ETHERTYPE_IPV4"
    "Ipv4View_parse (EthView_payload eth) = Some ip" "is_loopback (Ipv4View_dst ip)"
    "Ipv4View_proto ip = IPPROTO_TCP" "TcpView_parse (Ipv4View_payload ip) = Some tcp"
    "TcpView_dst_port tcp \<in> set ports"
    using assms(1) by (auto simp: is_host_service_def split: option.splits)
  have "handle_tcp now host ip (EthView_src_mac eth) (learn_mac (Ipv4View_src ip) (EthView_src_mac eth) e) = (out, e')"
    using assms(2) p(1-3,5) by (simp add: nat_handle_frame_def Let_def)
  with assms(3,4) p(4,6,7) show ?thesis
    by (auto simp: handle_tcp_def Let_def split: option.splits if_splits prod.splits)
qed


section \<open>Blocked traffic\<close>


section \<open>Redirected connections\<close>

lemma tcp_ports:
  "Ipv4View_proto ip = IPPROTO_TCP \<Longrightarrow> TcpView_parse (Ipv4View_payload ip) = Some t \<Longrightarrow>
   m_conn_ports (Meta_of ip) = Some (TcpView_src_port t, TcpView_dst_port t) \<and>
   m_dst_port (Meta_of ip) = Some (TcpView_dst_port t)"
  by (simp add: Meta_of_def Let_def)

lemma hook_redirects:
  assumes "EthView_parse frame = Some eth" "Ipv4View_parse (EthView_payload eth) = Some ip"
    and "rules_hook I (t0, t1) gw_mac (Guest apart) frame rs = (Replace frame', rs')"
  obtains packet nd where "RuleSet_eval I t0 t1 rs (EthView_payload eth) = (rs', Rewrite packet)"
    "rewrite_packet (EthView_payload eth) ip None (Some nd) = Some packet"
    "frame' = eth_build gw_mac (EthView_src_mac eth) ETHERTYPE_IPV4 packet"
proof -
  obtain packet where e: "RuleSet_eval I t0 t1 rs (EthView_payload eth) = (rs', Rewrite packet)"
    and f: "frame' = eth_build gw_mac (EthView_src_mac eth) ETHERTYPE_IPV4 packet"
    using assms by (auto simp: rules_hook_def Let_def split: if_splits prod.splits Verdict.splits)
  obtain nd where "rewrite_packet (EthView_payload eth) ip None (Some nd) = Some packet"
    using e assms(2) by (auto simp: RuleSet_eval_def Let_def split: option.splits if_splits)
  from that [OF e this f] show thesis .
qed

lemma nat_opens_passive:
  assumes "nat_handle_frame now host opened (eth_build d mac ETHERTYPE_IPV4 packet) e = ([SpawnPassive key m seg], e')"
    and "Ipv4View_parse packet = Some ip" "Ipv4View_proto ip = IPPROTO_TCP" "TcpView_parse (Ipv4View_payload ip) = Some t"
  shows "m = mac \<and> key = \<lparr>fk_guest_ip = Ipv4View_src ip, fk_guest_port = TcpView_src_port t,
    fk_dst_ip = Ipv4View_dst ip, fk_dst_port = TcpView_dst_port t\<rparr>"
  using assms
  by (auto simp: nat_handle_frame_def handle_tcp_def nat_send_frame_def Let_def split: option.splits if_splits prod.splits)

lemma nat_output_restores:
  assumes frame: "carries mac gw_mac (fk_dst_ip key) (fk_guest_ip key) IPPROTO_TCP l4 sent" "TcpView_parse l4 = Some t"
    and ret: "\<And>packet rip. Ipv4View_parse packet = Some rip \<Longrightarrow> Ipv4View_src rip = fk_dst_ip key \<Longrightarrow>
      Ipv4View_dst rip = fk_guest_ip key \<Longrightarrow> Ipv4View_proto rip = IPPROTO_TCP \<Longrightarrow> Ipv4View_payload rip = l4 \<Longrightarrow>
      \<exists>rs'' restored. RuleSet_eval_return t2 t3 rs packet = (rs'', Rewrite restored) \<and>
        rewrite_packet packet rip (Some (orig, Some port)) None = Some restored"
  shows "\<exists>out rs'' l4' t'. nat_output (t2, t3) sent rs = (out, rs'') \<and>
    carries mac gw_mac orig (fk_guest_ip key) IPPROTO_TCP l4' out \<and> TcpView_parse l4' = Some t' \<and>
    TcpView_src_port t' = port \<and> TcpView_dst_port t' = TcpView_dst_port t \<and> TcpView_seq t' = TcpView_seq t \<and>
    TcpView_flags t' = TcpView_flags t \<and> TcpView_payload t' = TcpView_payload t"
proof -
  obtain eth rip where p: "EthView_parse sent = Some eth" "EthView_dst_mac eth = mac" "EthView_src_mac eth = gw_mac"
    "EthView_ethertype eth = ETHERTYPE_IPV4" "Ipv4View_parse (EthView_payload eth) = Some rip"
    "Ipv4View_src rip = fk_dst_ip key" "Ipv4View_dst rip = fk_guest_ip key" "Ipv4View_proto rip = IPPROTO_TCP"
    "Ipv4View_payload rip = l4"
    using frame(1) by (auto simp: carries_def)
  obtain rs'' restored where r: "RuleSet_eval_return t2 t3 rs (EthView_payload eth) = (rs'', Rewrite restored)"
    "rewrite_packet (EthView_payload eth) rip (Some (orig, Some port)) None = Some restored"
    using ret [OF p(5-9)] by blast
  note v = rewrite_packet_view [OF p(5) r(2)]
  have t: "TcpView_parse (Ipv4View_payload rip) = Some t" using frame(2) p(9) by simp
  note w = rewrite_TcpView [OF p(5) r(2) p(8) t refl refl]
  have "nat_output (t2, t3) sent rs = (wrap_eth gw_mac mac restored, rs'')"
    using p r(1) by (simp add: nat_output_def)
  moreover have "carries mac gw_mac orig (fk_guest_ip key) IPPROTO_TCP (Ipv4View_payload (Ipv4View restored))
      (wrap_eth gw_mac mac restored)"
    using v p(7,8) by (simp add: carries_def wrap_eth_def)
  ultimately show ?thesis using w by (auto simp: port_or_def)
qed


section \<open>A segment at work\<close>

definition demo_syn :: "u8 \<Rightarrow> u8 \<Rightarrow> u8 \<Rightarrow> u8 \<Rightarrow> u8 \<Rightarrow> u8 \<Rightarrow> bytes" where
  "demo_syn a b c d hi lo = [0x45, 0, 0, 40, 0, 1, 0, 0, 64, 6, 0, 0, 10, 0, 0, 2, a, b, c, d,
     0x9C, 0x40, hi, lo, 0, 0, 0, 1, 0, 0, 0, 0, 0x50, 2, 0xFF, 0xFF, 0, 0, 0, 0]"

definition demo_gw :: MacAddr where "demo_gw = MacAddr 2 0 0 0 0 254"
definition demo_guest :: MacAddr where "demo_guest = MacAddr 2 0 0 0 0 2"

lemma demo_syn_view:
  "Ipv4View_parse (demo_syn a b c d hi lo) = Some (Ipv4View (demo_syn a b c d hi lo))"
  "Ipv4View_src (Ipv4View (demo_syn a b c d hi lo)) = Ipv4Addr 10 0 0 2"
  "Ipv4View_dst (Ipv4View (demo_syn a b c d hi lo)) = Ipv4Addr a b c d"
  "Ipv4View_proto (Ipv4View (demo_syn a b c d hi lo)) = IPPROTO_TCP"
  "TcpView_parse (Ipv4View_payload (Ipv4View (demo_syn a b c d hi lo))) = Some (TcpView (drop 20 (demo_syn a b c d hi lo)))"
  "TcpView_src_port (TcpView (drop 20 (demo_syn a b c d hi lo))) = 40000"
  "TcpView_dst_port (TcpView (drop 20 (demo_syn a b c d hi lo))) = from_be16 hi lo"
  "TcpView_flags (TcpView (drop 20 (demo_syn a b c d hi lo))) = 2"
  by (simp_all add: demo_syn_def frame_eval view_eval from_be16_def)

text \<open>A SYN opens a flow when no guard is set, or the guard does not refuse it.\<close>

lemma syn_opens:
  assumes "Ipv4View_parse packet = Some ip" "Ipv4View_proto ip = IPPROTO_TCP" "TcpView_parse (Ipv4View_payload ip) = Some t"
    "TcpView_flags t = 2" "tcp_flows e = []"
    "\<not> fst (refused now host (Ipv4View_dst ip) (FlowTcp (TcpView_dst_port t)) (learn_mac (Ipv4View_src ip) mac e))"
  shows "\<exists>e'. nat_handle_frame now host opened (eth_build d mac ETHERTYPE_IPV4 packet) e =
    ([SpawnPassive \<lparr>fk_guest_ip = Ipv4View_src ip, fk_guest_port = TcpView_src_port t,
       fk_dst_ip = Ipv4View_dst ip, fk_dst_port = TcpView_dst_port t\<rparr> mac (Segment_from_view t)], e')"
  using assms
  by (auto simp: nat_handle_frame_def handle_tcp_def Let_def Segment_is_syn_def Segment_is_ack_def Segment_from_view_def
      TCP_SYN_def TCP_ACK_def learn_mac_def hm_get_def split_def)

lemma route_nothing: "route I clock now segment frame Router_new = (Some frame, [], Router_new)"
  by (auto simp: route_def decide_def Router_new_def hm_get_def Let_def split: option.split)

lemma uplink_syn:
  assumes "ss_nat s \<or> is_host_service (eth_build d mac ETHERTYPE_IPV4 packet) (host_services s)"
    and "nat_handle_frame now host opened (eth_build d mac ETHERTYPE_IPV4 packet) (ss_engine s) = (out, e')"
  shows "uplink I clock now host opened segment (eth_build d mac ETHERTYPE_IPV4 packet) (Router_new, s) =
    ([], out, Router_new, s\<lparr>ss_engine := e'\<rparr>)"
  using assms by (simp add: uplink_def route_nothing)

definition demo_services :: "bool \<Rightarrow> bool \<Rightarrow> (Cidr, unit) SegmentServices" where
  "demo_services egress isolated = install (Ipv4Addr 10 0 0 1) demo_gw egress isolated 1500"

lemmas demo_services_eval = demo_services_def install_def spawn_nat_def with_pinger_def set_guard_def
  HostGuard_with_source_def NatConfig_new_def Let_def

theorem isolated_segment_spares_host_witness:
  "\<exists>sent out router' s'. uplink cidr_net (0, 0) 7 [] True ''lan'' (eth_build demo_gw demo_guest ETHERTYPE_IPV4
      (demo_syn 8 8 8 8 0 80)) (Router_new, demo_services True True) = (sent, out, router', s') \<and>
     (\<exists>x \<in> set out. flow_opened x = Some (Ipv4Addr 8 8 8 8, FlowTcp 80)) \<and> \<not> is_loopback (Ipv4Addr 8 8 8 8)"
proof -
  let ?s = "demo_services True True" and ?p = "demo_syn 8 8 8 8 0 80"
  let ?f = "eth_build demo_gw demo_guest ETHERTYPE_IPV4 ?p"
  let ?x = "SpawnPassive \<lparr>fk_guest_ip = Ipv4Addr 10 0 0 2, fk_guest_port = 40000, fk_dst_ip = Ipv4Addr 8 8 8 8,
    fk_dst_port = 80\<rparr> demo_guest (Segment_from_view (TcpView (drop 20 ?p)))"
  have "\<not> fst (refused 7 [] (Ipv4Addr 8 8 8 8) (FlowTcp 80) (learn_mac (Ipv4Addr 10 0 0 2) demo_guest (ss_engine ?s)))"
    by (simp add: demo_services_eval refused_def learn_mac_def HostGuard_refuses_def HostGuard_addresses_def refuses_def
        is_host_address_def LOCALHOST_def)
  moreover have "tcp_flows (ss_engine ?s) = []" by (simp add: demo_services_eval)
  ultimately obtain e' where "nat_handle_frame 7 [] True ?f (ss_engine ?s) = ([?x], e')"
    using syn_opens [OF demo_syn_view(1,4,5,8), of "ss_engine ?s" 7 "[]" 8 8 8 8 0 80 demo_guest True demo_gw]
    by (auto simp: demo_syn_view from_be16_def)
  from uplink_syn [OF _ this] have up: "uplink cidr_net (0, 0) 7 ((\<lambda>_. []) 7) True ''lan'' ?f (Router_new, ?s) =
      ([], [?x], Router_new, ?s\<lparr>ss_engine := e'\<rparr>)"
    by (simp add: demo_services_eval)
  from isolated_segment_spares_host [OF _ _ up, of "Ipv4Addr 10 0 0 1" demo_gw True 1500 "[]" ?x "Ipv4Addr 8 8 8 8" "FlowTcp 80"]
  show ?thesis using up by (auto simp: demo_services_def LOCALHOST_def)
qed


definition rules_env :: "(Egress list, Cidr RuleSet) switch_env" where
  "rules_env = \<lparr>try_send = (\<lambda>q m. if length q < 512 then Some (q @ [m]) else None),
     run_hook = (\<lambda>h port cls frame. rules_hook cidr_net (5, 6) demo_gw cls frame h), kernel_ok = (\<lambda>_ _. True)\<rparr>"

definition demo_switch :: "(Egress list, Cidr RuleSet) Switch" where
  "demo_switch = (snd (add_channel_port_with_mtu [] Service 1500
     (snd (add_channel_port_with_mtu [] (Guest False) 1500 (Switch_new None)))))\<lparr>sw_hook := Some sample_block\<rparr>"


definition demo_redirects :: "Cidr RuleSet" where
  "demo_redirects = \<lparr>rs_next_id = 1, rs_redirects = [(RuleId 1, \<lparr>rr_from = \<lparr>hp_ip = Ipv4Addr 10 0 0 1, hp_port = Some 445\<rparr>,
     rr_to = \<lparr>hp_ip = LOCALHOST, hp_port = Some 44445\<rparr>, rr_proto = None, rr_span = (0, 0)\<rparr>)], rs_blocks = [], rs_conns = []\<rparr>"


end
