(* ===== verification/Lab_Plan.thy ===== *)
theory Lab_Plan
  imports Prelude
begin

text \<open>
  What an \<open>up\<close> or a \<open>down\<close> is going to do, worked out before anything starts or stops
  (\<open>src/labd/plan.rs\<close>), and the rungs a graceful stop climbs (\<open>src/labd/stop_plan.rs\<close>).

  A machine keeps the fields of its block that the plan reads; a \<open>HashSet\<close> is the list of its members,
  and a \<open>VecDeque\<close> the list from front to back. A lab's machines come in declaration order, and their names
  are unique. A \<open>HashMap\<close> is walked in the order of insertion, on which only the order of announcements
  on the way down depends.
\<close>

section \<open>Labs\<close>

record Provision =
  pv_script :: string
  pv_at :: nat

record Playbook =
  pb_path :: string
  pb_play :: string
  pb_at :: nat

record MachineCfg =
  mc_name :: string
  mc_depends_on :: "string list"
  mc_depends_on_provision :: "string list"
  mc_provisions :: "Provision list"
  mc_playbooks :: "Playbook list"

record Lab =
  lab_name :: string
  lab_machines :: "MachineCfg list"

definition Lab_machine :: "Lab \<Rightarrow> string \<Rightarrow> MachineCfg option" where
  "Lab_machine lab name = find (\<lambda>m. mc_name m = name) (lab_machines lab)"

lemma Lab_machine_in: "Lab_machine lab name = Some m \<Longrightarrow> m \<in> set (lab_machines lab) \<and> mc_name m = name"
  by (auto simp: Lab_machine_def find_Some_iff)

section \<open>The plan's types\<close>

datatype Direction = Up | Down

datatype StepKind = StepProvision Provision | StepPlaybook Playbook

record Step =
  st_machine :: string
  st_kind :: StepKind

fun describe_kind :: "StepKind \<Rightarrow> string" where
  "describe_kind (StepProvision p) = ''provision '' @ pv_script p"
| "describe_kind (StepPlaybook p) = ''playbook '' @ pb_path p @ '' play '' @ pb_play p"

definition Step_describe :: "Step \<Rightarrow> string" where
  "Step_describe s = describe_kind (st_kind s)"

record Skip =
  sk_what :: string
  sk_why :: string

record Provisioning =
  pr_machine :: string
  pr_steps :: "Step list"
  pr_after :: "string list"

record LabPlan =
  lp_waves :: "string list list"
  lp_provisioning :: "Provisioning list"
  lp_skipped :: "Skip list"

definition LabPlan_machines :: "LabPlan \<Rightarrow> string list" where
  "LabPlan_machines p = concat (lp_waves p)"

definition provisioning_of :: "LabPlan \<Rightarrow> string \<Rightarrow> Provisioning option" where
  "provisioning_of p machine = find (\<lambda>q. pr_machine q = machine) (lp_provisioning p)"

definition provision_awaited :: "LabPlan \<Rightarrow> string \<Rightarrow> bool" where
  "provision_awaited p machine \<longleftrightarrow> (\<exists>q \<in> set (lp_provisioning p). machine \<in> set (pr_after q))"

datatype Key = DependsOn | DependsOnProvision

fun Key_name :: "Key \<Rightarrow> string" where
  "Key_name DependsOn = ''depends_on''"
| "Key_name DependsOnProvision = ''depends_on_provision''"

fun Key_of :: "Key \<Rightarrow> Lab \<Rightarrow> string \<Rightarrow> string list" where
  "Key_of DependsOn lab name = (case Lab_machine lab name of None \<Rightarrow> [] | Some m \<Rightarrow> mc_depends_on m)"
| "Key_of DependsOnProvision lab name =
     (case Lab_machine lab name of None \<Rightarrow> [] | Some m \<Rightarrow> mc_depends_on_provision m)"

section \<open>The edges\<close>

definition known :: "Lab \<Rightarrow> string list" where
  "known lab = map mc_name (lab_machines lab)"

definition dependencies :: "Lab \<Rightarrow> (string, string list) hashmap" where
  "dependencies lab = fold (\<lambda>n. hm_insert n (Key_of DependsOn lab n)) (known lab) []"

definition add_dependent :: "string \<Rightarrow> string \<Rightarrow> (string, string list) hashmap \<Rightarrow> (string, string list) hashmap" where
  "add_dependent name d m = (case hm_get m d of None \<Rightarrow> m | Some l \<Rightarrow> hm_insert d (l @ [name]) m)"

definition dependents :: "Lab \<Rightarrow> (string, string list) hashmap" where
  "dependents lab =
     fold (\<lambda>(name, deps). fold (add_dependent name) deps) (dependencies lab)
       (fold (\<lambda>n. hm_insert n []) (known lab) [])"

definition plan_edges :: "Lab \<Rightarrow> Direction \<Rightarrow> string \<Rightarrow> string list" where
  "plan_edges lab direction n =
     (case hm_get (case direction of Up \<Rightarrow> dependencies lab | Down \<Rightarrow> dependents lab) n of
        None \<Rightarrow> [] | Some l \<Rightarrow> l)"

section \<open>Expanding a subset\<close>

fun plan_keys :: "Direction \<Rightarrow> Key list" where
  "plan_keys Up = [DependsOn, DependsOnProvision]"
| "plan_keys Down = [DependsOn]"

definition pulls :: "Lab \<Rightarrow> Direction \<Rightarrow> string \<Rightarrow> Key \<Rightarrow> string list" where
  "pulls lab direction n key = (case direction of Down \<Rightarrow> plan_edges lab Down n | Up \<Rightarrow> Key_of key lab n)"

definition quoted :: "string \<Rightarrow> string" where
  "quoted s = CHR 0x22 # s @ [CHR 0x22]"

definition em_dash :: string where
  "em_dash = [CHR 0xE2, CHR 0x80, CHR 0x94]"

fun pull_why :: "Direction \<Rightarrow> string \<Rightarrow> Key \<Rightarrow> string" where
  "pull_why Up n key = ''pulled in '' @ em_dash @ '' '' @ quoted n @ '' names it in '' @ Key_name key"
| "pull_why Down n key = ''pulled in '' @ em_dash @ '' it names '' @ quoted n @ '' in '' @ Key_name key"

text \<open>The set wanted so far, the machines announced, and the queue; one name that a machine pulls in.\<close>

type_synonym expansion = "string list \<times> Skip list \<times> string list"

definition pull_in :: "Direction \<Rightarrow> string \<Rightarrow> Key \<Rightarrow> string \<Rightarrow> expansion \<Rightarrow> expansion" where
  "pull_in direction n key m = (\<lambda>(wanted, skipped, queue).
     if m \<in> set wanted then (wanted, skipped, queue)
     else (wanted @ [m], skipped @ [\<lparr>sk_what = m, sk_why = pull_why direction n key\<rparr>], queue @ [m]))"

definition pull_all :: "Lab \<Rightarrow> Direction \<Rightarrow> string \<Rightarrow> expansion \<Rightarrow> expansion" where
  "pull_all lab direction n =
     fold (\<lambda>key. fold (pull_in direction n key) (pulls lab direction n key)) (plan_keys direction)"

text \<open>Every name a machine of the lab can pull in: what bounds the loop.\<close>

definition plan_names :: "Lab \<Rightarrow> Direction \<Rightarrow> string set" where
  "plan_names lab direction = (\<Union>n. \<Union>key. set (pulls lab direction n key))"

lemma pull_in_known: "m \<in> set wanted \<Longrightarrow> pull_in direction n k m (wanted, skipped, queue) = (wanted, skipped, queue)"
  by (simp add: pull_in_def)

lemma pull_in_fresh: "m \<notin> set wanted \<Longrightarrow>
   \<exists>s. pull_in direction n k m (wanted, skipped, queue) = (wanted @ [m], s, queue @ [m])"
  by (simp add: pull_in_def)

lemma fold_pull_in:
  assumes "fold (pull_in direction n key) ms (wanted, skipped, queue) = (w, s, q)"
  shows "set w = set wanted \<union> set ms \<and> (\<exists>new. w = wanted @ new \<and> q = queue @ new \<and> distinct new \<and>
    set new \<inter> set wanted = {} \<and> set new \<subseteq> set ms)"
  using assms
proof (induction ms arbitrary: wanted skipped queue)
  case (Cons m ms)
  show ?case
  proof (cases "m \<in> set wanted")
    case True
    then have "fold (pull_in direction n key) ms (wanted, skipped, queue) = (w, s, q)"
      using Cons.prems by (simp add: pull_in_known)
    from Cons.IH [OF this] True show ?thesis by auto
  next
    case False
    from pull_in_fresh [OF False] obtain s' where
      "pull_in direction n key m (wanted, skipped, queue) = (wanted @ [m], s', queue @ [m])" by blast
    then have "fold (pull_in direction n key) ms (wanted @ [m], s', queue @ [m]) = (w, s, q)" using Cons.prems by simp
    from Cons.IH [OF this] obtain new where
      "set w = set (wanted @ [m]) \<union> set ms" "w = (wanted @ [m]) @ new" "q = (queue @ [m]) @ new" "distinct new"
      "set new \<inter> set (wanted @ [m]) = {}" "set new \<subseteq> set ms" by blast
    with False show ?thesis by (intro conjI exI [of _ "m # new"]) auto
  qed
qed simp

lemma pull_all_new:
  assumes "pull_all lab direction n (wanted, skipped, queue) = (w, s, q)"
  shows "set w = set wanted \<union> (\<Union>key \<in> set (plan_keys direction). set (pulls lab direction n key)) \<and>
    (\<exists>new. w = wanted @ new \<and> q = queue @ new \<and> distinct new \<and> set new \<inter> set wanted = {} \<and>
      set new \<subseteq> plan_names lab direction)"
proof (cases direction)
  case Down
  with assms fold_pull_in [of Down n DependsOn "pulls lab Down n DependsOn" wanted skipped queue w s q] show ?thesis
    unfolding pull_all_def plan_names_def by fastforce
next
  case Up
  obtain w1 s1 q1 where one: "fold (pull_in Up n DependsOn) (pulls lab Up n DependsOn) (wanted, skipped, queue) = (w1, s1, q1)"
    by (metis prod_cases3)
  then have two: "fold (pull_in Up n DependsOnProvision) (pulls lab Up n DependsOnProvision) (w1, s1, q1) = (w, s, q)"
    using assms Up by (simp add: pull_all_def)
  from fold_pull_in [OF one] obtain new1 where n1: "w1 = wanted @ new1" "q1 = queue @ new1" "distinct new1"
    "set new1 \<inter> set wanted = {}" "set new1 \<subseteq> set (pulls lab Up n DependsOn)" "set w1 = set wanted \<union> set (pulls lab Up n DependsOn)"
    by blast
  from fold_pull_in [OF two] obtain new2 where n2: "w = w1 @ new2" "q = q1 @ new2" "distinct new2" "set new2 \<inter> set w1 = {}"
    "set new2 \<subseteq> set (pulls lab Up n DependsOnProvision)" "set w = set w1 \<union> set (pulls lab Up n DependsOnProvision)" by blast
  have "set (new1 @ new2) \<subseteq> plan_names lab Up" using n1(5) n2(5) by (auto simp: plan_names_def)
  moreover have "w = wanted @ (new1 @ new2)" "q = queue @ (new1 @ new2)" "distinct (new1 @ new2)"
    "set (new1 @ new2) \<inter> set wanted = {}" using n1 n2 by auto
  moreover have "set w = set wanted \<union> (\<Union>key \<in> set (plan_keys Up). set (pulls lab Up n key))" using n1(6) n2(6) by auto
  ultimately show ?thesis using Up by blast
qed

lemma hm_get_fold_insert:
  "hm_get (fold (\<lambda>n. hm_insert n (f n)) ns m) k = (if k \<in> set ns then Some (f k) else hm_get m k)"
  by (induction ns arbitrary: m) (auto simp: hm_insert_def hm_get_def update_conv')

lemma finite_plan_names: "finite (plan_names lab direction)"
proof (cases direction)
  case Up
  have "plan_names lab Up \<subseteq> (\<Union>m \<in> set (lab_machines lab). set (mc_depends_on m) \<union> set (mc_depends_on_provision m))"
  proof
    fix x
    assume "x \<in> plan_names lab Up"
    then obtain n key where "x \<in> set (Key_of key lab n)" by (auto simp: plan_names_def pulls_def)
    then show "x \<in> (\<Union>m \<in> set (lab_machines lab). set (mc_depends_on m) \<union> set (mc_depends_on_provision m))"
      by (cases key; cases "Lab_machine lab n") (auto dest!: Lab_machine_in)
  qed
  then show ?thesis using Up finite_subset by fastforce
next
  case Down
  have "plan_names lab Down \<subseteq> (\<Union>l \<in> ran (hm_get (dependents lab)). set l)"
    by (auto simp: plan_names_def pulls_def plan_edges_def ran_def split: option.splits) metis
  moreover have "finite (\<Union>l \<in> ran (hm_get (dependents lab)). set l)"
    by (simp add: hm_get_def [abs_def] finite_ran finite_dom_map_of)
  ultimately show ?thesis using Down finite_subset by blast
qed

function expand :: "Lab \<Rightarrow> Direction \<Rightarrow> expansion \<Rightarrow> string list \<times> Skip list" where
  "expand lab direction (wanted, skipped, []) = (wanted, skipped)"
| "expand lab direction (wanted, skipped, n # queue) =
     expand lab direction (pull_all lab direction n (wanted, skipped, queue))"
  by pat_completeness auto
termination
proof (relation "measure (\<lambda>(lab, direction, wanted, skipped, queue).
    2 * card (plan_names lab direction - set wanted) + length queue)")
  fix lab direction and wanted :: "string list" and skipped n and queue :: "string list"
  obtain w s q where p: "pull_all lab direction n (wanted, skipped, queue) = (w, s, q)" by (metis prod_cases3)
  obtain new where new: "w = wanted @ new" "q = queue @ new" "distinct new" "set new \<inter> set wanted = {}"
    "set new \<subseteq> plan_names lab direction" using pull_all_new [OF p] by blast
  let ?U = "plan_names lab direction"
  have "card (?U - set w) = card (?U - set wanted) - card (set new)"
    using new(1,4,5) finite_plan_names [of lab direction]
    by (subst card_Diff_subset [symmetric]) (auto intro: arg_cong [where f = card])
  moreover have "card (set new) \<le> card (?U - set wanted)"
    using new(4,5) finite_plan_names [of lab direction] by (intro card_mono) auto
  moreover have "card (set new) = length new" using new(3) by (rule distinct_card)
  ultimately show "((lab, direction, pull_all lab direction n (wanted, skipped, queue)),
      lab, direction, wanted, skipped, n # queue) \<in> measure (\<lambda>(lab, direction, wanted, skipped, queue).
        2 * card (plan_names lab direction - set wanted) + length queue)"
    using p new(2) by simp
qed simp

definition plan_targets :: "Lab \<Rightarrow> string list \<Rightarrow> Direction \<Rightarrow> string list \<times> Skip list" where
  "plan_targets lab chosen direction =
     (if chosen = [] then (known lab, [])
      else
        let (wanted, skipped) = expand lab direction (remdups chosen, [], chosen)
        in (filter (\<lambda>n. n \<in> set wanted) (known lab), skipped))"

section \<open>Waves\<close>

fun join_with :: "string \<Rightarrow> string list \<Rightarrow> string" where
  "join_with sep [] = []"
| "join_with sep [s] = s"
| "join_with sep (s # ss) = s @ sep @ join_with sep ss"

definition next_wave :: "(string \<Rightarrow> string list) \<Rightarrow> string list \<Rightarrow> string list \<Rightarrow> string list \<Rightarrow> string list" where
  "next_wave edges targets finished remaining =
     filter (\<lambda>n. list_all (\<lambda>d. d \<in> set finished \<or> d \<notin> set targets) (edges n)) remaining"

function plan_waves ::
  "(string \<Rightarrow> string list) \<Rightarrow> string list \<Rightarrow> string list \<Rightarrow> string list \<Rightarrow> string + string list list" where
  "plan_waves edges targets finished remaining =
     (if remaining = [] then Inr []
      else
        let wave = next_wave edges targets finished remaining
        in if wave = [] then Inl (''dependency deadlock among: '' @ join_with '', '' remaining)
           else
             case plan_waves edges targets (finished @ wave) (filter (\<lambda>n. n \<notin> set wave) remaining) of
               Inl e \<Rightarrow> Inl e
             | Inr waves \<Rightarrow> Inr (wave # waves))"
  by pat_completeness auto
termination
proof (relation "measure (\<lambda>(edges, targets, finished, remaining). length remaining)")
  fix edges targets finished and remaining :: "string list" and wave
  assume wave: "wave = next_wave edges targets finished remaining" "wave \<noteq> []"
  then have "hd wave \<in> set wave" by simp
  moreover from this have "hd wave \<in> set remaining" unfolding wave(1) next_wave_def by simp
  ultimately show "((edges, targets, finished @ wave, filter (\<lambda>n. n \<notin> set wave) remaining), edges, targets, finished, remaining)
      \<in> measure (\<lambda>(edges, targets, finished, remaining). length remaining)"
    by (simp add: length_filter_less)
qed simp

declare plan_waves.simps [simp del]

section \<open>Configuration steps\<close>

definition declared_steps :: "Lab \<Rightarrow> Step list" where
  "declared_steps lab =
     map snd (sort_key fst (concat (map (\<lambda>m.
       map (\<lambda>p. (pv_at p, \<lparr>st_machine = mc_name m, st_kind = StepProvision p\<rparr>)) (mc_provisions m) @
       map (\<lambda>p. (pb_at p, \<lparr>st_machine = mc_name m, st_kind = StepPlaybook p\<rparr>)) (mc_playbooks m)) (lab_machines lab))))"

definition next_ready :: "string list \<Rightarrow> Provisioning list \<Rightarrow> string list" where
  "next_ready finished remaining = map pr_machine (filter (\<lambda>p. set (pr_after p) \<subseteq> set finished) remaining)"

function provisioning_deadlock :: "string list \<Rightarrow> Provisioning list \<Rightarrow> string + unit" where
  "provisioning_deadlock finished remaining =
     (if remaining = [] then Inr ()
      else
        let ready = next_ready finished remaining
        in if ready = [] then
             Inl (''depends_on_provision deadlock among: '' @ join_with '', '' (map pr_machine remaining))
           else provisioning_deadlock (finished @ ready) (filter (\<lambda>p. pr_machine p \<notin> set ready) remaining))"
  by pat_completeness auto
termination
proof (relation "measure (\<lambda>(finished, remaining). length remaining)")
  fix finished and remaining :: "Provisioning list" and ready
  assume ready: "ready = next_ready finished remaining" "ready \<noteq> []"
  then have "hd ready \<in> set ready" by simp
  then obtain p where "p \<in> set remaining" "pr_machine p \<in> set ready" unfolding ready(1) next_ready_def by auto
  then show "((finished @ ready, filter (\<lambda>p. pr_machine p \<notin> set ready) remaining), finished, remaining)
      \<in> measure (\<lambda>(finished, remaining). length remaining)"
    by (simp add: length_filter_less)
qed simp

declare provisioning_deadlock.simps [simp del]

definition steps_of :: "Step list \<Rightarrow> string \<Rightarrow> Step list" where
  "steps_of steps machine = filter (\<lambda>s. st_machine s = machine) steps"

definition plan_provisioning :: "Lab \<Rightarrow> string list list \<Rightarrow> Provisioning list" where
  "plan_provisioning lab waves =
     map (\<lambda>machine. \<lparr>pr_machine = machine, pr_steps = steps_of (declared_steps lab) machine,
       pr_after = Key_of DependsOnProvision lab machine\<rparr>) (concat waves)"

definition step_skips :: "Lab \<Rightarrow> string list \<Rightarrow> Skip list" where
  "step_skips lab targets =
     map (\<lambda>s. \<lparr>sk_what = Step_describe s, sk_why = quoted (st_machine s) @ '' is not in this `up`''\<rparr>)
       (filter (\<lambda>s. st_machine s \<notin> set targets) (declared_steps lab))"

section \<open>The plan\<close>

definition plan :: "Lab \<Rightarrow> string list \<Rightarrow> Direction \<Rightarrow> string + LabPlan" where
  "plan lab chosen direction =
     (case find (\<lambda>name. name \<notin> set (known lab)) chosen of
        Some name \<Rightarrow> Inl (''no vm or container '' @ quoted name @ '' in lab '' @ quoted (lab_name lab))
      | None \<Rightarrow>
          let (targets, skipped) = plan_targets lab chosen direction
          in case plan_waves (plan_edges lab direction) targets [] targets of
               Inl e \<Rightarrow> Inl e
             | Inr waves \<Rightarrow>
                 if direction = Up then
                   let provisioning = plan_provisioning lab waves
                   in case provisioning_deadlock [] provisioning of
                        Inl e \<Rightarrow> Inl e
                      | Inr _ \<Rightarrow> Inr \<lparr>lp_waves = waves, lp_provisioning = provisioning,
                          lp_skipped = skipped @ step_skips lab targets\<rparr>
                 else Inr \<lparr>lp_waves = waves, lp_provisioning = [], lp_skipped = skipped\<rparr>)"

section \<open>The stop ladder\<close>

definition BOOTING_AGENT_WAIT :: nat where "BOOTING_AGENT_WAIT = 60 * 1000000000"
definition RUNG_EXIT_WAIT :: nat where "RUNG_EXIT_WAIT = 30 * 1000000000"
definition AGENT_ONLY_EXIT_WAIT :: nat where "AGENT_ONLY_EXIT_WAIT = 120 * 1000000000"

record StopFacts =
  sf_force :: bool
  agent_channel :: bool
  agent_answered :: bool
  agent_sealed :: bool
  acpi_shutdown :: bool
  ready_timeout :: nat

datatype Rung = RungAgent nat nat | RungAcpi nat | RungQuit nat | RungKill

fun Rung_name :: "Rung \<Rightarrow> string" where
  "Rung_name (RungAgent _ _) = ''agent''"
| "Rung_name (RungAcpi _) = ''ACPI''"
| "Rung_name (RungQuit _) = ''quit''"
| "Rung_name RungKill = ''kill''"

definition plan_stop :: "StopFacts \<Rightarrow> Rung list" where
  "plan_stop f =
     (if sf_force f then [RungKill]
      else
        (if agent_channel f \<and> (agent_answered f \<or> agent_sealed f) then
           [RungAgent
              (if agent_answered f then 0 else if acpi_shutdown f then BOOTING_AGENT_WAIT else ready_timeout f)
              (if acpi_shutdown f then RUNG_EXIT_WAIT else AGENT_ONLY_EXIT_WAIT)]
         else []) @
        (if acpi_shutdown f then [RungAcpi RUNG_EXIT_WAIT] else []) @
        [RungQuit RUNG_EXIT_WAIT, RungKill])"

end
