(* ===== verification/Lab_Plan_Lemmas.thy ===== *)
theory Lab_Plan_Lemmas
  imports Lab_Plan
begin

text \<open>
  Properties of lifecycle plans: what a subset pulls in, the order of the waves in both directions, and
  when there is no plan.
\<close>

section \<open>Peeling a dependency graph\<close>

text \<open>Both loops of the planner do the same: take out everything whose dependencies are done, until nothing
  is left or nothing can be taken. The locale has the contract of one round, and shows that the loop
  ends well exactly when the dependencies have no cycle.\<close>

definition among :: "('a \<Rightarrow> 'a set) \<Rightarrow> 'a set \<Rightarrow> ('a \<times> 'a) set" where
  "among deps R = {(n, d). n \<in> R \<and> d \<in> R \<and> d \<in> deps n}"

locale peeling =
  fixes deps :: "'a \<Rightarrow> 'a set"
    and runs :: "'a list \<Rightarrow> 'a list \<Rightarrow> bool"
  assumes runs_eq: "runs F R \<longleftrightarrow> R = [] \<or>
    (let W = filter (\<lambda>n. deps n \<subseteq> set F) R in W \<noteq> [] \<and> runs (F @ W) (filter (\<lambda>n. n \<notin> set W) R))"
begin

lemma peel_path:
  assumes "(x, y) \<in> (among deps R)\<^sup>+" and "\<And>n d. n \<in> W \<Longrightarrow> (n, d) \<notin> among deps R" and "y \<notin> W"
  shows "(x, y) \<in> (among deps (R - W))\<^sup>+"
  using assms(1,3)
proof induction
  case (base y)
  then have "x \<notin> W" using assms(2) by blast
  with base show ?case by (intro r_into_trancl) (auto simp: among_def)
next
  case (step y z)
  then have y: "y \<notin> W" using assms(2) by blast
  with step have "(y, z) \<in> among deps (R - W)" by (auto simp: among_def)
  with step.IH [OF y] show ?case by (rule trancl_into_trancl)
qed

lemma acyclic_peel:
  assumes "\<And>n d. n \<in> W \<Longrightarrow> (n, d) \<notin> among deps R"
  shows "acyclic (among deps (R - W)) \<longleftrightarrow> acyclic (among deps R)"
proof
  assume ac: "acyclic (among deps (R - W))"
  show "acyclic (among deps R)"
  proof (rule acyclicI, intro allI notI)
    fix x
    assume cyc: "(x, x) \<in> (among deps R)\<^sup>+"
    then obtain y where "(x, y) \<in> among deps R" by (auto dest: tranclD)
    then have "x \<notin> W" using assms by blast
    with peel_path [OF cyc assms] ac show False by (auto simp: acyclic_def)
  qed
next
  assume "acyclic (among deps R)"
  moreover have "among deps (R - W) \<subseteq> among deps R" by (auto simp: among_def)
  ultimately show "acyclic (among deps (R - W))" by (rule acyclic_subset)
qed

lemma stuck_cyclic:
  assumes "finite R" "R \<noteq> {}" "\<And>n. n \<in> R \<Longrightarrow> \<exists>d \<in> R. d \<in> deps n"
  shows "\<not> acyclic (among deps R)"
proof
  assume "acyclic (among deps R)"
  moreover have "finite (among deps R)"
    by (rule finite_subset [of _ "R \<times> R"]) (auto simp: among_def assms(1))
  ultimately have wf: "wf ((among deps R)\<inverse>)" by (rule finite_acyclic_wf_converse [rotated])
  obtain n where "n \<in> R" using assms(2) by blast
  from wfE_min [OF wf this] obtain z where z: "z \<in> R" "\<And>y. (y, z) \<in> (among deps R)\<inverse> \<Longrightarrow> y \<notin> R" by metis
  from assms(3) [OF z(1)] obtain d where d: "d \<in> R" "d \<in> deps z" by blast
  then have "(d, z) \<in> (among deps R)\<inverse>" using z(1) by (simp add: among_def)
  then show False using z(2) d(1) by blast
qed

lemma runs_iff_acyclic:
  assumes "\<And>n. n \<in> set R \<Longrightarrow> deps n \<subseteq> set F \<union> set R" and "set F \<inter> set R = {}"
  shows "runs F R \<longleftrightarrow> acyclic (among deps (set R))"
  using assms
proof (induction "length R" arbitrary: F R rule: less_induct)
  case less
  let ?W = "filter (\<lambda>n. deps n \<subseteq> set F) R"
  let ?R = "filter (\<lambda>n. n \<notin> set ?W) R"
  consider "R = []" | "R \<noteq> []" "?W = []" | "R \<noteq> []" "?W \<noteq> []" by blast
  then show ?case
  proof cases
    case 1
    then show ?thesis using runs_eq [of F R] by (simp add: among_def acyclic_def)
  next
    case 2
    have "\<exists>d \<in> set R. d \<in> deps n" if "n \<in> set R" for n
      using 2(2) less.prems(1) [OF that] that by (auto simp: filter_empty_conv)
    then have "\<not> acyclic (among deps (set R))" using 2(1) by (intro stuck_cyclic) auto
    moreover have "\<not> runs F R" using 2 unfolding runs_eq [of F R] Let_def by blast
    ultimately show ?thesis by blast
  next
    case 3
    obtain W where W: "W = ?W" by blast
    obtain Q where Q: "Q = filter (\<lambda>n. n \<notin> set W) R" by blast
    have W_set: "set W = {n \<in> set R. deps n \<subseteq> set F}" by (simp add: W)
    have Q_set: "set Q = set R - set W" unfolding Q by auto
    have "hd W \<in> set W" using 3(2) unfolding W by (rule hd_in_set)
    then have len: "length Q < length R" unfolding Q by (intro length_filter_less [of "hd W"]) (simp_all add: W_set)
    have "runs (F @ W) Q \<longleftrightarrow> acyclic (among deps (set Q))"
    proof (rule less.hyps [OF len])
      show "deps n \<subseteq> set (F @ W) \<union> set Q" if "n \<in> set Q" for n
        using less.prems(1) [of n] that unfolding Q_set by auto
      show "set (F @ W) \<inter> set Q = {}" using less.prems(2) unfolding Q_set by auto
    qed
    moreover have "acyclic (among deps (set R - set W)) \<longleftrightarrow> acyclic (among deps (set R))"
      using less.prems(2) unfolding W_set by (intro acyclic_peel) (auto simp: among_def)
    moreover have "runs F R \<longleftrightarrow> runs (F @ W) Q"
      using 3 unfolding runs_eq [of F R] Let_def W [symmetric] Q [symmetric] by simp
    ultimately show ?thesis by (simp only: Q_set)
  qed
qed

end

lemma plan_waves_step:
  assumes "W = filter (\<lambda>n. set (edges n) \<inter> set targets \<subseteq> set F) R"
  shows "(\<exists>w. plan_waves edges targets F R = Inr w) \<longleftrightarrow> R = [] \<or>
    W \<noteq> [] \<and> (\<exists>w. plan_waves edges targets (F @ W) (filter (\<lambda>n. n \<notin> set W) R) = Inr w)"
proof -
  have wave: "next_wave edges targets F R = W"
    unfolding next_wave_def assms by (rule filter_cong) (auto simp: list_all_iff)
  have inr: "(\<exists>w. (case x of Inl e \<Rightarrow> Inl e | Inr ws \<Rightarrow> Inr (a # ws)) = Inr w) \<longleftrightarrow> (\<exists>w. x = Inr w)"
    for x :: "string + string list list" and a by (cases x) auto
  show ?thesis unfolding plan_waves.simps [of edges targets F] Let_def wave by (simp add: inr)
qed

interpretation wave_peel: peeling "\<lambda>n. set (edges n) \<inter> set targets" "\<lambda>F R. \<exists>w. plan_waves edges targets F R = Inr w"
  for edges targets
  by unfold_locales (unfold Let_def, rule plan_waves_step, rule refl)

definition provisioning_for :: "Lab \<Rightarrow> string \<Rightarrow> Provisioning" where
  "provisioning_for lab machine = \<lparr>pr_machine = machine, pr_steps = steps_of (declared_steps lab) machine,
     pr_after = Key_of DependsOnProvision lab machine\<rparr>"

lemma provisioning_for_sel [simp]:
  "pr_machine (provisioning_for lab n) = n" "pr_after (provisioning_for lab n) = Key_of DependsOnProvision lab n"
  by (simp_all add: provisioning_for_def)

lemma next_ready_provisioning:
  "next_ready F (map (provisioning_for lab) R) = filter (\<lambda>n. set (Key_of DependsOnProvision lab n) \<subseteq> set F) R"
  unfolding next_ready_def filter_map comp_def map_map provisioning_for_sel by simp

lemma filter_provisioning:
  "filter (\<lambda>p. pr_machine p \<notin> W) (map (provisioning_for lab) R) = map (provisioning_for lab) (filter (\<lambda>n. n \<notin> W) R)"
  unfolding filter_map comp_def provisioning_for_sel by simp

lemma provisioning_deadlock_step:
  assumes "W = filter (\<lambda>n. set (Key_of DependsOnProvision lab n) \<subseteq> set F) R"
  shows "provisioning_deadlock F (map (provisioning_for lab) R) = Inr () \<longleftrightarrow> R = [] \<or>
    W \<noteq> [] \<and> provisioning_deadlock (F @ W) (map (provisioning_for lab) (filter (\<lambda>n. n \<notin> set W) R)) = Inr ()"
  unfolding provisioning_deadlock.simps [of F] Let_def next_ready_provisioning assms [symmetric] filter_provisioning
  by simp

interpretation provision_peel: peeling "\<lambda>n. set (Key_of DependsOnProvision lab n)"
  "\<lambda>F R. provisioning_deadlock F (map (provisioning_for lab) R) = Inr ()" for lab
  by unfold_locales (unfold Let_def, rule provisioning_deadlock_step, rule refl)

section \<open>The edges of a direction\<close>

lemma known_iff: "n \<in> set (known lab) \<longleftrightarrow> Lab_machine lab n \<noteq> None"
  by (auto simp: known_def Lab_machine_def find_None_iff)

lemma Key_of_unknown: "n \<notin> set (known lab) \<Longrightarrow> Key_of key lab n = []"
  by (cases key) (auto simp: known_iff)

lemma plan_edges_up: "plan_edges lab Up n = Key_of DependsOn lab n"
  by (simp add: plan_edges_def dependencies_def hm_get_fold_insert Key_of_unknown del: Key_of.simps)

lemma add_dependents_get:
  "rel_option (\<lambda>l l0. set l = set l0 \<union> fst ` {p \<in> set xs. n \<in> set (snd p)})
     (hm_get (fold (\<lambda>(name, deps). fold (add_dependent name) deps) xs m) n) (hm_get m n)"
proof (induction xs arbitrary: m)
  case Nil
  then show ?case by (cases "hm_get m n") auto
next
  case (Cons x xs)
  obtain name deps where x: "x = (name, deps)" by (cases x)
  have one: "rel_option (\<lambda>l l0. set l = set l0 \<union> (if n \<in> set deps then {name} else {}))
      (hm_get (fold (add_dependent name) deps m) n) (hm_get m n)" for m
  proof (induction deps arbitrary: m)
    case Nil
    then show ?case by (cases "hm_get m n") auto
  next
    case (Cons d ds)
    have "hm_get (add_dependent name d m) n = (if n = d then map_option (\<lambda>l. l @ [name]) (hm_get m d) else hm_get m n)"
      by (auto simp: add_dependent_def split: option.split)
    then show ?case using Cons.IH [of "add_dependent name d m"]
      by (cases "hm_get m n") (auto simp: option_rel_Some2 split: if_splits)
  qed
  have split: "fst ` {p \<in> set (x # xs). n \<in> set (snd p)} =
      (if n \<in> set deps then {name} else {}) \<union> fst ` {p \<in> set xs. n \<in> set (snd p)}"
    by (auto simp: x image_iff)
  show ?case using one [of m] Cons.IH [of "fold (add_dependent name) deps m"] unfolding split
    by (cases "hm_get m n") (auto simp: x option_rel_Some2)
qed

lemma dependencies_set: "(n, deps) \<in> set (dependencies lab) \<longleftrightarrow> n \<in> set (known lab) \<and> deps = Key_of DependsOn lab n"
proof -
  have "hm_wf (fold (\<lambda>n. hm_insert n (f n)) ns m)" if "hm_wf m" for ns and m :: "(string, string list) hashmap" and f
    using that by (induction ns arbitrary: m) simp_all
  then have "hm_wf (dependencies lab)" by (simp add: dependencies_def hm_wf_def)
  then have "(n, deps) \<in> set (dependencies lab) \<longleftrightarrow> hm_get (dependencies lab) n = Some deps"
    by (simp add: hm_get_iff_mem)
  then show ?thesis by (auto simp: dependencies_def hm_get_fold_insert simp del: Key_of.simps split: if_splits)
qed

lemma plan_edges_down:
  "set (plan_edges lab Down n) = (if n \<in> set (known lab) then {m \<in> set (known lab). n \<in> set (Key_of DependsOn lab m)} else {})"
proof -
  let ?m = "fold (\<lambda>n. hm_insert n []) (known lab) ([] :: (string, string list) hashmap)"
  have "hm_get ?m n = (if n \<in> set (known lab) then Some [] else None)"
    by (simp add: hm_get_fold_insert)
  moreover have "fst ` {p \<in> set (dependencies lab). n \<in> set (snd p)} = {m \<in> set (known lab). n \<in> set (Key_of DependsOn lab m)}"
    by (force simp: dependencies_set image_iff simp del: Key_of.simps)
  ultimately show ?thesis using add_dependents_get [of "dependencies lab" n ?m]
    by (auto simp: plan_edges_def dependents_def option_rel_Some2 simp del: Key_of.simps split: if_splits)
qed

section \<open>The closure of a subset\<close>

definition pulled :: "Lab \<Rightarrow> Direction \<Rightarrow> (string \<times> string) set" where
  "pulled lab direction = {(n, m). \<exists>key \<in> set (plan_keys direction). m \<in> set (pulls lab direction n key)}"

lemma pulled_Image: "pulled lab direction `` {n} = (\<Union>key \<in> set (plan_keys direction). set (pulls lab direction n key))"
  by (auto simp: pulled_def)

lemma expand_lower: "set wanted \<subseteq> set (fst (expand lab direction (wanted, skipped, queue)))"
proof (induction lab direction "(wanted, skipped, queue)" arbitrary: wanted skipped queue rule: expand.induct)
  case (2 lab direction wanted skipped n queue)
  obtain w s q where p: "pull_all lab direction n (wanted, skipped, queue) = (w, s, q)" by (metis prod_cases3)
  from "2.hyps" [OF p] pull_all_new [OF p] show ?case by (auto simp: p)
qed simp

lemma expand_closed:
  assumes "pulled lab direction `` (set wanted - set queue) \<subseteq> set wanted"
  shows "pulled lab direction `` set (fst (expand lab direction (wanted, skipped, queue)))
    \<subseteq> set (fst (expand lab direction (wanted, skipped, queue)))"
  using assms
proof (induction lab direction "(wanted, skipped, queue)" arbitrary: wanted skipped queue rule: expand.induct)
  case (2 lab direction wanted skipped n queue)
  obtain w s q where p: "pull_all lab direction n (wanted, skipped, queue) = (w, s, q)" by (metis prod_cases3)
  then obtain new where new: "w = wanted @ new" "q = queue @ new" "set w = set wanted \<union> pulled lab direction `` {n}"
    using pull_all_new [OF p] by (auto simp: pulled_Image)
  have "pulled lab direction `` (set w - set q) \<subseteq> set w"
  proof
    fix m
    assume "m \<in> pulled lab direction `` (set w - set q)"
    then obtain x where x: "x \<in> set wanted" "x \<notin> set queue" "(x, m) \<in> pulled lab direction" using new(1,2) by auto
    show "m \<in> set w"
    proof (cases "x = n")
      case True
      with x(3) new(3) show ?thesis by blast
    next
      case False
      with x have "m \<in> pulled lab direction `` (set wanted - set (n # queue))" by auto
      with "2.prems" new(3) show ?thesis by blast
    qed
  qed
  from "2.hyps" [OF p this] show ?case by (simp add: p)
qed auto

lemma expand_upper:
  assumes "set wanted \<subseteq> C" "set queue \<subseteq> C" "pulled lab direction `` C \<subseteq> C"
  shows "set (fst (expand lab direction (wanted, skipped, queue))) \<subseteq> C"
  using assms
proof (induction lab direction "(wanted, skipped, queue)" arbitrary: wanted skipped queue rule: expand.induct)
  case (2 lab direction wanted skipped n queue)
  obtain w s q where p: "pull_all lab direction n (wanted, skipped, queue) = (w, s, q)" by (metis prod_cases3)
  then obtain new where new: "w = wanted @ new" "q = queue @ new" "set w = set wanted \<union> pulled lab direction `` {n}"
    using pull_all_new [OF p] by (auto simp: pulled_Image)
  have "set w \<subseteq> C" using "2.prems" new(3) by auto
  moreover have "set q \<subseteq> C" using calculation "2.prems"(2) new(1,2) by auto
  ultimately show ?case using "2.hyps" [OF p] "2.prems"(3) by (simp add: p)
qed auto

lemma expand_reaches:
  "set (fst (expand lab direction (remdups chosen, [], chosen))) = (pulled lab direction)\<^sup>* `` set chosen" (is "?W = ?C")
proof
  have "pulled lab direction `` ?C \<subseteq> ?C" by (auto intro: rtrancl_into_rtrancl)
  then show "?W \<subseteq> ?C" by (intro expand_upper) auto
  have closed: "pulled lab direction `` ?W \<subseteq> ?W" by (rule expand_closed) auto
  have "m \<in> ?W" if "(n, m) \<in> (pulled lab direction)\<^sup>*" "n \<in> set chosen" for n m
    using that
  proof induction
    case base
    then show ?case using expand_lower [of "remdups chosen" lab direction "[]" chosen] by auto
  next
    case (step y z)
    then show ?case using closed by blast
  qed
  then show "?C \<subseteq> ?W" by auto
qed

section \<open>The waves\<close>

definition earlier :: "string list list \<Rightarrow> nat \<Rightarrow> string \<Rightarrow> bool" where
  "earlier waves i d \<longleftrightarrow> (\<exists>j < i. d \<in> set (waves ! j))"

lemma earlier_Cons: "earlier (w # ws) (Suc i) d \<longleftrightarrow> d \<in> set w \<or> earlier ws i d"
  by (auto simp: earlier_def less_Suc_eq_0_disj)

lemma plan_waves_sound:
  assumes "plan_waves edges targets finished remaining = Inr waves" and "distinct remaining"
  shows "set (concat waves) = set remaining \<and> distinct (concat waves) \<and>
    (\<forall>i < length waves. \<forall>n \<in> set (waves ! i). \<forall>d \<in> set (edges n) \<inter> set targets. d \<in> set finished \<or> earlier waves i d)"
  using assms
proof (induction edges targets finished remaining arbitrary: waves rule: plan_waves.induct)
  case (1 edges targets finished remaining)
  show ?case
  proof (cases "remaining = []")
    case True
    then show ?thesis using "1.prems"(1) by (simp add: plan_waves.simps)
  next
    case False
    obtain wave where wave: "wave = next_wave edges targets finished remaining" by blast
    obtain rest where rest: "rest = filter (\<lambda>n. n \<notin> set wave) remaining" by blast
    from "1.prems"(1) False obtain ws where ne: "wave \<noteq> []" and ws: "waves = wave # ws"
      and run: "plan_waves edges targets (finished @ wave) rest = Inr ws"
      unfolding plan_waves.simps [of edges targets finished remaining] Let_def wave [symmetric] rest [symmetric]
      by (auto split: if_splits sum.splits)
    have IH: "set (concat ws) = set rest" "distinct (concat ws)"
      "\<forall>i < length ws. \<forall>n \<in> set (ws ! i). \<forall>d \<in> set (edges n) \<inter> set targets. d \<in> set (finished @ wave) \<or> earlier ws i d"
      using "1.IH" [OF False wave ne, folded rest, OF run] "1.prems"(2) by (simp_all add: rest)
    have sub: "set wave \<subseteq> set remaining" "distinct wave"
      using "1.prems"(2) by (auto simp: wave next_wave_def)
    have first: "d \<in> set finished" if "n \<in> set wave" "d \<in> set (edges n) \<inter> set targets" for n d
      using that by (auto simp: wave next_wave_def list_all_iff)
    have "d \<in> set finished \<or> earlier waves i d"
      if "i < length waves" "n \<in> set (waves ! i)" "d \<in> set (edges n) \<inter> set targets" for i n d
      using that first IH(3) by (cases i) (auto simp: ws earlier_Cons)
    moreover have "set (concat waves) = set remaining" using IH(1) sub(1) by (auto simp: ws rest)
    moreover have "distinct (concat waves)" using IH(1,2) sub(2) by (auto simp: ws rest)
    ultimately show ?thesis by blast
  qed
qed

section \<open>Plans\<close>

lemma plan_Inr:
  assumes "plan lab chosen direction = Inr p"
  shows "set chosen \<subseteq> set (known lab)"
    and "plan_waves (plan_edges lab direction) (fst (plan_targets lab chosen direction)) []
      (fst (plan_targets lab chosen direction)) = Inr (lp_waves p)"
  using assms by (auto simp: plan_def find_None_iff Let_def split: option.splits prod.splits sum.splits if_splits)

lemma plan_targets_set:
  "set (fst (plan_targets lab chosen direction)) =
    (if chosen = [] then set (known lab) else set (known lab) \<inter> (pulled lab direction)\<^sup>* `` set chosen)"
  using expand_reaches [of lab direction chosen] by (auto simp: plan_targets_def split: prod.split)

lemma plan_targets_distinct: "distinct (known lab) \<Longrightarrow> distinct (fst (plan_targets lab chosen direction))"
  by (auto simp: plan_targets_def split: prod.split)

lemma plan_machines_set:
  assumes "plan lab chosen direction = Inr p" and "distinct (known lab)"
  shows "set (LabPlan_machines p) = set (fst (plan_targets lab chosen direction))" "distinct (LabPlan_machines p)"
  using plan_waves_sound [OF plan_Inr(2) [OF assms(1)]] plan_targets_distinct [OF assms(2)]
  by (auto simp: LabPlan_machines_def)

lemma plan_machines_closed:
  assumes "plan lab chosen direction = Inr p" and "distinct (known lab)"
    and "n \<in> set (LabPlan_machines p)" "(n, m) \<in> pulled lab direction" "m \<in> set (known lab)"
  shows "m \<in> set (LabPlan_machines p)"
  using assms(3-5) unfolding plan_machines_set(1) [OF assms(1,2)] plan_targets_set
  by (auto intro: rtrancl_into_rtrancl split: if_splits)

lemma edges_pulled:
  assumes "d \<in> set (plan_edges lab direction m)"
  shows "(m, d) \<in> pulled lab direction"
  using assms by (cases direction) (auto simp: pulled_def pulls_def plan_edges_up simp del: Key_of.simps)

lemma plan_edges_iff:
  assumes "m \<in> set (known lab)" "d \<in> set (known lab)"
  shows "d \<in> set (plan_edges lab direction m) \<longleftrightarrow>
    (case direction of Up \<Rightarrow> d \<in> set (Key_of DependsOn lab m) | Down \<Rightarrow> m \<in> set (Key_of DependsOn lab d))"
  using assms by (cases direction) (auto simp: plan_edges_up plan_edges_down simp del: Key_of.simps)

text \<open>C39: An \<open>up\<close> or a \<open>down\<close> that plans touches exactly the machines it should, once each: all of them, or
  the named ones with everything they pull in, transitively. And its waves are in order: on the way
  up, whatever a machine depends on is in a strictly earlier wave; on the way down, whatever depends on
  the machine is.\<close>
theorem plan_order:
  assumes "plan lab chosen direction = Inr p" and "distinct (known lab)"
  shows "distinct (LabPlan_machines p) \<and>
    set (LabPlan_machines p) =
      (if chosen = [] then set (known lab) else set (known lab) \<inter> (pulled lab direction)\<^sup>* `` set chosen) \<and>
    (\<forall>i < length (lp_waves p). \<forall>m \<in> set (lp_waves p ! i). \<forall>d \<in> set (known lab).
      (case direction of Up \<Rightarrow> d \<in> set (Key_of DependsOn lab m) | Down \<Rightarrow> m \<in> set (Key_of DependsOn lab d)) \<longrightarrow>
      earlier (lp_waves p) i d)"
proof (intro conjI allI ballI impI)
  show "distinct (LabPlan_machines p)" by (rule plan_machines_set [OF assms])
  show "set (LabPlan_machines p) =
      (if chosen = [] then set (known lab) else set (known lab) \<inter> (pulled lab direction)\<^sup>* `` set chosen)"
    unfolding plan_machines_set(1) [OF assms] by (rule plan_targets_set)
  fix i m d
  assume i: "i < length (lp_waves p)" and m: "m \<in> set (lp_waves p ! i)" and d: "d \<in> set (known lab)"
    and dep: "case direction of Up \<Rightarrow> d \<in> set (Key_of DependsOn lab m) | Down \<Rightarrow> m \<in> set (Key_of DependsOn lab d)"
  have in_plan: "m \<in> set (LabPlan_machines p)" using i m by (auto simp: LabPlan_machines_def)
  then have "m \<in> set (known lab)" unfolding plan_machines_set(1) [OF assms] plan_targets_set by (auto split: if_splits)
  with dep d have edge: "d \<in> set (plan_edges lab direction m)" by (simp only: plan_edges_iff)
  then have "d \<in> set (fst (plan_targets lab chosen direction))"
    using plan_machines_closed [OF assms in_plan edges_pulled d] plan_machines_set(1) [OF assms] by blast
  with edge i m show "earlier (lp_waves p) i d"
    using plan_waves_sound [OF plan_Inr(2) [OF assms(1)] plan_targets_distinct [OF assms(2)]] by auto
qed

lemma provisioning_runs:
  assumes "plan_waves edges targets [] targets = Inr waves" "distinct targets"
    and "\<And>m. m \<in> set targets \<Longrightarrow> set (Key_of DependsOnProvision lab m) \<subseteq> set targets"
  shows "provisioning_deadlock [] (plan_provisioning lab waves) = Inr () \<longleftrightarrow>
    acyclic (among (\<lambda>n. set (Key_of DependsOnProvision lab n)) (set targets))"
proof -
  have set: "set (concat waves) = set targets" using plan_waves_sound [OF assms(1,2)] by blast
  have "plan_provisioning lab waves = map (provisioning_for lab) (concat waves)"
    by (simp add: plan_provisioning_def provisioning_for_def [abs_def])
  then show ?thesis using provision_peel.runs_iff_acyclic [of "concat waves" lab "[]"] assms(3)
    by (simp only: set) simp
qed

lemma plan_Inr_iff:
  "(\<exists>p. plan lab chosen direction = Inr p) \<longleftrightarrow> set chosen \<subseteq> set (known lab) \<and>
    (\<exists>waves. plan_waves (plan_edges lab direction) (fst (plan_targets lab chosen direction)) []
       (fst (plan_targets lab chosen direction)) = Inr waves \<and>
      (direction = Up \<longrightarrow> provisioning_deadlock [] (plan_provisioning lab waves) = Inr ()))"
proof (cases "find (\<lambda>name. name \<notin> set (known lab)) chosen")
  case None
  then have "set chosen \<subseteq> set (known lab)" by (auto simp: find_None_iff)
  then show ?thesis by (auto simp: plan_def None Let_def split: prod.splits sum.splits if_splits)
next
  case (Some name)
  then have "name \<in> set chosen" "name \<notin> set (known lab)" by (auto simp: find_Some_iff)
  then show ?thesis by (auto simp: plan_def Some)
qed

text \<open>C40: There is no plan exactly when a name is unknown, when the machines the plan takes depend on each other
  in a circle, or, on the way up, when their provisioning waits in a circle; whatever the names and
  the size of the lab, the planner answers. Names in \<open>depends_on_provision\<close> are taken to exist, as the
  validation of a lab demands.\<close>
theorem plan_fails_only_on_cycles:
  assumes "\<forall>m. set (Key_of DependsOnProvision lab m) \<subseteq> set (known lab)" and "distinct (known lab)"
    and "T = set (fst (plan_targets lab chosen direction))"
  shows "(\<exists>p. plan lab chosen direction = Inr p) \<longleftrightarrow> set chosen \<subseteq> set (known lab) \<and>
    acyclic (among (\<lambda>n. set (plan_edges lab direction n)) T) \<and>
    (direction = Up \<longrightarrow> acyclic (among (\<lambda>n. set (Key_of DependsOnProvision lab n)) T))"
proof -
  let ?t = "fst (plan_targets lab chosen direction)"
  have same: "among (\<lambda>n. set (plan_edges lab direction n) \<inter> set ?t) (set ?t) = among (\<lambda>n. set (plan_edges lab direction n)) (set ?t)"
    by (auto simp: among_def)
  have waves: "(\<exists>w. plan_waves (plan_edges lab direction) ?t [] ?t = Inr w) \<longleftrightarrow>
      acyclic (among (\<lambda>n. set (plan_edges lab direction n)) T)"
    using wave_peel.runs_iff_acyclic [of ?t "plan_edges lab direction" ?t "[]"] unfolding same assms(3) by simp
  have "set (Key_of DependsOnProvision lab m) \<subseteq> set ?t" if "m \<in> set ?t" "direction = Up" for m
  proof
    fix d
    assume d: "d \<in> set (Key_of DependsOnProvision lab m)"
    then have "(m, d) \<in> pulled lab direction" by (simp add: that(2) pulled_def pulls_def del: Key_of.simps)
    moreover have "d \<in> set (known lab)" using d assms(1) by blast
    ultimately show "d \<in> set ?t"
      using that(1) unfolding plan_targets_set by (auto intro: rtrancl_into_rtrancl split: if_splits)
  qed
  then have "direction = Up \<longrightarrow> provisioning_deadlock [] (plan_provisioning lab w) = Inr () \<longleftrightarrow>
      acyclic (among (\<lambda>n. set (Key_of DependsOnProvision lab n)) T)"
    if "plan_waves (plan_edges lab direction) ?t [] ?t = Inr w" for w
    using provisioning_runs [OF that plan_targets_distinct [OF assms(2)]] assms(3) by blast
  then show ?thesis unfolding plan_Inr_iff using waves by blast
qed

section \<open>A lab\<close>

definition demo_machine :: "string \<Rightarrow> string list \<Rightarrow> string list \<Rightarrow> MachineCfg" where
  "demo_machine n deps prov = \<lparr>mc_name = n, mc_depends_on = deps, mc_depends_on_provision = prov,
     mc_provisions = [], mc_playbooks = []\<rparr>"

definition demo_lab :: Lab where
  "demo_lab = \<lparr>lab_name = ''l'', lab_machines =
     [demo_machine ''w'' [''d''] [], demo_machine ''d'' [] [], demo_machine ''c'' [] [''w'']]\<rparr>"

lemma demo_lab_known: "known demo_lab = [''w'', ''d'', ''c'']"
  by (simp add: known_def demo_lab_def demo_machine_def)

lemma demo_lab_plan: "map_sum id lp_waves (plan demo_lab [''c''] Up) = Inr [[''d'', ''c''], [''w'']]"
  by code_simp

theorem plan_order_witness:
  "\<exists>p. plan demo_lab [''c''] Up = Inr p \<and> lp_waves p = [[''d'', ''c''], [''w'']] \<and> earlier (lp_waves p) 1 ''d''"
proof -
  from demo_lab_plan obtain p where p: "plan demo_lab [''c''] Up = Inr p" "lp_waves p = [[''d'', ''c''], [''w'']]"
    by (cases "plan demo_lab [''c''] Up") auto
  have "distinct (known demo_lab)" by (simp add: demo_lab_known)
  from plan_order [OF p(1) this] have "earlier (lp_waves p) 1 ''d''"
    by (simp add: p(2) demo_lab_known) (simp add: demo_lab_def demo_machine_def Lab_machine_def)
  with p show ?thesis by blast
qed

theorem plan_fails_only_on_cycles_witness:
  "acyclic (among (\<lambda>n. set (plan_edges demo_lab Up n)) (set (fst (plan_targets demo_lab [''c''] Up))))"
proof -
  have "\<forall>m. set (Key_of DependsOnProvision demo_lab m) \<subseteq> set (known demo_lab)"
    by (simp add: demo_lab_known) (simp add: demo_lab_def demo_machine_def Lab_machine_def)
  moreover have "distinct (known demo_lab)" by (simp add: demo_lab_known)
  moreover have "\<exists>p. plan demo_lab [''c''] Up = Inr p" using demo_lab_plan by (cases "plan demo_lab [''c''] Up") auto
  ultimately show ?thesis using plan_fails_only_on_cycles [OF _ _ refl] by blast
qed

end
