(* ===== verification/Disk.thy ===== *)
theory Disk
  imports Prelude
begin

text \<open>
  Disk images (\<open>hv/crates/vmlab-disk\<close>): the errors of the crate and raw images (\<open>src/lib.rs\<close>,
  \<open>src/raw.rs\<close>), the entries and the write-back table cache of qcow2 (\<open>src/qcow2/mod.rs\<close>), its packed
  refcounts (\<open>src/qcow2/refcount.rs\<close>), and the state of an open image.

  An image file is the list of its bytes. A read beyond its end is the error \<open>UnexpectedEof\<close>, a write
  extends it with zeros as the operating system does, and no other I/O error occurs. Offsets, sizes and
  counts are natural numbers: the code checks the sums that can leave 64 bits (\<open>checked_add\<close>), and the
  others are below \<open>2 ^ 57\<close>, since a host offset has 56 bits. Table entries are 64-bit words. Errors carry no
  message text; a panic is the error \<open>Panic\<close>.
\<close>

section \<open>Errors and image files\<close>

datatype DiskError = UnexpectedEof | FormatError | Unsupported | SnapshotNotFound | ReadOnly | NotFound | AlreadyExists | Panic | OutOfFuel

datatype Format = Raw | Qcow2

definition file_read :: "bytes \<Rightarrow> nat \<Rightarrow> nat \<Rightarrow> DiskError + bytes" where
  "file_read f off n = (if n = 0 then Inr [] else if off + n \<le> length f then Inr (take n (drop off f)) else Inl UnexpectedEof)"

definition file_write :: "bytes \<Rightarrow> nat \<Rightarrow> bytes \<Rightarrow> bytes" where
  "file_write f off b =
     (if b = [] then f else take off (f @ replicate (off - length f) 0) @ b @ drop (off + length b) f)"

definition U64_MAX :: nat where "U64_MAX = 2 ^ 64 - 1"

definition check_read :: "nat \<Rightarrow> nat \<Rightarrow> nat \<Rightarrow> DiskError + unit" where
  "check_read offset len sz = (if offset + len \<le> U64_MAX \<and> offset + len \<le> sz then Inr () else Inl Unsupported)"

section \<open>Raw images\<close>

record RawImage =
  raw_file :: bytes
  raw_size :: nat
  raw_read_only :: bool

definition RawImage_open :: "bytes \<Rightarrow> bool \<Rightarrow> RawImage" where
  "RawImage_open f read_only = \<lparr>raw_file = f, raw_size = length f, raw_read_only = read_only\<rparr>"

definition RawImage_read_at :: "nat \<Rightarrow> nat \<Rightarrow> RawImage \<Rightarrow> DiskError + bytes" where
  "RawImage_read_at offset n img =
     (if offset + n > U64_MAX then Inl Unsupported
      else if offset + n > raw_size img then Inl Unsupported
      else file_read (raw_file img) offset n)"

definition RawImage_write_at :: "nat \<Rightarrow> bytes \<Rightarrow> RawImage \<Rightarrow> (DiskError + unit) \<times> RawImage" where
  "RawImage_write_at offset buf img =
     (if raw_read_only img then (Inl ReadOnly, img)
      else if offset + length buf > U64_MAX then (Inl Unsupported, img)
      else if offset + length buf > raw_size img then (Inl Unsupported, img)
      else (Inr (), img\<lparr>raw_file := file_write (raw_file img) offset buf\<rparr>))"

section \<open>Big-endian 64-bit words\<close>

definition from_be64 :: "bytes \<Rightarrow> u64" where
  "from_be64 b = push_bit 32 (ucast (from_be32 (b ! 0) (b ! 1) (b ! 2) (b ! 3))) OR
     ucast (from_be32 (b ! 4) (b ! 5) (b ! 6) (b ! 7))"

definition to_be64 :: "u64 \<Rightarrow> bytes" where
  "to_be64 w = to_be32 (ucast (drop_bit 32 w)) @ to_be32 (ucast w)"

lemma length_to_be64 [simp]: "length (to_be64 w) = 8"
  by (simp add: to_be64_def)

lemma from_to_be64 [simp]: "from_be64 (to_be64 w) = w"
proof -
  have "from_be64 (to_be64 w) = push_bit 32 (ucast (ucast (drop_bit 32 w) :: u32)) OR ucast (ucast w :: u32)"
    by (simp add: from_be64_def to_be64_def to_be32_def)
  also have "\<dots> = w" by (rule bit_word_eqI) (auto simp: bit_simps)
  finally show ?thesis .
qed

section \<open>Table entries\<close>

definition QCOW_MAGIC :: u32 where "QCOW_MAGIC = 0x514649fb"
definition OFFSET_MASK :: u64 where "OFFSET_MASK = 0x00fffffffffffe00"
definition COMPRESSED_BIT :: u64 where "COMPRESSED_BIT = push_bit 62 1"
definition COPIED_BIT :: u64 where "COPIED_BIT = push_bit 63 1"
definition ZERO_BIT :: u64 where "ZERO_BIT = 1"
definition EXT_BACKING_FORMAT :: u32 where "EXT_BACKING_FORMAT = 0xe2792aca"
definition EXT_END :: u32 where "EXT_END = 0"
definition MAX_BACKING_DEPTH :: nat where "MAX_BACKING_DEPTH = 8"

text \<open>The host offset of an entry, and the tests of its flags.\<close>

definition host_of :: "u64 \<Rightarrow> nat" where
  "host_of e = unat (e AND OFFSET_MASK)"

definition is_compressed :: "u64 \<Rightarrow> bool" where
  "is_compressed e \<longleftrightarrow> e AND COMPRESSED_BIT \<noteq> 0"

definition is_zero :: "u64 \<Rightarrow> bool" where
  "is_zero e \<longleftrightarrow> e AND ZERO_BIT \<noteq> 0"

definition is_copied :: "u64 \<Rightarrow> bool" where
  "is_copied e \<longleftrightarrow> e AND COPIED_BIT \<noteq> 0"

datatype ReadSource = SrcBacking | SrcZero | SrcFile nat | SrcCompressed u64

definition from_entry :: "u64 \<Rightarrow> nat \<Rightarrow> ReadSource" where
  "from_entry entry in_cluster =
     (if is_compressed entry then SrcCompressed entry
      else if is_zero entry then SrcZero
      else if host_of entry = 0 then SrcBacking
      else SrcFile (host_of entry + in_cluster))"

section \<open>The table cache\<close>

record TableCache =
  tc_map :: "(nat, bytes \<times> bool) hashmap"
  tc_order :: "nat list"
  tc_cap :: nat

definition TableCache_new :: "nat \<Rightarrow> TableCache" where
  "TableCache_new cap = \<lparr>tc_map = [], tc_order = [], tc_cap = max cap 1\<rparr>"

definition TableCache_touch :: "nat \<Rightarrow> TableCache \<Rightarrow> TableCache" where
  "TableCache_touch key c = c\<lparr>tc_order := filter (\<lambda>k. k \<noteq> key) (tc_order c) @ [key]\<rparr>"

definition TableCache_get :: "nat \<Rightarrow> TableCache \<Rightarrow> (bytes \<times> bool) option \<times> TableCache" where
  "TableCache_get key c =
     (hm_get (tc_map c) key, if hm_contains (tc_map c) key then TableCache_touch key c else c)"

text \<open>The eviction loop of \<open>put\<close>: oldest first, until there is room; the dirty tables it takes out.\<close>

fun make_room ::
  "nat \<Rightarrow> (nat, bytes \<times> bool) hashmap \<Rightarrow> nat list \<Rightarrow>
   (nat, bytes \<times> bool) hashmap \<times> nat list \<times> (nat \<times> bytes) list" where
  "make_room cap m [] = (m, [], [])"
| "make_room cap m (k # order) =
     (if length m < cap then (m, k # order, [])
      else
        let (m', order', evicted) = make_room cap (hm_remove k m) order
        in (m', order', (case hm_get m k of Some (buf, True) \<Rightarrow> [(k, buf)] | _ \<Rightarrow> []) @ evicted))"

definition TableCache_put :: "nat \<Rightarrow> bytes \<Rightarrow> bool \<Rightarrow> TableCache \<Rightarrow> (nat \<times> bytes) list \<times> TableCache" where
  "TableCache_put key data dirty c =
     (let (m, order, evicted) =
        (if hm_contains (tc_map c) key then (tc_map c, tc_order c, []) else make_room (tc_cap c) (tc_map c) (tc_order c))
      in (evicted, (TableCache_touch key (c\<lparr>tc_order := order\<rparr>))\<lparr>tc_map := hm_insert key (data, dirty) m\<rparr>))"

definition TableCache_mark_dirty :: "nat \<Rightarrow> TableCache \<Rightarrow> TableCache" where
  "TableCache_mark_dirty key c =
     (case hm_get (tc_map c) key of None \<Rightarrow> c
      | Some (buf, _) \<Rightarrow> c\<lparr>tc_map := hm_insert key (buf, True) (tc_map c)\<rparr>)"

definition TableCache_remove :: "nat \<Rightarrow> TableCache \<Rightarrow> TableCache" where
  "TableCache_remove key c =
     c\<lparr>tc_map := hm_remove key (tc_map c), tc_order := filter (\<lambda>k. k \<noteq> key) (tc_order c)\<rparr>"

definition TableCache_take_dirty :: "TableCache \<Rightarrow> (nat \<times> bytes) list \<times> TableCache" where
  "TableCache_take_dirty c =
     (map (\<lambda>(k, buf, _). (k, buf)) (filter (\<lambda>(_, _, dirty). dirty) (tc_map c)),
      c\<lparr>tc_map := map (\<lambda>(k, buf, _). (k, buf, False)) (tc_map c)\<rparr>)"

section \<open>Packed refcounts\<close>

definition bits_get :: "bytes \<Rightarrow> nat \<Rightarrow> nat \<Rightarrow> nat" where
  "bits_get buf index width =
     (if width \<in> {1, 2, 4, 8} then
        let bit = index * width in unat (drop_bit (bit mod 8) (buf ! (bit div 8)) AND mask width)
      else if width = 16 then let off = index * 2 in unat (from_be16 (buf ! off) (buf ! (off + 1)))
      else if width = 32 then
        let off = index * 4 in unat (from_be32 (buf ! off) (buf ! (off + 1)) (buf ! (off + 2)) (buf ! (off + 3)))
      else unat (from_be64 (take 8 (drop (index * 8) buf))))"

definition bits_set :: "bytes \<Rightarrow> nat \<Rightarrow> nat \<Rightarrow> nat \<Rightarrow> bytes" where
  "bits_set buf index width v =
     (if width \<in> {1, 2, 4, 8} then
        let bit = index * width;
            byte = buf ! (bit div 8) AND NOT (push_bit (bit mod 8) (mask width))
        in buf[bit div 8 := byte OR push_bit (bit mod 8) (of_nat v AND mask width)]
      else if width = 16 then splice (index * 2) (to_be16 (of_nat v)) buf
      else if width = 32 then splice (index * 4) (to_be32 (of_nat v)) buf
      else splice (index * 8) (to_be64 (of_nat v)) buf)"

section \<open>An open image\<close>

record BackingRef =
  br_name :: bytes
  br_format :: "bytes option"

text \<open>
  The backing image, opened read-only: its size, and what a read of a range returns. Nothing the overlay
  does changes it.
\<close>

record BackingImage =
  bi_size :: nat
  bi_read :: "nat \<Rightarrow> nat \<Rightarrow> DiskError + bytes"

record Qcow2Image =
  q_file :: bytes
  q_read_only :: bool
  q_version :: nat
  cluster_bits :: nat
  q_size :: nat
  l1_size :: nat
  l1_table_offset :: nat
  refcount_table_offset :: nat
  refcount_table_clusters :: nat
  refcount_bits :: nat
  nb_snapshots :: nat
  snapshots_offset :: nat
  header_cluster :: bytes
  q_backing :: "BackingRef option"
  backing_image :: "BackingImage option"
  q_l1 :: "u64 list"
  refcount_table :: "u64 list"
  l2_cache :: TableCache
  refblock_cache :: TableCache
  free_set :: "nat list"
  scan_next :: nat
  header_dirty :: bool
  l1_dirty :: bool
  refcount_table_dirty :: bool

definition cluster_size :: "Qcow2Image \<Rightarrow> nat" where
  "cluster_size s = 2 ^ cluster_bits s"

definition l2_entries :: "Qcow2Image \<Rightarrow> nat" where
  "l2_entries s = cluster_size s div 8"

definition l2_span :: "Qcow2Image \<Rightarrow> nat" where
  "l2_span s = l2_entries s * cluster_size s"

definition div_ceil :: "nat \<Rightarrow> nat \<Rightarrow> nat" where
  "div_ceil a b = (a + b - 1) div b"

definition vmstate_base :: "Qcow2Image \<Rightarrow> nat" where
  "vmstate_base s = l2_span s * div_ceil (q_size s) (l2_span s)"

definition l2_index_bits :: "Qcow2Image \<Rightarrow> nat" where
  "l2_index_bits s = cluster_bits s + (cluster_bits s - 3)"

definition l1_index_of :: "Qcow2Image \<Rightarrow> nat \<Rightarrow> nat" where
  "l1_index_of s guest_offset = guest_offset div 2 ^ l2_index_bits s"

definition l2_index_of :: "Qcow2Image \<Rightarrow> nat \<Rightarrow> nat" where
  "l2_index_of s guest_offset = (guest_offset div cluster_size s) mod l2_entries s"

definition refblock_entries :: "Qcow2Image \<Rightarrow> nat" where
  "refblock_entries s = cluster_size s * 8 div refcount_bits s"

text \<open>\<open>(1u64 << refcount_bits) - 1\<close>: the shift by 64 overflows.\<close>

definition refcount_max :: "Qcow2Image \<Rightarrow> DiskError + nat" where
  "refcount_max s = (if refcount_bits s < 64 then Inr (2 ^ refcount_bits s - 1) else Inl Panic)"

section \<open>Operations on an image\<close>

text \<open>An operation returns a value or an error, and leaves the image in its new state either way.\<close>

type_synonym 'a qio = "Qcow2Image \<Rightarrow> (DiskError + 'a) \<times> Qcow2Image"

definition qret :: "'a \<Rightarrow> 'a qio" where
  "qret a = (\<lambda>s. (Inr a, s))"

definition qerr :: "DiskError \<Rightarrow> 'a qio" where
  "qerr e = (\<lambda>s. (Inl e, s))"

definition qbind :: "'a qio \<Rightarrow> ('a \<Rightarrow> 'b qio) \<Rightarrow> 'b qio" where
  "qbind m f = (\<lambda>s. case m s of (Inl e, s') \<Rightarrow> (Inl e, s') | (Inr a, s') \<Rightarrow> f a s')"

definition qread :: "(Qcow2Image \<Rightarrow> 'a) \<Rightarrow> 'a qio" where
  "qread f = (\<lambda>s. (Inr (f s), s))"

definition qmodify :: "(Qcow2Image \<Rightarrow> Qcow2Image) \<Rightarrow> unit qio" where
  "qmodify f = (\<lambda>s. (Inr (), f s))"

definition qlift :: "DiskError + 'a \<Rightarrow> 'a qio" where
  "qlift r = (\<lambda>s. (r, s))"

fun qfor :: "'a list \<Rightarrow> ('a \<Rightarrow> unit qio) \<Rightarrow> unit qio" where
  "qfor [] f = qret ()"
| "qfor (x # xs) f = qbind (f x) (\<lambda>_. qfor xs f)"

definition read_file :: "nat \<Rightarrow> nat \<Rightarrow> bytes qio" where
  "read_file offset n = (\<lambda>s. (file_read (q_file s) offset n, s))"

definition write_file :: "nat \<Rightarrow> bytes \<Rightarrow> unit qio" where
  "write_file offset buf = (\<lambda>s.
     if q_read_only s then (Inl ReadOnly, s) else (Inr (), s\<lparr>q_file := file_write (q_file s) offset buf\<rparr>))"

definition check_writable :: "unit qio" where
  "check_writable = (\<lambda>s. if q_read_only s then (Inl ReadOnly, s) else (Inr (), s))"

end
