(* ===== verification/Qcow2.thy ===== *)
theory Qcow2
  imports Disk
begin

text \<open>
  The operations of a qcow2 image: cached tables, refcounts and the cluster allocator
  (\<open>hv/crates/vmlab-disk/src/qcow2/refcount.rs\<close>), guest reads, writes and discards, flushing, growing,
  creating and opening (\<open>src/qcow2/mod.rs\<close>).

  The allocator's functions call each other: setting a refcount may need a new refcount block, which may
  need a longer refcount table, whose clusters are allocated and counted in turn. They carry fuel for the
  depth of these calls; running out is the error \<open>OutOfFuel\<close>, and the lemmas show how much is enough. The
  decompressor of the crate \<open>flate2\<close> is the parameter \<open>inflate\<close>: a compressed stream and the length of
  the output give the output buffer.
\<close>

type_synonym inflater = "bytes \<Rightarrow> nat \<Rightarrow> DiskError + bytes"

section \<open>Cached tables\<close>

definition load_l2 :: "nat \<Rightarrow> unit qio" where
  "load_l2 host = (\<lambda>s.
     case TableCache_get host (l2_cache s) of
       (Some _, c) \<Rightarrow> (Inr (), s\<lparr>l2_cache := c\<rparr>)
     | (None, c) \<Rightarrow>
         qbind (read_file host (cluster_size s)) (\<lambda>buf s.
           let (evicted, c') = TableCache_put host buf False (l2_cache s)
           in qfor evicted (\<lambda>(h, table). write_file h table) (s\<lparr>l2_cache := c'\<rparr>)) (s\<lparr>l2_cache := c\<rparr>))"

definition cached_l2 :: "nat \<Rightarrow> bytes qio" where
  "cached_l2 host = (\<lambda>s.
     case TableCache_get host (l2_cache s) of
       (Some (buf, _), c) \<Rightarrow> (Inr buf, s\<lparr>l2_cache := c\<rparr>)
     | (None, c) \<Rightarrow> (Inl Panic, s\<lparr>l2_cache := c\<rparr>))"

definition l2_entry :: "nat \<Rightarrow> nat \<Rightarrow> u64 qio" where
  "l2_entry l2_host index =
     qbind (load_l2 l2_host) (\<lambda>_. qbind (cached_l2 l2_host) (\<lambda>buf.
     qret (from_be64 (take 8 (drop (index * 8) buf)))))"

definition set_l2_entry :: "nat \<Rightarrow> nat \<Rightarrow> u64 \<Rightarrow> unit qio" where
  "set_l2_entry l2_host index v =
     qbind (load_l2 l2_host) (\<lambda>_ s.
       let c = TableCache_mark_dirty l2_host (l2_cache s)
       in case hm_get (tc_map c) l2_host of
            None \<Rightarrow> (Inl Panic, s\<lparr>l2_cache := c\<rparr>)
          | Some (buf, dirty) \<Rightarrow>
              (Inr (), s\<lparr>l2_cache := c\<lparr>tc_map := hm_insert l2_host (splice (index * 8) (to_be64 v) buf, dirty) (tc_map c)\<rparr>\<rparr>))"

definition read_cluster_via_cache :: "nat \<Rightarrow> bytes qio" where
  "read_cluster_via_cache host = qbind (load_l2 host) (\<lambda>_. cached_l2 host)"

definition chunks8 :: "bytes \<Rightarrow> u64 list" where
  "chunks8 b = map (\<lambda>i. from_be64 (take 8 (drop (i * 8) b))) [0..<length b div 8]"

definition l2_allocated_indexes :: "nat \<Rightarrow> nat list qio" where
  "l2_allocated_indexes l2_host =
     qbind (load_l2 l2_host) (\<lambda>_. qbind (cached_l2 l2_host) (\<lambda>buf.
     qret (filter (\<lambda>i. chunks8 buf ! i \<noteq> 0) [0..<length buf div 8])))"

section \<open>Refcount blocks\<close>

definition refblock_host :: "nat \<Rightarrow> nat qio" where
  "refblock_host table_index = (\<lambda>s.
     if table_index < length (refcount_table s) \<and> host_of (refcount_table s ! table_index) \<noteq> 0
     then (Inr (host_of (refcount_table s ! table_index)), s)
     else (Inl FormatError, s))"

definition load_refblock :: "nat \<Rightarrow> unit qio" where
  "load_refblock table_index = (\<lambda>s.
     case TableCache_get table_index (refblock_cache s) of
       (Some _, c) \<Rightarrow> (Inr (), s\<lparr>refblock_cache := c\<rparr>)
     | (None, c) \<Rightarrow>
         qbind (refblock_host table_index) (\<lambda>host.
         qbind (read_file host (cluster_size s)) (\<lambda>buf s.
           let (evicted, c') = TableCache_put table_index buf False (refblock_cache s)
           in qfor evicted (\<lambda>(index, block). qbind (refblock_host index) (\<lambda>h. write_file h block))
                (s\<lparr>refblock_cache := c'\<rparr>))) (s\<lparr>refblock_cache := c\<rparr>))"

definition cached_refblock :: "nat \<Rightarrow> bytes qio" where
  "cached_refblock table_index = (\<lambda>s.
     case TableCache_get table_index (refblock_cache s) of
       (Some (buf, _), c) \<Rightarrow> (Inr buf, s\<lparr>refblock_cache := c\<rparr>)
     | (None, c) \<Rightarrow> (Inl Panic, s\<lparr>refblock_cache := c\<rparr>))"

definition refblock_get :: "nat \<Rightarrow> nat \<Rightarrow> nat qio" where
  "refblock_get table_index idx_in_block = (\<lambda>s.
     if table_index < length (refcount_table s) \<and> host_of (refcount_table s ! table_index) \<noteq> 0 then
       qbind (load_refblock table_index) (\<lambda>_. qbind (cached_refblock table_index) (\<lambda>buf.
       qret (bits_get buf idx_in_block (refcount_bits s)))) s
     else (Inr 0, s))"

definition refblock_set :: "nat \<Rightarrow> nat \<Rightarrow> nat \<Rightarrow> unit qio" where
  "refblock_set table_index idx_in_block v =
     qbind (load_refblock table_index) (\<lambda>_ s.
       let c = TableCache_mark_dirty table_index (refblock_cache s)
       in case hm_get (tc_map c) table_index of
            None \<Rightarrow> (Inl Panic, s\<lparr>refblock_cache := c\<rparr>)
          | Some (buf, dirty) \<Rightarrow>
              (Inr (), s\<lparr>refblock_cache := c\<lparr>tc_map :=
                 hm_insert table_index (bits_set buf idx_in_block (refcount_bits s) v, dirty) (tc_map c)\<rparr>\<rparr>))"

definition get_refcount :: "nat \<Rightarrow> nat qio" where
  "get_refcount cluster_idx = (\<lambda>s.
     refblock_get (cluster_idx div refblock_entries s) (cluster_idx mod refblock_entries s) s)"

section \<open>The free map\<close>

definition FREE_SCAN_TARGET :: nat where "FREE_SCAN_TARGET = 4096"

text \<open>The scan of one block from some index on; whether it stopped early.\<close>

fun scan_block :: "bytes \<Rightarrow> nat \<Rightarrow> nat \<Rightarrow> bool \<Rightarrow> nat list \<Rightarrow> nat list \<Rightarrow> nat \<Rightarrow> nat list \<times> nat \<times> bool" where
  "scan_block buf width base to_end [] free next_idx = (free, next_idx, False)"
| "scan_block buf width base to_end (i # is) free next_idx =
     (let free' = if bits_get buf i width = 0 then insort_insert (base + i) free else free
      in if \<not> to_end \<and> FREE_SCAN_TARGET \<le> length free' then (free', base + i + 1, True)
         else scan_block buf width base to_end is free' (base + i + 1))"

text \<open>Every round moves the cursor to the next block, so one more round than there are blocks is enough.\<close>

fun refill_loop :: "nat \<Rightarrow> bool \<Rightarrow> unit qio" where
  "refill_loop 0 to_end = qerr OutOfFuel"
| "refill_loop (Suc n) to_end = (\<lambda>s.
     let rbe = refblock_entries s;
         ti = scan_next s div rbe
     in if \<not> scan_next s < length (refcount_table s) * rbe then (Inr (), s)
        else if length (refcount_table s) \<le> ti \<or> host_of (refcount_table s ! ti) = 0
        then refill_loop n to_end (s\<lparr>scan_next := (ti + 1) * rbe\<rparr>)
        else
          qbind (load_refblock ti) (\<lambda>_. qbind (cached_refblock ti) (\<lambda>buf s.
            let (free, next_idx, stopped) =
              scan_block buf (refcount_bits s) (ti * rbe) to_end [scan_next s mod rbe..<rbe] (free_set s) (scan_next s)
            in if stopped then (Inr (), s\<lparr>free_set := free, scan_next := next_idx\<rparr>)
               else if \<not> to_end \<and> FREE_SCAN_TARGET \<le> length free
               then (Inr (), s\<lparr>free_set := free, scan_next := (ti + 1) * rbe\<rparr>)
               else refill_loop n to_end (s\<lparr>free_set := free, scan_next := (ti + 1) * rbe\<rparr>))) s)"

definition refill_free_map :: "bool \<Rightarrow> unit qio" where
  "refill_free_map to_end = (\<lambda>s. refill_loop (Suc (length (refcount_table s))) to_end s)"

fun find_run :: "nat \<Rightarrow> nat \<Rightarrow> nat \<Rightarrow> nat list \<Rightarrow> nat option" where
  "find_run count start len [] = None"
| "find_run count start len (c # cs) =
     (let (start', len') = if 0 < len \<and> c = start + len then (start, len + 1) else (c, 1)
      in if len' = count then Some start' else find_run count start' len' cs)"

definition take_mapped_run :: "nat \<Rightarrow> nat option qio" where
  "take_mapped_run count = (\<lambda>s.
     case find_run (max count 1) 0 0 (free_set s) of
       None \<Rightarrow> (Inr None, s)
     | Some first \<Rightarrow>
         (Inr (Some first), s\<lparr>free_set := filter (\<lambda>c. \<not> (first \<le> c \<and> c < first + max count 1)) (free_set s)\<rparr>))"

section \<open>Allocation\<close>

definition forget_l2 :: "nat \<Rightarrow> unit qio" where
  "forget_l2 host = qmodify (\<lambda>s. s\<lparr>l2_cache := TableCache_remove host (l2_cache s)\<rparr>)"

text \<open>\<open>dec_refcount\<close>, over the function that sets a refcount.\<close>

definition dec_with :: "(nat \<Rightarrow> nat \<Rightarrow> unit qio) \<Rightarrow> nat \<Rightarrow> unit qio" where
  "dec_with set_rc cluster_idx =
     qbind (get_refcount cluster_idx) (\<lambda>rc. if rc = 0 then qerr FormatError else set_rc cluster_idx (rc - 1))"

definition note_free :: "nat \<Rightarrow> nat \<Rightarrow> Qcow2Image \<Rightarrow> Qcow2Image" where
  "note_free idx v s =
     s\<lparr>free_set := if v = 0 then insort_insert idx (free_set s) else filter (\<lambda>k. k \<noteq> idx) (free_set s)\<rparr>"

definition install_refblock :: "nat \<Rightarrow> nat \<Rightarrow> Qcow2Image \<Rightarrow> Qcow2Image" where
  "install_refblock table_index host s =
     s\<lparr>refcount_table := (refcount_table s)[table_index := of_nat host],
       refcount_table_dirty := True,
       scan_next := min (scan_next s) (table_index * refblock_entries s)\<rparr>"

definition table_bytes :: "u64 list \<Rightarrow> bytes" where
  "table_bytes t = concat (map to_be64 t)"

fun set_cluster_refcount :: "nat \<Rightarrow> nat \<Rightarrow> nat \<Rightarrow> unit qio"
  and ensure_refcount_table_len :: "nat \<Rightarrow> nat \<Rightarrow> unit qio"
  and grow_refcount_table_region :: "nat \<Rightarrow> nat \<Rightarrow> unit qio"
  and alloc_refblock :: "nat \<Rightarrow> nat \<Rightarrow> unit qio"
  and alloc_clusters_contiguous :: "nat \<Rightarrow> nat \<Rightarrow> nat qio"
  and find_free :: "nat \<Rightarrow> nat \<Rightarrow> nat qio"
  and grow_coverage :: "nat \<Rightarrow> unit qio"
where
  "set_cluster_refcount 0 cluster_idx v = qerr OutOfFuel"
| "set_cluster_refcount (Suc n) cluster_idx v = (\<lambda>s.
     let rbe = refblock_entries s; ti = cluster_idx div rbe
     in qbind (ensure_refcount_table_len n (ti + 1)) (\<lambda>_.
        qbind (qread (\<lambda>s. host_of (refcount_table s ! ti) = 0)) (\<lambda>missing.
        qbind (if missing then alloc_refblock n ti else qret ()) (\<lambda>_.
        qbind (refblock_set ti (cluster_idx mod rbe) v) (\<lambda>_.
        qmodify (note_free cluster_idx v))))) s)"
| "ensure_refcount_table_len 0 len = qerr OutOfFuel"
| "ensure_refcount_table_len (Suc n) len = (\<lambda>s.
     if len \<le> length (refcount_table s) then (Inr (), s)
     else
       let region = max (div_ceil (len * 8) (cluster_size s)) 1
       in qbind (if refcount_table_clusters s < region then grow_refcount_table_region n region else qret ()) (\<lambda>_ s.
            let want = refcount_table_clusters s * cluster_size s div 8
            in (Inr (), if length (refcount_table s) < want
                  then s\<lparr>refcount_table := refcount_table s @ replicate (want - length (refcount_table s)) 0\<rparr> else s)) s)"
| "grow_refcount_table_region 0 clusters = qerr OutOfFuel"
| "grow_refcount_table_region (Suc n) clusters = (\<lambda>s.
     let old_offset = refcount_table_offset s;
         old_clusters = refcount_table_clusters s;
         cs = cluster_size s;
         entries = clusters * cs div 8
     in if clusters \<le> old_clusters then (Inr (), s)
        else
          qbind (alloc_clusters_contiguous n clusters) (\<lambda>new_offset.
          qbind (\<lambda>s. write_file new_offset
                   (table_bytes (refcount_table s) @ replicate (clusters * cs - length (table_bytes (refcount_table s))) 0) s) (\<lambda>_.
          qbind (qmodify (\<lambda>s. s\<lparr>refcount_table_offset := new_offset, refcount_table_dirty := True, header_dirty := True\<rparr>)) (\<lambda>_.
          qbind (qfor [0..<clusters] (\<lambda>idx. set_cluster_refcount n (new_offset div cs + idx) 1)) (\<lambda>_.
          qfor [0..<old_clusters] (\<lambda>idx. dec_with (\<lambda>c v. set_cluster_refcount n c v) (old_offset div cs + idx))))))
          (s\<lparr>refcount_table_clusters := clusters,
             refcount_table := refcount_table s @ replicate (entries - length (refcount_table s)) 0\<rparr>))"
| "alloc_refblock 0 table_index = qerr OutOfFuel"
| "alloc_refblock (Suc n) table_index = (\<lambda>s.
     qbind (refill_free_map False) (\<lambda>_.
     qbind (take_mapped_run 1) (\<lambda>hole.
       let host_idx = (case hole of Some idx \<Rightarrow> idx | None \<Rightarrow> table_index * refblock_entries s);
           host = host_idx * cluster_size s
       in qbind (forget_l2 host) (\<lambda>_.
          qbind (qmodify (install_refblock table_index host)) (\<lambda>_.
          qbind (write_file host (replicate (cluster_size s) 0)) (\<lambda>_.
          set_cluster_refcount n host_idx 1))))) s)"
| "alloc_clusters_contiguous 0 count = qerr OutOfFuel"
| "alloc_clusters_contiguous (Suc n) count = (\<lambda>s.
     qbind (find_free n count) (\<lambda>first.
     qbind (qfor [first..<first + count] (\<lambda>idx.
       qbind (forget_l2 (idx * cluster_size s)) (\<lambda>_. set_cluster_refcount n idx 1))) (\<lambda>_.
     qret (first * cluster_size s))) s)"
| "find_free 0 count = qerr OutOfFuel"
| "find_free (Suc n) count =
     qbind (refill_free_map False) (\<lambda>_. qbind (take_mapped_run count) (\<lambda>hole.
       case hole of
         Some first \<Rightarrow> qret first
       | None \<Rightarrow>
           qbind (refill_free_map True) (\<lambda>_. qbind (take_mapped_run count) (\<lambda>hole.
             case hole of
               Some first \<Rightarrow> qret first
             | None \<Rightarrow> qbind (grow_coverage n) (\<lambda>_. find_free n count)))))"
| "grow_coverage 0 = qerr OutOfFuel"
| "grow_coverage (Suc n) = (\<lambda>s.
     case find (\<lambda>i. host_of (refcount_table s ! i) = 0) [0..<length (refcount_table s)] of
       Some index \<Rightarrow> alloc_refblock n index s
     | None \<Rightarrow>
         let index = length (refcount_table s)
         in qbind (ensure_refcount_table_len n (index + 1)) (\<lambda>_ s.
              if host_of (refcount_table s ! index) \<noteq> 0 then (Inr (), s) else alloc_refblock n index s) s)"

definition dec_refcount :: "nat \<Rightarrow> nat \<Rightarrow> unit qio" where
  "dec_refcount n cluster_idx = dec_with (set_cluster_refcount n) cluster_idx"

definition inc_refcount :: "nat \<Rightarrow> nat \<Rightarrow> unit qio" where
  "inc_refcount n cluster_idx =
     qbind (get_refcount cluster_idx) (\<lambda>rc.
     qbind (\<lambda>s. (refcount_max s, s)) (\<lambda>limit.
     if limit \<le> rc then qerr Unsupported else set_cluster_refcount n cluster_idx (rc + 1)))"

definition alloc_cluster :: "nat \<Rightarrow> nat qio" where
  "alloc_cluster n = (\<lambda>s.
     qbind (find_free n 1) (\<lambda>idx.
     qbind (forget_l2 (idx * cluster_size s)) (\<lambda>_.
     qbind (set_cluster_refcount n idx 1) (\<lambda>_.
     qret (idx * cluster_size s)))) s)"

end
