(* ===== verification/Qcow2_Io.thy ===== *)
theory Qcow2_Io
  imports Qcow2
begin

text \<open>
  Guest input and output of a qcow2 image, flushing and growing (\<open>hv/crates/vmlab-disk/src/qcow2/mod.rs\<close>,
  \<open>ensure_l1_size\<close> and \<open>walk_refcounts\<close> from \<open>refcount.rs\<close>).
\<close>

section \<open>Shared tables\<close>

definition cow_l2_if_shared :: "nat \<Rightarrow> nat \<Rightarrow> nat qio" where
  "cow_l2_if_shared n l1_index = (\<lambda>s.
     let l2_host = host_of (q_l1 s ! l1_index); cs = cluster_size s
     in if l2_host = 0 then (Inr 0, s)
        else
          qbind (get_refcount (l2_host div cs)) (\<lambda>rc.
          if rc \<le> 1 then qret l2_host
          else
            qbind (read_cluster_via_cache l2_host) (\<lambda>content.
            qbind (alloc_cluster n) (\<lambda>new_l2.
            qbind (write_file new_l2 content) (\<lambda>_.
            qbind (set_cluster_refcount n (new_l2 div cs) 1) (\<lambda>_.
            qbind (dec_refcount n (l2_host div cs)) (\<lambda>_.
            qbind (qmodify (\<lambda>s. s\<lparr>q_l1 := (q_l1 s)[l1_index := of_nat new_l2 OR COPIED_BIT], l1_dirty := True\<rparr>)) (\<lambda>_.
            qret new_l2))))))) s)"

section \<open>Reading\<close>

definition read_unallocated :: "nat \<Rightarrow> nat \<Rightarrow> bytes qio" where
  "read_unallocated guest_offset len = (\<lambda>s.
     case backing_image s of
       None \<Rightarrow> (Inr (replicate len 0), s)
     | Some b \<Rightarrow>
         if bi_size b \<le> guest_offset then (Inr (replicate len 0), s)
         else
           let take_len = min len (bi_size b - guest_offset)
           in case bi_read b guest_offset take_len of
                Inl e \<Rightarrow> (Inl e, s)
              | Inr data \<Rightarrow> (Inr (data @ replicate (len - take_len) 0), s))"

text \<open>The start of a compressed stream and the sectors after its first one, from the entry.\<close>

definition compressed_shift :: "Qcow2Image \<Rightarrow> nat" where
  "compressed_shift s = 62 - (cluster_bits s - 8)"

definition compressed_offset :: "Qcow2Image \<Rightarrow> u64 \<Rightarrow> nat" where
  "compressed_offset s entry = unat entry mod 2 ^ compressed_shift s"

definition additional_sectors :: "Qcow2Image \<Rightarrow> u64 \<Rightarrow> nat" where
  "additional_sectors s entry = (unat entry div 2 ^ compressed_shift s) mod 2 ^ (62 - compressed_shift s)"

definition read_compressed_cluster :: "inflater \<Rightarrow> u64 \<Rightarrow> bytes qio" where
  "read_compressed_cluster inflate entry = (\<lambda>s.
     let host_offset = compressed_offset s entry;
         last = (host_offset div 512 + additional_sectors s entry + 1) * 512
     in qbind (read_file host_offset (last - host_offset)) (\<lambda>compressed.
        qlift (inflate compressed (cluster_size s))) s)"

text \<open>The loop over the following entries of the table: how far the mapping stays adjacent.\<close>

fun adjacent_source :: "ReadSource \<Rightarrow> nat \<Rightarrow> ReadSource \<Rightarrow> bool" where
  "adjacent_source (SrcFile start) len (SrcFile next_host) \<longleftrightarrow> next_host = start + len"
| "adjacent_source SrcBacking len SrcBacking \<longleftrightarrow> True"
| "adjacent_source SrcZero len SrcZero \<longleftrightarrow> True"
| "adjacent_source _ _ _ \<longleftrightarrow> False"

fun coalesce :: "ReadSource \<Rightarrow> nat \<Rightarrow> nat \<Rightarrow> nat \<Rightarrow> u64 list \<Rightarrow> nat" where
  "coalesce source cs max_len len [] = len"
| "coalesce source cs max_len len (entry # entries) =
     (if len = max_len then len
      else if \<not> adjacent_source source len (from_entry entry 0) then len
      else coalesce source cs max_len (len + min (max_len - len) cs) entries)"

definition read_extent :: "nat \<Rightarrow> nat \<Rightarrow> (ReadSource \<times> nat) qio" where
  "read_extent offset max_len = (\<lambda>s.
     let i = l1_index_of s offset;
         entry = (if i < length (q_l1 s) then q_l1 s ! i else 0);
         l2_host = host_of entry;
         cs = cluster_size s
     in if l2_host = 0 then (Inr (SrcBacking, min max_len (l2_span s - offset mod l2_span s)), s)
        else
          qbind (load_l2 l2_host) (\<lambda>_. qbind (cached_l2 l2_host) (\<lambda>table.
            let in_cluster = offset mod cs;
                index = l2_index_of s offset;
                entries = chunks8 table;
                source = from_entry (entries ! index) in_cluster;
                len = min max_len (cs - in_cluster)
            in qret (source,
                 case source of SrcCompressed _ \<Rightarrow> len
                 | _ \<Rightarrow> coalesce source cs max_len len (drop (index + 1) entries)))) s)"

definition read_source :: "inflater \<Rightarrow> nat \<Rightarrow> ReadSource \<Rightarrow> nat \<Rightarrow> bytes qio" where
  "read_source inflate pos source len =
     (case source of
        SrcBacking \<Rightarrow> read_unallocated pos len
      | SrcZero \<Rightarrow> qret (replicate len 0)
      | SrcFile host \<Rightarrow> read_file host len
      | SrcCompressed entry \<Rightarrow>
          qbind (read_compressed_cluster inflate entry) (\<lambda>cluster s.
            (Inr (take len (drop (pos mod cluster_size s) cluster)), s)))"

text \<open>A round that took nothing would repeat forever: \<open>OutOfFuel\<close>.\<close>

function read_bytes :: "inflater \<Rightarrow> nat \<Rightarrow> nat \<Rightarrow> bytes qio" where
  "read_bytes inflate pos remaining =
     (if remaining = 0 then qret []
      else
        qbind (read_extent pos remaining) (\<lambda>(source, len).
          if len = 0 then qerr OutOfFuel
          else
            qbind (read_source inflate pos source len) (\<lambda>out.
            qbind (read_bytes inflate (pos + len) (remaining - len)) (\<lambda>rest.
            qret (out @ rest)))))"
  by pat_completeness auto
termination by (relation "measure (\<lambda>(inflate, pos, remaining). remaining)") auto

declare read_bytes.simps [simp del]

definition Qcow2Image_read_at :: "inflater \<Rightarrow> nat \<Rightarrow> nat \<Rightarrow> bytes qio" where
  "Qcow2Image_read_at inflate offset len = (\<lambda>s.
     if offset + len > U64_MAX then (Inl Unsupported, s)
     else if offset + len > q_size s then (Inl Unsupported, s)
     else read_bytes inflate offset len s)"

text \<open>The backing image of an overlay, seen through the trait: a qcow2 image opened read-only.\<close>

definition backing_of :: "inflater \<Rightarrow> Qcow2Image \<Rightarrow> BackingImage" where
  "backing_of inflate img = \<lparr>bi_size = q_size img, bi_read = (\<lambda>offset len. fst (Qcow2Image_read_at inflate offset len img))\<rparr>"

definition raw_backing :: "RawImage \<Rightarrow> BackingImage" where
  "raw_backing img = \<lparr>bi_size = raw_size img, bi_read = (\<lambda>offset len. RawImage_read_at offset len img)\<rparr>"

section \<open>Writing\<close>

definition compressed_clusters :: "Qcow2Image \<Rightarrow> u64 \<Rightarrow> nat list" where
  "compressed_clusters s entry =
     (let host_offset = compressed_offset s entry;
          last = host_offset + (additional_sectors s entry + 1) * 512
      in [host_offset div cluster_size s..<div_ceil last (cluster_size s)])"

definition adjust_one :: "nat \<Rightarrow> bool \<Rightarrow> nat \<Rightarrow> unit qio" where
  "adjust_one n up cluster_idx = (if up then inc_refcount n cluster_idx else dec_refcount n cluster_idx)"

definition adjust_compressed_refcounts :: "nat \<Rightarrow> u64 \<Rightarrow> bool \<Rightarrow> unit qio" where
  "adjust_compressed_refcounts n entry up = (\<lambda>s. qfor (compressed_clusters s entry) (adjust_one n up) s)"

text \<open>The table of a guest cluster, allocated or copied before the write changes it.\<close>

definition writable_l2 :: "nat \<Rightarrow> nat \<Rightarrow> nat qio" where
  "writable_l2 n l1_index = (\<lambda>s.
     if length (q_l1 s) \<le> l1_index then (Inl Unsupported, s)
     else if host_of (q_l1 s ! l1_index) = 0 then
       qbind (alloc_cluster n) (\<lambda>l2.
       qbind (write_file l2 (replicate (cluster_size s) 0)) (\<lambda>_.
       qbind (set_cluster_refcount n (l2 div cluster_size s) 1) (\<lambda>_.
       qbind (qmodify (\<lambda>s. s\<lparr>q_l1 := (q_l1 s)[l1_index := of_nat l2 OR COPIED_BIT], l1_dirty := True, header_dirty := True\<rparr>)) (\<lambda>_.
       qret l2)))) s
     else cow_l2_if_shared n l1_index s)"

text \<open>Whether the cluster may be written in place: the copied bit, or else a refcount of one.\<close>

definition cluster_owned :: "u64 \<Rightarrow> bool qio" where
  "cluster_owned entry = (\<lambda>s.
     if is_compressed entry \<or> host_of entry = 0 then (Inr False, s)
     else if is_copied entry then (Inr True, s)
     else qbind (get_refcount (host_of entry div cluster_size s)) (\<lambda>rc. qret (rc = 1)) s)"

text \<open>The content of the guest cluster so far; a write of a whole cluster needs none.\<close>

definition old_cluster :: "inflater \<Rightarrow> nat \<Rightarrow> u64 \<Rightarrow> bool \<Rightarrow> bytes qio" where
  "old_cluster inflate cluster_off entry full = (\<lambda>s.
     if full then (Inr (replicate (cluster_size s) 0), s)
     else if is_compressed entry then read_compressed_cluster inflate entry s
     else if is_zero entry then (Inr (replicate (cluster_size s) 0), s)
     else if host_of entry \<noteq> 0 then read_file (host_of entry) (cluster_size s) s
     else read_unallocated cluster_off (cluster_size s) s)"

definition drop_reference :: "nat \<Rightarrow> u64 \<Rightarrow> unit qio" where
  "drop_reference n entry = (\<lambda>s.
     if is_compressed entry then adjust_compressed_refcounts n entry False s
     else if host_of entry \<noteq> 0 then dec_refcount n (host_of entry div cluster_size s) s
     else (Inr (), s))"

definition write_cluster :: "nat \<Rightarrow> inflater \<Rightarrow> nat \<Rightarrow> bytes \<Rightarrow> unit qio" where
  "write_cluster n inflate pos chunk = (\<lambda>s.
     let cs = cluster_size s;
         in_off = pos mod cs;
         cluster_off = pos - in_off;
         l2_index = l2_index_of s cluster_off
     in qbind (writable_l2 n (l1_index_of s cluster_off)) (\<lambda>l2_host.
        qbind (l2_entry l2_host l2_index) (\<lambda>entry.
        qbind (cluster_owned entry) (\<lambda>owned.
          if owned then
            qbind (if is_copied entry then qret () else set_l2_entry l2_host l2_index (entry OR COPIED_BIT)) (\<lambda>_.
            write_file (host_of entry + in_off) chunk)
          else
            qbind (old_cluster inflate cluster_off entry (in_off = 0 \<and> length chunk = cs)) (\<lambda>old.
            qbind (alloc_cluster n) (\<lambda>new_host.
            qbind (write_file new_host (splice in_off chunk old)) (\<lambda>_.
            qbind (set_cluster_refcount n (new_host div cs) 1) (\<lambda>_.
            qbind (drop_reference n entry) (\<lambda>_.
            set_l2_entry l2_host l2_index (of_nat new_host OR COPIED_BIT))))))))) s)"

function write_bytes :: "nat \<Rightarrow> inflater \<Rightarrow> nat \<Rightarrow> bytes \<Rightarrow> unit qio" where
  "write_bytes n inflate pos buf =
     (if buf = [] then qret ()
      else (\<lambda>s.
        let len = min (cluster_size s - pos mod cluster_size s) (length buf)
        in qbind (write_cluster n inflate pos (take len buf)) (\<lambda>_. write_bytes n inflate (pos + len) (drop len buf)) s))"
  by pat_completeness auto
termination
  by (relation "measure (\<lambda>(n, inflate, pos, buf). length buf)") (auto simp: cluster_size_def)

declare write_bytes.simps [simp del]

definition Qcow2Image_write_at :: "nat \<Rightarrow> inflater \<Rightarrow> nat \<Rightarrow> bytes \<Rightarrow> unit qio" where
  "Qcow2Image_write_at n inflate offset buf = (\<lambda>s.
     if q_read_only s then (Inl ReadOnly, s)
     else if offset + length buf > U64_MAX then (Inl Unsupported, s)
     else if offset + length buf > q_size s then (Inl Unsupported, s)
     else write_bytes n inflate offset buf s)"

definition discard_cluster :: "nat \<Rightarrow> nat \<Rightarrow> unit qio" where
  "discard_cluster n cluster = (\<lambda>s.
     let cluster_off = cluster * cluster_size s;
         l1_index = l1_index_of s cluster_off;
         l2_index = l2_index_of s cluster_off
     in if length (q_l1 s) \<le> l1_index then (Inr (), s)
        else
          qbind (cow_l2_if_shared n l1_index) (\<lambda>l2_host.
            if l2_host = 0 then qret ()
            else
              qbind (l2_entry l2_host l2_index) (\<lambda>entry.
              qbind (drop_reference n entry) (\<lambda>_.
              set_l2_entry l2_host l2_index 0))) s)"

definition discard :: "nat \<Rightarrow> nat \<Rightarrow> nat \<Rightarrow> unit qio" where
  "discard n offset len = (\<lambda>s.
     if q_read_only s then (Inl ReadOnly, s)
     else if offset + len > U64_MAX then (Inl Unsupported, s)
     else if offset + len > q_size s then (Inl Unsupported, s)
     else qfor [div_ceil offset (cluster_size s)..<(offset + len) div cluster_size s] (discard_cluster n) s)"

section \<open>Flushing\<close>

definition patch_header_fields :: "Qcow2Image \<Rightarrow> bytes" where
  "patch_header_fields s =
     splice 64 (to_be64 (of_nat (snapshots_offset s)))
    (splice 60 (to_be32 (of_nat (nb_snapshots s)))
    (splice 56 (to_be32 (of_nat (refcount_table_clusters s)))
    (splice 48 (to_be64 (of_nat (refcount_table_offset s)))
    (splice 40 (to_be64 (of_nat (l1_table_offset s)))
    (splice 36 (to_be32 (of_nat (l1_size s)))
    (splice 24 (to_be64 (of_nat (q_size s))) (header_cluster s)))))))"

definition flush_refblocks :: "unit qio" where
  "flush_refblocks = (\<lambda>s.
     let (dirty, c) = TableCache_take_dirty (refblock_cache s)
     in qfor dirty (\<lambda>(index, block). qbind (refblock_host index) (\<lambda>host. write_file host block)) (s\<lparr>refblock_cache := c\<rparr>))"

definition flush_l2s :: "unit qio" where
  "flush_l2s = (\<lambda>s.
     let (dirty, c) = TableCache_take_dirty (l2_cache s)
     in qfor dirty (\<lambda>(host, table). write_file host table) (s\<lparr>l2_cache := c\<rparr>))"

definition flush_metadata :: "unit qio" where
  "flush_metadata =
     qbind check_writable (\<lambda>_.
     qbind flush_refblocks (\<lambda>_.
     qbind (\<lambda>s. if refcount_table_dirty s
                 then qbind (write_file (refcount_table_offset s) (table_bytes (refcount_table s)))
                        (\<lambda>_. qmodify (\<lambda>s. s\<lparr>refcount_table_dirty := False\<rparr>)) s
                 else (Inr (), s)) (\<lambda>_.
     qbind (\<lambda>s. if l1_dirty s
                 then qbind (write_file (l1_table_offset s) (table_bytes (q_l1 s)))
                        (\<lambda>_. qmodify (\<lambda>s. s\<lparr>l1_dirty := False\<rparr>)) s
                 else (Inr (), s)) (\<lambda>_.
     qbind flush_l2s (\<lambda>_ s.
       if header_dirty s
       then let s' = s\<lparr>header_cluster := patch_header_fields s\<rparr>
            in qbind (write_file 0 (header_cluster s')) (\<lambda>_. qmodify (\<lambda>s. s\<lparr>header_dirty := False\<rparr>)) s'
       else (Inr (), s))))))"

definition Qcow2Image_flush :: "unit qio" where
  "Qcow2Image_flush = (\<lambda>s. if q_read_only s then (Inr (), s) else flush_metadata s)"

section \<open>Growing\<close>

definition ensure_l1_size :: "nat \<Rightarrow> nat \<Rightarrow> unit qio" where
  "ensure_l1_size n needed = (\<lambda>s.
     let cs = cluster_size s in
     if needed \<le> l1_size s then
       if needed < length (q_l1 s) then
         qbind (write_file (l1_table_offset s + needed * 8) (replicate ((length (q_l1 s) - needed) * 8) 0)) (\<lambda>_.
         qmodify (\<lambda>s. s\<lparr>q_l1 := take needed (q_l1 s), l1_size := needed, l1_dirty := True, header_dirty := True\<rparr>)) s
       else (Inr (), s)
     else
       let old_clusters = max (div_ceil (l1_size s * 8) cs) 1;
           new_clusters = max (div_ceil (needed * 8) cs) 1;
           s1 = s\<lparr>q_l1 := q_l1 s @ replicate (needed - length (q_l1 s)) 0\<rparr>
       in qbind
            (if old_clusters < new_clusters then
               qbind (alloc_clusters_contiguous n new_clusters) (\<lambda>new_offset.
               qbind (\<lambda>s. write_file new_offset
                        (table_bytes (q_l1 s) @ replicate (new_clusters * cs - length (table_bytes (q_l1 s))) 0) s) (\<lambda>_.
               qbind (qfor [0..<new_clusters] (\<lambda>idx. set_cluster_refcount n (new_offset div cs + idx) 1)) (\<lambda>_.
               qbind (qfor [0..<old_clusters] (\<lambda>idx. dec_refcount n (l1_table_offset s div cs + idx))) (\<lambda>_.
               qmodify (\<lambda>s. s\<lparr>l1_table_offset := new_offset\<rparr>)))))
             else write_file (l1_table_offset s + l1_size s * 8) (replicate ((needed - l1_size s) * 8) 0)) (\<lambda>_.
          qmodify (\<lambda>s. s\<lparr>l1_size := needed, l1_dirty := True, header_dirty := True\<rparr>)) s1)"

definition ensure_l1_covers :: "nat \<Rightarrow> nat \<Rightarrow> unit qio" where
  "ensure_l1_covers n end_offset = (\<lambda>s.
     let needed = max (l1_index_of s (end_offset - 1) + 1) 1 mod 2 ^ 32
     in if needed \<le> l1_size s then (Inr (), s) else ensure_l1_size n needed s)"

definition resize_grow :: "nat \<Rightarrow> nat \<Rightarrow> unit qio" where
  "resize_grow n new_size = (\<lambda>s.
     if q_read_only s then (Inl ReadOnly, s)
     else if new_size < q_size s then (Inl Unsupported, s)
     else if new_size = q_size s then (Inr (), s)
     else qbind (ensure_l1_covers n new_size) (\<lambda>_. qmodify (\<lambda>s. s\<lparr>q_size := new_size, header_dirty := True\<rparr>)) s)"

definition write_vmstate :: "nat \<Rightarrow> inflater \<Rightarrow> nat \<Rightarrow> bytes \<Rightarrow> unit qio" where
  "write_vmstate n inflate offset buf = (\<lambda>s.
     if q_read_only s then (Inl ReadOnly, s)
     else if vmstate_base s + offset > U64_MAX then (Inl Unsupported, s)
     else qbind (ensure_l1_covers n (vmstate_base s + offset + length buf))
            (\<lambda>_. write_bytes n inflate (vmstate_base s + offset) buf) s)"

definition read_vmstate :: "inflater \<Rightarrow> nat \<Rightarrow> nat \<Rightarrow> bytes qio" where
  "read_vmstate inflate offset len = (\<lambda>s.
     if vmstate_base s + offset > U64_MAX then (Inl Unsupported, s)
     else read_bytes inflate (vmstate_base s + offset) len s)"

definition own_clusters_of :: "nat \<Rightarrow> nat list qio" where
  "own_clusters_of l1_index = (\<lambda>s.
     if host_of (q_l1 s ! l1_index) = 0 then (Inr [], s)
     else qbind (l2_allocated_indexes (host_of (q_l1 s ! l1_index)))
            (\<lambda>is. qret (map (\<lambda>i. l1_index * l2_entries s + i) is)) s)"

text \<open>Every cluster an L1 table refers to: its L2 tables and all they map.\<close>

definition walk_entry :: "nat \<Rightarrow> bool \<Rightarrow> u64 \<Rightarrow> unit qio" where
  "walk_entry n up entry = (\<lambda>s.
     if is_compressed entry then adjust_compressed_refcounts n entry up s
     else if host_of entry \<noteq> 0 then adjust_one n up (host_of entry div cluster_size s) s
     else (Inr (), s))"

definition walk_l1_entry :: "nat \<Rightarrow> bool \<Rightarrow> u64 \<Rightarrow> unit qio" where
  "walk_l1_entry n up entry = (\<lambda>s.
     let l2_host = host_of entry
     in if l2_host = 0 then (Inr (), s)
        else
          qbind (adjust_one n up (l2_host div cluster_size s)) (\<lambda>_.
          qbind (load_l2 l2_host) (\<lambda>_. qbind (cached_l2 l2_host) (\<lambda>buf.
          qfor (chunks8 buf) (walk_entry n up)))) s)"

definition walk_refcounts :: "nat \<Rightarrow> u64 list \<Rightarrow> bool \<Rightarrow> unit qio" where
  "walk_refcounts n l1 up = qfor l1 (walk_l1_entry n up)"

end
