(* ===== verification/Qcow2_Image.thy ===== *)
theory Qcow2_Image
  imports Qcow2_Io
begin

text \<open>
  Opening a qcow2 image with its backing chain, creating one, and its backing reference
  (\<open>hv/crates/vmlab-disk/src/qcow2/mod.rs\<close>). The file system is a parameter: a path gives the bytes of a
  file, or nothing. Paths and names are their bytes, which the code takes through \<open>from_utf8_lossy\<close>: the model
  is that of names in UTF-8, which this leaves as they are.
\<close>

type_synonym filesystem = "bytes \<Rightarrow> bytes option"

section \<open>The header\<close>

definition hdr32 :: "bytes \<Rightarrow> nat \<Rightarrow> u32" where
  "hdr32 b off = from_be32 (b ! off) (b ! (off + 1)) (b ! (off + 2)) (b ! (off + 3))"

definition hdr64 :: "bytes \<Rightarrow> nat \<Rightarrow> u64" where
  "hdr64 b off = from_be64 (take 8 (drop off b))"

definition INCOMPAT_DIRTY :: u64 where "INCOMPAT_DIRTY = 1"
definition INCOMPAT_CORRUPT :: u64 where "INCOMPAT_CORRUPT = 2"
definition INCOMPAT_EXTERNAL_DATA :: u64 where "INCOMPAT_EXTERNAL_DATA = 4"
definition INCOMPAT_COMPRESSION_TYPE :: u64 where "INCOMPAT_COMPRESSION_TYPE = 8"
definition INCOMPAT_EXTENDED_L2 :: u64 where "INCOMPAT_EXTENDED_L2 = 16"

definition incompat_refused :: "u64 \<Rightarrow> bytes \<Rightarrow> bool" where
  "incompat_refused features header \<longleftrightarrow>
     features AND NOT (INCOMPAT_DIRTY OR INCOMPAT_CORRUPT OR INCOMPAT_EXTERNAL_DATA OR
       INCOMPAT_COMPRESSION_TYPE OR INCOMPAT_EXTENDED_L2) \<noteq> 0 \<or>
     features AND INCOMPAT_DIRTY \<noteq> 0 \<or> features AND INCOMPAT_CORRUPT \<noteq> 0 \<or>
     features AND INCOMPAT_EXTERNAL_DATA \<noteq> 0 \<or> features AND INCOMPAT_EXTENDED_L2 \<noteq> 0 \<or>
     features AND INCOMPAT_COMPRESSION_TYPE \<noteq> 0 \<and> header ! 104 \<noteq> 0"

function parse_backing_format :: "bytes \<Rightarrow> nat \<Rightarrow> bytes option" where
  "parse_backing_format header off =
     (if off + 8 \<le> length header then
        let et = hdr32 header off; el = unat (hdr32 header (off + 4))
        in if et = EXT_END then None
           else if et = EXT_BACKING_FORMAT then
             Some (take (min (off + 8 + el) (length header) - (off + 8)) (drop (off + 8) header))
           else parse_backing_format header (off + 8 + div_ceil el 8 * 8)
      else None)"
  by pat_completeness auto
termination by (relation "measure (\<lambda>(header, off). length header - off)") auto

declare parse_backing_format.simps [simp del]

definition parse_backing :: "bytes \<Rightarrow> nat \<Rightarrow> DiskError + BackingRef option" where
  "parse_backing header header_length =
     (let off = unat (hdr64 header 8); len = unat (hdr32 header 16)
      in if off \<noteq> 0 \<and> 0 < len then
           if 1023 < len then Inl FormatError
           else if length header < off + len then Inl FormatError
           else Inr (Some \<lparr>br_name = take len (drop off header), br_format = parse_backing_format header header_length\<rparr>)
         else Inr None)"

text \<open>The tables of a file, once the header is accepted.\<close>

definition parse_tables :: "bool \<Rightarrow> bytes \<Rightarrow> bytes \<Rightarrow> nat \<Rightarrow> nat \<Rightarrow> DiskError + Qcow2Image" where
  "parse_tables read_only f header refcount_order header_length =
     (let bits = unat (hdr32 header 20); cs = 2 ^ bits;
          l1s = unat (hdr32 header 36); l1o = unat (hdr64 header 40);
          rto = unat (hdr64 header 48); rtc = unat (hdr32 header 56);
          nbs = unat (hdr32 header 60); sno = unat (hdr64 header 64)
      in if 0 < l1s \<and> l1o mod cs \<noteq> 0 then Inl FormatError
         else if 0 < rtc \<and> rto mod cs \<noteq> 0 then Inl FormatError
         else if 0 < nbs \<and> sno mod cs \<noteq> 0 then Inl FormatError
         else
           case file_read f l1o (l1s * 8) of Inl e \<Rightarrow> Inl e | Inr l1_bytes \<Rightarrow>
           case file_read f rto (rtc * cs) of Inl e \<Rightarrow> Inl e | Inr rt_bytes \<Rightarrow>
           case parse_backing header header_length of Inl e \<Rightarrow> Inl e | Inr backing \<Rightarrow>
             Inr \<lparr>q_file = f, q_read_only = read_only, q_version = unat (hdr32 header 4),
               cluster_bits = bits, q_size = unat (hdr64 header 24), l1_size = l1s, l1_table_offset = l1o,
               refcount_table_offset = rto, refcount_table_clusters = rtc, refcount_bits = 2 ^ refcount_order,
               nb_snapshots = nbs, snapshots_offset = sno, header_cluster = header,
               q_backing = backing, backing_image = None, q_l1 = chunks8 l1_bytes, refcount_table = chunks8 rt_bytes,
               l2_cache = TableCache_new 64, refblock_cache = TableCache_new 64, free_set = [], scan_next = 0,
               header_dirty = False, l1_dirty = False, refcount_table_dirty = False\<rparr>)"

definition parse_image :: "bool \<Rightarrow> bytes \<Rightarrow> DiskError + Qcow2Image" where
  "parse_image read_only f =
     (case file_read f 0 512 of Inl e \<Rightarrow> Inl e | Inr first \<Rightarrow>
      if hdr32 first 0 \<noteq> QCOW_MAGIC then Inl FormatError
      else if hdr32 first 4 \<noteq> 2 \<and> hdr32 first 4 \<noteq> 3 then Inl FormatError
      else if \<not> (9 \<le> unat (hdr32 first 20) \<and> unat (hdr32 first 20) \<le> 21) then Inl FormatError
      else
        case file_read f 512 (2 ^ unat (hdr32 first 20) - 512) of Inl e \<Rightarrow> Inl e | Inr rest \<Rightarrow>
          let header = first @ rest; v3 = (hdr32 first 4 = 3);
              features = (if v3 then hdr64 header 72 else 0);
              autoclear = (if v3 then hdr64 header 88 else 0);
              refcount_order = (if v3 then unat (hdr32 first 96) else 4);
              header_length = (if v3 then unat (hdr32 first 100) else 72)
          in if hdr32 first 32 \<noteq> 0 then Inl Unsupported
             else if v3 \<and> (header_length < 104 \<or> header_length mod 8 \<noteq> 0) then Inl FormatError
             else if v3 \<and> 6 < refcount_order then Inl FormatError
             else if incompat_refused features header then Inl Unsupported
             else if \<not> read_only \<and> autoclear \<noteq> 0 then Inl Unsupported
             else parse_tables read_only f header refcount_order header_length)"

section \<open>Backing chains\<close>

definition SLASH :: u8 where "SLASH = 0x2f"

definition is_absolute :: "bytes \<Rightarrow> bool" where
  "is_absolute p \<longleftrightarrow> p \<noteq> [] \<and> hd p = SLASH"

text \<open>\<open>Path::parent\<close> and \<open>Path::join\<close>, for paths that do not end in a slash.\<close>

definition path_parent :: "bytes \<Rightarrow> bytes option" where
  "path_parent p =
     (let q = rev (dropWhile (\<lambda>c. c \<noteq> SLASH) (rev p))
      in if p = [] \<or> p = [SLASH] then None else if q = [] \<or> q = [SLASH] then Some q else Some (butlast q))"

definition path_join :: "bytes \<Rightarrow> bytes \<Rightarrow> bytes" where
  "path_join base p = (if is_absolute p \<or> base = [] then p else if last base = SLASH then base @ p else base @ [SLASH] @ p)"

definition resolve_backing :: "bytes \<Rightarrow> bytes \<Rightarrow> bytes" where
  "resolve_backing image_path name =
     (if is_absolute name then name
      else path_join (case path_parent image_path of Some d \<Rightarrow> d | None \<Rightarrow> [0x2e]) name)"

definition probe_format :: "filesystem \<Rightarrow> bytes \<Rightarrow> DiskError + Format" where
  "probe_format fs path =
     (case fs path of
        None \<Rightarrow> Inl NotFound
      | Some f \<Rightarrow> Inr (if 4 \<le> length f \<and> hdr32 f 0 = QCOW_MAGIC then Qcow2 else Raw))"

definition QCOW2_NAME :: bytes where "QCOW2_NAME = [0x71, 0x63, 0x6f, 0x77, 0x32]"
definition RAW_NAME :: bytes where "RAW_NAME = [0x72, 0x61, 0x77]"

text \<open>\<open>open_backing\<close>, over the function that opens a qcow2 backing file.\<close>

definition open_backing ::
  "inflater \<Rightarrow> filesystem \<Rightarrow> (bytes \<Rightarrow> DiskError + Qcow2Image) \<Rightarrow> bytes \<Rightarrow> Qcow2Image \<Rightarrow> DiskError + Qcow2Image" where
  "open_backing inflate fs open_qcow2 path img =
     (case q_backing img of
        None \<Rightarrow> Inr img
      | Some backing \<Rightarrow>
          let backing_path = resolve_backing path (br_name backing);
              format = (case br_format backing of
                None \<Rightarrow> probe_format fs backing_path
              | Some name \<Rightarrow> if name = QCOW2_NAME then Inr Qcow2 else if name = RAW_NAME then Inr Raw else Inl Unsupported)
          in case format of
               Inl e \<Rightarrow> Inl e
             | Inr Raw \<Rightarrow>
                 (case fs backing_path of None \<Rightarrow> Inl NotFound
                  | Some f \<Rightarrow> Inr (img\<lparr>backing_image := Some (raw_backing (RawImage_open f True))\<rparr>))
             | Inr Qcow2 \<Rightarrow>
                 (case open_qcow2 backing_path of Inl e \<Rightarrow> Inl e
                  | Inr b \<Rightarrow> Inr (img\<lparr>backing_image := Some (backing_of inflate b)\<rparr>)))"

function open_depth :: "inflater \<Rightarrow> filesystem \<Rightarrow> bool \<Rightarrow> nat \<Rightarrow> bytes \<Rightarrow> DiskError + Qcow2Image" where
  "open_depth inflate fs read_only depth path =
     (if MAX_BACKING_DEPTH < depth then Inl Unsupported
      else
        case fs path of None \<Rightarrow> Inl NotFound | Some f \<Rightarrow>
        case parse_image read_only f of Inl e \<Rightarrow> Inl e | Inr img \<Rightarrow>
          open_backing inflate fs (\<lambda>p. open_depth inflate fs True (depth + 1) p) path img)"
  by pat_completeness auto
termination by (relation "measure (\<lambda>(inflate, fs, read_only, depth, path). Suc MAX_BACKING_DEPTH - depth)") auto

declare open_depth.simps [simp del]

definition Qcow2Image_open :: "inflater \<Rightarrow> filesystem \<Rightarrow> bytes \<Rightarrow> bool \<Rightarrow> DiskError + Qcow2Image" where
  "Qcow2Image_open inflate fs path read_only = open_depth inflate fs read_only 0 path"

section \<open>Creating\<close>

definition add_ext :: "u32 \<Rightarrow> bytes \<Rightarrow> bytes \<times> nat \<Rightarrow> bytes \<times> nat" where
  "add_ext et data = (\<lambda>(hc, off).
     (splice (off + 8) data (splice (off + 4) (to_be32 (of_nat (length data))) (splice off (to_be32 et) hc)),
      off + 8 + div_ceil (length data) 8 * 8))"

definition l1_size_as_clusters :: "nat \<Rightarrow> nat \<Rightarrow> nat" where
  "l1_size_as_clusters l1s cs = max (div_ceil (l1s * 8) cs) 1"

definition HEADER_LEN :: nat where "HEADER_LEN = 112"

definition fresh_header :: "nat \<Rightarrow> nat \<Rightarrow> nat \<Rightarrow> bytes" where
  "fresh_header bits sz l1s =
     splice 100 (to_be32 (of_nat HEADER_LEN))
    (splice 96 (to_be32 4)
    (splice 56 (to_be32 1)
    (splice 48 (to_be64 (of_nat (2 ^ bits)))
    (splice 40 (to_be64 (of_nat (3 * 2 ^ bits)))
    (splice 36 (to_be32 (of_nat l1s))
    (splice 24 (to_be64 (of_nat sz))
    (splice 20 (to_be32 (of_nat bits))
    (splice 4 (to_be32 3)
    (splice 0 (to_be32 QCOW_MAGIC) (replicate (2 ^ bits) 0))))))))))"

definition backing_header :: "BackingRef option \<Rightarrow> bytes \<Rightarrow> nat \<Rightarrow> DiskError + bytes" where
  "backing_header backing hc header_len =
     (let (hc1, off) = add_ext EXT_END [] (case Option.bind backing br_format of
            Some fmt \<Rightarrow> add_ext EXT_BACKING_FORMAT fmt (hc, header_len) | None \<Rightarrow> (hc, header_len))
      in case backing of
           None \<Rightarrow> Inr hc1
         | Some b \<Rightarrow>
             if length hc1 < off + length (br_name b) then Inl Unsupported
             else Inr (splice off (br_name b)
                    (splice 16 (to_be32 (of_nat (length (br_name b)))) (splice 8 (to_be64 (of_nat off)) hc1))))"

definition created_image :: "nat \<Rightarrow> nat \<Rightarrow> bytes \<Rightarrow> BackingRef option \<Rightarrow> Qcow2Image" where
  "created_image bits sz hc backing =
     (let cs = 2 ^ bits; l1s = max (div_ceil sz ((cs div 8) * cs)) 1 mod 2 ^ 32
      in \<lparr>q_file = replicate (3 * cs + l1_size_as_clusters l1s cs * cs) 0, q_read_only = False, q_version = 3,
          cluster_bits = bits, q_size = sz, l1_size = l1s, l1_table_offset = 3 * cs,
          refcount_table_offset = cs, refcount_table_clusters = 1, refcount_bits = 16,
          nb_snapshots = 0, snapshots_offset = 0, header_cluster = hc, q_backing = backing, backing_image = None,
          q_l1 = replicate l1s 0, refcount_table = of_nat (2 * cs) # replicate (cs div 8 - 1) 0,
          l2_cache = TableCache_new 64, refblock_cache = TableCache_new 64, free_set = [], scan_next = 0,
          header_dirty = False, l1_dirty = False, refcount_table_dirty = False\<rparr>)"

definition Qcow2Image_create ::
  "nat \<Rightarrow> inflater \<Rightarrow> filesystem \<Rightarrow> bytes \<Rightarrow> nat \<Rightarrow> nat \<Rightarrow> BackingRef option \<Rightarrow> DiskError + Qcow2Image" where
  "Qcow2Image_create n inflate fs path sz bits backing =
     (let cs = 2 ^ bits; l1s = max (div_ceil sz ((cs div 8) * cs)) 1 mod 2 ^ 32
      in if fs path \<noteq> None then Inl AlreadyExists
         else
           case backing_header backing (fresh_header bits sz l1s) HEADER_LEN of Inl e \<Rightarrow> Inl e | Inr hc \<Rightarrow>
           let img = created_image bits sz hc backing
           in case qbind (qfor [0..<3 + l1_size_as_clusters l1s cs] (\<lambda>idx. set_cluster_refcount n idx 1)) (\<lambda>_.
                   qbind (write_file 0 hc) (\<lambda>_.
                   write_file cs (table_bytes (refcount_table img)))) img of
                (Inl e, _) \<Rightarrow> Inl e
              | (Inr _, img') \<Rightarrow> open_backing inflate fs (\<lambda>p. open_depth inflate fs True 1 p) path img')"

definition set_backing :: "bytes \<Rightarrow> bytes option \<Rightarrow> unit qio" where
  "set_backing name format = (\<lambda>s.
     if q_read_only s then (Inl ReadOnly, s)
     else
       let header_len = (if 3 \<le> q_version s then unat (hdr32 (header_cluster s) 100) else 72);
           hc = take header_len (header_cluster s) @ replicate (cluster_size s - header_len) 0
       in if 1023 < length name then (Inl Unsupported, s)
          else
            case backing_header (Some \<lparr>br_name = name, br_format = format\<rparr>) hc header_len of
              Inl e \<Rightarrow> (Inl e, s)
            | Inr hc' \<Rightarrow>
                (Inr (), s\<lparr>header_cluster := hc', q_backing := Some \<lparr>br_name = name, br_format = format\<rparr>,
                   header_dirty := True, backing_image := None\<rparr>))"

end
