(* ===== verification/Qcow2_Snapshot.thy ===== *)
theory Qcow2_Snapshot
  imports Qcow2_Image
begin

text \<open>
  Internal snapshots of a qcow2 image (\<open>hv/crates/vmlab-disk/src/qcow2/snapshot.rs\<close>): the table, and taking,
  reading, going back to and deleting a snapshot. The wall clock is an argument; ids and names are their bytes.
\<close>

section \<open>The snapshot table\<close>

record SnapshotEntry =
  se_l1_table_offset :: nat
  se_l1_size :: nat
  se_id :: bytes
  se_name :: bytes
  se_date_sec :: u32
  se_date_nsec :: u32
  se_vm_clock_nsec :: u64
  se_vm_state_size :: u32
  se_vm_state_size_large :: "u64 option"
  se_disk_size :: "nat option"

record SnapshotInfo =
  si_id :: bytes
  si_name :: bytes
  si_vm_state_size :: nat
  si_date_sec :: nat
  si_date_nsec :: u32
  si_vm_clock_nsec :: u64

definition effective_vm_state_size :: "SnapshotEntry \<Rightarrow> u64" where
  "effective_vm_state_size e = (case se_vm_state_size_large e of Some v \<Rightarrow> v | None \<Rightarrow> ucast (se_vm_state_size e))"

definition SnapshotEntry_info :: "SnapshotEntry \<Rightarrow> SnapshotInfo" where
  "SnapshotEntry_info e = \<lparr>si_id = se_id e, si_name = se_name e, si_vm_state_size = unat (effective_vm_state_size e),
     si_date_sec = unat (se_date_sec e), si_date_nsec = se_date_nsec e, si_vm_clock_nsec = se_vm_clock_nsec e\<rparr>"

definition padded_size :: "SnapshotEntry \<Rightarrow> nat" where
  "padded_size e = div_ceil (40 + 24 + length (se_id e) + length (se_name e)) 8 * 8"

definition serialize :: "SnapshotEntry \<Rightarrow> bytes" where
  "serialize e =
     (let b = to_be64 (of_nat (se_l1_table_offset e)) @ to_be32 (of_nat (se_l1_size e)) @
            to_be16 (of_nat (length (se_id e))) @ to_be16 (of_nat (length (se_name e))) @
            to_be32 (se_date_sec e) @ to_be32 (se_date_nsec e) @ to_be64 (se_vm_clock_nsec e) @
            to_be32 (se_vm_state_size e) @ to_be32 24 @ to_be64 (effective_vm_state_size e) @
            to_be64 (of_nat (case se_disk_size e of Some d \<Rightarrow> d | None \<Rightarrow> 0)) @ to_be64 0 @ se_id e @ se_name e
      in b @ replicate (div_ceil (length b) 8 * 8 - length b) 0)"

definition parse_entry :: "bytes \<Rightarrow> nat \<Rightarrow> DiskError + SnapshotEntry \<times> nat" where
  "parse_entry f off =
     (case file_read f off 40 of Inl e \<Rightarrow> Inl e | Inr fixed \<Rightarrow>
      let id_len = unat (from_be16 (fixed ! 12) (fixed ! 13));
          name_len = unat (from_be16 (fixed ! 14) (fixed ! 15));
          extra = unat (hdr32 fixed 36)
      in case file_read f (off + 40) extra of Inl e \<Rightarrow> Inl e | Inr extra_buf \<Rightarrow>
         case file_read f (off + 40 + extra) (id_len + name_len) of Inl e \<Rightarrow> Inl e | Inr ids \<Rightarrow>
           Inr (\<lparr>se_l1_table_offset = unat (hdr64 fixed 0), se_l1_size = unat (hdr32 fixed 8),
                 se_id = take id_len ids, se_name = drop id_len ids,
                 se_date_sec = hdr32 fixed 16, se_date_nsec = hdr32 fixed 20, se_vm_clock_nsec = hdr64 fixed 24,
                 se_vm_state_size = hdr32 fixed 32,
                 se_vm_state_size_large = (if 8 \<le> extra then Some (hdr64 extra_buf 0) else None),
                 se_disk_size = (if 16 \<le> extra then Some (unat (hdr64 extra_buf 8)) else None)\<rparr>,
                off + div_ceil (40 + extra + id_len + name_len) 8 * 8))"

fun parse_entries :: "nat \<Rightarrow> bytes \<Rightarrow> nat \<Rightarrow> DiskError + SnapshotEntry list" where
  "parse_entries 0 f off = Inr []"
| "parse_entries (Suc k) f off =
     (case parse_entry f off of Inl e \<Rightarrow> Inl e | Inr (entry, off') \<Rightarrow>
      case parse_entries k f off' of Inl e \<Rightarrow> Inl e | Inr entries \<Rightarrow> Inr (entry # entries))"

definition parse_table :: "SnapshotEntry list qio" where
  "parse_table = (\<lambda>s. (parse_entries (nb_snapshots s) (q_file s) (snapshots_offset s), s))"

definition list_snapshots :: "SnapshotInfo list qio" where
  "list_snapshots = qbind parse_table (\<lambda>entries. qret (map SnapshotEntry_info entries))"

definition find_snapshot :: "bytes \<Rightarrow> SnapshotEntry list \<Rightarrow> SnapshotEntry option" where
  "find_snapshot name entries = find (\<lambda>e. se_name e = name \<or> se_id e = name) entries"

definition load_snapshot_l1 :: "bytes \<Rightarrow> (SnapshotInfo \<times> u64 list \<times> nat option) qio" where
  "load_snapshot_l1 name =
     qbind parse_table (\<lambda>entries.
       case find_snapshot name entries of
         None \<Rightarrow> qerr SnapshotNotFound
       | Some e \<Rightarrow>
           qbind (read_file (se_l1_table_offset e) (se_l1_size e * 8)) (\<lambda>b.
           qret (SnapshotEntry_info e, chunks8 b, se_disk_size e)))"

definition install_snapshot_view :: "bytes \<Rightarrow> SnapshotInfo qio" where
  "install_snapshot_view name =
     qbind (load_snapshot_l1 name) (\<lambda>(info, l1, disk_size).
     qbind (qmodify (\<lambda>s. s\<lparr>q_l1 := l1, l1_size := length l1,
              q_size := (case disk_size of Some d \<Rightarrow> d | None \<Rightarrow> q_size s)\<rparr>)) (\<lambda>_. qret info))"

definition l1_bytes_clusters :: "Qcow2Image \<Rightarrow> nat \<Rightarrow> nat" where
  "l1_bytes_clusters s entries = max (div_ceil (entries * 8) (cluster_size s)) 1"

definition old_snapshot_table_clusters :: "nat qio" where
  "old_snapshot_table_clusters =
     qbind parse_table (\<lambda>entries s. (Inr (max (div_ceil (sum_list (map padded_size entries)) (cluster_size s)) 1), s))"

definition rewrite_snapshot_table :: "nat \<Rightarrow> SnapshotEntry list \<Rightarrow> unit qio" where
  "rewrite_snapshot_table n entries = (\<lambda>s.
     let old_offset = snapshots_offset s; cs = cluster_size s; table = concat (map serialize entries)
     in qbind (if old_offset \<noteq> 0 then old_snapshot_table_clusters else qret 0) (\<lambda>old_clusters.
        if table = [] then
          qbind (qmodify (\<lambda>s. s\<lparr>nb_snapshots := 0, snapshots_offset := 0, header_dirty := True\<rparr>)) (\<lambda>_.
          qfor [0..<old_clusters] (\<lambda>idx. dec_refcount n (old_offset div cs + idx)))
        else
          let clusters = div_ceil (length table) cs
          in qbind (alloc_clusters_contiguous n clusters) (\<lambda>new_offset.
             qbind (write_file new_offset (table @ replicate (clusters * cs - length table) 0)) (\<lambda>_.
             qbind (qfor [0..<clusters] (\<lambda>idx. set_cluster_refcount n (new_offset div cs + idx) 1)) (\<lambda>_.
             qbind (qfor [0..<old_clusters] (\<lambda>idx. dec_refcount n (old_offset div cs + idx))) (\<lambda>_.
             qmodify (\<lambda>s. s\<lparr>nb_snapshots := length entries, snapshots_offset := new_offset, header_dirty := True\<rparr>)))))) s)"

text \<open>\<open>id.parse::<u64>()\<close> and \<open>to_string\<close>, on ASCII digits.\<close>

definition is_digit :: "u8 \<Rightarrow> bool" where
  "is_digit c \<longleftrightarrow> 48 \<le> unat c \<and> unat c \<le> 57"

definition parse_u64 :: "bytes \<Rightarrow> nat option" where
  "parse_u64 b =
     (let digits = (case b of c # cs \<Rightarrow> if c = 0x2b then cs else b | [] \<Rightarrow> b);
          v = foldl (\<lambda>a c. a * 10 + (unat c - 48)) 0 digits
      in if digits \<noteq> [] \<and> list_all is_digit digits \<and> v \<le> U64_MAX then Some v else None)"

fun decimal :: "nat \<Rightarrow> bytes" where
  "decimal v = (if v < 10 then [of_nat (48 + v)] else decimal (v div 10) @ [of_nat (48 + v mod 10)])"

declare decimal.simps [simp del]

definition next_snapshot_id :: "SnapshotEntry list \<Rightarrow> bytes" where
  "next_snapshot_id entries = decimal (fold max (List.map_filter (\<lambda>e. parse_u64 (se_id e)) entries) 0 + 1)"

section \<open>The copied bits\<close>

definition wanted_copied :: "nat \<Rightarrow> u64 qio" where
  "wanted_copied host = (\<lambda>s. qbind (get_refcount (host div cluster_size s)) (\<lambda>rc. qret (if rc = 1 then COPIED_BIT else 0)) s)"

definition recopy :: "u64 \<Rightarrow> u64 \<Rightarrow> u64" where
  "recopy entry want = (entry AND NOT COPIED_BIT) OR want"

definition rewrite_copied_entry :: "nat \<Rightarrow> nat \<times> u64 \<Rightarrow> unit qio" where
  "rewrite_copied_entry l2_host = (\<lambda>(l2_index, entry).
     if is_compressed entry \<or> host_of entry = 0 then qret ()
     else
       qbind (wanted_copied (host_of entry)) (\<lambda>want.
       if entry AND COPIED_BIT \<noteq> want then set_l2_entry l2_host l2_index (recopy entry want) else qret ()))"

definition rewrite_copied_l1 :: "nat \<Rightarrow> unit qio" where
  "rewrite_copied_l1 l1_index = (\<lambda>s.
     let e = q_l1 s ! l1_index; l2_host = host_of e
     in if l2_host = 0 then (Inr (), s)
        else
          qbind (wanted_copied l2_host) (\<lambda>want.
          qbind (if e AND COPIED_BIT \<noteq> want
                 then qmodify (\<lambda>s. s\<lparr>q_l1 := (q_l1 s)[l1_index := recopy e want], l1_dirty := True\<rparr>) else qret ()) (\<lambda>_.
          qbind (load_l2 l2_host) (\<lambda>_. qbind (cached_l2 l2_host) (\<lambda>buf.
          qfor (enumerate 0 (chunks8 buf)) (rewrite_copied_entry l2_host))))) s)"

definition rewrite_active_copied_bits :: "unit qio" where
  "rewrite_active_copied_bits = (\<lambda>s. qfor [0..<length (q_l1 s)] rewrite_copied_l1 s)"

section \<open>Taking a snapshot\<close>

definition punch_entry :: "nat \<Rightarrow> nat \<Rightarrow> nat \<Rightarrow> unit qio" where
  "punch_entry n active_l2 l2_index =
     qbind (l2_entry active_l2 l2_index) (\<lambda>entry.
       if entry = 0 then qret ()
       else qbind (drop_reference n entry) (\<lambda>_. set_l2_entry active_l2 l2_index ZERO_BIT))"

definition punch_l1 :: "nat \<Rightarrow> nat \<Rightarrow> nat \<Rightarrow> nat \<Rightarrow> unit qio" where
  "punch_l1 n base stop l1_index = (\<lambda>s.
     let l2e = l2_entries s;
         entry_start = l1_index * l2e * cluster_size s;
         idx_start = (if entry_start < base then (base - entry_start) div cluster_size s else 0);
         idx_end = min ((stop - entry_start) div cluster_size s) l2e
     in if host_of (q_l1 s ! l1_index) = 0 then (Inr (), s)
        else qbind (cow_l2_if_shared n l1_index) (\<lambda>active_l2. qfor [idx_start..<idx_end] (punch_entry n active_l2)) s)"

definition punch_vmstate :: "nat \<Rightarrow> nat \<Rightarrow> unit qio" where
  "punch_vmstate n vm_state_size = (\<lambda>s.
     let base = vmstate_base s; stop = base + vm_state_size
     in qfor [base div 2 ^ l2_index_bits s..<min ((stop - 1) div 2 ^ l2_index_bits s) (length (q_l1 s) - 1) + 1]
          (punch_l1 n base stop) s)"

definition snap_l1_entry :: "u64 \<Rightarrow> u64 qio" where
  "snap_l1_entry e =
     (if host_of e = 0 then qret e else qbind (wanted_copied (host_of e)) (\<lambda>want. qret (recopy e want)))"

fun snap_l1_entries :: "u64 list \<Rightarrow> u64 list qio" where
  "snap_l1_entries [] = qret []"
| "snap_l1_entries (e # es) = qbind (snap_l1_entry e) (\<lambda>e'. qbind (snap_l1_entries es) (\<lambda>es'. qret (e' # es')))"

definition snapshot_create :: "nat \<Rightarrow> bytes \<Rightarrow> nat \<Rightarrow> u64 \<Rightarrow> u32 \<times> u32 \<Rightarrow> unit qio" where
  "snapshot_create n name vm_state_size vm_clock_nsec now = (\<lambda>s.
     if q_read_only s then (Inl ReadOnly, s)
     else if name = [] \<or> 1023 < length name then (Inl Unsupported, s)
     else
       qbind parse_table (\<lambda>entries.
         if \<exists>e \<in> set entries. se_name e = name then qerr Unsupported
         else
           qbind (if 0 < vm_state_size then ensure_l1_covers n (vmstate_base s + vm_state_size) else qret ()) (\<lambda>_.
           qbind (qread q_l1) (\<lambda>snap_l1_pre.
           qbind (walk_refcounts n snap_l1_pre True) (\<lambda>_.
           qbind (if 0 < vm_state_size then punch_vmstate n vm_state_size else qret ()) (\<lambda>_.
           qbind rewrite_active_copied_bits (\<lambda>_.
           qbind (snap_l1_entries snap_l1_pre) (\<lambda>snap_l1 s.
             let clusters = l1_bytes_clusters s (length snap_l1); cs = cluster_size s
             in qbind (alloc_clusters_contiguous n clusters) (\<lambda>snap_offset.
                qbind (write_file snap_offset (table_bytes snap_l1 @ replicate (clusters * cs - length snap_l1 * 8) 0)) (\<lambda>_.
                qbind (qfor [0..<clusters] (\<lambda>idx. set_cluster_refcount n (snap_offset div cs + idx) 1)) (\<lambda>_.
                qbind (rewrite_snapshot_table n (entries @
                   [\<lparr>se_l1_table_offset = snap_offset, se_l1_size = length snap_l1, se_id = next_snapshot_id entries,
                     se_name = name, se_date_sec = fst now, se_date_nsec = snd now, se_vm_clock_nsec = vm_clock_nsec,
                     se_vm_state_size = of_nat (min vm_state_size (2 ^ 32 - 1)),
                     se_vm_state_size_large = Some (of_nat vm_state_size), se_disk_size = Some (q_size s)\<rparr>])) (\<lambda>_.
                flush_metadata)))) s))))))) s)"

section \<open>Going back and deleting\<close>

definition snapshot_apply :: "nat \<Rightarrow> bytes \<Rightarrow> SnapshotInfo qio" where
  "snapshot_apply n name =
     qbind check_writable (\<lambda>_.
     qbind parse_table (\<lambda>entries.
       case find_snapshot name entries of
         None \<Rightarrow> qerr SnapshotNotFound
       | Some e \<Rightarrow>
           qbind (read_file (se_l1_table_offset e) (se_l1_size e * 8)) (\<lambda>b.
           qbind (walk_refcounts n (chunks8 b) True) (\<lambda>_.
           qbind (\<lambda>s. walk_refcounts n (q_l1 s) False s) (\<lambda>_.
           qbind (ensure_l1_size n (se_l1_size e)) (\<lambda>_.
           qbind (qmodify (\<lambda>s. s\<lparr>q_l1 := chunks8 b, l1_size := se_l1_size e,
                    q_size := (case se_disk_size e of Some d \<Rightarrow> d | None \<Rightarrow> q_size s),
                    header_dirty := True, l1_dirty := True\<rparr>)) (\<lambda>_.
           qbind rewrite_active_copied_bits (\<lambda>_.
           qbind flush_metadata (\<lambda>_.
           qret (SnapshotEntry_info e))))))))))"

definition remove_snapshot :: "bytes \<Rightarrow> SnapshotEntry list \<Rightarrow> SnapshotEntry list" where
  "remove_snapshot name entries =
     (let pre = takeWhile (\<lambda>e. \<not> (se_name e = name \<or> se_id e = name)) entries
      in pre @ drop (Suc (length pre)) entries)"

definition snapshot_delete :: "nat \<Rightarrow> bytes \<Rightarrow> unit qio" where
  "snapshot_delete n name =
     qbind check_writable (\<lambda>_.
     qbind parse_table (\<lambda>entries.
       case find_snapshot name entries of
         None \<Rightarrow> qerr SnapshotNotFound
       | Some e \<Rightarrow>
           qbind (read_file (se_l1_table_offset e) (se_l1_size e * 8)) (\<lambda>b.
           qbind (walk_refcounts n (chunks8 b) False) (\<lambda>_.
           qbind (\<lambda>s. qfor [0..<l1_bytes_clusters s (se_l1_size e)]
                    (\<lambda>idx. dec_refcount n (se_l1_table_offset e div cluster_size s + idx)) s) (\<lambda>_.
           qbind (rewrite_snapshot_table n (remove_snapshot name entries)) (\<lambda>_.
           qbind rewrite_active_copied_bits (\<lambda>_.
           flush_metadata)))))))"

end
