(* ===== verification/Qcow2_Cache.thy ===== *)
theory Qcow2_Cache
  imports Qcow2
begin

text \<open>
  The write-back caches of an image are invisible: seen through them, the image is a file of clusters, and
  loading, touching and evicting tables change nothing of it.
\<close>

section \<open>Sequencing\<close>

lemma qbind_Inr: "m s = (Inr a, s') \<Longrightarrow> qbind m f s = f a s'"
  by (simp add: qbind_def)

lemma qret_run [simp]: "qret a s = (Inr a, s)"
  by (simp add: qret_def)

lemma qread_run [simp]: "qread f s = (Inr (f s), s)"
  by (simp add: qread_def)

lemma qmodify_run [simp]: "qmodify f s = (Inr (), f s)"
  by (simp add: qmodify_def)

lemma qerr_run [simp]: "qerr e s = (Inl e, s)"
  by (simp add: qerr_def)

lemma qfor_Cons: "f x s = (Inr (), s') \<Longrightarrow> qfor (x # xs) f s = qfor xs f s'"
  by (simp add: qbind_def)

lemma qfor_writes:
  "\<not> q_read_only s \<Longrightarrow> qfor ws (\<lambda>(h, b). write_file h b) s =
     (Inr (), s\<lparr>q_file := fold (\<lambda>(h, b) f. file_write f h b) ws (q_file s)\<rparr>)"
proof (induction ws arbitrary: s)
  case (Cons w ws)
  obtain h b where w: "w = (h, b)" by (cases w)
  have step: "write_file h b s = (Inr (), s\<lparr>q_file := file_write (q_file s) h b\<rparr>)" using Cons.prems by (simp add: write_file_def)
  have "qfor (w # ws) (\<lambda>(h, b). write_file h b) s =
      qfor ws (\<lambda>(h, b). write_file h b) (s\<lparr>q_file := file_write (q_file s) h b\<rparr>)"
    by (simp add: w qbind_def step)
  also have "\<dots> = (Inr (), s\<lparr>q_file := fold (\<lambda>(h, b) f. file_write f h b) (w # ws) (q_file s)\<rparr>)"
    using Cons.prems by (subst Cons.IH) (simp_all add: w)
  finally show ?case .
qed simp

section \<open>Files\<close>

definition clus :: "nat \<Rightarrow> bytes \<Rightarrow> nat \<Rightarrow> bytes" where
  "clus cs f h = take cs (drop h f)"

lemma length_clus: "h + cs \<le> length f \<Longrightarrow> length (clus cs f h) = cs"
  by (simp add: clus_def)

lemma nth_clus: "i < cs \<Longrightarrow> h + cs \<le> length f \<Longrightarrow> clus cs f h ! i = f ! (h + i)"
  by (simp add: clus_def)

lemma file_read_in: "off + n \<le> length f \<Longrightarrow> file_read f off n = Inr (take n (drop off f))"
  by (simp add: file_read_def)

lemma length_file_write: "length (file_write f off b) = (if b = [] then length f else max (length f) (off + length b))"
  by (auto simp: file_write_def)

lemma nth_file_write:
  assumes "i < length f \<or> (b \<noteq> [] \<and> off \<le> i \<and> i < off + length b)"
  shows "file_write f off b ! i = (if off \<le> i \<and> i < off + length b then b ! (i - off) else f ! i)"
  using assms by (auto simp: file_write_def nth_append min_def)

lemma clus_file_write_other:
  assumes "h + cs \<le> length f" "h + cs \<le> off \<or> off + length b \<le> h"
  shows "clus cs (file_write f off b) h = clus cs f h"
proof (rule nth_equalityI)
  show "length (clus cs (file_write f off b) h) = length (clus cs f h)"
    using assms(1) by (auto simp: clus_def length_file_write)
  fix i
  assume "i < length (clus cs (file_write f off b) h)"
  then have "i < cs" by (simp add: clus_def)
  with assms show "clus cs (file_write f off b) h ! i = clus cs f h ! i"
    by (subst (1 2) nth_clus) (auto simp: nth_file_write length_file_write)
qed

lemma clus_file_write_within:
  assumes "h + cs \<le> length f" "o1 + length b \<le> cs"
  shows "clus cs (file_write f (h + o1) b) h = splice o1 b (clus cs f h)"
proof (rule nth_equalityI)
  show "length (clus cs (file_write f (h + o1) b) h) = length (splice o1 b (clus cs f h))"
    using assms by (simp add: clus_def length_file_write)
  fix i
  assume "i < length (clus cs (file_write f (h + o1) b) h)"
  then have "i < cs" by (simp add: clus_def)
  with assms show "clus cs (file_write f (h + o1) b) h ! i = splice o1 b (clus cs f h) ! i"
    by (subst nth_clus) (auto simp: length_file_write nth_file_write nth_splice length_clus nth_clus)
qed

lemma clus_file_write_same: "length b = cs \<Longrightarrow> clus cs (file_write f h b) h = b"
  by (cases "b = []") (auto simp: clus_def file_write_def)

lemma aligned_apart:
  assumes "cs dvd (a :: nat)" "cs dvd b" "a \<noteq> b"
  shows "a + cs \<le> b \<or> b + cs \<le> a"
proof -
  obtain i j where ij: "a = cs * i" "b = cs * j" using assms(1,2) by (auto simp: dvd_def)
  then have "i \<noteq> j" using assms(3) by auto
  then have "Suc i \<le> j \<or> Suc j \<le> i" by auto
  then have "cs * Suc i \<le> cs * j \<or> cs * Suc j \<le> cs * i" by (meson mult_le_mono2)
  then show ?thesis by (simp add: ij add.commute)
qed

text \<open>Writing back a list of whole clusters.\<close>

definition writeable :: "nat \<Rightarrow> bytes \<Rightarrow> (nat \<times> bytes) list \<Rightarrow> bool" where
  "writeable cs f ws \<longleftrightarrow> (\<forall>(h, b) \<in> set ws. cs dvd h \<and> h + cs \<le> length f \<and> length b = cs)"

lemma write_back:
  assumes "writeable cs f ws" "distinct (map fst ws)"
  shows "length (fold (\<lambda>(h, b) f. file_write f h b) ws f) = length f \<and>
    (\<forall>h. cs dvd h \<longrightarrow> h + cs \<le> length f \<longrightarrow>
      clus cs (fold (\<lambda>(h, b) f. file_write f h b) ws f) h = (case map_of ws h of Some b \<Rightarrow> b | None \<Rightarrow> clus cs f h))"
  using assms
proof (induction ws arbitrary: f)
  case (Cons w ws)
  obtain h0 b0 where w: "w = (h0, b0)" by (cases w)
  let ?f = "file_write f h0 b0"
  have w0: "cs dvd h0" "h0 + cs \<le> length f" "length b0 = cs" using Cons.prems(1) by (auto simp: writeable_def w)
  have len: "length ?f = length f" using w0 by (auto simp: length_file_write)
  have "writeable cs ?f ws" using Cons.prems(1) by (auto simp: writeable_def len)
  moreover have "distinct (map fst ws)" using Cons.prems(2) by simp
  ultimately have IH: "length (fold (\<lambda>(h, b) f. file_write f h b) ws ?f) = length f"
    "\<And>h. cs dvd h \<Longrightarrow> h + cs \<le> length f \<Longrightarrow> clus cs (fold (\<lambda>(h, b) f. file_write f h b) ws ?f) h =
      (case map_of ws h of Some b \<Rightarrow> b | None \<Rightarrow> clus cs ?f h)"
    using Cons.IH [of ?f] len by auto
  have fresh: "map_of ws h0 = None" using Cons.prems(2) by (auto simp: w map_of_eq_None_iff)
  have "clus cs ?f h = (if h = h0 then b0 else clus cs f h)" if "cs dvd h" "h + cs \<le> length f" for h
    using that w0 aligned_apart [OF w0(1) that(1)] by (auto simp: clus_file_write_same clus_file_write_other)
  then show ?case using IH fresh by (auto simp: w split: option.split)
qed simp

section \<open>The table cache\<close>

definition tc_wf :: "TableCache \<Rightarrow> bool" where
  "tc_wf c \<longleftrightarrow> hm_wf (tc_map c) \<and> distinct (tc_order c) \<and> set (tc_order c) = fst ` set (tc_map c) \<and>
     length (tc_map c) \<le> tc_cap c \<and> 0 < tc_cap c"

lemma hm_keys: "k \<in> fst ` set m \<longleftrightarrow> hm_get m k \<noteq> None"
  by (simp add: hm_get_def map_of_eq_None_iff)

lemma hm_get_key: "hm_get m k = Some v \<Longrightarrow> k \<in> fst ` set m"
  by (metis hm_keys option.distinct(1))

lemma tc_wf_new [simp]: "tc_wf (TableCache_new cap)"
  by (simp add: tc_wf_def TableCache_new_def)

lemma keys_insert: "fst ` set (hm_insert k v m) = insert k (fst ` set m)"
  by (rule set_eqI) (auto simp: hm_keys simp del: not_None_eq)

lemma keys_remove: "fst ` set (hm_remove k m) = fst ` set m - {k}"
  by (rule set_eqI) (auto simp: hm_keys simp del: not_None_eq)

lemma length_hm: "hm_wf m \<Longrightarrow> length m = card (fst ` set m)"
  by (metis distinct_card hm_wf_def length_map list.set_map)

lemma TableCache_get_wf:
  assumes "tc_wf c"
  shows "tc_wf (snd (TableCache_get key c))" "tc_map (snd (TableCache_get key c)) = tc_map c"
    "fst (TableCache_get key c) = hm_get (tc_map c) key"
  using assms by (auto simp: TableCache_get_def TableCache_touch_def tc_wf_def hm_contains_def dest: hm_get_key)

lemma make_room_spec:
  assumes "make_room cap m order = (m', order', ev)" "hm_wf m" "distinct order" "set order = fst ` set m" "0 < cap"
  shows "hm_wf m' \<and> distinct order' \<and> set order' = fst ` set m' \<and> length m' < cap \<and>
    (\<forall>k. hm_get m' k = None \<or> hm_get m' k = hm_get m k) \<and>
    (\<forall>k b. (k, b) \<in> set ev \<longleftrightarrow> hm_get m k = Some (b, True) \<and> hm_get m' k = None) \<and> distinct (map fst ev)"
  using assms
proof (induction cap m order arbitrary: m' order' ev rule: make_room.induct)
  case (1 cap m)
  then show ?case by (auto simp: hm_get_def)
next
  case (2 cap m k order)
  show ?case
  proof (cases "length m < cap")
    case True
    then show ?thesis using 2 by (auto simp: hm_get_iff_mem)
  next
    case False
    obtain m1 o1 ev1 where run: "make_room cap (hm_remove k m) order = (m1, o1, ev1)" by (metis prod_cases3)
    have out: "m' = m1" "order' = o1"
      "ev = (case hm_get m k of Some (buf, True) \<Rightarrow> [(k, buf)] | _ \<Rightarrow> []) @ ev1"
      using "2.prems"(1) False by (simp_all add: run)
    have "set order = fst ` set (hm_remove k m)" using "2.prems"(3,4) by (auto simp: keys_remove)
    from "2.IH" [OF False run] this "2.prems" have IH: "hm_wf m1" "distinct o1" "set o1 = fst ` set m1" "length m1 < cap"
      "\<And>j. hm_get m1 j = None \<or> hm_get m1 j = hm_get (hm_remove k m) j"
      "\<And>j b. (j, b) \<in> set ev1 \<longleftrightarrow> hm_get (hm_remove k m) j = Some (b, True) \<and> hm_get m1 j = None" "distinct (map fst ev1)"
      by auto
    have k: "hm_get m1 k = None" using IH(5) [of k] by auto
    have "hm_get m' j = None \<or> hm_get m' j = hm_get m j" for j using IH(5) [of j] by (auto simp: out split: if_splits)
    moreover have "(j, b) \<in> set ev \<longleftrightarrow> hm_get m j = Some (b, True) \<and> hm_get m' j = None" for j b
      using IH(6) [of j b] k by (auto simp: out split: option.splits bool.splits if_splits)
    moreover have "k \<notin> fst ` set ev1" using IH(6) by auto
    then have "distinct (map fst ev)" using IH(7) by (auto simp: out split: option.splits bool.splits)
    ultimately show ?thesis using IH(1-4) out by blast
  qed
qed

lemma TableCache_put_spec:
  assumes "tc_wf c" "hm_get (tc_map c) key = None" "TableCache_put key data d c = (ev, c')"
  shows "tc_wf c'" "hm_get (tc_map c') key = Some (data, d)" "distinct (map fst ev)"
    "\<And>k. k \<noteq> key \<Longrightarrow> hm_get (tc_map c') k = None \<or> hm_get (tc_map c') k = hm_get (tc_map c) k"
    "\<And>k b. (k, b) \<in> set ev \<longleftrightarrow> hm_get (tc_map c) k = Some (b, True) \<and> hm_get (tc_map c') k = None"
proof -
  obtain m o' ev' where run: "make_room (tc_cap c) (tc_map c) (tc_order c) = (m, o', ev')" by (metis prod_cases3)
  have wf: "hm_wf (tc_map c)" "distinct (tc_order c)" "set (tc_order c) = fst ` set (tc_map c)" "0 < tc_cap c"
    using assms(1) by (auto simp: tc_wf_def)
  note spec = make_room_spec [OF run wf]
  have out: "ev = ev'" "tc_map c' = hm_insert key (data, d) m" "tc_order c' = filter (\<lambda>k. k \<noteq> key) o' @ [key]" "tc_cap c' = tc_cap c"
    using assms(2,3) run by (auto simp: TableCache_put_def hm_contains_def TableCache_touch_def)
  have fresh: "hm_get m key = None" using spec assms(2) by metis
  have "length (hm_insert key (data, d) m) = Suc (length m)"
    using spec fresh by (subst (1 2) length_hm) (auto simp: keys_insert hm_keys simp del: not_None_eq)
  then show "tc_wf c'" using spec wf(4) unfolding tc_wf_def out by (auto simp: keys_insert)
  show "hm_get (tc_map c') key = Some (data, d)" by (simp add: out)
  show "distinct (map fst ev)" using spec by (simp add: out)
  show "hm_get (tc_map c') k = None \<or> hm_get (tc_map c') k = hm_get (tc_map c) k" if "k \<noteq> key" for k
    using spec that by (simp add: out)
  show "(k, b) \<in> set ev \<longleftrightarrow> hm_get (tc_map c) k = Some (b, True) \<and> hm_get (tc_map c') k = None" for k b
    using spec assms(2) by (auto simp: out)
qed

section \<open>Packed refcounts\<close>

definition widths :: "nat set" where "widths = {1, 2, 4, 8, 16, 32, 64}"

lemma length_bits_set:
  assumes "w \<in> widths" "(i + 1) * w \<le> length buf * 8"
  shows "length (bits_set buf i w v) = length buf"
  using assms by (auto simp: bits_set_def widths_def Let_def)

lemma bits_small:
  fixes b :: u8
  assumes "sh + w \<le> 8" "sj + w \<le> 8" "sh = sj \<or> sh + w \<le> sj \<or> sj + w \<le> sh"
  shows "drop_bit sj ((b AND NOT (push_bit sh (mask w))) OR push_bit sh (of_nat v AND mask w)) AND mask w =
    (if sh = sj then of_nat v AND mask w else drop_bit sj b AND mask w)"
  using assms by (auto intro!: bit_word_eqI simp: bit_simps)

lemma splice_block_get:
  assumes "length bs = k" "(i + 1) * k \<le> length buf" "(j + 1) * k \<le> length buf" "m < k"
  shows "splice (i * k) bs buf ! (j * k + m) = (if i = j then bs ! m else buf ! (j * k + m))"
proof (cases "i = j")
  case True
  then show ?thesis using assms by (simp add: nth_splice)
next
  case False
  then have "i * k + k \<le> j * k \<or> j * k + k \<le> i * k" using aligned_apart [of k "i * k" "j * k"] assms(4) by auto
  then show ?thesis using assms False by (subst nth_splice) auto
qed

lemma unat_of_nat_mod: "unat (of_nat v :: 'a :: len word) = v mod 2 ^ LENGTH('a)"
  by (simp add: unat_of_nat take_bit_eq_mod)

lemma bits_get_set:
  assumes w: "w \<in> widths" and ij: "(i + 1) * w \<le> length buf * 8" "(j + 1) * w \<le> length buf * 8"
  shows "bits_get (bits_set buf i w v) j w = (if i = j then v mod 2 ^ w else bits_get buf j w)"
proof -
  consider (small) "w \<in> {1, 2, 4, 8}" | (w16) "w = 16" | (w32) "w = 32" | (w64) "w = 64" using w by (auto simp: widths_def)
  then show ?thesis
  proof cases
    case small
    let ?si = "i * w mod 8" and ?sj = "j * w mod 8"
    have dvd: "w dvd 8" "0 < w" using small by auto
    then have al: "w dvd ?si" "w dvd ?sj" by (auto intro: dvd_mod)
    have fits: "s + w \<le> 8" if "w dvd s" "s < 8" for s
      using aligned_apart [OF that(1) dvd(1)] that(2) by auto
    have s8: "?si + w \<le> 8" "?sj + w \<le> 8" using al fits by auto
    have apart: "?si = ?sj \<or> ?si + w \<le> ?sj \<or> ?sj + w \<le> ?si" using aligned_apart [OF al] by auto
    have bi: "i * w div 8 < length buf" "j * w div 8 < length buf" using ij dvd(2) by (auto simp: less_mult_imp_div_less)
    have same: "i = j" if "i * w div 8 = j * w div 8" "?si = ?sj"
      using that dvd(2) by (metis div_mult_mod_eq mult_cancel2 not_gr_zero)
    have val: "unat ((of_nat v :: u8) AND mask w) = v mod 2 ^ w"
      using small unfolding take_bit_eq_mask [symmetric] unsigned_take_bit_eq unat_of_nat
      by (auto simp: take_bit_eq_mod mod_mod_cancel simp del: take_bit_of_nat)
    show ?thesis
    proof (cases "i * w div 8 = j * w div 8")
      case True
      have "bits_get (bits_set buf i w v) j w =
          unat (drop_bit ?sj ((buf ! (j * w div 8) AND NOT (push_bit ?si (mask w))) OR push_bit ?si (of_nat v AND mask w)) AND mask w)"
        using small bi True by (simp add: bits_get_def bits_set_def Let_def)
      also have "\<dots> = (if ?si = ?sj then v mod 2 ^ w else bits_get buf j w)"
        unfolding bits_small [OF s8 apart] using small val by (auto simp: bits_get_def Let_def)
      finally show ?thesis using True same by auto
    next
      case False
      then show ?thesis using small bi by (auto simp: bits_get_def bits_set_def Let_def)
    qed
  next
    case w16
    then have "(i + 1) * 2 \<le> length buf" "(j + 1) * 2 \<le> length buf" using ij by auto
    then show ?thesis
      using splice_block_get [of "to_be16 (of_nat v)" 2 i buf j 0] splice_block_get [of "to_be16 (of_nat v)" 2 i buf j 1] w16
      by (simp add: bits_get_def bits_set_def Let_def) (simp add: to_be16_def unat_of_nat_mod)
  next
    case w32
    then have "(i + 1) * 4 \<le> length buf" "(j + 1) * 4 \<le> length buf" using ij by auto
    then show ?thesis
      using splice_block_get [of "to_be32 (of_nat v)" 4 i buf j 0] splice_block_get [of "to_be32 (of_nat v)" 4 i buf j 1]
        splice_block_get [of "to_be32 (of_nat v)" 4 i buf j 2] splice_block_get [of "to_be32 (of_nat v)" 4 i buf j 3] w32
      by (simp add: bits_get_def bits_set_def Let_def) (simp add: to_be32_def unat_of_nat_mod)
  next
    case w64
    then have *: "(i + 1) * 8 \<le> length buf" "(j + 1) * 8 \<le> length buf" using ij by auto
    have "take 8 (drop (j * 8) (splice (i * 8) (to_be64 (of_nat v)) buf)) =
        (if i = j then to_be64 (of_nat v) else take 8 (drop (j * 8) buf))"
      using * by (intro nth_equalityI) (auto simp: splice_block_get)
    then show ?thesis using w64 by (simp add: bits_get_def bits_set_def unat_of_nat_mod)
  qed
qed

section \<open>The image seen through its caches\<close>

definition rt_host :: "Qcow2Image \<Rightarrow> nat \<Rightarrow> nat" where
  "rt_host s ti = (if ti < length (refcount_table s) then host_of (refcount_table s ! ti) else 0)"

definition rb_hosts :: "Qcow2Image \<Rightarrow> nat set" where
  "rb_hosts s = {h. h \<noteq> 0 \<and> (\<exists>ti. rt_host s ti = h)}"

definition cl :: "Qcow2Image \<Rightarrow> nat set" where
  "cl s = {h. cluster_size s dvd h \<and> h + cluster_size s \<le> length (q_file s)}"

definition rb_index :: "Qcow2Image \<Rightarrow> nat \<Rightarrow> nat option" where
  "rb_index s h = find (\<lambda>ti. rt_host s ti \<noteq> 0 \<and> rt_host s ti = h) [0..<length (refcount_table s)]"

definition rb_get :: "Qcow2Image \<Rightarrow> nat \<Rightarrow> bytes option" where
  "rb_get s h = (case rb_index s h of None \<Rightarrow> None | Some ti \<Rightarrow> map_option fst (hm_get (tc_map (refblock_cache s)) ti))"

definition ov :: "Qcow2Image \<Rightarrow> nat \<Rightarrow> bytes" where
  "ov s h = (case hm_get (tc_map (l2_cache s)) h of Some (b, _) \<Rightarrow> b | None \<Rightarrow>
     (case rb_get s h of Some b \<Rightarrow> b | None \<Rightarrow> clus (cluster_size s) (q_file s) h))"

definition cached_ok :: "Qcow2Image \<Rightarrow> nat \<Rightarrow> bytes \<Rightarrow> bool \<Rightarrow> bool" where
  "cached_ok s h b d \<longleftrightarrow> h \<in> cl s \<and> length b = cluster_size s \<and> (if d then \<not> q_read_only s else b = clus (cluster_size s) (q_file s) h)"

definition coh :: "Qcow2Image \<Rightarrow> bool" where
  "coh s \<longleftrightarrow> tc_wf (l2_cache s) \<and> tc_wf (refblock_cache s) \<and>
     (\<forall>h b d. hm_get (tc_map (l2_cache s)) h = Some (b, d) \<longrightarrow> h \<notin> rb_hosts s \<and> cached_ok s h b d) \<and>
     (\<forall>ti b d. hm_get (tc_map (refblock_cache s)) ti = Some (b, d) \<longrightarrow> rt_host s ti \<noteq> 0 \<and> cached_ok s (rt_host s ti) b d) \<and>
     (\<forall>ti tj. rt_host s ti \<noteq> 0 \<longrightarrow> rt_host s ti = rt_host s tj \<longrightarrow> ti = tj)"

lemma cohD:
  assumes "coh s"
  shows "tc_wf (l2_cache s)" "tc_wf (refblock_cache s)"
    "hm_get (tc_map (l2_cache s)) h = Some (b, d) \<Longrightarrow> h \<notin> rb_hosts s"
    "hm_get (tc_map (l2_cache s)) h = Some (b, d) \<Longrightarrow> cached_ok s h b d"
    "hm_get (tc_map (refblock_cache s)) ti = Some (b, d) \<Longrightarrow> rt_host s ti \<noteq> 0"
    "hm_get (tc_map (refblock_cache s)) ti = Some (b, d) \<Longrightarrow> cached_ok s (rt_host s ti) b d"
    "rt_host s ti \<noteq> 0 \<Longrightarrow> rt_host s ti = rt_host s tj \<Longrightarrow> ti = tj"
  using assms by (auto simp: coh_def)

lemma rb_index_host:
  assumes "coh s" "rt_host s ti \<noteq> 0"
  shows "rb_index s (rt_host s ti) = Some ti"
proof -
  have ti: "ti < length (refcount_table s)" using assms(2) by (auto simp: rt_host_def split: if_splits)
  have "rt_host s j \<noteq> rt_host s ti" if "j < ti" for j
    using that cohD(7) [OF assms(1,2), of j] by auto
  then show ?thesis using ti assms(2) unfolding rb_index_def find_Some_iff by (intro exI [of _ ti]) auto
qed

lemma rb_index_None: "h \<notin> rb_hosts s \<Longrightarrow> rb_index s h = None"
  by (auto simp: rb_index_def find_None_iff rb_hosts_def)

lemma ov_l2: "hm_get (tc_map (l2_cache s)) h = Some (b, d) \<Longrightarrow> ov s h = b"
  by (simp add: ov_def)

lemma ov_rb:
  assumes "coh s" "rt_host s ti \<noteq> 0"
  shows "ov s (rt_host s ti) =
    (case hm_get (tc_map (refblock_cache s)) ti of Some (b, _) \<Rightarrow> b | None \<Rightarrow> clus (cluster_size s) (q_file s) (rt_host s ti))"
proof -
  have "rt_host s ti \<in> rb_hosts s" using assms(2) by (auto simp: rb_hosts_def)
  then have "hm_get (tc_map (l2_cache s)) (rt_host s ti) = None"
    using cohD(3) [OF assms(1), of "rt_host s ti"] by (cases "hm_get (tc_map (l2_cache s)) (rt_host s ti)") auto
  then show ?thesis by (auto simp: ov_def rb_get_def rb_index_host [OF assms] split: option.split)
qed

lemma ov_file: "hm_get (tc_map (l2_cache s)) h = None \<Longrightarrow> h \<notin> rb_hosts s \<Longrightarrow> ov s h = clus (cluster_size s) (q_file s) h"
  by (simp add: ov_def rb_get_def rb_index_None)

lemma ov_length: "coh s \<Longrightarrow> h \<in> cl s \<Longrightarrow> length (ov s h) = cluster_size s"
proof -
  assume s: "coh s" "h \<in> cl s"
  then have c: "length (clus (cluster_size s) (q_file s) h) = cluster_size s" by (auto simp: cl_def length_clus)
  show ?thesis
  proof (cases "h \<in> rb_hosts s")
    case True
    then obtain ti where ti: "h = rt_host s ti" "rt_host s ti \<noteq> 0" by (auto simp: rb_hosts_def)
    then show ?thesis using c cohD(6) [OF s(1), of ti] ov_rb [OF s(1) ti(2)] by (auto simp: cached_ok_def split: option.splits)
  next
    case False
    then show ?thesis
      using c cohD(4) [OF s(1), of h] ov_file [of s h] ov_l2 [of s h]
      by (cases "hm_get (tc_map (l2_cache s)) h") (auto simp: cached_ok_def)
  qed
qed

text \<open>The other fields, and the image behind the caches, are the same.\<close>

definition same_rest :: "Qcow2Image \<Rightarrow> Qcow2Image \<Rightarrow> bool" where
  "same_rest s s' \<longleftrightarrow> s' = s\<lparr>q_file := q_file s', l2_cache := l2_cache s', refblock_cache := refblock_cache s'\<rparr>"

definition eqv :: "Qcow2Image \<Rightarrow> Qcow2Image \<Rightarrow> bool" where
  "eqv s s' \<longleftrightarrow> same_rest s s' \<and> length (q_file s') = length (q_file s) \<and> (\<forall>h \<in> cl s. ov s' h = ov s h)"

lemma same_rest_fields:
  assumes "same_rest s s'"
  shows "q_read_only s' = q_read_only s" "q_version s' = q_version s" "cluster_bits s' = cluster_bits s" "q_size s' = q_size s"
    "l1_size s' = l1_size s" "l1_table_offset s' = l1_table_offset s" "refcount_table_offset s' = refcount_table_offset s"
    "refcount_table_clusters s' = refcount_table_clusters s" "refcount_bits s' = refcount_bits s"
    "nb_snapshots s' = nb_snapshots s" "snapshots_offset s' = snapshots_offset s" "header_cluster s' = header_cluster s"
    "q_backing s' = q_backing s" "backing_image s' = backing_image s" "q_l1 s' = q_l1 s" "refcount_table s' = refcount_table s"
    "free_set s' = free_set s" "scan_next s' = scan_next s" "header_dirty s' = header_dirty s" "l1_dirty s' = l1_dirty s"
    "refcount_table_dirty s' = refcount_table_dirty s" "cluster_size s' = cluster_size s" "refblock_entries s' = refblock_entries s"
    "l2_entries s' = l2_entries s" "rt_host s' = rt_host s" "rb_hosts s' = rb_hosts s"
proof -
  obtain f c r where s': "s' = s\<lparr>q_file := f, l2_cache := c, refblock_cache := r\<rparr>" using assms unfolding same_rest_def by blast
  show "q_read_only s' = q_read_only s" "q_version s' = q_version s" "cluster_bits s' = cluster_bits s" "q_size s' = q_size s"
    "l1_size s' = l1_size s" "l1_table_offset s' = l1_table_offset s" "refcount_table_offset s' = refcount_table_offset s"
    "refcount_table_clusters s' = refcount_table_clusters s" "refcount_bits s' = refcount_bits s"
    "nb_snapshots s' = nb_snapshots s" "snapshots_offset s' = snapshots_offset s" "header_cluster s' = header_cluster s"
    "q_backing s' = q_backing s" "backing_image s' = backing_image s" "q_l1 s' = q_l1 s" "refcount_table s' = refcount_table s"
    "free_set s' = free_set s" "scan_next s' = scan_next s" "header_dirty s' = header_dirty s" "l1_dirty s' = l1_dirty s"
    "refcount_table_dirty s' = refcount_table_dirty s"
    by (simp_all add: s')
  show "cluster_size s' = cluster_size s" "refblock_entries s' = refblock_entries s" "l2_entries s' = l2_entries s"
    by (simp_all add: s' cluster_size_def refblock_entries_def l2_entries_def)
  show "rt_host s' = rt_host s" by (rule ext) (simp add: s' rt_host_def)
  then show "rb_hosts s' = rb_hosts s" by (simp add: rb_hosts_def)
qed

lemma same_rest_refl [simp]: "same_rest s s"
  by (simp add: same_rest_def)

lemma same_restI: "same_rest s (s\<lparr>q_file := f, l2_cache := c, refblock_cache := r\<rparr>)"
  by (simp add: same_rest_def)

lemma same_rest_trans:
  assumes "same_rest s t" "same_rest t u"
  shows "same_rest s u"
proof -
  obtain f c r where t: "t = s\<lparr>q_file := f, l2_cache := c, refblock_cache := r\<rparr>" using assms(1) unfolding same_rest_def by blast
  obtain f' c' r' where "u = t\<lparr>q_file := f', l2_cache := c', refblock_cache := r'\<rparr>" using assms(2) unfolding same_rest_def by blast
  then have "u = s\<lparr>q_file := f', l2_cache := c', refblock_cache := r'\<rparr>" by (simp add: t)
  then show ?thesis by (simp add: same_restI)
qed

lemma cl_same: "same_rest s s' \<Longrightarrow> length (q_file s') = length (q_file s) \<Longrightarrow> cl s' = cl s"
  by (simp add: cl_def same_rest_fields)

lemma eqv_refl [simp]: "eqv s s"
  by (simp add: eqv_def)

lemma eqvD: "eqv s s' \<Longrightarrow> same_rest s s'" "eqv s s' \<Longrightarrow> cl s' = cl s" "eqv s s' \<Longrightarrow> h \<in> cl s \<Longrightarrow> ov s' h = ov s h"
  by (auto simp: eqv_def cl_same)

lemma eqv_trans: "eqv s t \<Longrightarrow> eqv t u \<Longrightarrow> eqv s u"
  unfolding eqv_def using cl_same [of s t] same_rest_trans [of s t u] by simp

lemma ov_cong:
  assumes "same_rest s s'" "tc_map (refblock_cache s') = tc_map (refblock_cache s)"
    "hm_get (tc_map (l2_cache s')) h = hm_get (tc_map (l2_cache s)) h"
    "clus (cluster_size s) (q_file s') h = clus (cluster_size s) (q_file s) h"
  shows "ov s' h = ov s h"
  by (simp only: ov_def rb_get_def rb_index_def same_rest_fields [OF assms(1)] assms(2-4))

text \<open>Reordering a cache changes nothing.\<close>

lemma touch_l2:
  assumes "tc_map c = tc_map (l2_cache s)"
  shows "ov (s\<lparr>l2_cache := c\<rparr>) = ov s" "eqv s (s\<lparr>l2_cache := c\<rparr>)" "coh s \<Longrightarrow> tc_wf c \<Longrightarrow> coh (s\<lparr>l2_cache := c\<rparr>)"
proof -
  have rest: "same_rest s (s\<lparr>l2_cache := c\<rparr>)" by (simp add: same_rest_def)
  show ov: "ov (s\<lparr>l2_cache := c\<rparr>) = ov s"
    by (rule ext, rule ov_cong [OF rest]) (simp_all add: assms)
  show "eqv s (s\<lparr>l2_cache := c\<rparr>)" using rest by (simp add: eqv_def ov)
  have "cached_ok (s\<lparr>l2_cache := c\<rparr>) = cached_ok s"
    by (intro ext) (simp add: cached_ok_def cl_def same_rest_fields [OF rest])
  then show "coh (s\<lparr>l2_cache := c\<rparr>)" if "coh s" "tc_wf c"
    using that by (simp add: coh_def same_rest_fields [OF rest] assms)
qed

lemma touch_rb:
  assumes "tc_map c = tc_map (refblock_cache s)"
  shows "ov (s\<lparr>refblock_cache := c\<rparr>) = ov s" "eqv s (s\<lparr>refblock_cache := c\<rparr>)"
    "coh s \<Longrightarrow> tc_wf c \<Longrightarrow> coh (s\<lparr>refblock_cache := c\<rparr>)"
proof -
  have rest: "same_rest s (s\<lparr>refblock_cache := c\<rparr>)" by (simp add: same_rest_def)
  show ov: "ov (s\<lparr>refblock_cache := c\<rparr>) = ov s"
    by (rule ext, rule ov_cong [OF rest]) (simp_all add: assms)
  show "eqv s (s\<lparr>refblock_cache := c\<rparr>)" using rest by (simp add: eqv_def ov)
  have "cached_ok (s\<lparr>refblock_cache := c\<rparr>) = cached_ok s"
    by (intro ext) (simp add: cached_ok_def cl_def same_rest_fields [OF rest])
  then show "coh (s\<lparr>refblock_cache := c\<rparr>)" if "coh s" "tc_wf c"
    using that by (simp add: coh_def same_rest_fields [OF rest] assms)
qed

text \<open>A table read into a cache, with the tables evicted for it written back.\<close>

lemma evict_l2:
  assumes s: "coh s" "h \<in> cl s" "h \<notin> rb_hosts s" and miss: "hm_get (tc_map (l2_cache s)) h = None"
    and put: "TableCache_put h (clus (cluster_size s) (q_file s) h) False (l2_cache s) = (ev, c')"
    and s': "s' = s\<lparr>l2_cache := c', q_file := fold (\<lambda>(h, b) f. file_write f h b) ev (q_file s)\<rparr>"
  shows "eqv s s'" "coh s'" "\<not> q_read_only s \<or> ev = []"
proof -
  let ?cs = "cluster_size s" and ?m = "tc_map (l2_cache s)" and ?m' = "tc_map c'"
  note putD = TableCache_put_spec [OF cohD(1) [OF s(1)] miss put]
  have ev: "hm_get ?m k = Some (b, True)" "hm_get ?m' k = None" if "(k, b) \<in> set ev" for k b using putD(5) that by auto
  have "writeable ?cs (q_file s) ev"
    using ev(1) cohD(4) [OF s(1)] by (fastforce simp: writeable_def cached_ok_def cl_def)
  note wb = write_back [OF this putD(3)]
  have rest: "same_rest s s'" by (simp add: same_rest_def s')
  note fields = same_rest_fields [OF rest]
  have len: "length (q_file s') = length (q_file s)" using wb by (simp add: s')
  have clus: "clus ?cs (q_file s') k = (case map_of ev k of Some b \<Rightarrow> b | None \<Rightarrow> clus ?cs (q_file s) k)" if "k \<in> cl s" for k
    using wb that by (auto simp: s' cl_def)
  have ev_of: "map_of ev k = (case hm_get ?m k of Some (b, True) \<Rightarrow> if hm_get ?m' k = None then Some b else None | _ \<Rightarrow> None)" for k
    using putD(3,5) by (auto simp: map_of_eq_None_iff split: option.splits bool.splits intro: map_of_is_SomeI)
  show "\<not> q_read_only s \<or> ev = []"
  proof (cases ev)
    case (Cons e es)
    then obtain k b where "(k, b) \<in> set ev" by (cases e) auto
    with ev(1) cohD(4) [OF s(1)] show ?thesis by (fastforce simp: cached_ok_def)
  qed simp
  have no_rb: "map_of ev k = None" if "k \<in> rb_hosts s" for k
    using cohD(3) [OF s(1), of k] that by (auto simp: ev_of split: option.splits bool.splits)
  have same: "ov s' k = ov s k" if k: "k \<in> cl s" for k
  proof (cases "k \<in> rb_hosts s")
    case True
    then have "k \<noteq> h" "hm_get ?m k = None" using s(3) cohD(3) [OF s(1), of k] by (auto, cases "hm_get ?m k", auto)
    moreover from this have "hm_get ?m' k = None" using putD(4) [of k] by auto
    moreover have "clus ?cs (q_file s') k = clus ?cs (q_file s) k" using clus [OF k] no_rb [OF True] by simp
    ultimately show ?thesis by (intro ov_cong [OF rest]) (simp_all add: s')
  next
    case False
    show ?thesis
    proof (cases "hm_get ?m' k")
      case None
      then have "ov s' k = clus ?cs (q_file s') k" using ov_file [of s' k] False by (simp add: fields) (simp add: s')
      moreover have "hm_get ?m k = Some (b, False) \<Longrightarrow> b = clus ?cs (q_file s) k" for b
        using cohD(4) [OF s(1), of k b False] by (simp add: cached_ok_def)
      ultimately show ?thesis using clus [OF k] None ov_file [OF _ False] ov_l2 [of s k]
        by (auto simp: ev_of split: option.splits bool.splits)
    next
      case (Some e)
      then show ?thesis using putD(2) putD(4) [of k] miss ov_file [OF miss s(3)] ov_l2 [of s k]
        by (cases "k = h"; cases e) (auto simp: s' ov_def split: option.splits)
    qed
  qed
  then show "eqv s s'" using rest len by (simp add: eqv_def)
  have cl': "cl s' = cl s" using rest len by (rule cl_same)
  show "coh s'" unfolding coh_def fields
  proof (intro conjI allI impI)
    show "tc_wf (l2_cache s')" "tc_wf (refblock_cache s')" using putD(1) cohD(2) [OF s(1)] by (simp_all add: s')
    fix k b d
    assume a: "hm_get (tc_map (l2_cache s')) k = Some (b, d)"
    then have g: "hm_get ?m' k = Some (b, d)" by (simp add: s')
    then have none: "map_of ev k = None" by (auto simp: ev_of split: option.splits bool.splits)
    have old: "k = h \<and> b = clus ?cs (q_file s) h \<and> \<not> d \<or> hm_get ?m k = Some (b, d)"
      using g putD(2) putD(4) [of k] by (cases "k = h") auto
    then show "k \<notin> rb_hosts s" using s(3) cohD(3) [OF s(1)] by auto
    from old show "cached_ok s' k b d"
    proof (elim disjE)
      assume "k = h \<and> b = clus ?cs (q_file s) h \<and> \<not> d"
      then show ?thesis using s(2) clus [OF s(2)] none len by (auto simp: cached_ok_def cl' fields length_clus cl_def)
    next
      assume "hm_get ?m k = Some (b, d)"
      from cohD(4) [OF s(1) this] show ?thesis using clus [of k] none by (auto simp: cached_ok_def cl' fields split: if_splits)
    qed
  next
    fix ti b d
    assume "hm_get (tc_map (refblock_cache s')) ti = Some (b, d)"
    then have g: "hm_get (tc_map (refblock_cache s)) ti = Some (b, d)" by (simp add: s')
    show nz: "rt_host s ti \<noteq> 0" using cohD(5) [OF s(1) g] .
    then have "map_of ev (rt_host s ti) = None" using no_rb by (auto simp: rb_hosts_def)
    then show "cached_ok s' (rt_host s ti) b d"
      using cohD(6) [OF s(1) g] clus [of "rt_host s ti"] by (auto simp: cached_ok_def cl' fields split: if_splits)
  next
    show "ti = tj" if "rt_host s ti \<noteq> 0" "rt_host s ti = rt_host s tj" for ti tj using cohD(7) [OF s(1) that] .
  qed
qed

lemma load_l2_ok:
  assumes s: "coh s" "h \<in> cl s" "h \<notin> rb_hosts s"
  obtains s' d where "load_l2 h s = (Inr (), s')" "eqv s s'" "coh s'"
    "hm_get (tc_map (l2_cache s')) h = Some (ov s h, d)" "refblock_cache s' = refblock_cache s"
    "\<And>k. k \<noteq> h \<Longrightarrow> hm_get (tc_map (l2_cache s')) k \<noteq> None \<Longrightarrow> hm_get (tc_map (l2_cache s)) k \<noteq> None"
proof (cases "hm_get (tc_map (l2_cache s)) h")
  case (Some e)
  obtain b d where e: "e = (b, d)" by (cases e)
  let ?c = "snd (TableCache_get h (l2_cache s))"
  note get = TableCache_get_wf [OF cohD(1) [OF s(1)], of h]
  have run: "load_l2 h s = (Inr (), s\<lparr>l2_cache := ?c\<rparr>)"
    using Some get(3) by (auto simp: load_l2_def split: prod.split)
  show thesis using Some e get(1,2)
    by (intro that [OF run touch_l2(2) touch_l2(3) [OF _ s(1)], of d]) (auto simp: ov_l2)
next
  case None
  let ?c = "snd (TableCache_get h (l2_cache s))" and ?cs = "cluster_size s"
  note get = TableCache_get_wf [OF cohD(1) [OF s(1)], of h]
  have same: "?c = l2_cache s" using None by (simp add: TableCache_get_def hm_contains_def)
  obtain ev c' where put: "TableCache_put h (clus ?cs (q_file s) h) False (l2_cache s) = (ev, c')" by (cases "TableCache_put h (clus ?cs (q_file s) h) False (l2_cache s)")
  let ?s = "s\<lparr>l2_cache := c', q_file := fold (\<lambda>(h, b) f. file_write f h b) ev (q_file s)\<rparr>"
  note ok = evict_l2 [OF s None put refl]
  note putD = TableCache_put_spec [OF cohD(1) [OF s(1)] None put]
  have writes: "qfor ev (\<lambda>(h, table). write_file h table) (s\<lparr>l2_cache := c'\<rparr>) = (Inr (), ?s)"
    using ok(3) qfor_writes [of "s\<lparr>l2_cache := c'\<rparr>" ev] by auto
  have read: "read_file h ?cs s = (Inr (clus ?cs (q_file s) h), s)"
    using s(2) by (simp add: read_file_def file_read_in cl_def clus_def)
  have run: "load_l2 h s = (Inr (), ?s)"
    using None get(3) put read same writes by (auto simp: load_l2_def qbind_def split: prod.split)
  have ov: "ov s h = clus ?cs (q_file s) h" by (rule ov_file [OF None s(3)])
  have keys: "hm_get (tc_map (l2_cache s)) k \<noteq> None" if "k \<noteq> h" "hm_get (tc_map (l2_cache ?s)) k \<noteq> None" for k
    using putD(4) [OF that(1)] that(2) by auto
  show thesis by (rule that [OF run ok(1,2), of False, OF _ _ keys]) (use putD(2) in \<open>auto simp: ov\<close>)
qed

lemma cached_l2_ok:
  assumes "coh s" "hm_get (tc_map (l2_cache s)) h = Some (b, d)"
  obtains s' where "cached_l2 h s = (Inr b, s')" "eqv s s'" "coh s'" "tc_map (l2_cache s') = tc_map (l2_cache s)"
    "refblock_cache s' = refblock_cache s"
proof -
  note get = TableCache_get_wf [OF cohD(1) [OF assms(1)], of h]
  have run: "cached_l2 h s = (Inr b, s\<lparr>l2_cache := snd (TableCache_get h (l2_cache s))\<rparr>)"
    using assms(2) get(3) by (auto simp: cached_l2_def split: prod.split)
  show thesis by (rule that [OF run touch_l2(2) touch_l2(3)]) (use get assms in auto)
qed

text \<open>The content of a table, read through the cache.\<close>

lemma table_read_ok:
  assumes s: "coh s" "h \<in> cl s" "h \<notin> rb_hosts s"
  obtains s' where "qbind (load_l2 h) (\<lambda>_. cached_l2 h) s = (Inr (ov s h), s')" "eqv s s'" "coh s'"
    "refblock_cache s' = refblock_cache s"
    "\<And>k. k \<noteq> h \<Longrightarrow> hm_get (tc_map (l2_cache s')) k \<noteq> None \<Longrightarrow> hm_get (tc_map (l2_cache s)) k \<noteq> None"
proof -
  obtain s1 d where one: "load_l2 h s = (Inr (), s1)" "eqv s s1" "coh s1"
    "hm_get (tc_map (l2_cache s1)) h = Some (ov s h, d)" "refblock_cache s1 = refblock_cache s"
    "\<And>k. k \<noteq> h \<Longrightarrow> hm_get (tc_map (l2_cache s1)) k \<noteq> None \<Longrightarrow> hm_get (tc_map (l2_cache s)) k \<noteq> None"
    using load_l2_ok [OF s] by metis
  obtain s2 where two: "cached_l2 h s1 = (Inr (ov s h), s2)" "eqv s1 s2" "coh s2" "tc_map (l2_cache s2) = tc_map (l2_cache s1)"
    "refblock_cache s2 = refblock_cache s1"
    using cached_l2_ok [OF one(3,4)] by metis
  show thesis
  proof (rule that)
    show "qbind (load_l2 h) (\<lambda>_. cached_l2 h) s = (Inr (ov s h), s2)" by (simp add: qbind_def one(1) two(1))
    show "eqv s s2" using eqv_trans [OF one(2) two(2)] .
  qed (use one two in auto)
qed

lemma refblock_host_run: "rt_host s ti \<noteq> 0 \<Longrightarrow> refblock_host ti s = (Inr (rt_host s ti), s)"
  by (auto simp: refblock_host_def rt_host_def split: if_splits)

lemma qfor_rb_writes:
  assumes "\<not> q_read_only s \<or> ws = []" "\<And>ti b. (ti, b) \<in> set ws \<Longrightarrow> rt_host s ti \<noteq> 0"
  shows "qfor ws (\<lambda>(ti, b). qbind (refblock_host ti) (\<lambda>h. write_file h b)) s =
    (Inr (), s\<lparr>q_file := fold (\<lambda>(h, b) f. file_write f h b) (map (\<lambda>(ti, b). (rt_host s ti, b)) ws) (q_file s)\<rparr>)"
  using assms
proof (induction ws arbitrary: s)
  case (Cons w ws)
  obtain ti b where w: "w = (ti, b)" by (cases w)
  let ?s = "s\<lparr>q_file := file_write (q_file s) (rt_host s ti) b\<rparr>"
  have nz: "rt_host s ti \<noteq> 0" using Cons.prems(2) [of ti b] by (simp add: w)
  have rt: "rt_host ?s = rt_host s" by (rule ext) (simp add: rt_host_def)
  have IH: "qfor ws (\<lambda>(ti, b). qbind (refblock_host ti) (\<lambda>h. write_file h b)) ?s =
      (Inr (), ?s\<lparr>q_file := fold (\<lambda>(h, b) f. file_write f h b) (map (\<lambda>(ti, b). (rt_host s ti, b)) ws) (q_file ?s)\<rparr>)"
    using Cons.IH [of ?s] Cons.prems unfolding rt by auto
  have step: "write_file (rt_host s ti) b s = (Inr (), ?s)" using Cons.prems(1) by (simp add: write_file_def)
  let ?F = "\<lambda>(ti, b). qbind (refblock_host ti) (\<lambda>h. write_file h b)"
  have eq: "qfor (w # ws) ?F s = qfor ws ?F ?s"
    by (rule qfor_Cons) (simp add: w qbind_def refblock_host_run [OF nz] step)
  show ?case unfolding eq IH by (simp add: w)
qed simp

lemma evict_rb:
  assumes s: "coh s" "rt_host s t0 \<noteq> 0" "rt_host s t0 \<in> cl s" and miss: "hm_get (tc_map (refblock_cache s)) t0 = None"
    and put: "TableCache_put t0 (clus (cluster_size s) (q_file s) (rt_host s t0)) False (refblock_cache s) = (ev, c')"
    and s': "s' = s\<lparr>refblock_cache := c', q_file := fold (\<lambda>(h, b) f. file_write f h b) (map (\<lambda>(ti, b). (rt_host s ti, b)) ev) (q_file s)\<rparr>"
  shows "eqv s s'" "coh s'" "\<not> q_read_only s \<or> ev = []"
proof -
  let ?cs = "cluster_size s" and ?m = "tc_map (refblock_cache s)" and ?m' = "tc_map c'"
  let ?ws = "map (\<lambda>(ti, b). (rt_host s ti, b)) ev"
  note putD = TableCache_put_spec [OF cohD(2) [OF s(1)] miss put]
  have ev: "hm_get ?m k = Some (b, True)" "hm_get ?m' k = None" if "(k, b) \<in> set ev" for k b using putD(5) that by auto
  have nz: "rt_host s k \<noteq> 0" if "(k, b) \<in> set ev" for k b using cohD(5) [OF s(1) ev(1) [OF that]] .
  have "writeable ?cs (q_file s) ?ws"
    using ev(1) cohD(6) [OF s(1)] by (fastforce simp: writeable_def cached_ok_def cl_def)
  moreover have "inj_on (rt_host s) (fst ` set ev)" using nz cohD(7) [OF s(1)] by (fastforce intro: inj_onI)
  then have "distinct (map fst ?ws)"
    using putD(3) by (simp add: case_prod_unfold comp_def distinct_map [of "rt_host s" "map fst ev", simplified, unfolded comp_def])
  ultimately have wb: "length (fold (\<lambda>(h, b) f. file_write f h b) ?ws (q_file s)) = length (q_file s)"
    "\<And>h. ?cs dvd h \<Longrightarrow> h + ?cs \<le> length (q_file s) \<Longrightarrow>
      clus ?cs (fold (\<lambda>(h, b) f. file_write f h b) ?ws (q_file s)) h = (case map_of ?ws h of Some b \<Rightarrow> b | None \<Rightarrow> clus ?cs (q_file s) h)"
    and dist: "distinct (map fst ?ws)"
    using write_back [of ?cs "q_file s" ?ws] by auto
  have rest: "same_rest s s'" by (simp add: same_rest_def s')
  note fields = same_rest_fields [OF rest]
  have len: "length (q_file s') = length (q_file s)" using wb by (simp add: s')
  have clus: "clus ?cs (q_file s') k = (case map_of ?ws k of Some b \<Rightarrow> b | None \<Rightarrow> clus ?cs (q_file s) k)" if "k \<in> cl s" for k
    using wb(2) [of k] that by (auto simp: s' cl_def)
  have ws_of: "map_of ?ws (rt_host s ti) = Some b \<longleftrightarrow> hm_get ?m ti = Some (b, True) \<and> hm_get ?m' ti = None"
    if "rt_host s ti \<noteq> 0" for ti b
  proof -
    have "(rt_host s ti, b) \<in> set ?ws \<longleftrightarrow> (ti, b) \<in> set ev"
    proof
      assume "(rt_host s ti, b) \<in> set ?ws"
      then obtain tj where "(tj, b) \<in> set ev" "rt_host s ti = rt_host s tj" by auto
      with cohD(7) [OF s(1) that, of tj] show "(ti, b) \<in> set ev" by simp
    next
      assume "(ti, b) \<in> set ev"
      then show "(rt_host s ti, b) \<in> set ?ws" unfolding set_map by (rule rev_image_eqI) simp
    qed
    then show ?thesis using map_of_eq_Some_iff [OF dist] putD(5) [of ti b] by simp
  qed
  have ws_none: "map_of ?ws k = None" if "k \<notin> rb_hosts s" for k
    using that nz by (auto simp: map_of_eq_None_iff rb_hosts_def image_iff) (metis less_numeral_extra(3))
  show "\<not> q_read_only s \<or> ev = []"
  proof (cases ev)
    case (Cons e es)
    then obtain k b where "(k, b) \<in> set ev" by (cases e) auto
    from cohD(6) [OF s(1) ev(1) [OF this]] show ?thesis by (simp add: cached_ok_def)
  qed simp
  have cl': "cl s' = cl s" using rest len by (rule cl_same)
  show coh': "coh s'" unfolding coh_def fields
  proof (intro conjI allI impI)
    show "tc_wf (l2_cache s')" "tc_wf (refblock_cache s')" using putD(1) cohD(1) [OF s(1)] by (simp_all add: s')
    fix k b d
    assume "hm_get (tc_map (l2_cache s')) k = Some (b, d)"
    then have g: "hm_get (tc_map (l2_cache s)) k = Some (b, d)" by (simp add: s')
    show nr: "k \<notin> rb_hosts s" using cohD(3) [OF s(1) g] .
    show "cached_ok s' k b d"
      using cohD(4) [OF s(1) g] clus [of k] ws_none [OF nr] by (auto simp: cached_ok_def cl' fields split: if_splits)
  next
    fix ti b d
    assume "hm_get (tc_map (refblock_cache s')) ti = Some (b, d)"
    then have g: "hm_get ?m' ti = Some (b, d)" by (simp add: s')
    have old: "ti = t0 \<and> b = clus ?cs (q_file s) (rt_host s t0) \<and> \<not> d \<or> hm_get ?m ti = Some (b, d)"
      using g putD(2) putD(4) [of ti] by (cases "ti = t0") auto
    then show nzt: "rt_host s ti \<noteq> 0" using s(2) cohD(5) [OF s(1)] by auto
    have none: "map_of ?ws (rt_host s ti) = None" using ws_of [OF nzt] g by (cases "map_of ?ws (rt_host s ti)") auto
    from old show "cached_ok s' (rt_host s ti) b d"
    proof (elim disjE)
      assume a: "ti = t0 \<and> b = clus ?cs (q_file s) (rt_host s t0) \<and> \<not> d"
      then show ?thesis using s(3) clus [OF s(3)] none len by (auto simp: cached_ok_def cl' fields length_clus cl_def)
    next
      assume "hm_get ?m ti = Some (b, d)"
      from cohD(6) [OF s(1) this] show ?thesis using clus [of "rt_host s ti"] none by (auto simp: cached_ok_def cl' fields split: if_splits)
    qed
  next
    show "ti = tj" if "rt_host s ti \<noteq> 0" "rt_host s ti = rt_host s tj" for ti tj using cohD(7) [OF s(1) that] .
  qed
  have "ov s' k = ov s k" if k: "k \<in> cl s" for k
  proof (cases "k \<in> rb_hosts s")
    case True
    then obtain ti where ti: "k = rt_host s ti" "rt_host s ti \<noteq> 0" by (auto simp: rb_hosts_def)
    have clean: "b = clus ?cs (q_file s) k" if "hm_get ?m ti = Some (b, False)" for b
      using cohD(6) [OF s(1) that] by (simp add: cached_ok_def ti)
    have new: "ov s' k = (case hm_get ?m' ti of Some (b, _) \<Rightarrow> b | None \<Rightarrow> clus ?cs (q_file s') k)"
    proof -
      have c: "refblock_cache s' = c'" by (simp add: s')
      show ?thesis using ov_rb [OF coh', of ti] ti(2) unfolding fields c ti(1) by blast
    qed
    have old: "ov s k = (case hm_get ?m ti of Some (b, _) \<Rightarrow> b | None \<Rightarrow> clus ?cs (q_file s) k)"
      using ov_rb [OF s(1) ti(2)] unfolding ti(1) by blast
    show ?thesis
    proof (cases "hm_get ?m' ti")
      case None
      then have gone: "map_of ?ws k = Some b \<longleftrightarrow> hm_get ?m ti = Some (b, True)" for b using ws_of [OF ti(2)] ti(1) by simp
      show ?thesis
      proof (cases "hm_get ?m ti")
        case None': None
        then have "map_of ?ws k = None" using gone by (cases "map_of ?ws k") auto
        then show ?thesis using clus [OF k] by (simp add: new old None None')
      next
        case (Some e)
        obtain b d where e: "e = (b, d)" by (cases e)
        show ?thesis
        proof (cases d)
          case True
          then have "map_of ?ws k = Some b" using gone Some e by simp
          then show ?thesis using clus [OF k] by (simp add: new old None Some e)
        next
          case False
          then have "map_of ?ws k = None" using gone Some e by (cases "map_of ?ws k") auto
          then show ?thesis using clus [OF k] clean [of b] False by (simp add: new old None Some e)
        qed
      qed
    next
      case (Some e)
      show ?thesis
      proof (cases "ti = t0")
        case True
        then show ?thesis using putD(2) miss ti(1) unfolding new old by simp
      next
        case False
        then have "hm_get ?m ti = Some e" using putD(4) [of ti] Some by simp
        then show ?thesis by (simp add: new old Some)
      qed
    qed
  next
    case False
    show ?thesis
    proof (cases "hm_get (tc_map (l2_cache s)) k")
      case None
      have "ov s' k = clus ?cs (q_file s') k" using ov_file [of s' k] None False by (simp add: fields) (simp add: s')
      then show ?thesis using ov_file [OF None False] clus [OF k] ws_none [OF False] by simp
    next
      case (Some e)
      then show ?thesis by (cases e) (simp add: ov_def s')
    qed
  qed
  then show "eqv s s'" using rest len by (simp add: eqv_def)
qed

lemma load_refblock_ok:
  assumes s: "coh s" "rt_host s ti \<noteq> 0" "rt_host s ti \<in> cl s"
  obtains s' d where "load_refblock ti s = (Inr (), s')" "eqv s s'" "coh s'"
    "hm_get (tc_map (refblock_cache s')) ti = Some (ov s (rt_host s ti), d)" "l2_cache s' = l2_cache s"
proof (cases "hm_get (tc_map (refblock_cache s)) ti")
  case (Some e)
  obtain b d where e: "e = (b, d)" by (cases e)
  let ?c = "snd (TableCache_get ti (refblock_cache s))"
  note get = TableCache_get_wf [OF cohD(2) [OF s(1)], of ti]
  have run: "load_refblock ti s = (Inr (), s\<lparr>refblock_cache := ?c\<rparr>)"
    using Some get(3) by (auto simp: load_refblock_def split: prod.split)
  show thesis using Some e get(1,2)
    by (intro that [OF run touch_rb(2) touch_rb(3) [OF _ s(1)], of d]) (auto simp: ov_rb [OF s(1,2)])
next
  case None
  let ?c = "snd (TableCache_get ti (refblock_cache s))" and ?cs = "cluster_size s" and ?h = "rt_host s ti"
  note get = TableCache_get_wf [OF cohD(2) [OF s(1)], of ti]
  have same: "?c = refblock_cache s" using None by (simp add: TableCache_get_def hm_contains_def)
  obtain ev c' where put: "TableCache_put ti (clus ?cs (q_file s) ?h) False (refblock_cache s) = (ev, c')" by (cases "TableCache_put ti (clus ?cs (q_file s) ?h) False (refblock_cache s)")
  let ?s = "s\<lparr>refblock_cache := c', q_file := fold (\<lambda>(h, b) f. file_write f h b) (map (\<lambda>(ti, b). (rt_host s ti, b)) ev) (q_file s)\<rparr>"
  note ok = evict_rb [OF s None put refl]
  note putD = TableCache_put_spec [OF cohD(2) [OF s(1)] None put]
  have rt: "rt_host (s\<lparr>refblock_cache := c'\<rparr>) = rt_host s" by (rule ext) (simp add: rt_host_def)
  have nz: "rt_host s k \<noteq> 0" if "(k, b) \<in> set ev" for k b using putD(5) that cohD(5) [OF s(1)] by auto
  have writes: "qfor ev (\<lambda>(ti, b). qbind (refblock_host ti) (\<lambda>h. write_file h b)) (s\<lparr>refblock_cache := c'\<rparr>) = (Inr (), ?s)"
    using qfor_rb_writes [of "s\<lparr>refblock_cache := c'\<rparr>" ev] ok(3) nz unfolding rt by auto
  have read: "read_file ?h ?cs s = (Inr (clus ?cs (q_file s) ?h), s)"
    using s(3) by (simp add: read_file_def file_read_in cl_def clus_def)
  have "load_refblock ti s = qfor ev (\<lambda>(ti, b). qbind (refblock_host ti) (\<lambda>h. write_file h b)) (s\<lparr>refblock_cache := c'\<rparr>)"
    using None get(3) put read same refblock_host_run [OF s(2)] by (auto simp: load_refblock_def qbind_def [of "refblock_host ti"] qbind_def [of "read_file ?h ?cs"] split: prod.split)
  then have run: "load_refblock ti s = (Inr (), ?s)" using writes by simp
  have ov: "ov s ?h = clus ?cs (q_file s) ?h" by (simp add: ov_rb [OF s(1,2)] None)
  show thesis by (rule that [OF run ok(1,2), of False]) (use putD(2) in \<open>auto simp: ov\<close>)
qed

lemma cached_refblock_ok:
  assumes "coh s" "hm_get (tc_map (refblock_cache s)) ti = Some (b, d)"
  obtains s' where "cached_refblock ti s = (Inr b, s')" "eqv s s'" "coh s'" "tc_map (refblock_cache s') = tc_map (refblock_cache s)"
    "l2_cache s' = l2_cache s"
proof -
  note get = TableCache_get_wf [OF cohD(2) [OF assms(1)], of ti]
  have run: "cached_refblock ti s = (Inr b, s\<lparr>refblock_cache := snd (TableCache_get ti (refblock_cache s))\<rparr>)"
    using assms(2) get(3) by (auto simp: cached_refblock_def split: prod.split)
  show thesis by (rule that [OF run touch_rb(2) touch_rb(3)]) (use get assms in auto)
qed

lemma block_read_ok:
  assumes s: "coh s" "rt_host s ti \<noteq> 0" "rt_host s ti \<in> cl s"
  obtains s' where "qbind (load_refblock ti) (\<lambda>_. cached_refblock ti) s = (Inr (ov s (rt_host s ti)), s')" "eqv s s'" "coh s'"
    "l2_cache s' = l2_cache s"
proof -
  obtain s1 d where one: "load_refblock ti s = (Inr (), s1)" "eqv s s1" "coh s1"
    "hm_get (tc_map (refblock_cache s1)) ti = Some (ov s (rt_host s ti), d)" "l2_cache s1 = l2_cache s"
    using load_refblock_ok [OF s] by metis
  obtain s2 where two: "cached_refblock ti s1 = (Inr (ov s (rt_host s ti)), s2)" "eqv s1 s2" "coh s2" "l2_cache s2 = l2_cache s1"
    using cached_refblock_ok [OF one(3,4)] by metis
  show thesis
  proof (rule that)
    show "qbind (load_refblock ti) (\<lambda>_. cached_refblock ti) s = (Inr (ov s (rt_host s ti)), s2)" by (simp add: qbind_def one(1) two(1))
    show "eqv s s2" using eqv_trans [OF one(2) two(2)] .
  qed (use one two in auto)
qed

text \<open>A table changed in its cache.\<close>

lemma tc_wf_update:
  assumes "tc_wf c" "hm_get (tc_map c) k = Some e" "tc_map c' = hm_insert k e' (tc_map c)" "tc_order c' = tc_order c" "tc_cap c' = tc_cap c"
  shows "tc_wf c'"
proof -
  have "k \<in> fst ` set (tc_map c)" using hm_get_key [OF assms(2)] .
  then have keys: "fst ` set (tc_map c') = fst ` set (tc_map c)" by (auto simp: assms(3) keys_insert)
  have "hm_wf (tc_map c')" using assms(1) by (simp add: assms(3) tc_wf_def)
  moreover from this have "length (tc_map c') = length (tc_map c)" using assms(1) keys by (simp add: length_hm tc_wf_def)
  ultimately show ?thesis using assms(1,4,5) keys by (simp add: tc_wf_def)
qed

lemma mark_dirty_run:
  "hm_get (tc_map c) k = Some (b, d) \<Longrightarrow>
   TableCache_mark_dirty k c = c\<lparr>tc_map := hm_insert k (b, True) (tc_map c)\<rparr>"
  by (simp add: TableCache_mark_dirty_def)

lemma set_cached_l2:
  assumes s: "coh s" "hm_get (tc_map (l2_cache s)) h = Some (b, d)" "\<not> q_read_only s" "length b' = cluster_size s"
    and c': "tc_map c' = hm_insert h (b', True) (tc_map (l2_cache s))" "tc_wf c'"
  shows "coh (s\<lparr>l2_cache := c'\<rparr>)" "ov (s\<lparr>l2_cache := c'\<rparr>) = (ov s)(h := b')"
proof -
  let ?s = "s\<lparr>l2_cache := c'\<rparr>"
  have rest: "same_rest s ?s" by (simp add: same_rest_def)
  note fields = same_rest_fields [OF rest]
  have cl: "cl ?s = cl s" by (rule cl_same [OF rest]) simp
  have ok: "cached_ok ?s = cached_ok s" by (intro ext) (simp add: cached_ok_def cl fields)
  have nr: "h \<notin> rb_hosts s" and h: "h \<in> cl s" using cohD(3,4) [OF s(1,2)] by (auto simp: cached_ok_def)
  show "ov ?s = (ov s)(h := b')"
  proof
    fix k
    show "ov ?s k = ((ov s)(h := b')) k"
    proof (cases "k = h")
      case True
      then show ?thesis using ov_l2 [of ?s h b' True] by (simp add: c'(1))
    next
      case False
      then show ?thesis by (simp add: ov_cong [OF rest] c'(1))
    qed
  qed
  show "coh ?s" unfolding coh_def fields ok
    using s(1) c' nr h s(3,4) by (auto simp: coh_def) (auto simp: cached_ok_def split: if_splits)
qed

lemma same_rest_upd:
  assumes "same_rest s t"
  shows "same_rest s (t\<lparr>l2_cache := c\<rparr>)" "same_rest s (t\<lparr>refblock_cache := r\<rparr>)" "same_rest s (t\<lparr>q_file := f\<rparr>)"
proof -
  have "same_rest t (t\<lparr>l2_cache := c\<rparr>)" "same_rest t (t\<lparr>refblock_cache := r\<rparr>)" "same_rest t (t\<lparr>q_file := f\<rparr>)"
    by (simp_all add: same_rest_def)
  then show "same_rest s (t\<lparr>l2_cache := c\<rparr>)" "same_rest s (t\<lparr>refblock_cache := r\<rparr>)" "same_rest s (t\<lparr>q_file := f\<rparr>)"
    using same_rest_trans [OF assms] by blast+
qed

lemma set_l2_entry_ok:
  assumes s: "coh s" "h \<in> cl s" "h \<notin> rb_hosts s" "\<not> q_read_only s" "(i + 1) * 8 \<le> cluster_size s"
  obtains s' where "set_l2_entry h i v s = (Inr (), s')" "same_rest s s'" "coh s'" "length (q_file s') = length (q_file s)"
    "\<And>k. k \<in> cl s \<Longrightarrow> ov s' k = (if k = h then splice (i * 8) (to_be64 v) (ov s h) else ov s k)"
    "\<And>k. k \<noteq> h \<Longrightarrow> hm_get (tc_map (l2_cache s')) k \<noteq> None \<Longrightarrow> hm_get (tc_map (l2_cache s)) k \<noteq> None"
proof -
  obtain s1 d where one: "load_l2 h s = (Inr (), s1)" "eqv s s1" "coh s1"
    "hm_get (tc_map (l2_cache s1)) h = Some (ov s h, d)"
    "\<And>k. k \<noteq> h \<Longrightarrow> hm_get (tc_map (l2_cache s1)) k \<noteq> None \<Longrightarrow> hm_get (tc_map (l2_cache s)) k \<noteq> None"
    using load_l2_ok [OF s(1-3)] by metis
  note fields = same_rest_fields [OF eqvD(1) [OF one(2)]]
  let ?c = "TableCache_mark_dirty h (l2_cache s1)" and ?b = "splice (i * 8) (to_be64 v) (ov s h)"
  let ?c' = "?c\<lparr>tc_map := hm_insert h (?b, True) (tc_map ?c)\<rparr>"
  let ?s = "s1\<lparr>l2_cache := ?c'\<rparr>"
  have c: "?c = (l2_cache s1)\<lparr>tc_map := hm_insert h (ov s h, True) (tc_map (l2_cache s1))\<rparr>" by (rule mark_dirty_run [OF one(4)])
  have len: "length ?b = cluster_size s" using s(5) ov_length [OF s(1,2)] by (subst length_splice) auto
  have ins: "hm_insert h (?b, True) (hm_insert h (ov s h, True) m) = hm_insert h (?b, True) m" for m
    by (induction m) (auto simp: hm_insert_def)
  have map': "tc_map ?c' = hm_insert h (?b, True) (tc_map (l2_cache s1))" by (simp add: c ins)
  have "tc_wf ?c'" by (rule tc_wf_update [OF cohD(1) [OF one(3)] one(4) map']) (simp_all add: c)
  note set = set_cached_l2 [OF one(3,4) _ _ map' this]
  have run: "set_l2_entry h i v s = (Inr (), ?s)"
    by (simp add: set_l2_entry_def qbind_def one(1) Let_def c)
  show thesis
  proof (rule that [OF run])
    show "same_rest s ?s" using same_rest_upd [OF eqvD(1) [OF one(2)]] by blast
    show "coh ?s" using set(1) s(4) len by (simp add: fields)
    show "length (q_file ?s) = length (q_file s)" using one(2) by (simp add: eqv_def)
    show "ov ?s k = (if k = h then ?b else ov s k)" if "k \<in> cl s" for k
      using set(2) s(4) len eqvD(3) [OF one(2) that] by (simp add: fields)
    show "hm_get (tc_map (l2_cache s)) k \<noteq> None" if "k \<noteq> h" "hm_get (tc_map (l2_cache ?s)) k \<noteq> None" for k
      using that one(5) [of k] by (simp add: c)
  qed
qed

lemma set_cached_rb:
  assumes s: "coh s" "hm_get (tc_map (refblock_cache s)) ti = Some (b, d)" "\<not> q_read_only s" "length b' = cluster_size s"
    and c': "tc_map c' = hm_insert ti (b', True) (tc_map (refblock_cache s))" "tc_wf c'"
  shows "coh (s\<lparr>refblock_cache := c'\<rparr>)" "ov (s\<lparr>refblock_cache := c'\<rparr>) = (ov s)(rt_host s ti := b')"
proof -
  let ?s = "s\<lparr>refblock_cache := c'\<rparr>"
  have rest: "same_rest s ?s" by (simp add: same_rest_def)
  note fields = same_rest_fields [OF rest]
  have cl: "cl ?s = cl s" by (rule cl_same [OF rest]) simp
  have ok: "cached_ok ?s = cached_ok s" by (intro ext) (simp add: cached_ok_def cl fields)
  have nz: "rt_host s ti \<noteq> 0" and h: "rt_host s ti \<in> cl s" using cohD(5,6) [OF s(1,2)] by (auto simp: cached_ok_def)
  show coh: "coh ?s" unfolding coh_def fields ok
    using s(1) c' nz h s(3,4) by (auto simp: coh_def) (auto simp: cached_ok_def split: if_splits)
  show "ov ?s = (ov s)(rt_host s ti := b')"
  proof
    fix k
    show "ov ?s k = ((ov s)(rt_host s ti := b')) k"
    proof (cases "k \<in> rb_hosts s")
      case True
      then obtain tj where k: "k = rt_host s tj" "rt_host s tj \<noteq> 0" by (auto simp: rb_hosts_def)
      have "rt_host s tj = rt_host s ti \<longleftrightarrow> tj = ti" using cohD(7) [OF s(1) nz, of tj] by auto
      moreover have "ov ?s (rt_host s tj) =
          (case hm_get (tc_map c') tj of Some (b, _) \<Rightarrow> b | None \<Rightarrow> clus (cluster_size s) (q_file s) (rt_host s tj))"
        using ov_rb [OF coh, of tj] k(2) unfolding fields by (simp split: option.split)
      ultimately show ?thesis using ov_rb [OF s(1) k(2)] c'(1) by (auto simp: k(1))
    next
      case False
      then have "k \<noteq> rt_host s ti" using nz by (auto simp: rb_hosts_def)
      moreover have "ov ?s k = ov s k"
      proof (cases "hm_get (tc_map (l2_cache s)) k")
        case None
        then show ?thesis using ov_file [OF None False] ov_file [of ?s k] False unfolding fields by simp
      next
        case (Some e)
        then show ?thesis by (cases e) (simp add: ov_def)
      qed
      ultimately show ?thesis by simp
    qed
  qed
qed

lemma refblock_set_ok:
  assumes s: "coh s" "rt_host s ti \<noteq> 0" "rt_host s ti \<in> cl s" "\<not> q_read_only s"
    "refcount_bits s \<in> widths" "(i + 1) * refcount_bits s \<le> cluster_size s * 8"
  obtains s' where "refblock_set ti i v s = (Inr (), s')" "same_rest s s'" "coh s'" "length (q_file s') = length (q_file s)"
    "\<And>k. k \<in> cl s \<Longrightarrow> ov s' k = (if k = rt_host s ti then bits_set (ov s k) i (refcount_bits s) v else ov s k)"
    "l2_cache s' = l2_cache s"
proof -
  let ?h = "rt_host s ti"
  obtain s1 d where one: "load_refblock ti s = (Inr (), s1)" "eqv s s1" "coh s1"
    "hm_get (tc_map (refblock_cache s1)) ti = Some (ov s ?h, d)" "l2_cache s1 = l2_cache s"
    using load_refblock_ok [OF s(1-3)] by metis
  note fields = same_rest_fields [OF eqvD(1) [OF one(2)]]
  let ?c = "TableCache_mark_dirty ti (refblock_cache s1)" and ?b = "bits_set (ov s ?h) i (refcount_bits s) v"
  let ?c' = "?c\<lparr>tc_map := hm_insert ti (?b, True) (tc_map ?c)\<rparr>"
  let ?s = "s1\<lparr>refblock_cache := ?c'\<rparr>"
  have c: "?c = (refblock_cache s1)\<lparr>tc_map := hm_insert ti (ov s ?h, True) (tc_map (refblock_cache s1))\<rparr>" by (rule mark_dirty_run [OF one(4)])
  have len: "length ?b = cluster_size s" using s(5,6) ov_length [OF s(1,3)] by (subst length_bits_set) auto
  have ins: "hm_insert ti (?b, True) (hm_insert ti (ov s ?h, True) m) = hm_insert ti (?b, True) m" for m
    by (induction m) (auto simp: hm_insert_def)
  have map': "tc_map ?c' = hm_insert ti (?b, True) (tc_map (refblock_cache s1))" by (simp add: c ins)
  have "tc_wf ?c'" by (rule tc_wf_update [OF cohD(2) [OF one(3)] one(4) map']) (simp_all add: c)
  note set = set_cached_rb [OF one(3,4) _ _ map' this]
  have run: "refblock_set ti i v s = (Inr (), ?s)"
    by (simp add: refblock_set_def qbind_def one(1) Let_def c fields)
  show thesis
  proof (rule that [OF run])
    show "same_rest s ?s" using same_rest_upd [OF eqvD(1) [OF one(2)]] by blast
    show "coh ?s" using set(1) s(4) len by (simp add: fields)
    show "length (q_file ?s) = length (q_file s)" using one(2) by (simp add: eqv_def)
    show "ov ?s k = (if k = ?h then bits_set (ov s k) i (refcount_bits s) v else ov s k)" if "k \<in> cl s" for k
      using set(2) s(4) len eqvD(3) [OF one(2) that] by (simp add: fields)
    show "l2_cache ?s = l2_cache s" by (simp add: one(5))
  qed
qed

text \<open>The file changed in one cluster that no cache holds.\<close>

lemma file_change:
  assumes s: "coh s" "hm_get (tc_map (l2_cache s)) h = None" "h \<notin> rb_hosts s"
    and f': "length (q_file s) \<le> length f'" "\<And>k. k \<in> cl s \<Longrightarrow> k \<noteq> h \<Longrightarrow> clus (cluster_size s) f' k = clus (cluster_size s) (q_file s) k"
  shows "coh (s\<lparr>q_file := f'\<rparr>)" "ov (s\<lparr>q_file := f'\<rparr>) h = clus (cluster_size s) f' h"
    "\<And>k. k \<in> cl s \<Longrightarrow> k \<noteq> h \<Longrightarrow> ov (s\<lparr>q_file := f'\<rparr>) k = ov s k"
proof -
  let ?s = "s\<lparr>q_file := f'\<rparr>"
  have rest: "same_rest s ?s" by (simp add: same_rest_def)
  note fields = same_rest_fields [OF rest]
  have cl: "cl s \<subseteq> cl ?s" using f'(1) by (auto simp: cl_def fields)
  have ok: "cached_ok ?s k b d" if "cached_ok s k b d" "k \<noteq> h" for k b d
    using that cl f'(2) [of k] by (auto simp: cached_ok_def fields split: if_splits)
  have neq: "rt_host s ti \<noteq> h" if "rt_host s ti \<noteq> 0" for ti using s(3) that by (auto simp: rb_hosts_def)
  show "coh ?s" unfolding coh_def fields
  proof (intro conjI allI impI)
    show "tc_wf (l2_cache ?s)" "tc_wf (refblock_cache ?s)" using cohD(1,2) [OF s(1)] by simp_all
    fix k b d
    assume a: "hm_get (tc_map (l2_cache ?s)) k = Some (b, d)"
    then have "k \<noteq> h" using s(2) by auto
    with a show "k \<notin> rb_hosts s" "cached_ok ?s k b d" using cohD(3,4) [OF s(1), of k b d] ok by auto
  next
    fix ti b d
    assume a: "hm_get (tc_map (refblock_cache ?s)) ti = Some (b, d)"
    then show "rt_host s ti \<noteq> 0" "cached_ok ?s (rt_host s ti) b d" using cohD(5,6) [OF s(1), of ti b d] ok neq by auto
  next
    show "ti = tj" if "rt_host s ti \<noteq> 0" "rt_host s ti = rt_host s tj" for ti tj using cohD(7) [OF s(1) that] .
  qed
  show "ov ?s h = clus (cluster_size s) f' h" using ov_file [of ?s h] s(2,3) by (simp add: fields)
  show "ov ?s k = ov s k" if "k \<in> cl s" "k \<noteq> h" for k using f'(2) [OF that] by (intro ov_cong [OF rest]) simp_all
qed

lemma write_within_ok:
  assumes s: "coh s" "h \<in> cl s" "hm_get (tc_map (l2_cache s)) h = None" "h \<notin> rb_hosts s" "\<not> q_read_only s" "o1 + length b \<le> cluster_size s"
  obtains s' where "write_file (h + o1) b s = (Inr (), s')" "same_rest s s'" "coh s'" "length (q_file s') = length (q_file s)"
    "\<And>k. k \<in> cl s \<Longrightarrow> ov s' k = (if k = h then splice o1 b (ov s h) else ov s k)" "l2_cache s' = l2_cache s"
proof -
  let ?cs = "cluster_size s" and ?f = "file_write (q_file s) (h + o1) b"
  have h: "?cs dvd h" "h + ?cs \<le> length (q_file s)" using s(2) by (auto simp: cl_def)
  have len: "length ?f = length (q_file s)" using h s(6) by (auto simp: length_file_write)
  have other: "clus ?cs ?f k = clus ?cs (q_file s) k" if "k \<in> cl s" "k \<noteq> h" for k
    using that h s(6) aligned_apart [OF h(1), of k] by (intro clus_file_write_other) (auto simp: cl_def)
  note fc = file_change [OF s(1,3,4) eq_refl [OF len [symmetric]] other]
  have here: "clus ?cs ?f h = splice o1 b (ov s h)" using clus_file_write_within [OF h(2) s(6)] ov_file [OF s(3,4)] by simp
  have run: "write_file (h + o1) b s = (Inr (), s\<lparr>q_file := ?f\<rparr>)" using s(5) by (simp add: write_file_def)
  show thesis by (rule that [OF run]) (use fc len here in \<open>auto simp: same_rest_def\<close>)
qed

lemma write_cluster_ok:
  assumes s: "coh s" "cluster_size s dvd h" "hm_get (tc_map (l2_cache s)) h = None" "h \<notin> rb_hosts s" "\<not> q_read_only s" "length b = cluster_size s"
  obtains s' where "write_file h b s = (Inr (), s')" "same_rest s s'" "coh s'" "cl s \<subseteq> cl s'" "h \<in> cl s'" "ov s' h = b"
    "\<And>k. k \<in> cl s \<Longrightarrow> k \<noteq> h \<Longrightarrow> ov s' k = ov s k" "l2_cache s' = l2_cache s" "length (q_file s) \<le> length (q_file s')"
proof -
  let ?cs = "cluster_size s" and ?f = "file_write (q_file s) h b"
  have pos: "0 < ?cs" by (simp add: cluster_size_def)
  then have len: "length ?f = max (length (q_file s)) (h + ?cs)" using s(6) by (auto simp: length_file_write)
  have other: "clus ?cs ?f k = clus ?cs (q_file s) k" if "k \<in> cl s" "k \<noteq> h" for k
    using that s(6) aligned_apart [OF s(2), of k] by (intro clus_file_write_other) (auto simp: cl_def)
  note fc = file_change [OF s(1,3,4) _ other]
  have rest: "same_rest s (s\<lparr>q_file := ?f\<rparr>)" by (simp add: same_rest_def)
  have cl: "cl s \<subseteq> cl (s\<lparr>q_file := ?f\<rparr>)" "h \<in> cl (s\<lparr>q_file := ?f\<rparr>)"
    using len s(2) by (auto simp: cl_def same_rest_fields [OF rest])
  have run: "write_file h b s = (Inr (), s\<lparr>q_file := ?f\<rparr>)" using s(5) by (simp add: write_file_def)
  show thesis by (rule that [OF run rest fc(1) cl]) (use fc len clus_file_write_same [OF s(6)] in auto)
qed

end
