(* ===== verification/Qcow2_Alloc.thy ===== *)
theory Qcow2_Alloc
  imports Qcow2_Cache
begin

text \<open>
  The refcounts of an image as a function of the cluster, and the allocator: the free map holds free
  clusters only, the scan misses none, and an allocation takes a free cluster and counts it.
\<close>

section \<open>Geometry\<close>

definition geo :: "Qcow2Image \<Rightarrow> bool" where
  "geo s \<longleftrightarrow> 9 \<le> cluster_bits s \<and> cluster_bits s \<le> 21 \<and> refcount_bits s \<in> widths \<and>
     (\<forall>ti. rt_host s ti \<noteq> 0 \<longrightarrow> rt_host s ti \<in> cl s) \<and>
     length (refcount_table s) * refblock_entries s * cluster_size s \<le> 2 ^ 56"

lemma cluster_size_pos [simp]: "0 < cluster_size s"
  by (simp add: cluster_size_def)

lemma geoD:
  assumes "geo s"
  shows "512 dvd cluster_size s" "8 dvd cluster_size s" "0 < refblock_entries s" "refcount_bits s \<in> widths"
    "rt_host s ti \<noteq> 0 \<Longrightarrow> rt_host s ti \<in> cl s" "512 \<le> cluster_size s"
    "i < refblock_entries s \<Longrightarrow> (i + 1) * refcount_bits s \<le> cluster_size s * 8"
proof -
  have bits: "9 \<le> cluster_bits s" and w: "refcount_bits s \<in> widths" using assms by (auto simp: geo_def)
  show w: "refcount_bits s \<in> widths" by (rule w)
  have "(2 :: nat) ^ 9 dvd 2 ^ cluster_bits s" using bits by (rule le_imp_power_dvd)
  then show d: "512 dvd cluster_size s" by (simp add: cluster_size_def)
  then show "8 dvd cluster_size s" using dvd_trans [of 8 512 "cluster_size s"] by simp
  show big: "512 \<le> cluster_size s" using d dvd_imp_le [of 512 "cluster_size s"] by simp
  show "rt_host s ti \<in> cl s" if "rt_host s ti \<noteq> 0" using assms that by (simp add: geo_def)
  have "0 < refcount_bits s" "refcount_bits s \<le> 64" using w by (auto simp: widths_def)
  then show "0 < refblock_entries s" using big by (simp add: refblock_entries_def div_greater_zero_iff)
  show "(i + 1) * refcount_bits s \<le> cluster_size s * 8" if "i < refblock_entries s"
  proof -
    have "(i + 1) * refcount_bits s \<le> refblock_entries s * refcount_bits s" using that by (intro mult_le_mono1) simp
    also have "\<dots> \<le> cluster_size s * 8" by (simp add: refblock_entries_def)
    finally show ?thesis .
  qed
qed

section \<open>What a step may change\<close>

definition core :: "Qcow2Image \<Rightarrow> Qcow2Image \<Rightarrow> bool" where
  "core s s' \<longleftrightarrow> s' = s\<lparr>q_file := q_file s', l2_cache := l2_cache s', refblock_cache := refblock_cache s',
     free_set := free_set s', scan_next := scan_next s'\<rparr>"

lemma coreE:
  assumes "core s s'"
  obtains f c r fs n where "s' = s\<lparr>q_file := f, l2_cache := c, refblock_cache := r, free_set := fs, scan_next := n\<rparr>"
  using assms unfolding core_def by blast

lemma coreI: "core s (s\<lparr>q_file := f, l2_cache := c, refblock_cache := r, free_set := fs, scan_next := n\<rparr>)"
  by (simp add: core_def)

lemma core_refl [simp]: "core s s"
  by (simp add: core_def)

lemma core_trans:
  assumes "core s t" "core t u"
  shows "core s u"
proof -
  obtain f c r fs n where t: "t = s\<lparr>q_file := f, l2_cache := c, refblock_cache := r, free_set := fs, scan_next := n\<rparr>"
    using assms(1) by (rule coreE)
  obtain f' c' r' fs' n' where "u = t\<lparr>q_file := f', l2_cache := c', refblock_cache := r', free_set := fs', scan_next := n'\<rparr>"
    using assms(2) by (rule coreE)
  then have "u = s\<lparr>q_file := f', l2_cache := c', refblock_cache := r', free_set := fs', scan_next := n'\<rparr>" by (simp add: t)
  then show ?thesis by (simp add: coreI)
qed

lemma same_rest_core: "same_rest s s' \<Longrightarrow> core s s'"
proof -
  assume "same_rest s s'"
  then obtain f c r where s': "s' = s\<lparr>q_file := f, l2_cache := c, refblock_cache := r\<rparr>"
    unfolding same_rest_def by blast
  show "core s s'" by (simp add: core_def s')
qed

lemma core_fields:
  assumes "core s s'"
  shows "q_read_only s' = q_read_only s" "cluster_bits s' = cluster_bits s" "q_size s' = q_size s"
    "l1_size s' = l1_size s" "l1_table_offset s' = l1_table_offset s" "refcount_table_offset s' = refcount_table_offset s"
    "refcount_table_clusters s' = refcount_table_clusters s" "refcount_bits s' = refcount_bits s"
    "nb_snapshots s' = nb_snapshots s" "snapshots_offset s' = snapshots_offset s"
    "q_backing s' = q_backing s" "backing_image s' = backing_image s" "q_l1 s' = q_l1 s" "refcount_table s' = refcount_table s"
    "cluster_size s' = cluster_size s" "refblock_entries s' = refblock_entries s"
    "l2_entries s' = l2_entries s" "l2_span s' = l2_span s" "rt_host s' = rt_host s" "rb_hosts s' = rb_hosts s"
    "l1_index_of s' = l1_index_of s" "l2_index_of s' = l2_index_of s"
proof -
  obtain f c r fs n where s': "s' = s\<lparr>q_file := f, l2_cache := c, refblock_cache := r, free_set := fs, scan_next := n\<rparr>"
    using assms by (rule coreE)
  show "q_read_only s' = q_read_only s" "cluster_bits s' = cluster_bits s" "q_size s' = q_size s"
    "l1_size s' = l1_size s" "l1_table_offset s' = l1_table_offset s" "refcount_table_offset s' = refcount_table_offset s"
    "refcount_table_clusters s' = refcount_table_clusters s" "refcount_bits s' = refcount_bits s"
    "nb_snapshots s' = nb_snapshots s" "snapshots_offset s' = snapshots_offset s"
    "q_backing s' = q_backing s" "backing_image s' = backing_image s" "q_l1 s' = q_l1 s" "refcount_table s' = refcount_table s"
    by (simp_all add: s')
  show "cluster_size s' = cluster_size s" "refblock_entries s' = refblock_entries s" "l2_entries s' = l2_entries s"
    "l2_span s' = l2_span s"
    by (simp_all add: s' cluster_size_def refblock_entries_def l2_entries_def l2_span_def)
  show "rt_host s' = rt_host s" by (rule ext) (simp add: s' rt_host_def)
  then show "rb_hosts s' = rb_hosts s" by (simp add: rb_hosts_def)
  show "l1_index_of s' = l1_index_of s" "l2_index_of s' = l2_index_of s"
    by (intro ext; simp add: s' l1_index_of_def l2_index_of_def l2_index_bits_def cluster_size_def l2_entries_def)+
qed

lemma cl_core: "core s s' \<Longrightarrow> length (q_file s') = length (q_file s) \<Longrightarrow> cl s' = cl s"
  by (simp add: cl_def core_fields)

lemma geo_core: "geo s \<Longrightarrow> core s s' \<Longrightarrow> cl s \<subseteq> cl s' \<Longrightarrow> geo s'"
  by (auto simp: geo_def core_fields)

text \<open>The free map is no part of the image behind the caches.\<close>

lemma free_irrelevant:
  "ov (s\<lparr>free_set := fs, scan_next := n\<rparr>) = ov s" "coh (s\<lparr>free_set := fs, scan_next := n\<rparr>) = coh s"
  "cl (s\<lparr>free_set := fs, scan_next := n\<rparr>) = cl s"
proof -
  have f: "rt_host (s\<lparr>free_set := fs, scan_next := n\<rparr>) = rt_host s" by (rule ext) (simp add: rt_host_def)
  show ov: "ov (s\<lparr>free_set := fs, scan_next := n\<rparr>) = ov s"
  proof
    fix h
    have i: "rb_index (s\<lparr>free_set := fs, scan_next := n\<rparr>) h = rb_index s h" by (simp add: rb_index_def f)
    have "rb_get (s\<lparr>free_set := fs, scan_next := n\<rparr>) h = rb_get s h" by (simp add: rb_get_def i split: option.split)
    then show "ov (s\<lparr>free_set := fs, scan_next := n\<rparr>) h = ov s h" by (simp add: ov_def cluster_size_def split: option.split)
  qed
  show cl: "cl (s\<lparr>free_set := fs, scan_next := n\<rparr>) = cl s" by (simp add: cl_def cluster_size_def)
  have "cached_ok (s\<lparr>free_set := fs, scan_next := n\<rparr>) = cached_ok s"
    by (intro ext) (simp add: cached_ok_def cl cluster_size_def)
  then show "coh (s\<lparr>free_set := fs, scan_next := n\<rparr>) = coh s" by (simp add: coh_def f rb_hosts_def)
qed

section \<open>Refcounts\<close>

definition rc :: "Qcow2Image \<Rightarrow> nat \<Rightarrow> nat" where
  "rc s idx = (let h = rt_host s (idx div refblock_entries s)
     in if h = 0 then 0 else bits_get (ov s h) (idx mod refblock_entries s) (refcount_bits s))"

definition covered :: "Qcow2Image \<Rightarrow> nat \<Rightarrow> bool" where
  "covered s idx \<longleftrightarrow> rt_host s (idx div refblock_entries s) \<noteq> 0"

lemma rc_cong:
  assumes "core s s'" "\<And>h. h \<in> rb_hosts s \<Longrightarrow> ov s' h = ov s h"
  shows "rc s' = rc s"
proof
  fix idx
  have "ov s' h = ov s h" if "h = rt_host s (idx div refblock_entries s)" "h \<noteq> 0" for h
    using that by (intro assms(2)) (auto simp: rb_hosts_def)
  then show "rc s' idx = rc s idx" by (simp add: rc_def Let_def core_fields [OF assms(1)])
qed

lemma rb_hosts_cl: "geo s \<Longrightarrow> rb_hosts s \<subseteq> cl s"
  by (auto simp: rb_hosts_def dest: geoD(5))

lemma rc_eqv:
  assumes "eqv s s'" "geo s"
  shows "rc s' = rc s"
  using rb_hosts_cl [OF assms(2)] eqvD(3) [OF assms(1)] by (intro rc_cong [OF same_rest_core [OF eqvD(1) [OF assms(1)]]]) auto

lemma get_refcount_ok:
  assumes s: "coh s" "geo s"
  obtains s' where "get_refcount idx s = (Inr (rc s idx), s')" "eqv s s'" "coh s'" "l2_cache s' = l2_cache s"
proof (cases "rt_host s (idx div refblock_entries s) = 0")
  case True
  then have "get_refcount idx s = (Inr (rc s idx), s)"
    by (auto simp: get_refcount_def refblock_get_def rc_def rt_host_def split: if_splits)
  then show thesis using s(1) by (intro that) auto
next
  case False
  let ?ti = "idx div refblock_entries s"
  obtain s' where s': "qbind (load_refblock ?ti) (\<lambda>_. cached_refblock ?ti) s = (Inr (ov s (rt_host s ?ti)), s')" "eqv s s'" "coh s'"
    "l2_cache s' = l2_cache s"
    using block_read_ok [OF s(1) False geoD(5) [OF s(2) False]] by metis
  have assoc: "qbind (load_refblock ?ti) (\<lambda>_. qbind (cached_refblock ?ti) f) s = qbind (qbind (load_refblock ?ti) (\<lambda>_. cached_refblock ?ti)) f s"
    for f :: "bytes \<Rightarrow> nat qio" by (auto simp: qbind_def split: prod.split sum.split)
  have "get_refcount idx s = (Inr (rc s idx), s')"
    using False by (auto simp: get_refcount_def refblock_get_def assoc rc_def rt_host_def split: if_splits) (simp_all add: qbind_def s'(1) [unfolded qbind_def] rt_host_def)
  then show thesis using s'(2-4) by (rule that)
qed


section \<open>The free map\<close>

definition quiet :: "Qcow2Image \<Rightarrow> Qcow2Image \<Rightarrow> bool" where
  "quiet s s' \<longleftrightarrow> core s s' \<and> length (q_file s') = length (q_file s) \<and> (\<forall>h \<in> cl s. ov s' h = ov s h)"

lemma quietD:
  assumes "quiet s s'"
  shows "core s s'" "cl s' = cl s" "h \<in> cl s \<Longrightarrow> ov s' h = ov s h"
  using assms by (auto simp: quiet_def dest: cl_core)

lemma quiet_refl [simp]: "quiet s s"
  by (simp add: quiet_def)

lemma quiet_trans: "quiet s t \<Longrightarrow> quiet t u \<Longrightarrow> quiet s u"
  using quietD(2) [of s t] core_trans [of s t u] by (auto simp: quiet_def)

lemma eqv_quiet: "eqv s s' \<Longrightarrow> quiet s s'"
  by (auto simp: quiet_def eqv_def same_rest_core)

lemma quiet_free: "quiet s (s\<lparr>free_set := fs, scan_next := n\<rparr>)"
  by (simp add: quiet_def core_def free_irrelevant)

lemma quiet_geo: "quiet s s' \<Longrightarrow> geo s \<Longrightarrow> geo s'"
  by (auto intro: geo_core dest: quietD)

lemma rc_quiet: "quiet s s' \<Longrightarrow> geo s \<Longrightarrow> rc s' = rc s"
  using rb_hosts_cl [of s] quietD(3) [of s s'] by (intro rc_cong) (auto dest: quietD)

definition frees :: "Qcow2Image \<Rightarrow> nat set" where
  "frees s = {c. covered s c \<and> rc s c = 0}"

lemma frees_quiet: "quiet s s' \<Longrightarrow> geo s \<Longrightarrow> frees s' = frees s"
  using quietD(1) [of s s'] by (simp add: frees_def covered_def rc_quiet core_fields)

text \<open>
  The free map holds free clusters in order, and every free cluster below the scan cursor, apart from the
  clusters of \<open>E\<close>, which were just taken from it.
\<close>

definition fm :: "nat set \<Rightarrow> Qcow2Image \<Rightarrow> bool" where
  "fm E s \<longleftrightarrow> sorted (free_set s) \<and> distinct (free_set s) \<and> set (free_set s) \<subseteq> frees s - E \<and>
     frees s \<inter> {..<scan_next s} \<subseteq> set (free_set s) \<union> E"

lemma covered_bound:
  assumes "covered s c" "geo s"
  shows "c < length (refcount_table s) * refblock_entries s"
proof -
  have "c div refblock_entries s < length (refcount_table s)" using assms(1) by (auto simp: covered_def rt_host_def split: if_splits)
  then show ?thesis using geoD(3) [OF assms(2)] by (simp add: div_less_iff_less_mult)
qed

lemma scan_block_spec:
  assumes "a \<le> b" "sorted free" "distinct free" "nx = base + a"
  obtains free' k st where "scan_block buf w base te [a..<b] free nx = (free', base + k, st)" "a \<le> k" "k \<le> b"
    "set free' = set free \<union> {base + i | i. a \<le> i \<and> i < k \<and> bits_get buf i w = 0}" "sorted free'" "distinct free'"
    "\<not> st \<Longrightarrow> k = b" "st \<Longrightarrow> free' \<noteq> []"
  using assms
proof (induction "b - a" arbitrary: a free nx thesis)
  case 0
  have "scan_block buf w base te [a..<b] free nx = (free, base + a, False)" using 0 by simp
  then show ?case by (rule 0(2)) (use 0(1,3-5) in auto)
next
  case (Suc m)
  have l: "[a..<b] = a # [Suc a..<b]" using Suc.hyps(2) by (intro upt_conv_Cons) simp
  let ?f = "if bits_get buf a w = 0 then insort_insert (base + a) free else free"
  have f: "sorted ?f" "distinct ?f" "set ?f = set free \<union> {base + i | i. a \<le> i \<and> i < Suc a \<and> bits_get buf i w = 0}"
    using Suc.prems(3,4) by (auto simp: sorted_insort_insert distinct_insort_insert set_insort_insert less_Suc_eq_le)
  show ?case
  proof (cases "\<not> te \<and> FREE_SCAN_TARGET \<le> length ?f")
    case True
    then have "?f \<noteq> []" by (auto simp: FREE_SCAN_TARGET_def)
    moreover have run: "scan_block buf w base te [a..<b] free nx = (?f, base + Suc a, True)" using True by (simp add: l Let_def del: upt_Suc)
    ultimately show ?thesis by (intro Suc.prems(1) [OF run]) (use f Suc.hyps(2) in simp_all)
  next
    case False
    then have run: "scan_block buf w base te [a..<b] free nx = scan_block buf w base te [Suc a..<b] ?f (base + Suc a)"
      by (auto simp: l Let_def simp del: upt_Suc split: if_splits)
    obtain free' k st where sub: "scan_block buf w base te [Suc a..<b] ?f (base + Suc a) = (free', base + k, st)" "Suc a \<le> k" "k \<le> b"
      and set': "set free' = set ?f \<union> {base + i | i. Suc a \<le> i \<and> i < k \<and> bits_get buf i w = 0}" and wf: "sorted free'" "distinct free'"
      "\<not> st \<Longrightarrow> k = b" "st \<Longrightarrow> free' \<noteq> []"
      by (rule Suc.hyps(1) [of "Suc a" ?f "base + Suc a"]) (use Suc.hyps(2) f in auto)
    have split: "a \<le> i \<and> i < k \<longleftrightarrow> a \<le> i \<and> i < Suc a \<or> Suc a \<le> i \<and> i < k" for i using sub(2) by linarith
    have "set free' = set free \<union> {base + i | i. a \<le> i \<and> i < k \<and> bits_get buf i w = 0}"
      unfolding set' f(3) using split by blast
    then show ?thesis using wf sub(3) by (intro Suc.prems(1) [OF trans [OF run sub(1)] Suc_leD [OF sub(2)]])
  qed
qed


lemma fm_cong: "quiet s s' \<Longrightarrow> geo s \<Longrightarrow> free_set s' = free_set s \<Longrightarrow> scan_next s' = scan_next s \<Longrightarrow> fm E s' = fm E s"
  by (simp add: fm_def frees_quiet)

text \<open>Moving the cursor to \<open>n'\<close> after having added the free clusters up to it.\<close>

lemma fm_advance:
  assumes "fm {} s" "geo s" "sorted fs" "distinct fs"
    and fs: "set fs = set (free_set s) \<union> (frees s \<inter> {scan_next s..<n'})" and s': "s' = s\<lparr>free_set := fs, scan_next := n'\<rparr>"
  shows "fm {} s'"
proof -
  have "frees s' = frees s" using frees_quiet [OF quiet_free assms(2)] s' by simp
  moreover have "frees s \<inter> {..<n'} \<subseteq> (frees s \<inter> {..<scan_next s}) \<union> (frees s \<inter> {scan_next s..<n'})" by auto
  ultimately show ?thesis using assms(1,3,4) fs by (auto simp: fm_def s')
qed

lemma block_frees:
  assumes "geo s" "rt_host s ti \<noteq> 0" "k \<le> refblock_entries s"
  shows "{ti * refblock_entries s + i | i. a \<le> i \<and> i < k \<and> bits_get (ov s (rt_host s ti)) i (refcount_bits s) = 0}
    = frees s \<inter> {ti * refblock_entries s + a..<ti * refblock_entries s + k}"
proof -
  let ?r = "refblock_entries s"
  have in_block: "ti * ?r + i \<in> frees s \<longleftrightarrow> bits_get (ov s (rt_host s ti)) i (refcount_bits s) = 0" if "i < ?r" for i
    using that assms(2) by (simp add: frees_def covered_def rc_def Let_def)
  have "\<exists>i. c = ti * ?r + i \<and> a \<le> i \<and> i < k \<and> bits_get (ov s (rt_host s ti)) i (refcount_bits s) = 0"
    if "c \<in> frees s" "ti * ?r + a \<le> c" "c < ti * ?r + k" for c
    using that in_block [of "c - ti * ?r"] assms(3) by (intro exI [of _ "c - ti * ?r"]) auto
  then show ?thesis using in_block assms(3) by auto
qed

definition refill_step :: "nat \<Rightarrow> bool \<Rightarrow> Qcow2Image \<Rightarrow> Qcow2Image \<Rightarrow> bool" where
  "refill_step n te s s' \<longleftrightarrow> quiet s s' \<and> coh s' \<and> l2_cache s' = l2_cache s \<and> fm {} s' \<and>
     (refill_loop (Suc n) te s = (Inr (), s') \<and> free_set s' \<noteq> [] \<or>
      refill_loop (Suc n) te s = refill_loop n te s' \<and> scan_next s' = (scan_next s div refblock_entries s + 1) * refblock_entries s)"

lemma refill_stepI:
  assumes "quiet s s'" "coh s'" "l2_cache s' = l2_cache s" "fm {} s'"
    and "refill_loop (Suc n) te s = (if stop then (Inr (), s') else refill_loop n te s')"
    and "stop \<Longrightarrow> free_set s' \<noteq> []"
    and "\<not> stop \<Longrightarrow> scan_next s' = (scan_next s div refblock_entries s + 1) * refblock_entries s"
  shows "\<exists>s'. refill_step n te s s'"
  using assms by (intro exI [of _ s'], cases stop) (simp_all only: refill_step_def if_True if_False simp_thms)

lemma refill_skip:
  assumes s: "coh s" "geo s" "fm {} s" "scan_next s < length (refcount_table s) * refblock_entries s"
    "rt_host s (scan_next s div refblock_entries s) = 0"
  shows "\<exists>s'. refill_step n te s s'"
proof -
  let ?r = "refblock_entries s" and ?ti = "scan_next s div refblock_entries s"
  let ?s = "s\<lparr>scan_next := (?ti + 1) * ?r\<rparr>"
  have host: "length (refcount_table s) \<le> ?ti \<or> host_of (refcount_table s ! ?ti) = 0" using s(5) by (auto simp: rt_host_def split: if_splits)
  have run: "refill_loop (Suc n) te s = (if False then (Inr (), ?s) else refill_loop n te ?s)" using s(4) host by (simp add: Let_def)
  have s': "?s = s\<lparr>free_set := free_set s, scan_next := (?ti + 1) * ?r\<rparr>" by simp
  have "c \<notin> frees s" if "scan_next s \<le> c" "c < (?ti + 1) * ?r" for c
  proof -
    have "c div ?r = ?ti"
      using that order.trans [OF times_div_less_eq_dividend that(1)] by (intro div_nat_eqI) (simp_all add: ac_simps)
    then show ?thesis using s(5) by (simp add: frees_def covered_def)
  qed
  then have "frees s \<inter> {scan_next s..<(?ti + 1) * ?r} = {}" by force
  then have none: "set (free_set s) = set (free_set s) \<union> (frees s \<inter> {scan_next s..<(?ti + 1) * ?r})" by (simp only: Un_empty_right)
  have "sorted (free_set s)" "distinct (free_set s)" using s(3) by (simp_all add: fm_def)
  then have "fm {} ?s" by (rule fm_advance [OF s(3,2) _ _ none s'])
  moreover have "quiet s ?s" by (subst s', rule quiet_free)
  moreover have "coh ?s" using s(1) by (subst s', subst free_irrelevant)
  ultimately show ?thesis by (intro refill_stepI [OF _ _ _ _ run]) simp_all
qed

lemma refill_scan:
  assumes s: "coh s" "geo s" "fm {} s" "scan_next s < length (refcount_table s) * refblock_entries s"
    "rt_host s (scan_next s div refblock_entries s) \<noteq> 0"
  shows "\<exists>s'. refill_step n te s s'"
proof -
  let ?r = "refblock_entries s" and ?ti = "scan_next s div refblock_entries s"
  let ?buf = "ov s (rt_host s ?ti)"
  have r: "0 < ?r" by (rule geoD(3) [OF s(2)])
  have cur: "scan_next s = ?ti * ?r + scan_next s mod ?r" "scan_next s mod ?r \<le> ?r" using r by (simp_all add: less_imp_le)
  obtain s1 where s1: "qbind (load_refblock ?ti) (\<lambda>_. cached_refblock ?ti) s = (Inr ?buf, s1)" "eqv s s1" "coh s1" "l2_cache s1 = l2_cache s"
    using block_read_ok [OF s(1,5) geoD(5) [OF s(2,5)]] by metis
  note q1 = eqv_quiet [OF s1(2)] and fields = same_rest_fields [OF eqvD(1) [OF s1(2)]]
  have fm1: "fm {} s1" using s(2,3) fields by (subst fm_cong [OF q1]) auto
  have srt: "sorted (free_set s)" "distinct (free_set s)" using s(3) by (simp_all add: fm_def)
  obtain fs k st where scan: "scan_block ?buf (refcount_bits s) (?ti * ?r) te [scan_next s mod ?r..<?r] (free_set s) (scan_next s)
      = (fs, ?ti * ?r + k, st)" "scan_next s mod ?r \<le> k" "k \<le> ?r"
    and fs: "set fs = set (free_set s) \<union> {?ti * ?r + i | i. scan_next s mod ?r \<le> i \<and> i < k \<and> bits_get ?buf i (refcount_bits s) = 0}"
    and wf: "sorted fs" "distinct fs" and st: "\<not> st \<Longrightarrow> k = ?r" "st \<Longrightarrow> fs \<noteq> []"
    by (rule scan_block_spec [OF cur(2) srt cur(1), where buf = ?buf and w = "refcount_bits s" and te = te], rule that)
  let ?s = "s1\<lparr>free_set := fs, scan_next := ?ti * ?r + k\<rparr>"
  have "set fs = set (free_set s1) \<union> (frees s1 \<inter> {scan_next s1..<?ti * ?r + k})"
    unfolding fs block_frees [OF s(2,5) scan(3)] fields frees_quiet [OF q1 s(2)] cur(1) [symmetric] ..
  then have fm2: "fm {} ?s" by (rule fm_advance [OF fm1 quiet_geo [OF q1 s(2)] wf _ refl])
  have coh2: "coh ?s" using s1(3) by (simp add: free_irrelevant)
  have host: "\<not> (length (refcount_table s) \<le> ?ti \<or> host_of (refcount_table s ! ?ti) = 0)" using s(5) by (auto simp: rt_host_def split: if_splits)
  have assoc: "qbind (load_refblock ?ti) (\<lambda>_. qbind (cached_refblock ?ti) f) s = f ?buf s1" for f :: "bytes \<Rightarrow> unit qio"
    using s1(1) by (auto simp: qbind_def split: prod.splits sum.splits)
  have run: "refill_loop (Suc n) te s = (if st \<or> \<not> te \<and> FREE_SCAN_TARGET \<le> length fs then (Inr (), ?s) else refill_loop n te ?s)"
    unfolding refill_loop.simps Let_def assoc fields scan(1) using s(4) host st(1) by (cases st) (simp_all add: add.commute)
  show ?thesis
  proof (rule refill_stepI [OF quiet_trans [OF q1 quiet_free] coh2 _ fm2 run])
    show "free_set ?s \<noteq> []" if "st \<or> \<not> te \<and> FREE_SCAN_TARGET \<le> length fs"
      using that st(2) by (auto simp: FREE_SCAN_TARGET_def)
  qed (use st(1) s1(4) in simp_all)
qed

lemma refill_loop_ok:
  assumes "coh s" "geo s" "fm {} s" "length (refcount_table s) - scan_next s div refblock_entries s < n"
  shows "\<exists>s'. refill_loop n te s = (Inr (), s') \<and> quiet s s' \<and> coh s' \<and> l2_cache s' = l2_cache s \<and> fm {} s' \<and>
    (free_set s' \<noteq> [] \<or> frees s = {})"
  using assms
proof (induction n arbitrary: s)
  case 0
  then show ?case by simp
next
  case (Suc n)
  let ?r = "refblock_entries s"
  have r: "0 < ?r" by (rule geoD(3) [OF Suc.prems(2)])
  show ?case
  proof (cases "scan_next s < length (refcount_table s) * ?r")
    case False
    then have "frees s \<subseteq> {..<scan_next s}" using covered_bound [OF _ Suc.prems(2)] by (fastforce simp: frees_def)
    then have "frees s \<subseteq> set (free_set s)" using Suc.prems(3) by (auto simp: fm_def)
    then show ?thesis using False Suc.prems by (auto simp: Let_def)
  next
    case True
    then have ti: "scan_next s div ?r < length (refcount_table s)" using r by (simp add: div_less_iff_less_mult)
    obtain s1 where step: "refill_step n te s s1" using refill_skip [OF Suc.prems(1-3) True] refill_scan [OF Suc.prems(1-3) True] by blast
    then have s1: "quiet s s1" "coh s1" "l2_cache s1 = l2_cache s" "fm {} s1" by (auto simp only: refill_step_def)
    consider (stop) "refill_loop (Suc n) te s = (Inr (), s1)" "free_set s1 \<noteq> []"
      | (more) "refill_loop (Suc n) te s = refill_loop n te s1" "scan_next s1 = (scan_next s div ?r + 1) * ?r"
      using step unfolding refill_step_def by blast
    then show ?thesis
    proof cases
      case stop
      then show ?thesis using s1 by (simp del: refill_loop.simps)
    next
      case more
      have f1: "refblock_entries s1 = ?r" "refcount_table s1 = refcount_table s" using core_fields [OF quietD(1) [OF s1(1)]] by auto
      then have "length (refcount_table s1) - scan_next s1 div refblock_entries s1 < n" using Suc.prems(4) ti more(2) r by simp
      from Suc.IH [OF s1(2) quiet_geo [OF s1(1) Suc.prems(2)] s1(4) this]
      show ?thesis using more(1) quiet_trans [OF s1(1)] frees_quiet [OF s1(1) Suc.prems(2)] s1(3)
        by (auto simp del: refill_loop.simps)
    qed
  qed
qed

lemma refill_free_map_ok:
  assumes "coh s" "geo s" "fm {} s"
  obtains s' where "refill_free_map te s = (Inr (), s')" "quiet s s'" "coh s'" "l2_cache s' = l2_cache s" "fm {} s'"
    "free_set s' \<noteq> [] \<or> frees s = {}"
proof -
  have "length (refcount_table s) - scan_next s div refblock_entries s < Suc (length (refcount_table s))" by simp
  then show thesis using refill_loop_ok [OF assms] that unfolding refill_free_map_def by blast
qed

lemma take_mapped_run_1:
  assumes "free_set s = c # cs" "fm {} s" "geo s"
  obtains s' where "take_mapped_run 1 s = (Inr (Some c), s')" "quiet s s'" "l2_cache s' = l2_cache s" "fm {c} s'" "c \<in> frees s" "coh s' = coh s"
proof -
  let ?fs = "filter (\<lambda>k. \<not> (c \<le> k \<and> k < c + 1)) (free_set s)"
  let ?s = "s\<lparr>free_set := ?fs\<rparr>"
  have run: "take_mapped_run 1 s = (Inr (Some c), ?s)" by (simp add: take_mapped_run_def assms(1))
  have s': "?s = s\<lparr>free_set := ?fs, scan_next := scan_next s\<rparr>" by simp
  have q: "quiet s ?s" by (subst s', rule quiet_free)
  have fs: "set ?fs = set (free_set s) - {c}" by auto
  have wf: "sorted (free_set s)" "distinct (free_set s)" "set (free_set s) \<subseteq> frees s" "frees s \<inter> {..<scan_next s} \<subseteq> set (free_set s)"
    using assms(2) by (simp_all add: fm_def)
  have "sorted ?fs" "distinct ?fs" "set ?fs \<subseteq> frees s - {c}" "frees s \<inter> {..<scan_next s} \<subseteq> set ?fs \<union> {c}"
    using wf unfolding fs by (auto simp: sorted_wrt_filter)
  then have fm: "fm {c} ?s" unfolding fm_def frees_quiet [OF q assms(3)] by simp
  have c: "c \<in> frees s" using assms(1) wf(3) by simp
  have "coh ?s = coh s" by (subst s', subst free_irrelevant) simp
  then show thesis by (intro that [OF run q _ fm c]) simp_all
qed

lemma find_free_ok:
  assumes "coh s" "geo s" "fm {} s" "frees s \<noteq> {}"
  obtains s' c where "find_free (Suc n) 1 s = (Inr c, s')" "quiet s s'" "coh s'" "l2_cache s' = l2_cache s" "fm {c} s'" "c \<in> frees s"
proof -
  obtain s1 where s1: "refill_free_map False s = (Inr (), s1)" "quiet s s1" "coh s1" "l2_cache s1 = l2_cache s" "fm {} s1"
    "free_set s1 \<noteq> []" using refill_free_map_ok [OF assms(1-3)] assms(4) by metis
  have geo1: "geo s1" by (rule quiet_geo [OF s1(2) assms(2)])
  obtain c cs where c: "free_set s1 = c # cs" using s1(6) by (cases "free_set s1") auto
  obtain s2 where s2: "take_mapped_run 1 s1 = (Inr (Some c), s2)" "quiet s1 s2" "l2_cache s2 = l2_cache s1" "fm {c} s2" "c \<in> frees s1"
    "coh s2 = coh s1" using take_mapped_run_1 [OF c s1(5) geo1] by metis
  have run: "find_free (Suc n) 1 s = (Inr c, s2)" by (simp add: qbind_def s1(1) s2(1) [unfolded One_nat_def])
  show thesis
    using s2 s1(3,4) frees_quiet [OF s1(2) assms(2)] by (intro that [OF run quiet_trans [OF s1(2) s2(2)]]) auto
qed

section \<open>Setting a refcount\<close>

lemma forget_l2_ok:
  assumes "coh s"
  obtains s' where "forget_l2 h s = (Inr (), s')" "same_rest s s'" "coh s'" "q_file s' = q_file s" "refblock_cache s' = refblock_cache s"
    "\<And>k. k \<noteq> h \<or> k \<in> rb_hosts s \<Longrightarrow> ov s' k = ov s k" "hm_get (tc_map (l2_cache s')) h = None"
    "\<And>k. hm_get (tc_map (l2_cache s')) k \<noteq> None \<Longrightarrow> hm_get (tc_map (l2_cache s)) k \<noteq> None"
proof -
  let ?c = "TableCache_remove h (l2_cache s)" and ?s = "s\<lparr>l2_cache := TableCache_remove h (l2_cache s)\<rparr>"
  have run: "forget_l2 h s = (Inr (), ?s)" by (simp add: forget_l2_def)
  have rest: "same_rest s ?s" by (simp add: same_rest_def)
  note fields = same_rest_fields [OF rest]
  have get: "hm_get (tc_map ?c) k = (if k = h then None else hm_get (tc_map (l2_cache s)) k)" for k
    by (simp add: TableCache_remove_def hm_get_remove)
  have "tc_wf ?c" using cohD(1) [OF assms] using length_delete_le [of h "tc_map (l2_cache s)"]
    by (auto simp: tc_wf_def TableCache_remove_def keys_remove hm_remove_def [symmetric])
  moreover have "cl ?s = cl s" by (rule cl_same [OF rest]) simp
  ultimately have coh: "coh ?s" using assms by (auto simp: coh_def cached_ok_def fields get split: if_splits)
  have "hm_get (tc_map (l2_cache s)) k = None" if "k \<in> rb_hosts s" for k using that cohD(3) [OF assms, of k] by (cases "hm_get (tc_map (l2_cache s)) k") auto
  then have ov: "ov ?s k = ov s k" if "k \<noteq> h \<or> k \<in> rb_hosts s" for k using that by (intro ov_cong [OF rest]) (auto simp: get)
  show thesis by (rule that [OF run rest coh _ _ ov]) (auto simp: get split: if_splits)
qed


lemma note_free_quiet: "quiet s (note_free idx v s)" "coh (note_free idx v s) = coh s" "l2_cache (note_free idx v s) = l2_cache s"
proof -
  have "note_free idx v s = s\<lparr>free_set := free_set (note_free idx v s), scan_next := scan_next s\<rparr>" by (simp add: note_free_def)
  then show "quiet s (note_free idx v s)" "coh (note_free idx v s) = coh s" by (metis quiet_free, metis free_irrelevant(2))
  show "l2_cache (note_free idx v s) = l2_cache s" by (simp add: note_free_def)
qed

lemma rc_set:
  assumes s: "coh s" "geo s" "covered s idx" "same_rest s s'"
    and ov: "\<And>k. k \<in> cl s \<Longrightarrow> ov s' k = (if k = rt_host s (idx div refblock_entries s)
      then bits_set (ov s k) (idx mod refblock_entries s) (refcount_bits s) v else ov s k)"
  shows "rc s' = (rc s)(idx := v mod 2 ^ refcount_bits s)"
proof
  fix c
  let ?r = "refblock_entries s" and ?h = "\<lambda>i. rt_host s (i div refblock_entries s)"
  note fields = core_fields [OF same_rest_core [OF s(4)]]
  have r: "0 < ?r" by (rule geoD(3) [OF s(2)])
  have h: "?h idx \<noteq> 0" "?h idx \<in> cl s" using s(2,3) by (auto simp: covered_def dest: geoD(5))
  consider (none) "?h c = 0" | (other) "?h c \<noteq> 0" "?h c \<noteq> ?h idx" | (same) "?h c = ?h idx" "c div ?r = idx div ?r"
    using cohD(7) [OF s(1) h(1)] by metis
  then show "rc s' c = ((rc s)(idx := v mod 2 ^ refcount_bits s)) c"
  proof cases
    case none
    then show ?thesis using h(1) by (auto simp: rc_def Let_def fields)
  next
    case other
    then show ?thesis using ov [OF geoD(5) [OF s(2) other(1)]] by (auto simp: rc_def Let_def fields)
  next
    case same
    have eq: "idx = c \<longleftrightarrow> idx mod ?r = c mod ?r" using same(2) by (metis div_mod_decomp)
    have "length (ov s (?h idx)) = cluster_size s" by (rule ov_length [OF s(1) h(2)])
    then have "bits_get (bits_set (ov s (?h idx)) (idx mod ?r) (refcount_bits s) v) (c mod ?r) (refcount_bits s) =
        (if idx mod ?r = c mod ?r then v mod 2 ^ refcount_bits s else bits_get (ov s (?h idx)) (c mod ?r) (refcount_bits s))"
      using geoD(7) [OF s(2)] r by (intro bits_get_set [OF geoD(4) [OF s(2)]]) simp_all
    then show ?thesis using same h ov [OF h(2)] by (simp add: rc_def Let_def fields eq [symmetric])
  qed
qed

lemma fm_set:
  assumes s: "fm E s" "E \<subseteq> {idx}" "covered s idx" and s': "core s s'" "free_set s' = free_set (note_free idx v s)" "scan_next s' = scan_next s"
    and rc: "rc s' = (rc s)(idx := v)"
  shows "fm {} s'"
proof -
  have frees: "frees s' = (if v = 0 then insert idx (frees s) else frees s - {idx})"
    using s(3) by (auto simp: frees_def rc covered_def core_fields [OF s'(1)])
  have old: "sorted (free_set s)" "distinct (free_set s)" "set (free_set s) \<subseteq> frees s - E" "frees s \<inter> {..<scan_next s} \<subseteq> set (free_set s) \<union> E"
    using s(1) by (simp_all add: fm_def)
  have new: "set (free_set s') = (if v = 0 then insert idx (set (free_set s)) else set (free_set s) - {idx})"
    by (auto simp: s'(2) note_free_def set_insort_insert)
  have "sorted (free_set s')" "distinct (free_set s')"
    using old(1,2) by (auto simp: s'(2) note_free_def sorted_insort_insert distinct_insort_insert sorted_wrt_filter)
  moreover have "set (free_set s') \<subseteq> frees s'" "frees s' \<inter> {..<scan_next s'} \<subseteq> set (free_set s')"
    unfolding frees new s'(3) using old(3,4) s(2) by auto
  ultimately show ?thesis by (simp add: fm_def)
qed

lemma set_refcount_ok:
  assumes s: "coh s" "geo s" "\<not> q_read_only s" "covered s idx" "fm E s" "E \<subseteq> {idx}" and v: "v < 2 ^ refcount_bits s"
  obtains s' where "set_cluster_refcount (Suc (Suc n)) idx v s = (Inr (), s')" "core s s'" "coh s'" "length (q_file s') = length (q_file s)"
    "\<And>k. k \<in> cl s \<Longrightarrow> k \<notin> rb_hosts s \<Longrightarrow> ov s' k = ov s k" "rc s' = (rc s)(idx := v)" "fm {} s'" "l2_cache s' = l2_cache s"
proof -
  let ?r = "refblock_entries s" and ?ti = "idx div refblock_entries s"
  have h: "rt_host s ?ti \<noteq> 0" "rt_host s ?ti \<in> cl s" using s(2,4) by (auto simp: covered_def dest: geoD(5))
  have ti: "?ti < length (refcount_table s)" "host_of (refcount_table s ! ?ti) \<noteq> 0" using h(1) by (auto simp: rt_host_def split: if_splits)
  have "(idx mod ?r + 1) * refcount_bits s \<le> cluster_size s * 8" using geoD(7) [OF s(2)] geoD(3) [OF s(2)] by simp
  then obtain s1 where s1: "refblock_set ?ti (idx mod ?r) v s = (Inr (), s1)" "same_rest s s1" "coh s1" "length (q_file s1) = length (q_file s)"
    and ov1: "\<And>k. k \<in> cl s \<Longrightarrow> ov s1 k = (if k = rt_host s ?ti then bits_set (ov s k) (idx mod ?r) (refcount_bits s) v else ov s k)"
    and l2: "l2_cache s1 = l2_cache s"
    using refblock_set_ok [OF s(1) h s(3) geoD(4) [OF s(2)]] by metis
  let ?s = "note_free idx v s1"
  have run: "set_cluster_refcount (Suc (Suc n)) idx v s = (Inr (), ?s)" using ti by (simp add: Let_def qbind_def s1(1))
  note q = note_free_quiet(1) [of s1 idx v]
  have core: "core s ?s" by (rule core_trans [OF same_rest_core [OF s1(2)] quietD(1) [OF q]])
  have cl1: "cl s1 = cl s" by (rule cl_same [OF s1(2,4)])
  have geo1: "geo s1" by (rule geo_core [OF s(2) same_rest_core [OF s1(2)]]) (simp add: cl1)
  have rc: "rc ?s = (rc s)(idx := v)" using rc_set [OF s(1,2,4) s1(2) ov1] v by (simp add: rc_quiet [OF q geo1])
  have f: "free_set s1 = free_set s" "scan_next s1 = scan_next s" using same_rest_fields [OF s1(2)] by auto
  have fm: "fm {} ?s" by (rule fm_set [OF s(5,6,4) core _ _ rc]) (simp_all add: note_free_def f)
  have "rt_host s ?ti \<in> rb_hosts s" using h(1) by (auto simp: rb_hosts_def)
  then have ov: "ov ?s k = ov s k" if "k \<in> cl s" "k \<notin> rb_hosts s" for k
    using that ov1 quietD(3) [OF q, of k] by (auto simp: cl1)
  show thesis
    by (rule that [OF run core _ _ ov rc fm]) (use s1(3,4) l2 note_free_quiet(2,3) q in \<open>auto simp: quiet_def\<close>)
qed

section \<open>Allocating a cluster\<close>

lemma covered_core: "core s s' \<Longrightarrow> covered s' = covered s"
  by (intro ext) (simp add: covered_def core_fields)

lemma alloc_cluster_ok:
  assumes s: "coh s" "geo s" "\<not> q_read_only s" "fm {} s" "frees s \<noteq> {}"
  obtains s' c where "alloc_cluster (Suc (Suc n)) s = (Inr (c * cluster_size s), s')" "c \<in> frees s" "core s s'" "coh s'"
    "length (q_file s') = length (q_file s)" "\<And>k. k \<in> cl s \<Longrightarrow> k \<notin> rb_hosts s \<Longrightarrow> k \<noteq> c * cluster_size s \<Longrightarrow> ov s' k = ov s k"
    "rc s' = (rc s)(c := 1)" "fm {} s'" "hm_get (tc_map (l2_cache s')) (c * cluster_size s) = None"
    "\<And>k. hm_get (tc_map (l2_cache s')) k \<noteq> None \<Longrightarrow> hm_get (tc_map (l2_cache s)) k \<noteq> None"
proof -
  let ?cs = "cluster_size s"
  obtain s1 c where s1: "find_free (Suc (Suc n)) 1 s = (Inr c, s1)" "quiet s s1" "coh s1" "l2_cache s1 = l2_cache s" "fm {c} s1" "c \<in> frees s"
    using find_free_ok [OF s(1,2,4,5)] by metis
  obtain s2 where s2: "forget_l2 (c * ?cs) s1 = (Inr (), s2)" "same_rest s1 s2" "coh s2" "q_file s2 = q_file s1"
    "refblock_cache s2 = refblock_cache s1" and ov2: "\<And>k. k \<noteq> c * ?cs \<or> k \<in> rb_hosts s1 \<Longrightarrow> ov s2 k = ov s1 k"
    and none: "hm_get (tc_map (l2_cache s2)) (c * ?cs) = None"
    and keys: "\<And>k. hm_get (tc_map (l2_cache s2)) k \<noteq> None \<Longrightarrow> hm_get (tc_map (l2_cache s1)) k \<noteq> None"
    using forget_l2_ok [OF s1(3), of "c * ?cs"] by metis
  note core1 = quietD(1) [OF s1(2)] and core2 = same_rest_core [OF s2(2)]
  have core12: "core s s2" by (rule core_trans [OF core1 core2])
  note f12 = core_fields [OF core12]
  have cl12: "cl s1 = cl s" "cl s2 = cl s" using quietD(2) [OF s1(2)] cl_core [OF core2] s2(4) by simp_all
  have geo2: "geo s2" by (rule geo_core [OF s(2) core12]) (simp add: cl12)
  have "rc s2 = rc s1" by (rule rc_cong [OF core2]) (rule ov2, simp)
  then have rc2: "rc s2 = rc s" by (simp add: rc_quiet [OF s1(2) s(2)])
  have frees: "frees s2 = frees s1" by (simp add: frees_def rc2 rc_quiet [OF s1(2) s(2)] covered_core [OF core2])
  have fm2: "fm {c} s2" using s1(5) same_rest_fields [OF s2(2)] by (simp add: fm_def frees)
  have cov: "covered s2 c" using s1(6) by (simp add: frees_def covered_core [OF core12])
  have small: "1 < (2 :: nat) ^ refcount_bits s2" using geoD(4) [OF geo2] by (auto simp: widths_def)
  obtain s3 where s3: "set_cluster_refcount (Suc (Suc n)) c 1 s2 = (Inr (), s3)" "core s2 s3" "coh s3" "length (q_file s3) = length (q_file s2)"
    and ov3: "\<And>k. k \<in> cl s2 \<Longrightarrow> k \<notin> rb_hosts s2 \<Longrightarrow> ov s3 k = ov s2 k"
    and rc3: "rc s3 = (rc s2)(c := 1)" "fm {} s3" and l23: "l2_cache s3 = l2_cache s2"
    using set_refcount_ok [OF s2(3) geo2 _ cov fm2 subset_refl small] s(3) f12(1) by metis
  have run: "alloc_cluster (Suc (Suc n)) s = (Inr (c * ?cs), s3)"
    by (simp add: alloc_cluster_def qbind_def s1(1) [unfolded One_nat_def] s2(1) s3(1) [unfolded One_nat_def]
      del: find_free.simps set_cluster_refcount.simps)
  have ov: "ov s3 k = ov s k" if "k \<in> cl s" "k \<notin> rb_hosts s" "k \<noteq> c * ?cs" for k
    using that ov3 [of k] ov2 [of k] quietD(3) [OF s1(2), of k] by (simp add: cl12 f12)
  have len: "length (q_file s3) = length (q_file s)" using s1(2) s2(4) s3(4) by (simp add: quiet_def)
  show thesis
    by (rule that [OF run s1(6) core_trans [OF core12 s3(2)] s3(3) len ov _ rc3(2)]) (use rc3(1) rc2 none keys l23 s1(4) in auto)
qed

end
