(* ===== verification/Qcow2_View.thy ===== *)
theory Qcow2_View
  imports Qcow2_Alloc Qcow2_Io
begin

text \<open>
  What a guest sees of a qcow2 image: the bytes behind an L1 table, with the tables read through their caches.
  The guest reads of \<open>mod.rs\<close>, which merge neighbouring clusters into one file read, return these bytes.
\<close>

section \<open>Entries\<close>

lemma OFFSET_MASK_bits: "OFFSET_MASK = push_bit 9 (mask 47)"
  by (simp add: OFFSET_MASK_def push_bit_eq_mult mask_eq_exp_minus_1)

lemma flag_bits: "is_compressed e \<longleftrightarrow> bit e 62" "is_copied e \<longleftrightarrow> bit e 63" "is_zero e \<longleftrightarrow> bit e 0"
  using bit_iff_and_push_bit_not_eq_0 [of e 62] bit_iff_and_push_bit_not_eq_0 [of e 63] bit_iff_and_push_bit_not_eq_0 [of e 0]
  by (simp_all add: is_compressed_def is_copied_def is_zero_def COMPRESSED_BIT_def COPIED_BIT_def ZERO_BIT_def)

lemma host_of_bits: "host_of e = unat (push_bit 9 (drop_bit 9 (take_bit 56 e)))"
proof -
  have "e AND OFFSET_MASK = push_bit 9 (drop_bit 9 (take_bit 56 e))"
    unfolding OFFSET_MASK_bits by (rule bit_word_eqI) (auto simp: bit_simps)
  then show ?thesis by (simp add: host_of_def)
qed

lemma host_of_copied [simp]: "host_of (e OR COPIED_BIT) = host_of e"
proof -
  have "push_bit 9 (drop_bit 9 (take_bit 56 (e OR COPIED_BIT))) = push_bit 9 (drop_bit 9 (take_bit 56 e))"
    by (rule bit_word_eqI) (auto simp: bit_simps COPIED_BIT_def)
  then show ?thesis by (simp add: host_of_bits)
qed

lemma flags_copied [simp]:
  "is_compressed (e OR COPIED_BIT) = is_compressed e" "is_zero (e OR COPIED_BIT) = is_zero e" "is_copied (e OR COPIED_BIT)"
  by (auto simp: flag_bits COPIED_BIT_def bit_simps)

lemma host_of_0 [simp]: "host_of 0 = 0" "\<not> is_compressed 0" "\<not> is_zero 0" "\<not> is_copied 0"
  by (simp_all add: host_of_def is_compressed_def is_zero_def is_copied_def)

lemma entry_of_host:
  assumes "512 dvd h" "h < 2 ^ 56"
  shows "host_of (of_nat h) = h" "\<not> is_compressed (of_nat h)" "\<not> is_zero (of_nat h)"
proof -
  have bits: "\<not> bit h n" if "n < 9 \<or> 56 \<le> n" for n
  proof (cases "n < 9")
    case True
    obtain k where h: "h = 512 * k" using assms(1) by (auto elim: dvdE)
    have "h = push_bit 9 k" by (simp add: h push_bit_eq_mult)
    then show ?thesis using True by (simp add: bit_push_bit_iff)
  next
    case False
    then have "(2 :: nat) ^ 56 \<le> 2 ^ n" using that by (intro power_increasing) auto
    then have "h < 2 ^ n" using assms(2) by linarith
    then show ?thesis by (simp add: bit_iff_odd)
  qed
  have "push_bit 9 (drop_bit 9 (take_bit 56 (of_nat h :: u64))) = of_nat h"
  proof (rule bit_word_eqI)
    fix n
    show "bit (push_bit 9 (drop_bit 9 (take_bit 56 (of_nat h :: u64)))) n = bit (of_nat h :: u64) n" if "n < LENGTH(64)"
      using that bits [of n] by (cases "n < 9 \<or> 56 \<le> n") (auto simp: bit_simps bit_of_nat_iff not_less not_le)
  qed
  then show "host_of (of_nat h) = h" using assms(2) by (simp add: host_of_bits unat_of_nat_mod)
  show "\<not> is_compressed (of_nat h)" "\<not> is_zero (of_nat h)" using bits by (simp_all add: flag_bits bit_of_nat_iff)
qed

section \<open>The guest's view\<close>

definition ent :: "Qcow2Image \<Rightarrow> nat \<Rightarrow> nat \<Rightarrow> u64" where
  "ent s t i = from_be64 (take 8 (drop (i * 8) (ov s t)))"

text \<open>The entry that maps guest cluster \<open>g\<close> under an L1 table, and that cluster's bytes.\<close>

definition gent :: "Qcow2Image \<Rightarrow> u64 list \<Rightarrow> nat \<Rightarrow> u64" where
  "gent s l1 g = (let i = g div l2_entries s; r = (if i < length l1 then l1 ! i else 0)
     in if host_of r = 0 then 0 else ent s (host_of r) (g mod l2_entries s))"

definition bk :: "Qcow2Image \<Rightarrow> nat \<Rightarrow> u8" where
  "bk s pos = (case backing_image s of None \<Rightarrow> 0
     | Some b \<Rightarrow> if pos < bi_size b then (case bi_read b pos 1 of Inr (x # _) \<Rightarrow> x | _ \<Rightarrow> 0) else 0)"

definition cview :: "Qcow2Image \<Rightarrow> u64 list \<Rightarrow> nat \<Rightarrow> bytes" where
  "cview s l1 g = (let e = gent s l1 g; cs = cluster_size s
     in if is_zero e then replicate cs 0
        else if host_of e = 0 then map (bk s) [g * cs..<(g + 1) * cs]
        else ov s (host_of e))"

definition view :: "Qcow2Image \<Rightarrow> u64 list \<Rightarrow> nat \<Rightarrow> u8" where
  "view s l1 pos = cview s l1 (pos div cluster_size s) ! (pos mod cluster_size s)"

text \<open>A backing image reads as a fixed sequence of bytes.\<close>

definition backing_ok :: "BackingImage \<Rightarrow> bool" where
  "backing_ok b \<longleftrightarrow> (\<exists>f. \<forall>off n. off + n \<le> bi_size b \<longrightarrow> bi_read b off n = Inr (map f [off..<off + n]))"

text \<open>
  The tables and data clusters reachable from root entries \<open>L\<close>, and the conditions under which the image reads
  back: they are whole clusters of the file, tables are no data, and no data cluster is in a cache. Compressed
  clusters are excluded.
\<close>

definition tables :: "u64 list \<Rightarrow> nat set" where
  "tables L = {host_of r | r. r \<in> set L \<and> host_of r \<noteq> 0}"

definition datas :: "Qcow2Image \<Rightarrow> u64 list \<Rightarrow> nat set" where
  "datas s L = {host_of (ent s t i) | t i. t \<in> tables L \<and> i < l2_entries s \<and> host_of (ent s t i) \<noteq> 0}"

definition cached_keys :: "Qcow2Image \<Rightarrow> nat set" where
  "cached_keys s = {k. hm_get (tc_map (l2_cache s)) k \<noteq> None}"

definition readable :: "Qcow2Image \<Rightarrow> u64 list \<Rightarrow> bool" where
  "readable s L \<longleftrightarrow> coh s \<and> geo s \<and> tables L \<subseteq> cl s - rb_hosts s \<and>
     datas s L \<subseteq> cl s - (rb_hosts s \<union> tables L \<union> cached_keys s) \<and>
     (\<forall>t \<in> tables L. \<forall>i < l2_entries s. \<not> is_compressed (ent s t i)) \<and>
     (\<forall>b. backing_image s = Some b \<longrightarrow> backing_ok b)"

lemma readableD:
  assumes "readable s L"
  shows "coh s" "geo s" "t \<in> tables L \<Longrightarrow> t \<in> cl s" "t \<in> tables L \<Longrightarrow> t \<notin> rb_hosts s"
    "d \<in> datas s L \<Longrightarrow> d \<in> cl s" "d \<in> datas s L \<Longrightarrow> d \<notin> rb_hosts s" "d \<in> datas s L \<Longrightarrow> d \<notin> cached_keys s"
    "d \<in> datas s L \<Longrightarrow> d \<notin> tables L"
    "t \<in> tables L \<Longrightarrow> i < l2_entries s \<Longrightarrow> \<not> is_compressed (ent s t i)" "backing_image s = Some b \<Longrightarrow> backing_ok b"
  using assms by (auto simp: readable_def)

section \<open>Guest addresses\<close>

lemma l2_entries_pow:
  assumes "geo s"
  shows "l2_entries s = 2 ^ (cluster_bits s - 3)" "0 < l2_entries s" "l2_entries s * 8 = cluster_size s"
proof -
  have "3 \<le> cluster_bits s" using assms by (simp add: geo_def)
  then have c: "cluster_size s = 2 ^ (cluster_bits s - 3) * 8" using power_add [of "2 :: nat" "cluster_bits s - 3" 3] by (simp add: cluster_size_def)
  then show "l2_entries s = 2 ^ (cluster_bits s - 3)" "0 < l2_entries s" "l2_entries s * 8 = cluster_size s"
    by (simp_all add: l2_entries_def)
qed

lemma l1_index_cluster: "geo s \<Longrightarrow> l1_index_of s pos = pos div cluster_size s div l2_entries s"
  by (simp add: l1_index_of_def l2_index_bits_def power_add div_mult2_eq l2_entries_pow(1) cluster_size_def)

lemma in_span:
  assumes "geo s" "j < l2_span s - pos mod l2_span s"
  shows "(pos + j) div cluster_size s div l2_entries s = pos div cluster_size s div l2_entries s"
proof -
  have span: "l2_span s = cluster_size s * l2_entries s" by (simp add: l2_span_def mult.commute)
  have "(pos + j) div l2_span s = pos div l2_span s"
  proof -
    have "pos + j = (pos mod l2_span s + j) + pos div l2_span s * l2_span s" by (simp add: add.assoc)
    moreover have "pos mod l2_span s + j < l2_span s" using assms(2) by linarith
    ultimately show ?thesis using div_mult_self1 [of "l2_span s" "pos mod l2_span s + j" "pos div l2_span s"] by simp
  qed
  then show ?thesis by (simp add: span div_mult2_eq)
qed


section \<open>Steps that change no cluster\<close>

lemma ent_cong: "ov s' t = ov s t \<Longrightarrow> ent s' t = ent s t"
  by (intro ext) (simp add: ent_def)

lemma datas_cong:
  assumes "\<And>t. t \<in> tables L \<Longrightarrow> ov s' t = ov s t" "l2_entries s' = l2_entries s"
  shows "datas s' L = datas s L"
proof -
  have "ent s' t = ent s t" if "t \<in> tables L" for t using assms(1) that by (intro ent_cong)
  then show ?thesis unfolding datas_def assms(2) by (intro Collect_cong ex_cong1) auto
qed

lemma backing_core: "core s s' \<Longrightarrow> bk s' = bk s"
  by (intro ext) (simp add: bk_def core_fields split: option.split)

lemma gent_cases:
  assumes "set l1 \<subseteq> set L" "geo s"
  obtains "gent s l1 g = 0" "\<not> g div l2_entries s < length l1 \<or> host_of (l1 ! (g div l2_entries s)) = 0"
  | t where "t \<in> tables L" "gent s l1 g = ent s t (g mod l2_entries s)" "g mod l2_entries s < l2_entries s"
      "g div l2_entries s < length l1" "t = host_of (l1 ! (g div l2_entries s))" "t \<noteq> 0"
proof (cases "g div l2_entries s < length l1 \<and> host_of (l1 ! (g div l2_entries s)) \<noteq> 0")
  case True
  let ?t = "host_of (l1 ! (g div l2_entries s))"
  have "l1 ! (g div l2_entries s) \<in> set L" using True assms(1) nth_mem by blast
  then have "?t \<in> tables L" using True unfolding tables_def by blast
  then show thesis using True l2_entries_pow(2) [OF assms(2)] by (intro that(2) [of ?t]) (simp_all add: gent_def Let_def)
qed (auto simp: gent_def Let_def intro: that(1))

lemma gent_data:
  assumes "set l1 \<subseteq> set L" "geo s" "host_of (gent s l1 g) \<noteq> 0"
  shows "host_of (gent s l1 g) \<in> datas s L"
proof -
  obtain t where "t \<in> tables L" "gent s l1 g = ent s t (g mod l2_entries s)" "g mod l2_entries s < l2_entries s"
    using assms(3) by (cases rule: gent_cases [OF assms(1,2), of g]) auto
  then show ?thesis using assms(3) unfolding datas_def by auto
qed

text \<open>A view depends on the tables and the data behind it only.\<close>

lemma gent_cong:
  assumes "set l1 \<subseteq> set L" "geo s" "l2_entries s' = l2_entries s" "\<And>t. t \<in> tables L \<Longrightarrow> ov s' t = ov s t"
  shows "gent s' l1 g = gent s l1 g"
proof (cases rule: gent_cases [OF assms(1,2), of g])
  case 1
  then show ?thesis by (auto simp: gent_def Let_def assms(3))
next
  case (2 t)
  then show ?thesis using ent_cong [OF assms(4) [OF 2(1)]] by (simp add: gent_def Let_def assms(3))
qed

lemma cview_cong:
  assumes "set l1 \<subseteq> set L" "geo s" "core s s'" "\<And>h. h \<in> tables L \<union> datas s L \<Longrightarrow> ov s' h = ov s h"
  shows "cview s' l1 = cview s l1"
proof
  fix g
  have e: "gent s' l1 g = gent s l1 g" using assms(4) core_fields(17) [OF assms(3)] by (intro gent_cong [OF assms(1,2)]) auto
  show "cview s' l1 g = cview s l1 g"
    using assms(4) gent_data [OF assms(1,2), of g]
    by (auto simp: cview_def Let_def e core_fields [OF assms(3)] backing_core [OF assms(3)])
qed

lemma view_cong:
  assumes "set l1 \<subseteq> set L" "geo s" "core s s'" "\<And>h. h \<in> tables L \<union> datas s L \<Longrightarrow> ov s' h = ov s h"
  shows "view s' l1 = view s l1"
  using cview_cong [OF assms] by (intro ext) (simp add: view_def core_fields [OF assms(3)])

lemma readable_eqv:
  assumes "readable s L" "eqv s s'" "coh s'" "cached_keys s' \<subseteq> cached_keys s \<union> tables L"
  shows "readable s' L"
proof -
  note r = readableD [OF assms(1)] and core = same_rest_core [OF eqvD(1) [OF assms(2)]]
  have ov: "ov s' t = ov s t" if "t \<in> tables L" for t using that r(3) eqvD(3) [OF assms(2)] by blast
  have d: "datas s' L = datas s L" using ov core_fields(17) [OF core] by (intro datas_cong) auto
  have "geo s'" using r(2) quiet_geo [OF eqv_quiet [OF assms(2)]] by blast
  moreover have "tables L \<subseteq> cl s' - rb_hosts s'" using r(3,4) by (auto simp: core_fields(20) [OF core] eqvD(2) [OF assms(2)])
  moreover have "datas s' L \<subseteq> cl s' - (rb_hosts s' \<union> tables L \<union> cached_keys s')"
    using r(5-8) assms(4) by (auto simp: d core_fields(20) [OF core] eqvD(2) [OF assms(2)])
  moreover have "\<not> is_compressed (ent s' t i)" if "t \<in> tables L" "i < l2_entries s'" for t i
    using that r(9) [of t i] ent_cong [OF ov [OF that(1)]] by (simp add: core_fields(17) [OF core])
  moreover have "backing_ok b" if "backing_image s' = Some b" for b using that r(10) by (simp add: core_fields(12) [OF core])
  ultimately show ?thesis using assms(3) unfolding readable_def by blast
qed


section \<open>Reading\<close>

lemma data_ov:
  assumes "readable s L" "d \<in> datas s L"
  shows "ov s d = clus (cluster_size s) (q_file s) d" "d + cluster_size s \<le> length (q_file s)"
proof -
  note r = readableD(5-7) [OF assms(1), of d]
  have "hm_get (tc_map (l2_cache s)) d = None" using r(3) assms(2) unfolding cached_keys_def by blast
  then show "ov s d = clus (cluster_size s) (q_file s) d" using r(2) assms(2) by (intro ov_file)
  show "d + cluster_size s \<le> length (q_file s)" using r(1) assms(2) by (simp add: cl_def)
qed

lemma coalesce_spec:
  "len \<le> m \<Longrightarrow> \<exists>k \<le> length es. coalesce source cs m len es = min m (len + k * cs) \<and>
     (\<forall>i < k. len + i * cs < m \<and> adjacent_source source (len + i * cs) (from_entry (es ! i) 0))"
proof (induction es arbitrary: len)
  case Nil
  then show ?case by simp
next
  case (Cons e es)
  show ?case
  proof (cases "len \<noteq> m \<and> adjacent_source source len (from_entry e 0)")
    case False
    then show ?thesis using Cons.prems by (intro exI [of _ 0]) auto
  next
    case True
    let ?len = "len + min (m - len) cs"
    obtain k where k: "k \<le> length es" "coalesce source cs m ?len es = min m (?len + k * cs)"
      "\<forall>i < k. ?len + i * cs < m \<and> adjacent_source source (?len + i * cs) (from_entry (es ! i) 0)"
      using Cons.IH [of ?len] Cons.prems by (metis add_le_cancel_left le_add_diff_inverse min.cobounded1)
    show ?thesis
    proof (cases "len + cs \<le> m")
      case fits: True
      then have l: "?len = len + cs" by simp
      have "len + i * cs < m \<and> adjacent_source source (len + i * cs) (from_entry ((e # es) ! i) 0)" if "i < Suc k" for i
        using that k(3) True Cons.prems unfolding l by (cases i) (auto simp: add.assoc)
      moreover have "coalesce source cs m len (e # es) = min m (len + Suc k * cs)" using True k(2) l by (simp add: add.assoc)
      ultimately show ?thesis using k(1) by (intro exI [of _ "Suc k"]) auto
    next
      case False
      then have l: "?len = m" using Cons.prems by simp
      then have "coalesce source cs m len (e # es) = min m (len + 1 * cs)" using True k(2) False by simp
      then show ?thesis using True Cons.prems by (intro exI [of _ 1]) auto
    qed
  qed
qed

text \<open>What an extent found by \<open>read_extent\<close> says about the bytes of a view \<open>v\<close>.\<close>

fun src_ok :: "Qcow2Image \<Rightarrow> (nat \<Rightarrow> u8) \<Rightarrow> nat \<Rightarrow> ReadSource \<Rightarrow> nat \<Rightarrow> bool" where
  "src_ok s v pos SrcBacking len \<longleftrightarrow> (\<forall>j < len. v (pos + j) = bk s (pos + j))"
| "src_ok s v pos SrcZero len \<longleftrightarrow> (\<forall>j < len. v (pos + j) = 0)"
| "src_ok s v pos (SrcFile h) len \<longleftrightarrow> h + len \<le> length (q_file s) \<and> (\<forall>j < len. v (pos + j) = q_file s ! (h + j))"
| "src_ok s v pos (SrcCompressed e) len \<longleftrightarrow> False"

lemma view_byte:
  assumes "readable s L" "set l1 \<subseteq> set L"
  shows "view s l1 p = (let e = gent s l1 (p div cluster_size s) in
     if is_zero e then 0 else if host_of e = 0 then bk s p else q_file s ! (host_of e + p mod cluster_size s))"
proof -
  let ?cs = "cluster_size s" and ?e = "gent s l1 (p div cluster_size s)"
  have "p < ?cs + ?cs * (p div ?cs)" using mod_less_divisor [of ?cs p] mult_div_mod_eq [of ?cs p] cluster_size_pos [of s] by linarith
  moreover have "ov s (host_of ?e) ! (p mod ?cs) = q_file s ! (host_of ?e + p mod ?cs)" if "host_of ?e \<noteq> 0"
    using data_ov [OF assms(1) gent_data [OF assms(2) readableD(2) [OF assms(1)] that]] by (simp add: nth_clus)
  ultimately show ?thesis by (simp add: view_def cview_def Let_def mult.commute)
qed

lemma same_table:
  assumes "g mod n + c < (n :: nat)"
  shows "(g + c) div n = g div n" "(g + c) mod n = g mod n + c"
proof -
  have g: "g + c = (g mod n + c) + g div n * n" by (simp add: add.assoc)
  show "(g + c) div n = g div n" by (subst g, subst div_mult_self1) (use assms in auto)
  show "(g + c) mod n = g mod n + c" by (subst g, subst mod_mult_self1) (use assms in auto)
qed

lemma datasI: "t \<in> tables L \<Longrightarrow> i < l2_entries s \<Longrightarrow> host_of (ent s t i) \<noteq> 0 \<Longrightarrow> host_of (ent s t i) \<in> datas s L"
  unfolding datas_def by blast

text \<open>Where byte \<open>j\<close> of an extent lies, and what the table says of the cluster it is in.\<close>

lemma extent_clusters:
  assumes off: "off < cs" and len: "len = min m (cs - off)" and j: "j < min m (len + k * cs)"
    and k: "\<forall>i < k. len + i * cs < m \<and> adjacent_source source (len + i * cs) (f (1 + i))"
  obtains c w where "c \<le> k" "off + j = c * cs + w" "w < cs" "c = 0 \<or> 0 < c \<and> adjacent_source source (c * cs - off) (f c)"
proof -
  let ?c = "(off + j) div cs"
  have dec: "off + j = ?c * cs + (off + j) mod cs" "(off + j) mod cs < cs" using off by simp_all
  have "off + j < cs + k * cs" using j off len by linarith
  then have c: "?c \<le> k" using less_mult_imp_div_less [of "off + j" "Suc k" cs] by simp
  have "adjacent_source source (?c * cs - off) (f ?c)" if pos: "0 < ?c"
  proof -
    have "?c - 1 < k" using pos c by simp
    then have adj: "len + (?c - 1) * cs < m" "adjacent_source source (len + (?c - 1) * cs) (f (1 + (?c - 1)))" using k by auto
    then have "len = cs - off" using len by linarith
    moreover have "?c * cs = cs + (?c - 1) * cs" using pos by (cases ?c) simp_all
    ultimately have "len + (?c - 1) * cs = ?c * cs - off" using off by linarith
    then show ?thesis using adj(2) pos by simp
  qed
  then have "?c = 0 \<or> 0 < ?c \<and> adjacent_source source (?c * cs - off) (f ?c)" by linarith
  then show thesis by (rule that [OF c dec])
qed

lemma view_in_table:
  assumes r: "readable s L" "set l1 \<subseteq> set L" and tab: "g div l2_entries s < length l1" "t = host_of (l1 ! (g div l2_entries s))" "t \<noteq> 0"
    and c: "g mod l2_entries s + c < l2_entries s" "w < cluster_size s"
  shows "view s l1 ((g + c) * cluster_size s + w) = (let e = ent s t (g mod l2_entries s + c) in
      if is_zero e then 0 else if host_of e = 0 then bk s ((g + c) * cluster_size s + w) else q_file s ! (host_of e + w))"
proof -
  have "gent s l1 (g + c) = ent s t (g mod l2_entries s + c)"
    using tab same_table [OF c(1)] by (simp add: gent_def Let_def)
  moreover have "((g + c) * cluster_size s + w) div cluster_size s = g + c" "((g + c) * cluster_size s + w) mod cluster_size s = w"
    using c(2) by simp_all
  ultimately show ?thesis by (simp only: view_byte [OF r])
qed

lemma extent_bytes:
  assumes r: "readable s L" "set l1 \<subseteq> set L" and pos: "pos = g * cluster_size s + off" "off < cluster_size s"
    and tab: "g div l2_entries s < length l1" "t = host_of (l1 ! (g div l2_entries s))" "t \<noteq> 0" "idx = g mod l2_entries s"
    and src: "source = from_entry (ent s t idx) off" "len = min m (cluster_size s - off)" "0 < m"
    and k: "idx + k < l2_entries s" "\<forall>i < k. len + i * cluster_size s < m \<and>
      adjacent_source source (len + i * cluster_size s) (from_entry (ent s t (idx + (1 + i))) 0)"
  shows "src_ok s (view s l1) pos source (min m (len + k * cluster_size s))"
proof -
  let ?cs = "cluster_size s" and ?e = "ent s t idx"
  have tb: "t \<in> tables L" using tab r(2) nth_mem [OF tab(1)] unfolding tables_def by blast
  have plain: "\<not> is_compressed (ent s t i)" if "i < l2_entries s" for i using readableD(9) [OF r(1) tb that] .
  have idx: "idx < l2_entries s" using k(1) by simp
  have at: "\<exists>c w. idx + c < l2_entries s \<and> off + j = c * ?cs + w \<and> w < ?cs \<and>
      (c = 0 \<or> 0 < c \<and> adjacent_source source (c * ?cs - off) (from_entry (ent s t (idx + c)) 0)) \<and>
      view s l1 (pos + j) = (let e = ent s t (idx + c) in
        if is_zero e then 0 else if host_of e = 0 then bk s (pos + j) else q_file s ! (host_of e + w))"
    if j: "j < min m (len + k * ?cs)" for j
  proof -
    obtain c w where c: "c \<le> k" "off + j = c * ?cs + w" "w < ?cs"
      "c = 0 \<or> 0 < c \<and> adjacent_source source (c * ?cs - off) (from_entry (ent s t (idx + c)) 0)"
      by (rule extent_clusters [OF pos(2) src(2) j k(2)])
    have "pos + j = (g + c) * ?cs + w" using pos(1) c(2) by (simp add: algebra_simps)
    then show ?thesis using c k(1) view_in_table [OF r tab(1-3), of c w] tab(4) by - (rule exI [of _ c], rule exI [of _ w], simp add: Let_def)
  qed
  consider (zero) "is_zero ?e" | (none) "\<not> is_zero ?e" "host_of ?e = 0" | (host) "\<not> is_zero ?e" "host_of ?e \<noteq> 0" by blast
  then show ?thesis
  proof cases
    case zero
    then have s: "source = SrcZero" using plain [OF idx] by (simp add: src from_entry_def)
    have "view s l1 (pos + j) = 0" if j: "j < min m (len + k * ?cs)" for j
    proof -
      obtain c w where c: "idx + c < l2_entries s" "c = 0 \<or> adjacent_source SrcZero (c * ?cs - off) (from_entry (ent s t (idx + c)) 0)"
        and v: "view s l1 (pos + j) = (let e = ent s t (idx + c) in
          if is_zero e then 0 else if host_of e = 0 then bk s (pos + j) else q_file s ! (host_of e + w))"
        using at [OF j] s by auto
      then have "is_zero (ent s t (idx + c))" using zero plain [OF c(1)] by (auto simp: from_entry_def split: if_splits)
      then show ?thesis using v by simp
    qed
    then show ?thesis by (simp add: s)
  next
    case none
    then have s: "source = SrcBacking" using plain [OF idx] by (simp add: src from_entry_def)
    have "view s l1 (pos + j) = bk s (pos + j)" if j: "j < min m (len + k * ?cs)" for j
    proof -
      obtain c w where c: "idx + c < l2_entries s" "c = 0 \<or> adjacent_source SrcBacking (c * ?cs - off) (from_entry (ent s t (idx + c)) 0)"
        and v: "view s l1 (pos + j) = (let e = ent s t (idx + c) in
          if is_zero e then 0 else if host_of e = 0 then bk s (pos + j) else q_file s ! (host_of e + w))"
        using at [OF j] s by auto
      then have "\<not> is_zero (ent s t (idx + c)) \<and> host_of (ent s t (idx + c)) = 0"
        using none plain [OF c(1)] by (auto simp: from_entry_def split: if_splits)
      then show ?thesis using v by simp
    qed
    then show ?thesis by (simp add: s)
  next
    case host
    then have s: "source = SrcFile (host_of ?e + off)" using plain [OF idx] by (simp add: src from_entry_def)
    have byte: "\<exists>c w. off + j = c * ?cs + w \<and> w < ?cs \<and> host_of ?e + c * ?cs \<in> datas s L \<and>
        view s l1 (pos + j) = q_file s ! (host_of ?e + off + j)" if j: "j < min m (len + k * ?cs)" for j
    proof -
      obtain c w where c: "idx + c < l2_entries s" "off + j = c * ?cs + w" "w < ?cs"
        "c = 0 \<or> 0 < c \<and> adjacent_source source (c * ?cs - off) (from_entry (ent s t (idx + c)) 0)"
        and v: "view s l1 (pos + j) = (let e = ent s t (idx + c) in
          if is_zero e then 0 else if host_of e = 0 then bk s (pos + j) else q_file s ! (host_of e + w))" using at [OF j] by blast
      have le: "off \<le> c * ?cs" if "0 < c" using that pos(2) by (cases c) auto
      have h: "\<not> is_zero (ent s t (idx + c))" "host_of (ent s t (idx + c)) = host_of ?e + c * ?cs"
        using c(4) host le plain [OF c(1)] by (auto simp: s from_entry_def split: if_splits)
      then have "host_of ?e + c * ?cs \<in> datas s L" using host(2) datasI [OF tb c(1)] by simp
      then show ?thesis using v h host(2) c(2,3) by - (rule exI [of _ c], rule exI [of _ w], simp add: Let_def add.assoc)
    qed
    have "host_of ?e + off + min m (len + k * ?cs) \<le> length (q_file s)"
    proof (cases "min m (len + k * ?cs)")
      case 0
      have "0 < len" using src(2,3) pos(2) by simp
      then show ?thesis using 0 src(3) by simp
    next
      case (Suc j)
      obtain c w where "off + j = c * ?cs + w" "w < ?cs" "host_of ?e + c * ?cs \<in> datas s L" using byte [of j] Suc by auto
      then show ?thesis using data_ov(2) [OF r(1), of "host_of ?e + c * ?cs"] Suc by simp
    qed
    moreover have "\<forall>j < min m (len + k * ?cs). view s l1 (pos + j) = q_file s ! (host_of ?e + off + j)" using byte by blast
    ultimately show ?thesis unfolding s src_ok.simps by blast
  qed
qed


lemma chunks8_ent:
  assumes "coh s" "geo s" "t \<in> cl s"
  shows "length (chunks8 (ov s t)) = l2_entries s" "i < l2_entries s \<Longrightarrow> chunks8 (ov s t) ! i = ent s t i"
  using ov_length [OF assms(1,3)] by (simp_all add: chunks8_def ent_def l2_entries_def)

lemma keys_load:
  assumes "\<And>k. k \<noteq> h \<Longrightarrow> hm_get (tc_map (l2_cache s')) k \<noteq> None \<Longrightarrow> hm_get (tc_map (l2_cache s)) k \<noteq> None"
  shows "cached_keys s' \<subseteq> cached_keys s \<union> {h}"
  using assms unfolding cached_keys_def by blast

text \<open>The run of entries \<open>read_extent\<close> merges, from a table read through the cache.\<close>

lemma table_bind:
  assumes "qbind (load_l2 t) (\<lambda>_. cached_l2 t) s = (Inr b, s')"
  shows "qbind (load_l2 t) (\<lambda>_. qbind (cached_l2 t) F) s = F b s'"
  using assms by (auto simp: qbind_def split: prod.splits sum.splits)

lemma table_extent:
  assumes r: "readable s L" "set l1 \<subseteq> set L" and m: "0 < m" and pos: "g = pos div cluster_size s" "off = pos mod cluster_size s"
    and tab: "g div l2_entries s < length l1" "t = host_of (l1 ! (g div l2_entries s))" "t \<noteq> 0" "idx = g mod l2_entries s"
    and src: "es = chunks8 (ov s t)" "source = from_entry (es ! idx) off" "len0 = min m (cluster_size s - off)"
    and len: "len = (case source of SrcCompressed _ \<Rightarrow> len0 | _ \<Rightarrow> coalesce source (cluster_size s) m len0 (drop (idx + 1) es))"
  shows "src_ok s (view s l1) pos source len" "0 < len" "len \<le> m"
proof -
  let ?cs = "cluster_size s"
  note geo = readableD(2) [OF r(1)]
  have t: "t \<in> tables L" using tab r(2) nth_mem [OF tab(1)] unfolding tables_def by blast
  have idx: "idx < l2_entries s" using l2_entries_pow(2) [OF geo] tab(4) by simp
  have es: "length es = l2_entries s" "\<And>i. i < l2_entries s \<Longrightarrow> es ! i = ent s t i"
    using chunks8_ent [OF readableD(1) [OF r(1)] geo readableD(3) [OF r(1) t]] src(1) by simp_all
  have off: "off < ?cs" "pos = g * ?cs + off" by (simp_all add: pos)
  have plain: "\<not> is_compressed (es ! idx)" using readableD(9) [OF r(1) t idx] es(2) [OF idx] by simp
  then have nc: "\<forall>e. source \<noteq> SrcCompressed e" by (simp add: src(2) from_entry_def)
  have len': "len = coalesce source ?cs m len0 (drop (idx + 1) es)" unfolding len using nc by (cases source) simp_all
  obtain k where k: "k \<le> length (drop (idx + 1) es)" "len = min m (len0 + k * ?cs)"
    "\<forall>i < k. len0 + i * ?cs < m \<and> adjacent_source source (len0 + i * ?cs) (from_entry (drop (idx + 1) es ! i) 0)"
    unfolding len' using coalesce_spec [of len0 m "drop (idx + 1) es" source ?cs] src(3) min.cobounded1 by metis
  have kl: "idx + k < l2_entries s" using k(1) idx es(1) by simp
  have "drop (idx + 1) es ! i = ent s t (idx + (1 + i))" if "i < k" for i using that kl es by (simp add: nth_drop add.assoc)
  then have k': "\<forall>i < k. len0 + i * ?cs < m \<and> adjacent_source source (len0 + i * ?cs) (from_entry (ent s t (idx + (1 + i))) 0)"
    using k(3) by simp
  have "source = from_entry (ent s t idx) off" using src(2) es(2) [OF idx] by simp
  then show "src_ok s (view s l1) pos source len"
    unfolding k(2) by (rule extent_bytes [OF r off(2,1) tab _ src(3) m kl k'])
  show "0 < len" "len \<le> m" using k(2) m src(3) off(1) by simp_all
qed

lemma read_extent_ok:
  assumes r: "readable s L" "set (q_l1 s) \<subseteq> set L" and m: "0 < m"
  obtains s' source len where "read_extent pos m s = (Inr (source, len), s')" "eqv s s'" "readable s' L" "0 < len" "len \<le> m"
    "src_ok s' (view s (q_l1 s)) pos source len"
proof -
  let ?cs = "cluster_size s" and ?g = "pos div cluster_size s" and ?off = "pos mod cluster_size s"
  let ?i = "?g div l2_entries s" and ?idx = "?g mod l2_entries s"
  note geo = readableD(2) [OF r(1)] and coh = readableD(1) [OF r(1)]
  have i: "l1_index_of s pos = ?i" "l2_index_of s pos = ?idx" by (simp_all add: l1_index_cluster [OF geo] l2_index_of_def)
  show thesis
  proof (cases "?i < length (q_l1 s) \<and> host_of (q_l1 s ! ?i) \<noteq> 0")
    case False
    let ?len = "min m (l2_span s - pos mod l2_span s)"
    have span: "0 < l2_span s" using l2_entries_pow(2) [OF geo] by (simp add: l2_span_def)
    have "view s (q_l1 s) (pos + j) = bk s (pos + j)" if "j < ?len" for j
    proof -
      have "gent s (q_l1 s) ((pos + j) div ?cs) = 0" using False in_span [OF geo, of j pos] that by (auto simp: gent_def Let_def)
      then show ?thesis by (simp add: view_byte [OF r])
    qed
    then have "src_ok s (view s (q_l1 s)) pos SrcBacking ?len" by simp
    moreover have "read_extent pos m s = (Inr (SrcBacking, ?len), s)" using False by (auto simp: read_extent_def Let_def i)
    ultimately show thesis using m span by (intro that [of SrcBacking ?len s]) (simp_all add: r)
  next
    case True
    let ?t = "host_of (q_l1 s ! ?i)"
    have t: "?t \<in> tables L" using True r(2) nth_mem [of ?i "q_l1 s"] unfolding tables_def by blast
    obtain s' where run: "qbind (load_l2 ?t) (\<lambda>_. cached_l2 ?t) s = (Inr (ov s ?t), s')" and s': "eqv s s'" "coh s'"
      and keys: "\<And>k. k \<noteq> ?t \<Longrightarrow> hm_get (tc_map (l2_cache s')) k \<noteq> None \<Longrightarrow> hm_get (tc_map (l2_cache s)) k \<noteq> None"
      using table_read_ok [OF coh readableD(3,4) [OF r(1) t]] by metis
    have "cached_keys s' \<subseteq> cached_keys s \<union> tables L" using keys_load [OF keys] t by blast
    then have r': "readable s' L" by (rule readable_eqv [OF r(1) s'])
    note core = same_rest_core [OF eqvD(1) [OF s'(1)]]
    have ov: "ov s' ?t = ov s ?t" by (rule eqvD(3) [OF s'(1) readableD(3) [OF r(1) t]])
    define source where "source = from_entry (chunks8 (ov s ?t) ! ?idx) ?off"
    define len where "len = (case source of SrcCompressed _ \<Rightarrow> min m (?cs - ?off)
      | _ \<Rightarrow> coalesce source ?cs m (min m (?cs - ?off)) (drop (?idx + 1) (chunks8 (ov s ?t))))"
    have run2: "read_extent pos m s = (Inr (source, len), s')"
      using True unfolding read_extent_def Let_def i len_def source_def by (simp only: table_bind [OF run] qret_run if_True if_False simp_thms)
    have v: "view s' (q_l1 s) = view s (q_l1 s)"
      using readableD(3,5) [OF r(1)] eqvD(3) [OF s'(1)] by (intro view_cong [OF r(2) geo core]) auto
    have at: "?i < length (q_l1 s)" "?t \<noteq> 0" using True by simp_all
    have "src_ok s' (view s' (q_l1 s)) pos source len" "0 < len" "len \<le> m"
      using table_extent [OF r' r(2) m refl refl _ refl _ refl refl _ refl, unfolded core_fields [OF core], OF at source_def [folded ov] len_def [folded ov]]
      by auto
    then show thesis unfolding v by (intro that [OF run2 s'(1) r'])
  qed
qed


lemma map_upt_nth: "off + n \<le> length f \<Longrightarrow> (\<And>j. j < n \<Longrightarrow> v (pos + j) = f ! (off + j)) \<Longrightarrow> take n (drop off f) = map v [pos..<pos + n]"
  by (rule nth_equalityI) simp_all

lemma bk_read:
  assumes "backing_image s = Some b" "backing_ok b" "off + n \<le> bi_size b"
  shows "bi_read b off n = Inr (map (bk s) [off..<off + n])"
proof -
  obtain f where f: "\<And>off n. off + n \<le> bi_size b \<Longrightarrow> bi_read b off n = Inr (map f [off..<off + n])"
    using assms(2) by (auto simp: backing_ok_def)
  have "bk s p = f p" if "p < off + n" for p using that assms(3) f [of p 1] by (simp add: bk_def assms(1) upt_rec)
  then show ?thesis using f [OF assms(3)] by simp
qed

lemma read_unallocated_ok:
  assumes "readable s L"
  shows "read_unallocated pos len s = (Inr (map (bk s) [pos..<pos + len]), s)"
proof (cases "backing_image s")
  case None
  then have "map (bk s) [pos..<pos + len] = replicate len 0" by (intro replicate_eqI) (auto simp: bk_def)
  then show ?thesis by (simp add: read_unallocated_def None)
next
  case (Some b)
  have out: "map (bk s) [x..<y] = replicate (y - x) 0" if "bi_size b \<le> x" for x y
    using that by (intro replicate_eqI) (auto simp: bk_def Some)
  show ?thesis
  proof (cases "bi_size b \<le> pos")
    case True
    then show ?thesis using out [OF True, of "pos + len"] by (simp add: read_unallocated_def Some)
  next
    case False
    let ?n = "min len (bi_size b - pos)"
    have "bi_read b pos ?n = Inr (map (bk s) [pos..<pos + ?n])" using False by (intro bk_read [OF Some readableD(10) [OF assms Some]]) simp
    moreover have "[pos..<pos + len] = [pos..<pos + ?n] @ [pos + ?n..<pos + len]"
      using upt_add_eq_append [of pos "pos + ?n" "len - ?n"] by simp
    moreover have "map (bk s) [pos + ?n..<pos + len] = replicate (len - ?n) 0"
      using out [of "pos + ?n" "pos + len"] False by (cases "len \<le> bi_size b - pos") (simp_all add: min_def)
    ultimately show ?thesis using False by (simp add: read_unallocated_def Some Let_def)
  qed
qed

lemma read_source_ok:
  assumes "readable s L" "src_ok s v pos source len"
  shows "read_source inflate pos source len s = (Inr (map v [pos..<pos + len]), s)"
proof (cases source)
  case SrcBacking
  have "map v [pos..<pos + len] = map (bk s) [pos..<pos + len]"
    using assms(2) by (intro nth_equalityI) (simp_all add: SrcBacking)
  then show ?thesis by (simp add: read_source_def SrcBacking read_unallocated_ok [OF assms(1)])
next
  case SrcZero
  have "replicate len 0 = map v [pos..<pos + len]" using assms(2) by (intro nth_equalityI) (simp_all add: SrcZero)
  then show ?thesis by (simp add: read_source_def SrcZero)
next
  case (SrcFile h)
  have "take len (drop h (q_file s)) = map v [pos..<pos + len]" using assms(2) by (intro map_upt_nth) (simp_all add: SrcFile)
  then show ?thesis using assms(2) by (simp add: read_source_def SrcFile read_file_def file_read_in)
next
  case (SrcCompressed e)
  then show ?thesis using assms(2) by simp
qed

lemma read_bytes_ok:
  assumes "readable s L" "set (q_l1 s) \<subseteq> set L"
  shows "\<exists>s'. read_bytes inflate pos n s = (Inr (map (view s (q_l1 s)) [pos..<pos + n]), s') \<and> eqv s s' \<and> readable s' L"
  using assms
proof (induction n arbitrary: s pos rule: less_induct)
  case (less n)
  show ?case
  proof (cases "n = 0")
    case True
    then show ?thesis using less.prems by (intro exI [of _ s]) (simp add: read_bytes.simps [of _ _ 0])
  next
    case False
    then obtain s1 source len where s1: "read_extent pos n s = (Inr (source, len), s1)" "eqv s s1" "readable s1 L" "0 < len" "len \<le> n"
      and ok: "src_ok s1 (view s (q_l1 s)) pos source len"
      using read_extent_ok [OF less.prems, of n pos] by blast
    note core = same_rest_core [OF eqvD(1) [OF s1(2)]]
    have v: "view s1 (q_l1 s) = view s (q_l1 s)"
      using readableD(3,5) [OF less.prems(1)] eqvD(3) [OF s1(2)] readableD(2) [OF less.prems(1)] less.prems(2)
      by (intro view_cong [OF less.prems(2) _ core]) auto
    have l1: "q_l1 s1 = q_l1 s" using core_fields [OF core] by simp
    obtain s2 where s2: "read_bytes inflate (pos + len) (n - len) s1 = (Inr (map (view s (q_l1 s)) [pos + len..<pos + n]), s2)"
      "eqv s1 s2" "readable s2 L"
      using less.IH [of "n - len" s1 "pos + len"] s1(3-5) less.prems(2) False unfolding l1 v by auto
    have "[pos..<pos + n] = [pos..<pos + len] @ [pos + len..<pos + n]"
      using upt_add_eq_append [of pos "pos + len" "n - len"] s1(5) by simp
    then have "read_bytes inflate pos n s = (Inr (map (view s (q_l1 s)) [pos..<pos + n]), s2)"
      using False s1(1,4) s2(1) read_source_ok [OF s1(3) ok] by (simp add: read_bytes.simps [of _ _ n] qbind_def)
    then show ?thesis using s2(2,3) eqv_trans [OF s1(2)] by blast
  qed
qed

text \<open>A qcow2 image opened read-only and a raw image are backing images that read as their bytes.\<close>

lemma backing_of_ok:
  assumes "readable img (q_l1 img)" "q_size img \<le> U64_MAX"
  shows "backing_ok (backing_of inflate img)"
  unfolding backing_ok_def
proof (intro exI [of _ "view img (q_l1 img)"] allI impI)
  fix off n
  assume "off + n \<le> bi_size (backing_of inflate img)"
  then show "bi_read (backing_of inflate img) off n = Inr (map (view img (q_l1 img)) [off..<off + n])"
    using read_bytes_ok [OF assms(1) subset_refl, of inflate off n] assms(2) by (auto simp: backing_of_def Qcow2Image_read_at_def)
qed

lemma raw_backing_ok: "length f \<le> U64_MAX \<Longrightarrow> backing_ok (raw_backing (RawImage_open f ro))"
  unfolding backing_ok_def
  by (intro exI [of _ "\<lambda>p. f ! p"])
    (auto simp: raw_backing_def RawImage_open_def RawImage_read_at_def file_read_def intro!: nth_equalityI)

end
