(* ===== verification/Spec2Isabelle.thy ===== *)
theory Spec2Isabelle
  imports Dhcp_Lemmas Dns_Lemmas Switch_Lemmas Router_Lemmas Netservices_Lemmas Lab_Plan_Lemmas Qcow2_Snapshot Qcow2_View
begin

text \<open>
  A verification development for \<open>vmlab\<close>, which runs labs of virtual machines on a network fabric of its own.
  It covers the parts a lab's traffic and disks go through: the network fabric of a lab (\<open>src/net\<close>, with the
  services the lab daemon installs on it), the kernel programs that speed it up (\<open>ebpf\<close>), the planning of
  \<open>up\<close> and \<open>down\<close> (\<open>src/labd\<close>), and the disk images of its hypervisor (\<open>hv/crates/vmlab-disk\<close>).

  \<^bold>\<open>The program and how it is modelled.\<close> A guest's network card is a byte stream of framed packets. A task per
  port reads packets from it (\<open>Framing\<close>), completes their offloads (\<open>Vnet\<close>) and hands them to the switch of the
  segment (\<open>Switch\<close>), whose ingress hook applies the rules of the lab (\<open>Rules\<close>); streams between learned
  addresses are spliced in the kernel (\<open>Fastpath\<close>). One port of the switch is the gateway (\<open>Gateway\<close>): it
  answers DHCP (\<open>Dhcp\<close>), DNS (\<open>Dns\<close>) and ARP, routes to connected segments (\<open>Router\<close>), and passes the rest
  to a NAT engine in user space (\<open>Nat_Engine\<close>) that terminates the guest's TCP connections (\<open>Vtcp\<close>).
  \<open>Netservices\<close> puts these together as the lab daemon does. \<open>Lab_Plan\<close> orders the machines of a lab. A disk
  is a file in qcow2 format (\<open>Disk\<close>, \<open>Qcow2\<close> and the theories after it).

  One theory models one component, in the order of its source, with a function of the source's name per operation:
  a struct is a record, an enum a datatype, stateful code passes its state, and an operation that can fail returns
  a sum or an option with every error path as a branch. Its lemmas are in the theory with the suffix \<open>_Lemmas\<close>.

  \<^item> \<open>Prelude\<close>: machine words and their big-endian encodings, slices, hash maps, and two contracts that several
    components share: \<open>event_machine\<close> (an invariant that every event keeps holds of every run) and
    \<open>best_match\<close> (a scan that keeps the most specific rule).
  \<^item> \<open>Frame\<close> (\<open>src/net/frame.rs\<close>): views and builders of Ethernet, ARP, IPv4, UDP, TCP and ICMP. The views share
    the contract \<open>wire_view\<close>: what a parser accepts, its accessors can read. Builders and parsers are inverse,
    and every checksum verifies.
  \<^item> \<open>Ipnet\<close>: the interface of the third-party crate \<open>ipnet\<close> as a parameter; the locale \<open>ipv4net\<close> states its
    documented behaviour and \<open>cidr_net\<close> is an instance.
  \<^item> \<open>Rules\<close> (\<open>src/net/rules.rs\<close>): block and redirect rules. Redirects come before blocks, the most specific rule
    wins, a rewritten packet is valid, and a reply to a redirected packet comes from the address the guest dialled.
  \<^item> \<open>Dhcp\<close>, \<open>Dns\<close> (\<open>src/net/dhcp.rs\<close>, \<open>dns.rs\<close>): leases are unique and from the pool after any history, a
    discover is served while the pool has an address; names are looked up in the documented order, and only
    names the lab does not know leave it.
  \<^item> \<open>Vnet\<close>, \<open>Framing\<close> (\<open>hv/crates/vmlab-hv-proto/src/net.rs\<close>, \<open>src/net/framing.rs\<close>): segments of a large packet
    carry its payload in order with valid checksums; what is written to a stream is read back whatever the chunks.
    Streams are parameters with the contracts \<open>byte_source\<close> and \<open>byte_sink\<close>.
  \<^item> \<open>Switch\<close>, \<open>Fastpath\<close> (\<open>src/net/switch.rs\<close>, \<open>src/net/fastpath/sockmap.rs\<close>, \<open>ebpf/fastpath-logic\<close>,
    \<open>ebpf/fastpath-sockmap\<close>, \<open>ebpf/xdp-switch\<close>): isolation holds over any sequence of frames, a frame reaches
    exactly the ports it should, the kernel redirects whole frames only, and to where the switch would have
    sent them.
  \<^item> \<open>Gateway\<close>, \<open>Router\<close> (\<open>src/net/gateway.rs\<close>, \<open>router.rs\<close>): what waits for ARP is bounded and is released by the
    answer; packets cross only between connected segments, one hop on.
  \<^item> \<open>Vtcp\<close>, \<open>Nat_Engine\<close> (\<open>src/net/nat\<close>): the host receives a prefix of the guest's stream and the guest
    the host's bytes at their place, the window is respected, no panic and no stall; the host guard, ephemeral
    ports, UDP exchanges and active opens.
  \<^item> \<open>Netservices\<close> (\<open>src/labd/netservices.rs\<close>): the composition. An isolated segment spares the host, a segment
    without egress reaches services only, blocked traffic stops at the switch, redirected connections are
    transparent.
  \<^item> \<open>Lab_Plan\<close> (\<open>src/labd/plan.rs\<close>, \<open>stop_plan.rs\<close>): the waves of a plan respect every dependency, and there is no
    plan only when there is a cycle. Both orders instantiate the contract \<open>peeling\<close>.
  \<^item> \<open>Disk\<close>, \<open>Qcow2\<close>, \<open>Qcow2_Io\<close>, \<open>Qcow2_Image\<close>, \<open>Qcow2_Snapshot\<close> (\<open>hv/crates/vmlab-disk/src\<close>: \<open>lib.rs\<close>, \<open>raw.rs\<close>,
    \<open>qcow2/mod.rs\<close>, \<open>refcount.rs\<close>, \<open>snapshot.rs\<close>): raw images; caches, refcounts and allocator; guest reads,
    writes and discards, flush and growth; opening and creating; snapshots. \<open>Qcow2_Cache\<close> shows that the
    write-back caches are invisible (\<open>ov\<close> is a cluster seen through them, \<open>coh\<close> the invariant), and
    \<open>Qcow2_Alloc\<close> that the allocator hands out free clusters only.

  \<^bold>\<open>Bounds and fuel.\<close> The boundary walk of the kernel programs has the source's budget of 16 boundaries per
  buffer, after which it gives up as the source does. Loops whose recursion is not structural are functions with a
  termination proof. The refill loop of the free map gets one round more than the refcount table has entries, which
  \<open>refill_loop_ok\<close> shows to be enough. The allocator's mutual recursion carries fuel for its depth; with a free
  cluster in covered range two levels are enough (\<open>alloc_cluster_ok\<close>).

  \<^bold>\<open>Parameters.\<close> Third-party code is an argument: \<open>ipnet\<close>, byte streams, bounded channels, the results of socket
  calls and of \<open>ping\<close>, kernel map insertions, the deflate decoder, and the file system. So are clock readings and random
  numbers. Logging, metrics and message texts are left out.

  \<^bold>\<open>Not modelled.\<close> The processes around these components: the lab daemon's supervision of machines, containers
  and shares, the command line, the supervisor and the control protocol (process control and I/O around third-party
  runtimes); the configuration language and scripting (extraction from the syntax trees of third-party or vendored
  parsers); the virtual machine monitor, its devices and its binary translator (register-level code over
  guest memory and KVM, with generated instruction tables); guest agents (processes inside guests); recording, display
  and vision (codecs); templates and OCI (archives and HTTP); the AF\_XDP rings (memory shared with the kernel); the
  listeners of port forwards (sockets); and the whole-image operations of the disk tool (\<open>ops.rs\<close>). Interleavings inside one
  lock are not split: an operation under a lock is one step.
\<close>

end
